(* ===== verification/Prelude.thy ===== *)
theory Prelude
  imports
    Complex_Main
    "HOL-Library.Word"
    "HOL-Library.Char_ord"
    "HOL-Library.List_Lexorder"
    "HOL-Library.Multiset"
    "HOL-Library.AList"
    "HOL-Library.Log_Nat"
begin

text \<open>
  Shared vocabulary of the development: the part of the Go language and of its standard
  library that the modelled packages use, as executable HOL functions, with the generic
  lemmas the component theories rest on.

  \<^item> Strings are byte lists (\<^typ>\<open>string\<close>), as Go strings are byte sequences; \<open><\<close> on them is the
    bytewise lexicographic order of Go's \<open><\<close> and \<open>strings.Compare\<close>. Case mapping is exact on
    ASCII, which is all that DNS labels, tags, levels and module names contain; bytes from 0x80
    on are left alone.
  \<^item> A Go map is an association list with distinct keys. The order of the list is one iteration
    order; Go leaves that order open, so a property of a loop over a map is either
    independent of the order (and proved to be) or names the order.
  \<^item> A \<open>time.Time\<close> is the number of nanoseconds since Go's zero time, so the zero value is 0
    and \<open>IsZero\<close> is \<open>t = 0\<close>; \<open>Sub\<close> saturates at the range of \<open>time.Duration\<close> as Go's does.
  \<^item> \<open>sort.Slice\<close> is insertion sort by a comparator; the locales \<open>weak_order\<close> and \<open>keyed_order\<close> state what
    makes its result independent of the algorithm.
  \<^item> A \<open>float64\<close> is the rational number it denotes; \<open>fl\<close> rounds to the nearest 53-bit
    significand, ties to even.
\<close>

named_theorems go_defs "definitions of the standard-library vocabulary, for evaluation"
named_theorems gomap_simps "lookup, update and delete laws of Go maps"

section \<open>Strings\<close>

definition lower_byte :: "char \<Rightarrow> char" where
  "lower_byte c = (let n = (of_char c :: nat) in if 65 \<le> n \<and> n \<le> 90 then char_of (n + 32) else c)"

definition upper_byte :: "char \<Rightarrow> char" where
  "upper_byte c = (let n = (of_char c :: nat) in if 97 \<le> n \<and> n \<le> 122 then char_of (n - 32) else c)"

definition to_lower :: "string \<Rightarrow> string" where
  "to_lower s = map lower_byte s"

definition to_upper :: "string \<Rightarrow> string" where
  "to_upper s = map upper_byte s"

definition equal_fold :: "string \<Rightarrow> string \<Rightarrow> bool" where
  "equal_fold a b \<longleftrightarrow> to_lower a = to_lower b"

definition has_prefix :: "string \<Rightarrow> string \<Rightarrow> bool" where
  "has_prefix s p \<longleftrightarrow> take (length p) s = p"

definition has_suffix :: "string \<Rightarrow> string \<Rightarrow> bool" where
  "has_suffix s p \<longleftrightarrow> length p \<le> length s \<and> drop (length s - length p) s = p"

definition trim_suffix :: "string \<Rightarrow> string \<Rightarrow> string" where
  "trim_suffix s p = (if has_suffix s p then take (length s - length p) s else s)"

fun contains :: "string \<Rightarrow> string \<Rightarrow> bool" where
  "contains [] p \<longleftrightarrow> p = []"
| "contains (c # s) p \<longleftrightarrow> has_prefix (c # s) p \<or> contains s p"

text \<open>\<open>strings.Split\<close> on a one-byte separator, and \<open>strings.Join\<close>.\<close>

fun split_on :: "char \<Rightarrow> string \<Rightarrow> string list" where
  "split_on c [] = [[]]"
| "split_on c (x # xs) =
     (if x = c then [] # split_on c xs
      else case split_on c xs of [] \<Rightarrow> [[x]] | y # ys \<Rightarrow> (x # y) # ys)"

fun join :: "string \<Rightarrow> string list \<Rightarrow> string" where
  "join sep [] = []"
| "join sep [x] = x"
| "join sep (x # y # ys) = x @ sep @ join sep (y # ys)"

text \<open>The ASCII white space of \<open>strings.TrimSpace\<close>.\<close>

definition space_byte :: "char \<Rightarrow> bool" where
  "space_byte c = (let n = (of_char c :: nat) in n = 32 \<or> (9 \<le> n \<and> n \<le> 13))"

definition trim_space :: "string \<Rightarrow> string" where
  "trim_space s = rev (dropWhile space_byte (rev (dropWhile space_byte s)))"

text \<open>\<open>strconv.Itoa\<close>.\<close>

fun digits :: "nat \<Rightarrow> string" where
  "digits n = (if n < 10 then [char_of (48 + n)] else digits (n div 10) @ [char_of (48 + n mod 10)])"

declare digits.simps [simp del]

definition itoa :: "int \<Rightarrow> string" where
  "itoa i = (if i < 0 then CHR ''-'' # digits (nat (- i)) else digits (nat i))"

definition digit :: "char \<Rightarrow> int option" where
  "digit c = (let n = (of_char c :: nat) in if 48 \<le> n \<and> n \<le> 57 then Some (int n - 48) else None)"

fun number :: "int \<Rightarrow> string \<Rightarrow> int option" where
  "number acc [] = Some acc"
| "number acc (c # s) = (case digit c of None \<Rightarrow> None | Some d \<Rightarrow> number (10 * acc + d) s)"

text \<open>\<open>strconv.Atoi\<close> reads an optional sign and at least one digit; \<open>Atoi\<close> also refuses what does not fit an \<open>int\<close>.\<close>

definition atoi :: "string \<Rightarrow> int option" where
  "atoi s = (case s of
     [] \<Rightarrow> None
   | c # cs \<Rightarrow> if c = CHR ''-'' then (if cs = [] then None else map_option uminus (number 0 cs))
              else if c = CHR ''+'' then (if cs = [] then None else number 0 cs)
              else number 0 s)"

definition Atoi :: "string \<Rightarrow> int option" where
  "Atoi s = (case atoi s of None \<Rightarrow> None | Some n \<Rightarrow> if - (2 ^ 63) \<le> n \<and> n < 2 ^ 63 then Some n else None)"

lemmas string_defs [go_defs] =
  to_lower_def to_upper_def lower_byte_def upper_byte_def equal_fold_def has_prefix_def
  has_suffix_def trim_suffix_def trim_space_def space_byte_def itoa_def

lemma digit_char: "0 \<le> d \<Longrightarrow> d < 10 \<Longrightarrow> digit (char_of (48 + nat d)) = Some d"
  by (auto simp: digit_def Let_def of_char_of take_bit_nat_eq_self)

lemma digits_small: "n < 10 \<Longrightarrow> digits n = [char_of (48 + n)]"
  by (simp add: digits.simps)

lemma digits_step: "10 \<le> n \<Longrightarrow> digits n = digits (n div 10) @ [char_of (48 + n mod 10)]"
  by (subst digits.simps) simp

lemma number_append: "number acc (s @ t) = Option.bind (number acc s) (\<lambda>a. number a t)"
  by (induction s arbitrary: acc) (auto split: option.splits)

lemma number_digits: "number 0 (digits n) = Some (int n)"
proof (induction n rule: digits.induct)
  case (1 n)
  show ?case
  proof (cases "n < 10")
    case True
    then show ?thesis using digit_char[of "int n"] by (simp add: digits_small)
  next
    case False
    then have "number 0 (digits n) = number (int (n div 10)) [char_of (48 + n mod 10)]"
      using 1 by (simp add: digits_step number_append)
    also have "\<dots> = Some (int n)"
      using digit_char[of "int (n mod 10)"] by (simp del: of_nat_mod add: zdiv_int) (simp add: zmod_int)
    finally show ?thesis .
  qed
qed

lemma digits_chars: "c \<in> set (digits n) \<Longrightarrow> \<exists>d < 10. c = char_of (48 + d :: nat)"
proof (induction n rule: digits.induct)
  case (1 n)
  then show ?case
    by (cases "n < 10") (auto simp: digits_small digits_step intro: exI[of _ n] exI[of _ "n mod 10"])
qed

lemma digits_not_empty [simp]: "digits n \<noteq> []"
  by (subst digits.simps) simp

lemma digits_no_sign: "CHR ''-'' \<notin> set (digits n)" "CHR ''+'' \<notin> set (digits n)" "CHR ''.'' \<notin> set (digits n)"
proof -
  have "digit c \<noteq> None" if "c \<in> set (digits n)" for c
    using digits_chars[OF that] digit_char[of "int d" for d] by (metis nat_int of_nat_0_le_iff of_nat_less_numeral_iff option.distinct(1))
  moreover have "digit (CHR ''-'') = None" "digit (CHR ''+'') = None" "digit (CHR ''.'') = None"
    by (simp_all add: digit_def)
  ultimately show "CHR ''-'' \<notin> set (digits n)" "CHR ''+'' \<notin> set (digits n)" "CHR ''.'' \<notin> set (digits n)"
    by blast+
qed

lemma atoi_itoa: "atoi (itoa i) = Some i"
proof -
  obtain c cs where d: "digits (nat i) = c # cs" using digits_not_empty by (meson neq_Nil_conv)
  have "c \<noteq> CHR ''-''" "c \<noteq> CHR ''+''" using digits_no_sign(1,2)[of "nat i"] d by auto
  then show ?thesis using d number_digits[of "nat i"] number_digits[of "nat (- i)"]
    by (simp add: itoa_def atoi_def)
qed

lemma Atoi_itoa: "- (2 ^ 63) \<le> i \<Longrightarrow> i < 2 ^ 63 \<Longrightarrow> Atoi (itoa i) = Some i"
  by (simp add: Atoi_def atoi_itoa)

section \<open>Time\<close>

type_synonym gotime = int
type_synonym duration = int

definition max_duration :: int where "max_duration = 2 ^ 63 - 1"
definition min_duration :: int where "min_duration = - (2 ^ 63)"

definition time_sub :: "gotime \<Rightarrow> gotime \<Rightarrow> duration" where
  "time_sub a b = max min_duration (min max_duration (a - b))"

definition second :: duration where "second = 1000000000"

abbreviation (input) is_zero_time :: "gotime \<Rightarrow> bool" where
  "is_zero_time t \<equiv> t = 0"

section \<open>Integer division and 64-bit wrap-around\<close>

definition trunc_div :: "int \<Rightarrow> int \<Rightarrow> int" where
  "trunc_div a b = sgn a * sgn b * (\<bar>a\<bar> div \<bar>b\<bar>)"

definition wrap64 :: "int \<Rightarrow> int" where
  "wrap64 i = (i + 2 ^ 63) mod 2 ^ 64 - 2 ^ 63"

section \<open>Go maps\<close>

type_synonym ('k, 'v) gomap = "('k \<times> 'v) list"

definition gm_wf :: "('k, 'v) gomap \<Rightarrow> bool" where
  "gm_wf m \<longleftrightarrow> distinct (map fst m)"

definition gm_get :: "('k, 'v) gomap \<Rightarrow> 'k \<Rightarrow> 'v option" where
  "gm_get m k = map_of m k"

definition gm_set :: "'k \<Rightarrow> 'v \<Rightarrow> ('k, 'v) gomap \<Rightarrow> ('k, 'v) gomap" where
  "gm_set k v m = AList.update k v m"

definition gm_del :: "'k \<Rightarrow> ('k, 'v) gomap \<Rightarrow> ('k, 'v) gomap" where
  "gm_del k m = AList.delete k m"

text \<open>Removing, in a \<open>range\<close> loop over the map, every binding that satisfies a test.\<close>

definition gm_drop :: "('k \<Rightarrow> 'v \<Rightarrow> bool) \<Rightarrow> ('k, 'v) gomap \<Rightarrow> ('k, 'v) gomap" where
  "gm_drop P m = filter (\<lambda>(k, v). \<not> P k v) m"

text \<open>Replacing, in a \<open>range\<close> loop over the map, every value by a function of it.\<close>

definition gm_map :: "('k \<Rightarrow> 'v \<Rightarrow> 'v) \<Rightarrow> ('k, 'v) gomap \<Rightarrow> ('k, 'v) gomap" where
  "gm_map f m = map (\<lambda>(k, v). (k, f k v)) m"

definition gm_has :: "('k, 'v) gomap \<Rightarrow> 'k \<Rightarrow> bool" where
  "gm_has m k \<longleftrightarrow> gm_get m k \<noteq> None"

definition gm_get_or :: "'v \<Rightarrow> ('k, 'v) gomap \<Rightarrow> 'k \<Rightarrow> 'v" where
  "gm_get_or d m k = (case gm_get m k of None \<Rightarrow> d | Some v \<Rightarrow> v)"

lemmas gomap_defs [go_defs] =
  gm_get_def gm_set_def gm_del_def gm_drop_def gm_map_def gm_has_def gm_get_or_def

subsection \<open>The map interface\<close>

text \<open>
  What a client of a Go map relies on: lookup after insert and delete, and that every
  operation keeps the representation well formed.
\<close>

locale go_map =
  fixes get :: "'m \<Rightarrow> 'k \<Rightarrow> 'v option"
    and put :: "'k \<Rightarrow> 'v \<Rightarrow> 'm \<Rightarrow> 'm"
    and del :: "'k \<Rightarrow> 'm \<Rightarrow> 'm"
    and drop_if :: "('k \<Rightarrow> 'v \<Rightarrow> bool) \<Rightarrow> 'm \<Rightarrow> 'm"
    and wf :: "'m \<Rightarrow> bool"
  assumes get_put: "get (put k v m) k' = (if k' = k then Some v else get m k')"
    and get_del: "get (del k m) k' = (if k' = k then None else get m k')"
    and get_drop: "wf m \<Longrightarrow> get (drop_if P m) k =
          (case get m k of None \<Rightarrow> None | Some v \<Rightarrow> if P k v then None else Some v)"
    and wf_put: "wf m \<Longrightarrow> wf (put k v m)"
    and wf_del: "wf m \<Longrightarrow> wf (del k m)"
    and wf_drop: "wf m \<Longrightarrow> wf (drop_if P m)"
begin

lemma dom_put: "dom (get (put k v m)) = insert k (dom (get m))"
  by (auto simp: get_put dom_def)

lemma dom_del: "dom (get (del k m)) = dom (get m) - {k}"
  by (auto simp: get_del dom_def split: if_splits)

lemma put_put_same: "get (put k v (put k w m)) = get (put k v m)"
  by (rule ext) (simp add: get_put)

lemma del_put_same: "get (del k (put k v m)) = get (del k m)"
  by (rule ext) (simp add: get_put get_del)

lemma put_swap: "k \<noteq> k' \<Longrightarrow> get (put k v (put k' w m)) = get (put k' w (put k v m))"
  by (rule ext) (simp add: get_put)

lemma drop_keeps: "wf m \<Longrightarrow> get (drop_if P m) k = Some v \<longleftrightarrow> get m k = Some v \<and> \<not> P k v"
  by (auto simp: get_drop split: option.splits)

lemma drop_drop: "wf m \<Longrightarrow> get (drop_if P (drop_if P m)) = get (drop_if P m)"
  by (rule ext) (auto simp: get_drop wf_drop split: option.splits)

end

lemma map_of_filter_wf:
  "distinct (map fst m) \<Longrightarrow> map_of (filter (\<lambda>(k, v). \<not> P k v) m) k =
     (case map_of m k of None \<Rightarrow> None | Some v \<Rightarrow> if P k v then None else Some v)"
proof (induction m)
  case Nil
  then show ?case by simp
next
  case (Cons kv m)
  obtain a b where kv: "kv = (a, b)" by fastforce
  have none: "map_of m a = None" using Cons.prems kv by (simp add: map_of_eq_None_iff)
  show ?case using Cons none by (auto simp: kv)
qed

interpretation gm: go_map gm_get gm_set gm_del gm_drop gm_wf
proof
  show "gm_get (gm_set k v m) k' = (if k' = k then Some v else gm_get m k')"
    for k k' :: 'a and v :: 'b and m
    by (simp add: gm_get_def gm_set_def update_conv)
  show "gm_get (gm_del k m) k' = (if k' = k then None else gm_get m k')"
    for k k' :: 'a and m :: "('a, 'b) gomap"
    by (simp add: gm_get_def gm_del_def delete_conv)
  show "gm_wf m \<Longrightarrow> gm_get (gm_drop P m) k =
      (case gm_get m k of None \<Rightarrow> None | Some v \<Rightarrow> if P k v then None else Some v)"
    for P k and m :: "('a, 'b) gomap"
    by (simp add: gm_get_def gm_drop_def gm_wf_def map_of_filter_wf)
  show "gm_wf m \<Longrightarrow> gm_wf (gm_set k v m)" for k v and m :: "('a, 'b) gomap"
    by (simp add: gm_wf_def gm_set_def distinct_update)
  show "gm_wf m \<Longrightarrow> gm_wf (gm_del k m)" for k and m :: "('a, 'b) gomap"
    by (simp add: gm_wf_def gm_del_def distinct_delete)
  show "gm_wf m \<Longrightarrow> gm_wf (gm_drop P m)" for P and m :: "('a, 'b) gomap"
    by (simp add: gm_wf_def gm_drop_def distinct_map_filter)
qed

lemmas [gomap_simps] = gm.get_put gm.get_del gm.wf_put gm.wf_del gm.wf_drop
declare gm.wf_put [simp] gm.wf_del [simp] gm.wf_drop [simp]

lemma gm_wf_Nil [simp]: "gm_wf []"
  by (simp add: gm_wf_def)

lemma gm_get_Nil [simp]: "gm_get [] k = None"
  by (simp add: gm_get_def)

lemma gm_has_set [simp]: "gm_has (gm_set k v m) k' \<longleftrightarrow> k' = k \<or> gm_has m k'"
  by (simp add: gm_has_def gm.get_put)

lemma gm_wf_map [simp]: "gm_wf (gm_map f m) \<longleftrightarrow> gm_wf m"
  by (simp add: gm_wf_def gm_map_def case_prod_unfold comp_def)

lemma gm_get_map [simp]: "gm_get (gm_map f m) k = map_option (f k) (gm_get m k)"
  by (induction m) (auto simp: gm_get_def gm_map_def)

lemma gm_get_in: "gm_get m k = Some v \<Longrightarrow> (k, v) \<in> set m"
  by (simp add: gm_get_def map_of_SomeD)

lemma gm_in_get: "gm_wf m \<Longrightarrow> (k, v) \<in> set m \<Longrightarrow> gm_get m k = Some v"
  by (simp add: gm_get_def gm_wf_def)

lemma gm_get_iff: "gm_wf m \<Longrightarrow> gm_get m k = Some v \<longleftrightarrow> (k, v) \<in> set m"
  using gm_get_in gm_in_get by metis

lemma gm_has_iff: "gm_has m k \<longleftrightarrow> k \<in> fst ` set m"
  by (simp add: gm_has_def gm_get_def map_of_eq_None_iff)


lemma gm_fst_set: "fst ` set (gm_set k v m) = insert k (fst ` set m)"
  by (simp add: gm_set_def dom_update)

lemma gm_size_set: "length (gm_set k v m) = (if gm_has m k then length m else Suc (length m))"
  by (induction m) (auto simp: gm_set_def gm_has_def gm_get_def split: if_splits)

lemma gm_size_del_le: "length (gm_del k m) \<le> length m"
  by (simp add: gm_del_def AList.delete_eq)

lemma gm_size_drop_le: "length (gm_drop P m) \<le> length m"
  by (simp add: gm_drop_def)

lemma gm_size_del: "gm_wf m \<Longrightarrow> gm_has m k \<Longrightarrow> length (gm_del k m) = length m - 1"
proof (induction m)
  case Nil
  then show ?case by (simp add: gm_has_def)
next
  case (Cons kv m)
  obtain a b where kv: "kv = (a, b)" by fastforce
  show ?case
  proof (cases "a = k")
    case True
    then have "k \<notin> fst ` set m" using Cons.prems kv by (simp add: gm_wf_def)
    then have "AList.delete k m = m" by (simp add: AList.delete_eq filter_id_conv) force
    then show ?thesis using True kv by (simp add: gm_del_def)
  next
    case False
    then have "gm_wf m" "gm_has m k" using Cons.prems kv
      by (auto simp: gm_wf_def gm_has_def gm_get_def)
    then show ?thesis using Cons.IH False kv
      by (cases m) (auto simp: gm_del_def gm_has_def)
  qed
qed

section \<open>Facts on strings\<close>

lemma of_char_nat_less [simp]: "(of_char c :: nat) < 256"
  by (metis char_of_eq_iff nat_of_char_less_256)

lemma lower_lower [simp]: "lower_byte (lower_byte c) = lower_byte c"
  by (auto simp: lower_byte_def Let_def of_char_of take_bit_nat_eq_self)

lemma upper_upper [simp]: "upper_byte (upper_byte c) = upper_byte c"
  by (auto simp: upper_byte_def Let_def of_char_of take_bit_nat_eq_self)

lemma lower_upper [simp]: "lower_byte (upper_byte c) = lower_byte c"
proof -
  have "97 \<le> (of_char c :: nat) \<Longrightarrow> of_char c \<le> (122 :: nat) \<Longrightarrow>
      char_of (of_char c - 32 + 32 :: nat) = c" by simp
  then show ?thesis
    by (auto simp: lower_byte_def upper_byte_def Let_def of_char_of take_bit_nat_eq_self)
qed

lemma upper_lower [simp]: "upper_byte (lower_byte c) = upper_byte c"
proof -
  have "char_of ((of_char c :: nat) + 32 - 32) = c" by simp
  then show ?thesis
    by (auto simp: lower_byte_def upper_byte_def Let_def of_char_of take_bit_nat_eq_self)
qed

lemma to_lower_idem [simp]: "to_lower (to_lower s) = to_lower s"
  by (simp add: to_lower_def)

lemma to_upper_idem [simp]: "to_upper (to_upper s) = to_upper s"
  by (simp add: to_upper_def)

lemma to_upper_to_lower [simp]: "to_upper (to_lower s) = to_upper s"
  by (simp add: to_upper_def to_lower_def)

lemma to_lower_to_upper [simp]: "to_lower (to_upper s) = to_lower s"
  by (simp add: to_upper_def to_lower_def)

lemma to_upper_eq_iff: "to_upper a = to_upper b \<longleftrightarrow> to_lower a = to_lower b"
  by (metis to_lower_to_upper to_upper_to_lower)

lemma length_to_lower [simp]: "length (to_lower s) = length s"
  by (simp add: to_lower_def)

lemma length_to_upper [simp]: "length (to_upper s) = length s"
  by (simp add: to_upper_def)

lemma to_lower_Nil [simp]: "to_lower s = [] \<longleftrightarrow> s = []"
  by (simp add: to_lower_def)

lemma to_upper_append: "to_upper (a @ b) = to_upper a @ to_upper b"
  by (simp add: to_upper_def)

lemma split_on_not_Nil [simp]: "split_on c s \<noteq> []"
  by (induction s) (auto split: list.splits)

lemma join_Cons: "ys \<noteq> [] \<Longrightarrow> join sep (x # ys) = x @ sep @ join sep ys"
  by (cases ys) auto

lemma split_on_Cons_other:
  "x \<noteq> c \<Longrightarrow> split_on c (x # xs) = (x # hd (split_on c xs)) # tl (split_on c xs)"
  by (auto split: list.splits)

lemma join_split_on [simp]: "join [c] (split_on c s) = s"
proof (induction s)
  case Nil
  then show ?case by simp
next
  case (Cons x s)
  obtain y ys where y: "split_on c s = y # ys" by (meson neq_Nil_conv split_on_not_Nil)
  show ?case
  proof (cases "x = c")
    case True
    then show ?thesis using Cons.IH by (simp add: join_Cons)
  next
    case False
    then show ?thesis using Cons.IH y by (cases ys) auto
  qed
qed

lemma split_on_free [simp]: "c \<notin> set s \<Longrightarrow> split_on c s = [s]"
  by (induction s) auto

lemma split_on_append:
  "c \<notin> set x \<Longrightarrow> split_on c (x @ c # s) = x # split_on c s"
  by (induction x) auto

lemma split_on_middle: "split_on c (x @ c # s) = split_on c x @ split_on c s"
proof (induction x)
  case (Cons a x)
  then show ?case by (cases "split_on c x") auto
qed simp

lemma split_on_join:
  "ls \<noteq> [] \<Longrightarrow> \<forall>l\<in>set ls. c \<notin> set l \<Longrightarrow> split_on c (join [c] ls) = ls"
proof (induction ls)
  case Nil
  then show ?case by simp
next
  case (Cons l ls)
  show ?case
  proof (cases "ls = []")
    case True
    then show ?thesis using Cons.prems by simp
  next
    case False
    then show ?thesis using Cons by (simp add: join_Cons split_on_append)
  qed
qed

lemma split_on_sep_free: "l \<in> set (split_on c s) \<Longrightarrow> c \<notin> set l"
proof (induction s arbitrary: l)
  case Nil
  then show ?case by simp
next
  case (Cons x s)
  show ?case
  proof (cases "x = c")
    case True
    then show ?thesis using Cons by auto
  next
    case False
    then show ?thesis using Cons
      by (auto simp: split_on_Cons_other dest: list.set_sel(2)[OF split_on_not_Nil]
          simp del: split_on.simps(2))
  qed
qed

lemma set_split_on: "l \<in> set (split_on c s) \<Longrightarrow> set l \<subseteq> set s"
proof (induction s arbitrary: l)
  case Nil
  then show ?case by simp
next
  case (Cons x s)
  show ?case
  proof (cases "x = c")
    case True
    then show ?thesis using Cons by auto
  next
    case False
    from Cons.prems False consider "l = x # hd (split_on c s)" | "l \<in> set (tl (split_on c s))"
      by (auto simp: split_on_Cons_other simp del: split_on.simps(2))
    then show ?thesis
      by cases (use Cons.IH hd_in_set[OF split_on_not_Nil]
          list.set_sel(2)[OF split_on_not_Nil] in fastforce)+
  qed
qed

lemma has_suffix_iff: "has_suffix s p \<longleftrightarrow> (\<exists>t. s = t @ p)"
  by (auto simp: has_suffix_def) (metis append_take_drop_id)

lemma has_prefix_iff: "has_prefix s p \<longleftrightarrow> (\<exists>t. s = p @ t)"
  by (auto simp: has_prefix_def) (metis append_take_drop_id)

lemma contains_iff: "contains s p \<longleftrightarrow> (\<exists>a b. s = a @ p @ b)"
proof (induction s)
  case Nil
  then show ?case by auto
next
  case (Cons c s)
  have "(\<exists>a b. c # s = a @ p @ b) \<longleftrightarrow> (\<exists>b. c # s = p @ b) \<or> (\<exists>a b. s = a @ p @ b)"
    by (auto simp: Cons_eq_append_conv)
  then show ?case using Cons by (simp add: has_prefix_iff)
qed

section \<open>Sorting by a comparator\<close>

fun insert_by :: "('a \<Rightarrow> 'a \<Rightarrow> bool) \<Rightarrow> 'a \<Rightarrow> 'a list \<Rightarrow> 'a list" where
  "insert_by lt x [] = [x]"
| "insert_by lt x (y # ys) = (if lt y x then y # insert_by lt x ys else x # y # ys)"

definition sort_by :: "('a \<Rightarrow> 'a \<Rightarrow> bool) \<Rightarrow> 'a list \<Rightarrow> 'a list" where
  "sort_by lt xs = foldr (insert_by lt) xs []"

text \<open>
  The comparators of the sources compare one field, fall through to the next one where the
  field is equal, and end in a unique id.
\<close>

definition cmp_asc :: "('a \<Rightarrow> 'b::linorder) \<Rightarrow> ('a \<Rightarrow> 'a \<Rightarrow> bool) \<Rightarrow> 'a \<Rightarrow> 'a \<Rightarrow> bool" where
  "cmp_asc f rest a b = (if f a \<noteq> f b then f a < f b else rest a b)"

definition cmp_desc :: "('a \<Rightarrow> 'b::linorder) \<Rightarrow> ('a \<Rightarrow> 'a \<Rightarrow> bool) \<Rightarrow> 'a \<Rightarrow> 'a \<Rightarrow> bool" where
  "cmp_desc f rest a b = (if f a \<noteq> f b then f b < f a else rest a b)"

definition cmp_key :: "('a \<Rightarrow> 'b::linorder) \<Rightarrow> 'a \<Rightarrow> 'a \<Rightarrow> bool" where
  "cmp_key f a b \<longleftrightarrow> f a < f b"

definition cmp_key_desc :: "('a \<Rightarrow> 'b::linorder) \<Rightarrow> 'a \<Rightarrow> 'a \<Rightarrow> bool" where
  "cmp_key_desc f a b \<longleftrightarrow> f b < f a"

lemmas cmp_defs [go_defs] = cmp_asc_def cmp_desc_def cmp_key_def cmp_key_desc_def sort_by_def

lemma mset_insert_by [simp]: "mset (insert_by lt x xs) = add_mset x (mset xs)"
  by (induction xs) auto

lemma mset_sort_by [simp]: "mset (sort_by lt xs) = mset xs"
  by (induction xs) (auto simp: sort_by_def)

lemma set_sort_by [simp]: "set (sort_by lt xs) = set xs"
  by (metis mset_sort_by set_mset_mset)

lemma length_sort_by [simp]: "length (sort_by lt xs) = length xs"
  by (metis mset_sort_by size_mset)

text \<open>The contract of \<open>sort.Slice\<close>: the comparator is a strict weak order.\<close>

locale weak_order =
  fixes lt :: "'a \<Rightarrow> 'a \<Rightarrow> bool"
  assumes irrefl: "\<not> lt x x"
    and trans: "lt x y \<Longrightarrow> lt y z \<Longrightarrow> lt x z"
    and negtrans: "lt x z \<Longrightarrow> lt x y \<or> lt y z"
begin

lemma insert_by_sorted:
  "sorted_wrt (\<lambda>a b. \<not> lt b a) xs \<Longrightarrow> sorted_wrt (\<lambda>a b. \<not> lt b a) (insert_by lt x xs)"
proof (induction xs)
  case Nil
  then show ?case by simp
next
  case (Cons y ys)
  have ins: "set (insert_by lt x ys) = insert x (set ys)"
    by (metis mset_insert_by set_mset_add_mset_insert set_mset_mset)
  show ?case
  proof (cases "lt y x")
    case True
    then have "\<not> lt x y" using irrefl trans by blast
    then show ?thesis using Cons True by (simp add: ins)
  next
    case False
    have "\<not> lt z x" if "z \<in> set ys" for z
      using that Cons.prems False negtrans by auto
    then show ?thesis using Cons.prems False by simp
  qed
qed

lemma sort_by_sorted: "sorted_wrt (\<lambda>a b. \<not> lt b a) (sort_by lt xs)"
  by (induction xs) (auto simp: sort_by_def insert_by_sorted)

end

text \<open>
  A comparator that ends in a key: elements with different keys are never equivalent, so the
  sorted order of elements with distinct keys is unique, whatever the input order was.
\<close>

locale keyed_order = weak_order +
  fixes key :: "'a \<Rightarrow> 'k"
  assumes total: "key x \<noteq> key y \<Longrightarrow> lt x y \<or> lt y x"

lemma sorted_wrt_unique:
  "sorted_wrt R xs \<Longrightarrow> sorted_wrt R ys \<Longrightarrow> mset xs = mset ys \<Longrightarrow>
   (\<And>a b. a \<in> set xs \<Longrightarrow> b \<in> set xs \<Longrightarrow> R a b \<Longrightarrow> R b a \<Longrightarrow> a = b) \<Longrightarrow> xs = ys"
proof (induction xs arbitrary: ys)
  case Nil
  then show ?case by simp
next
  case (Cons x xs)
  then obtain y ys' where ys: "ys = y # ys'" by (metis list.exhaust mset_eq_length list.distinct(1) mset.simps(1) mset_zero_iff)
  have sets: "set (x # xs) = set ys" using Cons.prems(3) by (metis set_mset_mset)
  have "x = y"
  proof (rule ccontr)
    assume ne: "x \<noteq> y"
    then have "x \<in> set ys'" "y \<in> set xs" using sets ys by auto
    then have "R y x" "R x y" using Cons.prems(1,2) ys by auto
    then show False using Cons.prems(4)[of x y] ne \<open>y \<in> set xs\<close> by auto
  qed
  then show ?case using Cons ys by auto
qed

context keyed_order
begin

lemma sort_by_unique:
  assumes "mset xs = mset ys" "inj_on key (set xs)"
  shows "sort_by lt xs = sort_by lt ys"
proof (rule sorted_wrt_unique [OF sort_by_sorted sort_by_sorted])
  show "mset (sort_by lt xs) = mset (sort_by lt ys)" using assms by simp
  fix a b
  assume "a \<in> set (sort_by lt xs)" "b \<in> set (sort_by lt xs)" "\<not> lt b a" "\<not> lt a b"
  then have "key a = key b" using total by blast
  then show "a = b" using \<open>a \<in> _\<close> \<open>b \<in> _\<close> assms(2) by (auto dest: inj_onD)
qed

end

lemma weak_order_asc: "weak_order rest \<Longrightarrow> weak_order (cmp_asc f rest)"
  unfolding weak_order_def cmp_asc_def by (smt (verit) less_trans neqE not_less_iff_gr_or_eq)

lemma weak_order_desc: "weak_order rest \<Longrightarrow> weak_order (cmp_desc f rest)"
  unfolding weak_order_def cmp_desc_def by (smt (verit) less_trans neqE not_less_iff_gr_or_eq)

lemma keyed_order_asc: "keyed_order rest key \<Longrightarrow> keyed_order (cmp_asc f rest) key"
  unfolding keyed_order_def keyed_order_axioms_def
  by (metis cmp_asc_def neqE weak_order_asc)

lemma keyed_order_desc: "keyed_order rest key \<Longrightarrow> keyed_order (cmp_desc f rest) key"
  unfolding keyed_order_def keyed_order_axioms_def
  by (metis cmp_desc_def neqE weak_order_desc)

lemma keyed_order_key: "keyed_order (cmp_key f) f"
  by unfold_locales (auto simp: cmp_key_def)

lemma keyed_order_key_desc: "keyed_order (cmp_key_desc f) f"
  by unfold_locales (auto simp: cmp_key_desc_def)

interpretation key_cmp: keyed_order "cmp_key (f :: 'a \<Rightarrow> 'b::linorder)" f for f
  by (rule keyed_order_key)

lemmas keyed_orders = keyed_order_asc keyed_order_desc keyed_order_key keyed_order_key_desc

section \<open>Pages\<close>

text \<open>
  The page arithmetic shared by the list operations: \<open>offset\<close> is clamped at 0, \<open>limit\<close>
  defaults to 100, and the page is \<open>items[start:end]\<close>.
\<close>

definition page :: "int \<Rightarrow> int \<Rightarrow> 'a list \<Rightarrow> 'a list" where
  "page limit offset items =
     (let n = int (length items);
          lim = (if limit \<le> 0 then 100 else limit);
          start = min (max offset 0) n;
          stop = min (start + lim) n
      in take (nat (stop - start)) (drop (nat start) items))"

lemma page_size: "int (length (page limit offset items)) \<le> (if limit \<le> 0 then 100 else limit)"
proof -
  define n lim start where "n = int (length items)" and "lim = (if limit \<le> 0 then 100 else limit)"
    and "start = min (max offset 0) n"
  have "page limit offset items = take (nat (min (start + lim) n - start)) (drop (nat start) items)"
    by (simp add: page_def Let_def n_def lim_def start_def)
  then have "length (page limit offset items) \<le> nat (min (start + lim) n - start)" by simp
  moreover have "0 \<le> lim" "start \<le> n" by (simp_all add: lim_def start_def)
  ultimately show ?thesis by (simp add: lim_def)
qed

lemma set_page: "set (page limit offset items) \<subseteq> set items"
  by (auto simp: page_def Let_def dest!: in_set_takeD in_set_dropD)

section \<open>Binary floating point\<close>

definition exponent :: "rat \<Rightarrow> int" where
  "exponent x = (case quotient_of \<bar>x\<bar> of (n, d) \<Rightarrow>
     let k = bitlen n - bitlen d in if 2 powi k \<le> \<bar>x\<bar> then k else k - 1)"

definition round_frac :: "int \<Rightarrow> rat \<Rightarrow> int" where
  "round_frac f r = (if r < 1 / 2 then f else if 1 / 2 < r then f + 1 else if even f then f else f + 1)"

definition round_even :: "rat \<Rightarrow> int" where
  "round_even y = round_frac \<lfloor>y\<rfloor> (y - of_int \<lfloor>y\<rfloor>)"

definition round_to :: "rat \<Rightarrow> rat \<Rightarrow> rat" where
  "round_to u x = of_int (round_even (x / u)) * u"

definition fl :: "rat \<Rightarrow> rat" where
  "fl x = (if x = 0 then 0 else round_to (2 powi (exponent x - 52)) x)"

definition float_to_int :: "rat \<Rightarrow> int" where
  "float_to_int x = (if x < 0 then - \<lfloor>- x\<rfloor> else \<lfloor>x\<rfloor>)"

lemma fl_0 [simp]: "fl 0 = 0"
  by (simp add: fl_def)

lemma round_even_nonneg: "0 \<le> y \<Longrightarrow> 0 \<le> round_even y"
  by (auto simp: round_even_def round_frac_def)

lemma fl_nonneg: "0 \<le> x \<Longrightarrow> 0 \<le> fl x"
  by (simp add: fl_def round_to_def round_even_nonneg)

lemma float_to_int_0 [simp]: "float_to_int 0 = 0"
  by (simp add: float_to_int_def)

lemma two_powi_add: "(2::rat) powi (a + b) = 2 powi a * 2 powi b"
  by (simp add: power_int_add)

lemma int_bitlen_bounds:
  assumes "0 < n"
  shows "2 powi (bitlen n - 1) \<le> (of_int n :: rat)" "(of_int n :: rat) < 2 powi bitlen n"
proof -
  have b: "0 < bitlen n" "2 ^ nat (bitlen n - 1) \<le> n" "n < 2 ^ nat (bitlen n)"
    using assms bitlen_bounds[of n] bitlen_nonneg[of n] bitlen_eq_zero_iff[of n] by (auto simp: le_less)
  have "(of_int (2 ^ nat (bitlen n - 1)) :: rat) \<le> of_int n" "(of_int n :: rat) < of_int (2 ^ nat (bitlen n))"
    using b by (simp_all del: of_int_power)
  then show "2 powi (bitlen n - 1) \<le> (of_int n :: rat)" "(of_int n :: rat) < 2 powi bitlen n"
    using b(1) by (simp_all add: power_int_def)
qed

lemma exponent_le:
  assumes "0 < x"
  shows "2 powi exponent x \<le> x"
proof -
  obtain n d where q: "quotient_of x = (n, d)" by fastforce
  have d: "0 < d" and x: "x = of_int n / of_int d"
    using q quotient_of_denom_pos quotient_of_div by blast+
  have n: "0 < n" using assms x d by (simp add: zero_less_divide_iff)
  let ?k = "bitlen n - bitlen d"
  have "(2::rat) powi (?k - 1) * of_int d \<le> 2 powi (?k - 1) * 2 powi bitlen d"
    using int_bitlen_bounds(2)[OF d] by (intro mult_left_mono) auto
  also have "\<dots> = 2 powi (bitlen n - 1)" by (simp flip: two_powi_add)
  also have "\<dots> \<le> of_int n" by (rule int_bitlen_bounds(1)[OF n])
  finally have "2 powi (?k - 1) \<le> x"
    using d by (simp only: x pos_le_divide_eq of_int_0_less_iff)
  then show ?thesis using assms q by (simp add: exponent_def Let_def)
qed

lemma exponent_gt:
  assumes "0 < x"
  shows "x < 2 powi (exponent x + 1)"
proof -
  obtain n d where q: "quotient_of x = (n, d)" by fastforce
  have d: "0 < d" and x: "x = of_int n / of_int d"
    using q quotient_of_denom_pos quotient_of_div by blast+
  have n: "0 < n" using assms x d by (simp add: zero_less_divide_iff)
  let ?k = "bitlen n - bitlen d"
  have "(of_int n :: rat) < 2 powi bitlen n" by (rule int_bitlen_bounds(2)[OF n])
  also have "\<dots> = 2 powi (?k + 1) * 2 powi (bitlen d - 1)" by (simp flip: two_powi_add)
  also have "\<dots> \<le> 2 powi (?k + 1) * of_int d"
    using int_bitlen_bounds(1)[OF d] by (intro mult_left_mono) auto
  finally have "x < 2 powi (?k + 1)"
    using d by (simp only: x pos_divide_less_eq of_int_0_less_iff)
  then show ?thesis using assms q by (simp add: exponent_def Let_def)
qed

lemma exponent_eq:
  assumes "2 powi e \<le> x" "x < 2 powi (e + 1)"
  shows "exponent x = e"
proof -
  have x: "0 < x" using assms(1) by (rule less_le_trans[rotated]) simp
  have "(2::rat) powi exponent x < 2 powi (e + 1)" "(2::rat) powi e < 2 powi (exponent x + 1)"
    using exponent_le[OF x] exponent_gt[OF x] assms by linarith+
  then have "exponent x < e + 1" "e < exponent x + 1"
    using power_int_increasing[of _ _ "2::rat"] by (metis leD linorder_not_le one_le_numeral)+
  then show ?thesis by simp
qed

lemma round_even_eq:
  assumes "\<bar>y - of_int m\<bar> < (1 / 2 :: rat) \<or> \<bar>y - of_int m\<bar> = 1 / 2 \<and> even m"
  shows "round_even y = m"
proof -
  have f: "of_int \<lfloor>y\<rfloor> \<le> y" "y < of_int \<lfloor>y\<rfloor> + 1" by linarith+
  have "\<bar>y - of_int m\<bar> \<le> 1 / 2" using assms by auto
  then have "of_int \<lfloor>y\<rfloor> < (of_int (m + 1) :: rat)" "(of_int m :: rat) < of_int (\<lfloor>y\<rfloor> + 2)"
    using f unfolding of_int_add of_int_1 of_int_numeral by linarith+
  then have "\<lfloor>y\<rfloor> = m \<or> \<lfloor>y\<rfloor> = m - 1" by (simp only: of_int_less_iff) linarith
  then show ?thesis
  proof
    assume m: "\<lfloor>y\<rfloor> = m"
    then have "y - of_int m < 1 / 2 \<or> y - of_int m = 1 / 2 \<and> even m" using assms f by auto
    then show ?thesis by (auto simp: round_even_def round_frac_def m)
  next
    assume m: "\<lfloor>y\<rfloor> = m - 1"
    then have "y < of_int m" using f by simp
    then have "1 / 2 < y - of_int (m - 1) \<or> y - of_int (m - 1) = 1 / 2 \<and> even m" using assms by auto
    then show ?thesis by (auto simp: round_even_def round_frac_def m)
  qed
qed

text \<open>Evaluating one rounding: the binade and the nearest significand are checked, not searched for.\<close>

lemma fl_nearest:
  assumes "2 powi e \<le> x" "x < 2 powi (e + 1)"
    "\<bar>x * 2 powi (52 - e) - of_int m\<bar> < 1 / 2 \<or> \<bar>x * 2 powi (52 - e) - of_int m\<bar> = 1 / 2 \<and> even m"
  shows "fl x = of_int m * 2 powi (e - 52)"
proof -
  have "x \<noteq> 0" using assms(1) by (metis linorder_not_le zero_less_numeral zero_less_power_int)
  moreover have "x / 2 powi (e - 52) = x * 2 powi (52 - e)" by (simp add: power_int_diff)
  ultimately show ?thesis
    using exponent_eq[OF assms(1,2)] round_even_eq[OF assms(3)] by (simp add: fl_def round_to_def)
qed

text \<open>The relative error of one rounding.\<close>

definition unit_roundoff :: rat where "unit_roundoff = 1 / 2 ^ 53"

lemma round_even_dist: "\<bar>of_int (round_even y) - y\<bar> \<le> (1/2 :: rat)"
proof -
  have f: "of_int \<lfloor>y\<rfloor> \<le> y" "y < of_int \<lfloor>y\<rfloor> + 1" by linarith+
  then show ?thesis by (auto simp: round_even_def round_frac_def abs_le_iff)
qed

lemma fl_error:
  assumes "0 \<le> x"
  shows "x * (1 - unit_roundoff) \<le> fl x" "fl x \<le> x * (1 + unit_roundoff)"
proof -
  have "\<bar>fl x - x\<bar> \<le> x * unit_roundoff"
  proof (cases "x = 0")
    case False
    then have x: "0 < x" using assms by simp
    let ?u = "2 powi (exponent x - 52) :: rat"
    have u: "0 < ?u" by simp
    have "\<bar>fl x - x\<bar> = \<bar>(of_int (round_even (x / ?u)) - x / ?u) * ?u\<bar>"
      using x u by (simp add: fl_def round_to_def left_diff_distrib)
    also have "\<dots> \<le> 1 / 2 * ?u"
      using round_even_dist[of "x / ?u"] u by (simp only: abs_mult abs_of_pos mult_right_mono)
    also have "\<dots> = 2 powi exponent x * unit_roundoff"
      by (simp add: power_int_diff unit_roundoff_def)
    also have "\<dots> \<le> x * unit_roundoff" using exponent_le[OF x] by (intro mult_right_mono) (auto simp: unit_roundoff_def)
    finally show ?thesis .
  qed simp
  then show "x * (1 - unit_roundoff) \<le> fl x" "fl x \<le> x * (1 + unit_roundoff)" by (auto simp: algebra_simps abs_le_iff)
qed

lemma fl_of_int:
  assumes "0 \<le> n" "n < 2 ^ 53"
  shows "fl (of_int n) = of_int n"
proof (cases "n = 0")
  case False
  then have n: "(0::rat) < of_int n" using assms by simp
  let ?e = "exponent (of_int n :: rat)"
  have "(of_int n :: rat) < of_int (2 ^ 53)" using assms(2) by (simp only: of_int_less_iff)
  then have "(2::rat) powi ?e < 2 powi 53" using le_less_trans[OF exponent_le[OF n]] by simp
  then have e: "?e \<le> 52" using power_int_increasing[of 53 ?e "2::rat"] by force
  define k where "k = nat (52 - ?e)"
  have u: "(2::rat) powi (?e - 52) = 1 / 2 ^ k"
    using e by (simp add: k_def power_int_def divide_simps)
  have "(of_int n :: rat) / (1 / 2 ^ k) = of_int (n * 2 ^ k)" by simp
  then have "round_even (of_int n / (1 / 2 ^ k)) = n * 2 ^ k"
    by (simp only: round_even_def round_frac_def floor_of_int) simp
  then show ?thesis using False by (simp add: fl_def u round_to_def)
qed simp

lemma fl_1 [simp]: "fl 1 = 1"
  using fl_of_int[of 1] by simp

lemmas fl_numeral [simp] = fl_of_int[of "numeral k" for k, simplified]

end
