(* ===== verification/DNSName.thy ===== *)
theory DNSName
  imports Prelude "HOL-Library.Sublist"
begin

text \<open>
  The package \<open>engine/dnsname\<close>: DNS names as label lists (\<open>name.go\<close>) and the escaping of
  octets for display (\<open>escape.go\<close>).

  A \<open>Name\<close> is a record of its labels and the cached presentation form. \<open>wf_name\<close> is the
  invariant of the names the constructors build; the lemmas show that parsing and printing are
  inverse on it, that \<open>Common\<close> is the length of the longest case-insensitive common label
  suffix, so that \<open>IsInBailiwick\<close> is the suffix order on label lists, and that \<open>Escape\<close> equals
  its one-byte-at-a-time reference.
\<close>

section \<open>Definitions\<close>

record name =
  labels :: "string list"
  cached :: "string option"

fun drop_trailing_empty :: "string list \<Rightarrow> string list" where
  "drop_trailing_empty [] = []"
| "drop_trailing_empty (p # ps) =
     (let r = drop_trailing_empty ps in if r = [] \<and> p = [] then [] else p # r)"

definition splitDomain :: "string \<Rightarrow> string list" where
  "splitDomain domain = drop_trailing_empty (split_on CHR ''.'' domain)"

definition trimTrailingDot :: "string \<Rightarrow> string" where
  "trimTrailingDot v = (if has_suffix v ''.'' \<and> length v > 1 then trim_suffix v ''.'' else v)"

definition reverseCopy :: "string list \<Rightarrow> string list" where
  "reverseCopy xs = map (\<lambda>i. xs ! (length xs - 1 - i)) [0..<length xs]"

definition FromString :: "string \<Rightarrow> name" where
  "FromString domain =
     (if domain = [] then \<lparr>labels = [], cached = Some []\<rparr>
      else let ls = splitDomain domain;
               cache = (if has_suffix domain ''.'' \<and> length domain > 1
                        then trim_suffix domain ''.'' else domain)
           in \<lparr>labels = ls, cached = Some cache\<rparr>)"

definition NewName :: "string \<Rightarrow> name" where
  "NewName domain =
     (if domain = [] then \<lparr>labels = [], cached = None\<rparr>
      else \<lparr>labels = splitDomain domain, cached = None\<rparr>)"

definition NewFromLabels :: "string list \<Rightarrow> name" where
  "NewFromLabels ls = \<lparr>labels = ls, cached = None\<rparr>"

definition name_Labels :: "name \<Rightarrow> string list" where
  "name_Labels n = labels n"

definition name_String :: "name \<Rightarrow> string" where
  "name_String n = (case cached n of Some c \<Rightarrow> c
     | None \<Rightarrow> let joined = join ''.'' (labels n) in if joined = [] then ''.'' else joined)"

definition name_FQDN :: "name \<Rightarrow> string" where
  "name_FQDN n = (if labels n = [] then ''.'' else join ''.'' (labels n) @ ''.'')"

definition strings_Compare :: "string \<Rightarrow> string \<Rightarrow> int" where
  "strings_Compare a b = (if a = b then 0 else if a < b then -1 else 1)"

definition name_Compare :: "name \<Rightarrow> name \<Rightarrow> int" where
  "name_Compare n other = strings_Compare (to_upper (name_String n)) (to_upper (name_String other))"

definition name_CompareString :: "name \<Rightarrow> string \<Rightarrow> int" where
  "name_CompareString n other =
     strings_Compare (to_upper (name_String n)) (to_upper (trimTrailingDot other))"

definition name_NextHigher :: "name \<Rightarrow> name option" where
  "name_NextHigher n =
     (case labels n of [] \<Rightarrow> None | _ # ls \<Rightarrow> Some \<lparr>labels = ls, cached = None\<rparr>)"

fun common_loop :: "string list \<Rightarrow> string list \<Rightarrow> nat \<Rightarrow> nat" where
  "common_loop (m # me) (t # them) cnt =
     (if to_upper m \<noteq> to_upper t then cnt else common_loop me them (Suc cnt))"
| "common_loop _ _ cnt = cnt"

definition name_Common :: "name \<Rightarrow> name \<Rightarrow> nat" where
  "name_Common n other = common_loop (reverseCopy (labels n)) (reverseCopy (labels other)) 0"

definition name_IsInBailiwick :: "name \<Rightarrow> name \<Rightarrow> bool" where
  "name_IsInBailiwick n other \<longleftrightarrow> length (labels n) = name_Common n other"

definition name_Prepend :: "name \<Rightarrow> string \<Rightarrow> name" where
  "name_Prepend n label = \<lparr>labels = label # labels n, cached = None\<rparr>"

definition name_StringLower :: "name \<Rightarrow> string" where
  "name_StringLower n = to_lower (name_String n)"

definition name_StringUpper :: "name \<Rightarrow> string" where
  "name_StringUpper n = to_upper (name_String n)"

subsection \<open>Escaping\<close>

definition printable :: "char \<Rightarrow> bool" where
  "printable c = (let n = (of_char c :: nat) in 32 < n \<and> n < 127)"

definition writeDecimal :: "char \<Rightarrow> string" where
  "writeDecimal c = (let n = (of_char c :: nat) in
     [CHR 0x5C, char_of (48 + n div 100), char_of (48 + n div 10 mod 10), char_of (48 + n mod 10)])"

fun escape_loop :: "string \<Rightarrow> string" where
  "escape_loop [] = []"
| "escape_loop (c # s) = (if \<not> printable c then writeDecimal c else [c]) @ escape_loop s"

definition Escape :: "string \<Rightarrow> string" where
  "Escape s = (let i = length (takeWhile printable s) in
     if i = length s then s else take i s @ escape_loop (drop i s))"

subsection \<open>The invariant of built names\<close>

definition wf_labels :: "string list \<Rightarrow> bool" where
  "wf_labels ls \<longleftrightarrow> (\<forall>l\<in>set ls. CHR ''.'' \<notin> set l) \<and> (ls \<noteq> [] \<longrightarrow> last ls \<noteq> [])"

definition wf_name :: "name \<Rightarrow> bool" where
  "wf_name n \<longleftrightarrow> wf_labels (labels n)"

fun ancestors :: "string list \<Rightarrow> string list list" where
  "ancestors [] = [[]]"
| "ancestors (l # ls) = (l # ls) # ancestors ls"

section \<open>Lemmas\<close>

lemma drop_trailing_empty_append:
  "drop_trailing_empty (xs @ [[]]) = drop_trailing_empty xs"
  by (induction xs) (auto simp: Let_def)

lemma drop_trailing_empty_id: "xs \<noteq> [] \<Longrightarrow> last xs \<noteq> [] \<Longrightarrow> drop_trailing_empty xs = xs"
  by (induction xs) (auto simp: Let_def split: if_splits)

lemma drop_trailing_empty_last:
  "drop_trailing_empty xs \<noteq> [] \<Longrightarrow> last (drop_trailing_empty xs) \<noteq> []"
  by (induction xs) (auto simp: Let_def)

lemma drop_trailing_empty_subset: "set (drop_trailing_empty xs) \<subseteq> set xs"
  by (induction xs) (auto simp: Let_def)

lemma drop_trailing_empty_prefix:
  "\<exists>k. xs = drop_trailing_empty xs @ replicate k []"
proof (induction xs)
  case Nil
  then show ?case by (intro exI[of _ 0]) simp
next
  case (Cons x xs)
  then obtain k where k: "xs = drop_trailing_empty xs @ replicate k []" by blast
  show ?case
  proof (cases "drop_trailing_empty xs = [] \<and> x = []")
    case True
    then show ?thesis using k by (intro exI[of _ "Suc k"]) simp
  next
    case False
    then show ?thesis using k by (intro exI[of _ k]) (auto simp: Let_def)
  qed
qed

lemma wf_splitDomain: "wf_labels (splitDomain s)"
  using drop_trailing_empty_subset[of "split_on CHR ''.'' s"]
  by (auto simp: wf_labels_def splitDomain_def drop_trailing_empty_last dest: split_on_sep_free)

lemma splitDomain_join:
  assumes "wf_labels ls" "ls \<noteq> []"
  shows "splitDomain (join ''.'' ls) = ls"
  using assms by (simp add: splitDomain_def wf_labels_def split_on_join drop_trailing_empty_id)

lemma join_snoc_empty: "ls \<noteq> [] \<Longrightarrow> join sep (ls @ [[]]) = join sep ls @ sep"
proof (induction ls)
  case Nil
  then show ?case by simp
next
  case (Cons a ls)
  then show ?case by (cases "ls = []") (simp_all add: join_Cons)
qed

lemma splitDomain_join_dot:
  assumes "wf_labels ls" "ls \<noteq> []"
  shows "splitDomain (join ''.'' ls @ ''.'') = ls"
proof -
  have "split_on CHR ''.'' (join ''.'' (ls @ [[]])) = ls @ [[]]"
    using assms by (intro split_on_join) (auto simp: wf_labels_def)
  then show ?thesis using assms
    by (simp add: splitDomain_def wf_labels_def join_snoc_empty drop_trailing_empty_append
        drop_trailing_empty_id)
qed

lemma join_dot_not_Nil: "wf_labels ls \<Longrightarrow> ls \<noteq> [] \<Longrightarrow> join ''.'' ls \<noteq> []"
  by (cases ls; cases "tl ls") (auto simp: wf_labels_def)

lemma reverseCopy_rev [simp]: "reverseCopy xs = rev xs"
  by (rule nth_equalityI) (auto simp: reverseCopy_def rev_nth)

lemma labels_FromString: "labels (FromString s) = labels (NewName s)"
  by (simp add: FromString_def NewName_def Let_def)

lemma name_String_FromString: "name_String (FromString s) = trimTrailingDot s"
  by (auto simp: FromString_def name_String_def Let_def trimTrailingDot_def has_suffix_def)

subsection \<open>Common suffixes\<close>

text \<open>The reference: the number of leading labels two lists share, compared as upper case.\<close>

definition lcp_len :: "string list \<Rightarrow> string list \<Rightarrow> nat" where
  "lcp_len xs ys = length (longest_common_prefix (map to_upper xs) (map to_upper ys))"

lemma common_loop_lcp: "common_loop xs ys c = c + lcp_len xs ys"
  by (induction xs ys c rule: common_loop.induct) (auto simp: lcp_len_def)

lemma name_Common_lcp: "name_Common n m = lcp_len (rev (labels n)) (rev (labels m))"
  by (simp add: name_Common_def common_loop_lcp)

lemma lcp_len_full: "length xs = lcp_len xs ys \<longleftrightarrow> prefix (map to_upper xs) (map to_upper ys)"
proof -
  let ?l = "longest_common_prefix (map to_upper xs) (map to_upper ys)"
  have p: "prefix ?l (map to_upper xs)" by (rule longest_common_prefix_prefix1)
  show ?thesis
  proof
    assume "length xs = lcp_len xs ys"
    then have "length ?l = length (map to_upper xs)" by (simp add: lcp_len_def)
    then have "?l = map to_upper xs" using p
      by (metis append_eq_append_conv append_Nil2 prefixE)
    then show "prefix (map to_upper xs) (map to_upper ys)"
      by (metis longest_common_prefix_prefix2)
  next
    assume "prefix (map to_upper xs) (map to_upper ys)"
    then have "prefix (map to_upper xs) ?l" by (intro longest_common_prefix_max_prefix) auto
    then have "?l = map to_upper xs" using p by (simp add: prefix_order.antisym)
    then show "length xs = lcp_len xs ys" by (simp add: lcp_len_def)
  qed
qed

lemma name_IsInBailiwick_suffix:
  "name_IsInBailiwick n m \<longleftrightarrow> suffix (map to_upper (labels n)) (map to_upper (labels m))"
  using lcp_len_full[of "rev (labels n)" "rev (labels m)"]
  by (simp add: name_IsInBailiwick_def name_Common_lcp suffix_to_prefix rev_map)

lemma ancestors_suffix: "set (ancestors ls) = {xs. suffix xs ls}"
  by (induction ls) (auto simp: suffix_Cons)

subsection \<open>Escaping\<close>

lemma escape_loop_printable: "\<forall>c\<in>set s. printable c \<Longrightarrow> escape_loop s = s"
  by (induction s) auto

lemma escape_loop_append: "escape_loop (s @ t) = escape_loop s @ escape_loop t"
  by (induction s) auto

lemma Escape_escape_loop: "Escape s = escape_loop s"
proof -
  let ?i = "length (takeWhile printable s)"
  have t: "take ?i s = takeWhile printable s" by (metis takeWhile_eq_take)
  have "escape_loop (take ?i s) = take ?i s"
    unfolding t by (rule escape_loop_printable) (auto dest: set_takeWhileD)
  then have "escape_loop (take ?i s @ drop ?i s) = take ?i s @ escape_loop (drop ?i s)"
    by (simp only: escape_loop_append)
  then have "escape_loop s = take ?i s @ escape_loop (drop ?i s)" by simp
  then show ?thesis by (auto simp: Escape_def Let_def)
qed

lemma printable_writeDecimal: "c \<in> set (writeDecimal d) \<Longrightarrow> printable c"
proof -
  have "(of_char d :: nat) < 256" by simp
  then have "(of_char d :: nat) div 100 < 10" by linarith
  then show "c \<in> set (writeDecimal d) \<Longrightarrow> printable c"
    by (auto simp: writeDecimal_def Let_def printable_def of_char_of take_bit_nat_eq_self)
qed

lemma escape_loop_output: "c \<in> set (escape_loop s) \<Longrightarrow> printable c"
  by (induction s) (auto split: if_splits dest: printable_writeDecimal)

section \<open>Properties\<close>

text \<open>
  Parsing a printed name gives the name back: for every name whose labels hold no dot and
  whose last label is not empty (the names \<open>New\<close> builds), \<open>New(n.FQDN())\<close> and, when the name
  carries no cached text, \<open>New(n.String())\<close> have exactly the labels of \<open>n\<close>.
\<close>

theorem name_roundtrip:
  assumes "wf_name n"
  shows "labels (NewName (name_FQDN n)) = labels n \<and>
    (cached n = None \<longrightarrow> labels (NewName (name_String n)) = labels n)"
proof -
  have root: "splitDomain ''.'' = []" by (simp add: splitDomain_def)
  have "labels (NewName (name_FQDN n)) = labels n"
    using assms splitDomain_join_dot[of "labels n"] root
    by (auto simp: wf_name_def NewName_def name_FQDN_def)
  moreover have "cached n = None \<Longrightarrow> labels (NewName (name_String n)) = labels n"
    using assms splitDomain_join[of "labels n"] join_dot_not_Nil[of "labels n"] root
    by (cases "labels n = []") (auto simp: wf_name_def NewName_def name_String_def Let_def)
  ultimately show ?thesis by blast
qed

theorem name_roundtrip_witness:
  "labels (NewName (name_FQDN (NewName ''www.Example.org''))) = [''www'', ''Example'', ''org''] \<and>
   labels (NewName (name_String (NewName ''www.Example.org''))) = [''www'', ''Example'', ''org'']"
proof -
  have w: "wf_name (NewName ''www.Example.org'')"
    by (simp add: wf_name_def NewName_def wf_splitDomain)
  have c: "cached (NewName ''www.Example.org'') = None" by (simp add: NewName_def)
  have l: "labels (NewName ''www.Example.org'') = [''www'', ''Example'', ''org'']"
    by (simp add: NewName_def splitDomain_def)
  show ?thesis using name_roundtrip[OF w] c l by simp
qed

text \<open>
  Every name the package builds from a string satisfies the name invariant, and going to the
  parent keeps it; the parent has one label less, so walking up reaches the root after as many
  steps as there are labels and visits exactly the label suffixes.
\<close>

theorem name_invariant:
  "wf_name (NewName s) \<and> wf_name (FromString s) \<and>
   (wf_name n \<longrightarrow> (case name_NextHigher n of None \<Rightarrow> labels n = []
      | Some p \<Rightarrow> wf_name p \<and> Suc (length (labels p)) = length (labels n) \<and>
                 ancestors (labels n) = labels n # ancestors (labels p)))"
  by (auto simp: wf_name_def labels_FromString NewName_def wf_splitDomain name_NextHigher_def
      split: list.splits) (auto simp: wf_labels_def)

theorem name_invariant_witness:
  "wf_name (NewName ''a.b'') \<and> ancestors (labels (NewName ''a.b'')) =
     labels (NewName ''a.b'') # ancestors [''b'']"
  using name_invariant[of "''a.b''" "NewName ''a.b''"]
  by (simp add: name_NextHigher_def NewName_def splitDomain_def)

text \<open>
  \<open>IsInBailiwick\<close> is the case-insensitive suffix order on label lists: it holds exactly when
  the zone's labels are a suffix of the other name's labels, so it is reflexive and transitive,
  every ancestor of a name contains it, and two names contain each other only when they are
  equal up to case.
\<close>

theorem bailiwick_order:
  "(name_IsInBailiwick n m \<longleftrightarrow> suffix (map to_upper (labels n)) (map to_upper (labels m))) \<and>
   name_IsInBailiwick n n \<and>
   (name_IsInBailiwick a b \<and> name_IsInBailiwick b c \<longrightarrow> name_IsInBailiwick a c) \<and>
   (name_IsInBailiwick a b \<and> name_IsInBailiwick b a \<longrightarrow>
      map to_upper (labels a) = map to_upper (labels b)) \<and>
   (\<forall>ls\<in>set (ancestors (labels n)). name_IsInBailiwick (NewFromLabels ls) n)"
  by (auto simp: name_IsInBailiwick_suffix ancestors_suffix NewFromLabels_def
      intro: suffix_order.trans suffix_order.antisym) (auto simp: suffix_def)

theorem bailiwick_order_witness:
  "name_IsInBailiwick (NewName ''Example.org'') (NewName ''www.example.ORG'') \<and>
   name_IsInBailiwick (NewName ''org'') (NewName ''www.example.ORG'')"
proof -
  have ab: "name_IsInBailiwick (NewName ''Example.org'') (NewName ''www.example.ORG'')"
    by code_simp
  have a: "name_IsInBailiwick (NewName ''org'') (NewName ''Example.org'')"
    by code_simp
  show ?thesis using ab a bailiwick_order[of _ _ "NewName ''org''" "NewName ''Example.org''" "NewName ''www.example.ORG''"]
    by blast
qed

text \<open>
  \<open>FromString\<close> and \<open>New\<close> parse the same labels but print differently: \<open>FromString\<close> prints its
  input less one trailing dot, so the empty string prints as the empty string where \<open>New\<close>
  prints the root dot, and the two root names compare as different.
\<close>

theorem from_string_vs_new:
  "labels (FromString s) = labels (NewName s) \<and>
   name_String (FromString s) = trimTrailingDot s \<and>
   name_String (FromString []) = [] \<and> name_String (NewName []) = ''.'' \<and>
   name_Compare (FromString []) (NewName []) \<noteq> 0"
  by (simp add: labels_FromString name_String_FromString)
    (simp add: FromString_def NewName_def name_String_def name_Compare_def strings_Compare_def
      to_upper_def trimTrailingDot_def)

text \<open>
  \<open>Escape\<close>, with its fast path for clean input, equals escaping byte by byte; its output holds
  only the octets 0x21 to 0x7E, it changes nothing exactly when the input is already clean, and
  escaping twice is escaping once.
\<close>

theorem escape_correct:
  "Escape s = concat (map (\<lambda>c. if printable c then [c] else writeDecimal c) s) \<and>
   list_all printable (Escape s) \<and>
   (Escape s = s \<longleftrightarrow> list_all printable s) \<and>
   Escape (Escape s) = Escape s"
proof -
  have "Escape s = concat (map (\<lambda>c. if printable c then [c] else writeDecimal c) s)"
    unfolding Escape_escape_loop by (induction s) auto
  moreover have out: "\<forall>c\<in>set (Escape s). printable c"
    by (auto simp: Escape_escape_loop dest: escape_loop_output)
  moreover have "Escape s = s \<longleftrightarrow> (\<forall>c\<in>set s. printable c)"
  proof
    assume "Escape s = s"
    then show "\<forall>c\<in>set s. printable c" using out by simp
  next
    assume "\<forall>c\<in>set s. printable c"
    then show "Escape s = s" by (simp add: Escape_escape_loop escape_loop_printable)
  qed
  moreover have "Escape (Escape s) = Escape s"
    using out unfolding Escape_escape_loop by (rule escape_loop_printable)
  ultimately show ?thesis unfolding list_all_iff by blast
qed

end
