(* ===== verification/JobQueue.thy ===== *)
theory JobQueue
  imports Prelude
begin

text \<open>
  The in-memory job queue of the server (\<open>server/queue.go\<close>): two FIFO tiers behind one mutex,
  with a buffered \<open>notify\<close> channel that wakes blocked consumers.

  Every operation that holds the mutex from entry to return is one function on the queue record.
  \<open>Dequeue\<close> releases the mutex while it blocks, so it is a function for its locked section
  (\<open>dequeue_attempt\<close>) and, in the last part, a step relation over the queue and any number of
  consumers, in which consumers, producers and cancellations interleave freely.
\<close>

section \<open>The queue and its operations\<close>

definition PriorityNormal :: int where "PriorityNormal = 0"
definition PriorityBatch :: int where "PriorityBatch = 1"

record inmem_queue =
  normal :: "string list"
  batch :: "string list"
  paused :: bool
  closed :: bool
  waiters :: int
  notify :: nat

definition notify_cap :: nat where "notify_cap = 1024"

datatype queue_error =
    QueueClosed
  | JobIDRequired
  | JobIDNotInQueue
  | LengthMismatch
  | NormalAfterBatch

definition NewInMemoryQueue :: inmem_queue where
  "NewInMemoryQueue =
     \<lparr>normal = [], batch = [], paused = False, closed = False, waiters = 0, notify = 0\<rparr>"

definition signalOneLocked :: "inmem_queue \<Rightarrow> inmem_queue" where
  "signalOneLocked q =
     (if waiters q < 1 then q
      else if notify q < notify_cap then q\<lparr>notify := Suc (notify q)\<rparr> else q)"

fun signal_loop :: "nat \<Rightarrow> inmem_queue \<Rightarrow> inmem_queue" where
  "signal_loop 0 q = q"
| "signal_loop (Suc n) q =
     (if notify q < notify_cap then signal_loop n (q\<lparr>notify := Suc (notify q)\<rparr>) else q)"

definition signalAvailableLocked :: "inmem_queue \<Rightarrow> inmem_queue" where
  "signalAvailableLocked q =
     (let total = int (length (normal q)) + int (length (batch q)) in
      if waiters q < 1 \<or> total < 1 then q
      else signal_loop (nat (min (waiters q) total)) q)"

definition Enqueue :: "string \<Rightarrow> int \<Rightarrow> inmem_queue \<Rightarrow> queue_error + inmem_queue" where
  "Enqueue jobID priority q =
     (if closed q then Inl QueueClosed
      else let q' = (if priority = PriorityBatch then q\<lparr>batch := batch q @ [jobID]\<rparr>
                     else q\<lparr>normal := normal q @ [jobID]\<rparr>)
           in Inr (if \<not> paused q' then signalOneLocked q' else q'))"

datatype attempt = AttemptClosed | AttemptJob string | AttemptWait

text \<open>One turn of the \<open>Dequeue\<close> loop up to the \<open>select\<close>: all of it runs under the mutex.\<close>

definition dequeue_attempt :: "inmem_queue \<Rightarrow> attempt \<times> inmem_queue" where
  "dequeue_attempt q =
     (if closed q then (AttemptClosed, q)
      else if \<not> paused q \<and> normal q \<noteq> [] then
        (AttemptJob (hd (normal q)), q\<lparr>normal := tl (normal q)\<rparr>)
      else if \<not> paused q \<and> batch q \<noteq> [] then
        (AttemptJob (hd (batch q)), q\<lparr>batch := tl (batch q)\<rparr>)
      else (AttemptWait, q\<lparr>waiters := waiters q + 1\<rparr>))"

text \<open>The decrement each branch of the \<open>select\<close> performs after it fires.\<close>

definition leave_select :: "inmem_queue \<Rightarrow> inmem_queue" where
  "leave_select q = (if waiters q > 0 then q\<lparr>waiters := waiters q - 1\<rparr> else q)"

definition Remove :: "string \<Rightarrow> inmem_queue \<Rightarrow> queue_error + inmem_queue" where
  "Remove jobID q =
     (if jobID = [] then Inl JobIDRequired
      else if closed q then Inl QueueClosed
      else if jobID \<in> set (normal q) then Inr (q\<lparr>normal := remove1 jobID (normal q)\<rparr>)
      else if jobID \<in> set (batch q) then Inr (q\<lparr>batch := remove1 jobID (batch q)\<rparr>)
      else Inl JobIDNotInQueue)"

definition Pause :: "inmem_queue \<Rightarrow> queue_error + inmem_queue" where
  "Pause q = (if closed q then Inl QueueClosed else Inr (q\<lparr>paused := True\<rparr>))"

definition Resume :: "inmem_queue \<Rightarrow> queue_error + inmem_queue" where
  "Resume q = (if closed q then Inl QueueClosed
               else Inr (signalAvailableLocked (q\<lparr>paused := False\<rparr>)))"

definition tier_map :: "inmem_queue \<Rightarrow> (string, int) gomap" where
  "tier_map q = fold (\<lambda>jid. gm_set jid PriorityBatch) (batch q)
                  (fold (\<lambda>jid. gm_set jid PriorityNormal) (normal q) [])"

fun reorder_check :: "(string, int) gomap \<Rightarrow> bool \<Rightarrow> string list \<Rightarrow> queue_error option" where
  "reorder_check tierOf seenBatch [] = None"
| "reorder_check tierOf seenBatch (jid # ids) =
     (case gm_get tierOf jid of
        None \<Rightarrow> Some JobIDNotInQueue
      | Some tier \<Rightarrow>
          if tier = PriorityBatch then reorder_check tierOf True ids
          else if seenBatch then Some NormalAfterBatch
          else reorder_check tierOf seenBatch ids)"

definition Reorder :: "string list \<Rightarrow> inmem_queue \<Rightarrow> queue_error + inmem_queue" where
  "Reorder jobIDs q =
     (if closed q then Inl QueueClosed
      else if length jobIDs \<noteq> length (normal q) + length (batch q) then Inl LengthMismatch
      else let tierOf = tier_map q in
        case reorder_check tierOf False jobIDs of
          Some e \<Rightarrow> Inl e
        | None \<Rightarrow>
            let q' = q\<lparr>normal := filter (\<lambda>jid. gm_get tierOf jid \<noteq> Some PriorityBatch) jobIDs,
                       batch := filter (\<lambda>jid. gm_get tierOf jid = Some PriorityBatch) jobIDs\<rparr>
            in Inr (if \<not> paused q' then signalAvailableLocked q' else q'))"

definition Close :: "inmem_queue \<Rightarrow> inmem_queue" where
  "Close q = (if closed q then q else q\<lparr>closed := True\<rparr>)"

section \<open>The priority-queue interface\<close>

text \<open>The order in which consumers see the jobs: the whole normal tier, then the batch tier.\<close>

definition jobs :: "inmem_queue \<Rightarrow> string list" where
  "jobs q = normal q @ batch q"

definition open_queue :: "inmem_queue \<Rightarrow> bool" where
  "open_queue q \<longleftrightarrow> \<not> closed q \<and> \<not> paused q"

text \<open>
  What the workers rely on: two FIFO tiers, the second served only when the first is empty.
  A job goes to the end of its tier and the first job of the list is the one handed out.
\<close>

locale priority_queue =
  fixes enq_hi :: "'j \<Rightarrow> 'q \<Rightarrow> 'q"
    and enq_lo :: "'j \<Rightarrow> 'q \<Rightarrow> 'q"
    and deq :: "'q \<Rightarrow> ('j \<times> 'q) option"
    and hi :: "'q \<Rightarrow> 'j list"
    and lo :: "'q \<Rightarrow> 'j list"
    and ok :: "'q \<Rightarrow> bool"
  assumes hi_enq_hi: "ok q \<Longrightarrow> hi (enq_hi j q) = hi q @ [j] \<and> lo (enq_hi j q) = lo q"
    and lo_enq_lo: "ok q \<Longrightarrow> hi (enq_lo j q) = hi q \<and> lo (enq_lo j q) = lo q @ [j]"
    and deq_empty: "ok q \<Longrightarrow> hi q = [] \<Longrightarrow> lo q = [] \<Longrightarrow> deq q = None"
    and deq_hi: "ok q \<Longrightarrow> hi q = j # js \<Longrightarrow> \<exists>q'. deq q = Some (j, q') \<and> hi q' = js \<and> lo q' = lo q \<and> ok q'"
    and deq_lo: "ok q \<Longrightarrow> hi q = [] \<Longrightarrow> lo q = j # js \<Longrightarrow>
          \<exists>q'. deq q = Some (j, q') \<and> hi q' = [] \<and> lo q' = js \<and> ok q'"
    and ok_enq: "ok q \<Longrightarrow> ok (enq_hi j q) \<and> ok (enq_lo j q)"
begin

text \<open>Draining the queue hands the jobs out in tier order, first in first out within a tier.\<close>

fun drain :: "nat \<Rightarrow> 'q \<Rightarrow> 'j list" where
  "drain 0 q = []"
| "drain (Suc n) q = (case deq q of None \<Rightarrow> [] | Some (j, q') \<Rightarrow> j # drain n q')"

lemma deq_content:
  assumes "ok q"
  shows "case deq q of None \<Rightarrow> hi q @ lo q = []
    | Some (j, q') \<Rightarrow> hi q @ lo q = j # (hi q' @ lo q') \<and> ok q' \<and> (hi q \<noteq> [] \<longrightarrow> j = hd (hi q))"
proof (cases "hi q")
  case (Cons j js)
  then show ?thesis using deq_hi[OF assms Cons] by auto
next
  case Nil
  show ?thesis
  proof (cases "lo q")
    case Nil
    then show ?thesis using \<open>hi q = []\<close> deq_empty[OF assms] by simp
  next
    case (Cons j js)
    then show ?thesis using \<open>hi q = []\<close> deq_lo[OF assms \<open>hi q = []\<close> Cons] by auto
  qed
qed

lemma drain_take: "ok q \<Longrightarrow> drain n q = take n (hi q @ lo q)"
proof (induction n arbitrary: q)
  case 0
  then show ?case by simp
next
  case (Suc n)
  show ?case
  proof (cases "deq q")
    case None
    then show ?thesis using deq_content[OF Suc.prems] by simp
  next
    case (Some jq)
    obtain j q' where jq: "jq = (j, q')" by fastforce
    have q': "hi q @ lo q = j # (hi q' @ lo q')" "ok q'"
      using deq_content[OF Suc.prems] Some jq by auto
    then show ?thesis using Some jq Suc.IH by (simp del: take_append)
  qed
qed

lemma drain_all: "ok q \<Longrightarrow> drain (length (hi q) + length (lo q)) q = hi q @ lo q"
  by (simp add: drain_take)

end

definition enq_normal :: "string \<Rightarrow> inmem_queue \<Rightarrow> inmem_queue" where
  "enq_normal j q = (case Enqueue j PriorityNormal q of Inl e \<Rightarrow> q | Inr q' \<Rightarrow> q')"

definition enq_batch :: "string \<Rightarrow> inmem_queue \<Rightarrow> inmem_queue" where
  "enq_batch j q = (case Enqueue j PriorityBatch q of Inl e \<Rightarrow> q | Inr q' \<Rightarrow> q')"

definition try_dequeue :: "inmem_queue \<Rightarrow> (string \<times> inmem_queue) option" where
  "try_dequeue q = (case dequeue_attempt q of (AttemptJob j, q') \<Rightarrow> Some (j, q') | _ \<Rightarrow> None)"

lemmas priority_defs = PriorityNormal_def PriorityBatch_def

lemma signalOneLocked_frame [simp]:
  "normal (signalOneLocked q) = normal q" "batch (signalOneLocked q) = batch q"
  "paused (signalOneLocked q) = paused q" "closed (signalOneLocked q) = closed q"
  "waiters (signalOneLocked q) = waiters q"
  by (auto simp: signalOneLocked_def)

lemma signal_loop_frame [simp]:
  "normal (signal_loop n q) = normal q" "batch (signal_loop n q) = batch q"
  "paused (signal_loop n q) = paused q" "closed (signal_loop n q) = closed q"
  "waiters (signal_loop n q) = waiters q"
  by (induction n arbitrary: q) auto

lemma signalAvailableLocked_frame [simp]:
  "normal (signalAvailableLocked q) = normal q" "batch (signalAvailableLocked q) = batch q"
  "paused (signalAvailableLocked q) = paused q" "closed (signalAvailableLocked q) = closed q"
  "waiters (signalAvailableLocked q) = waiters q"
  by (auto simp: signalAvailableLocked_def Let_def)

interpretation pq: priority_queue enq_normal enq_batch try_dequeue normal batch open_queue
  by unfold_locales
    (auto simp: enq_normal_def enq_batch_def try_dequeue_def Enqueue_def dequeue_attempt_def
      open_queue_def priority_defs Let_def)


definition pq_drain :: "nat \<Rightarrow> inmem_queue \<Rightarrow> string list" where
  "pq_drain = pq.drain"

lemmas pq_drain_simps [simp] = pq.drain.simps [folded pq_drain_def]

section \<open>Conservation of jobs\<close>

lemma gm_get_fold_set:
  "gm_get (fold (\<lambda>k. gm_set k v) ks m) k = (if k \<in> set ks then Some v else gm_get m k)"
  by (induction ks arbitrary: m) (auto simp: gm.get_put)

lemma tier_map_get:
  "gm_get (tier_map q) k =
     (if k \<in> set (batch q) then Some PriorityBatch
      else if k \<in> set (normal q) then Some PriorityNormal else None)"
  by (simp add: tier_map_def gm_get_fold_set)

lemma reorder_check_None:
  "reorder_check tierOf seen ids = None \<Longrightarrow>
     (\<forall>j \<in> set ids. gm_get tierOf j \<noteq> None) \<and>
     (seen \<longrightarrow> (\<forall>j \<in> set ids. gm_get tierOf j = Some PriorityBatch)) \<and>
     filter (\<lambda>j. gm_get tierOf j \<noteq> Some PriorityBatch) ids @
       filter (\<lambda>j. gm_get tierOf j = Some PriorityBatch) ids = ids"
proof (induction tierOf seen ids rule: reorder_check.induct)
  case (2 tierOf seenBatch jid ids)
  obtain tier where tier: "gm_get tierOf jid = Some tier"
    using "2.prems" by (cases "gm_get tierOf jid") auto
  show ?case
  proof (cases "tier = PriorityBatch")
    case True
    then have "reorder_check tierOf True ids = None" using "2.prems" tier by simp
    then have IH: "\<forall>j \<in> set ids. gm_get tierOf j = Some PriorityBatch"
      using "2.IH"(1)[OF tier True] by simp
    then have "filter (\<lambda>j. gm_get tierOf j \<noteq> Some PriorityBatch) ids = []" by (simp add: filter_empty_conv)
    then show ?thesis using IH tier True by simp
  next
    case False
    then have "\<not> seenBatch" "reorder_check tierOf seenBatch ids = None"
      using "2.prems" tier by (auto split: if_splits)
    then show ?thesis using "2.IH"(2)[OF tier False] tier False by auto
  qed
qed simp

lemma Reorder_Inr:
  assumes "Reorder ids q = Inr q'"
  shows "jobs q' = ids" "length ids = length (jobs q)" "set ids \<subseteq> set (jobs q)"
    "set (batch q') \<subseteq> set (batch q)" "set (normal q') \<subseteq> set (normal q)"
    "closed q' = closed q" "paused q' = paused q" "waiters q' = waiters q"
proof -
  let ?r = "q\<lparr>normal := filter (\<lambda>j. gm_get (tier_map q) j \<noteq> Some PriorityBatch) ids,
              batch := filter (\<lambda>j. gm_get (tier_map q) j = Some PriorityBatch) ids\<rparr>"
  have len: "length ids = length (jobs q)" and chk: "reorder_check (tier_map q) False ids = None"
    and q': "q' = (if \<not> paused ?r then signalAvailableLocked ?r else ?r)"
    using assms by (auto simp: Reorder_def jobs_def Let_def split: if_splits option.splits)
  note c = reorder_check_None[OF chk]
  have n: "normal q' = filter (\<lambda>j. gm_get (tier_map q) j \<noteq> Some PriorityBatch) ids"
    and b: "batch q' = filter (\<lambda>j. gm_get (tier_map q) j = Some PriorityBatch) ids"
    by (auto simp: q')
  show "jobs q' = ids" using c by (simp add: jobs_def n b)
  show "length ids = length (jobs q)" by (rule len)
  show "set ids \<subseteq> set (jobs q)" using c by (fastforce simp: tier_map_get jobs_def split: if_splits)
  show "set (batch q') \<subseteq> set (batch q)"
    by (auto simp: b tier_map_get priority_defs split: if_splits)
  show "set (normal q') \<subseteq> set (normal q)" using c
    by (auto simp: n tier_map_get priority_defs split: if_splits)
  show "closed q' = closed q" "paused q' = paused q" "waiters q' = waiters q" by (auto simp: q')
qed

lemma mset_of_distinct_cover:
  assumes "distinct xs" "length xs = length ys" "set xs \<subseteq> set ys"
  shows "mset xs = mset ys" "set xs = set ys"
proof -
  have "card (set ys) \<le> length ys" by (rule card_length)
  then have c: "card (set ys) \<le> card (set xs)" using assms(1,2) by (simp add: distinct_card)
  then show seq: "set xs = set ys" using assms(3) by (simp add: card_seteq)
  then have "card (set ys) = length ys" using assms(1,2) by (metis distinct_card)
  then show "mset xs = mset ys" using assms(1) seq set_eq_iff_mset_eq_distinct card_distinct by blast
qed

section \<open>Consumers, producers and cancellations interleaved\<close>

text \<open>
  A consumer is a goroutine inside \<open>Dequeue\<close>. It is \<open>Idle\<close> outside the call, \<open>Selecting\<close>
  while it blocks in the \<open>select\<close>, \<open>Awake\<close> when a channel fired and it has yet to take the
  mutex to decrement \<open>waiters\<close>, \<open>Retrying\<close> after that, back at the head of the loop, and
  \<open>Cancelled\<close> when its context ended and it has yet to decrement.
\<close>

datatype consumer = Idle | Selecting | Awake | Retrying | Cancelled

record system =
  sq :: inmem_queue
  consumers :: "consumer list"

definition attempt_next :: "attempt \<Rightarrow> consumer" where
  "attempt_next a = (case a of AttemptWait \<Rightarrow> Selecting | _ \<Rightarrow> Idle)"

inductive queue_step :: "system \<Rightarrow> system \<Rightarrow> bool" where
  enqueue: "Enqueue j p (sq s) = Inr q' \<Longrightarrow> queue_step s (s\<lparr>sq := q'\<rparr>)"
| remove: "Remove j (sq s) = Inr q' \<Longrightarrow> queue_step s (s\<lparr>sq := q'\<rparr>)"
| pause: "Pause (sq s) = Inr q' \<Longrightarrow> queue_step s (s\<lparr>sq := q'\<rparr>)"
| resume: "Resume (sq s) = Inr q' \<Longrightarrow> queue_step s (s\<lparr>sq := q'\<rparr>)"
| reorder: "Reorder ids (sq s) = Inr q' \<Longrightarrow> queue_step s (s\<lparr>sq := q'\<rparr>)"
| close: "queue_step s (s\<lparr>sq := Close (sq s)\<rparr>)"
| attempt: "i < length (consumers s) \<Longrightarrow> consumers s ! i \<in> {Idle, Retrying} \<Longrightarrow>
    dequeue_attempt (sq s) = (a, q') \<Longrightarrow>
    queue_step s (s\<lparr>sq := q', consumers := (consumers s)[i := attempt_next a]\<rparr>)"
| receive: "i < length (consumers s) \<Longrightarrow> consumers s ! i = Selecting \<Longrightarrow> 0 < notify (sq s) \<Longrightarrow>
    queue_step s (s\<lparr>sq := (sq s)\<lparr>notify := notify (sq s) - 1\<rparr>,
                    consumers := (consumers s)[i := Awake]\<rparr>)"
| receive_close: "i < length (consumers s) \<Longrightarrow> consumers s ! i = Selecting \<Longrightarrow> closed (sq s) \<Longrightarrow>
    queue_step s (s\<lparr>consumers := (consumers s)[i := Awake]\<rparr>)"
| ctx_done: "i < length (consumers s) \<Longrightarrow> consumers s ! i = Selecting \<Longrightarrow>
    queue_step s (s\<lparr>consumers := (consumers s)[i := Cancelled]\<rparr>)"
| leave_awake: "i < length (consumers s) \<Longrightarrow> consumers s ! i = Awake \<Longrightarrow>
    queue_step s (s\<lparr>sq := leave_select (sq s), consumers := (consumers s)[i := Retrying]\<rparr>)"
| leave_cancelled: "i < length (consumers s) \<Longrightarrow> consumers s ! i = Cancelled \<Longrightarrow>
    queue_step s (s\<lparr>sq := leave_select (sq s), consumers := (consumers s)[i := Idle]\<rparr>)"

definition queue_init :: "nat \<Rightarrow> system" where
  "queue_init n = \<lparr>sq = NewInMemoryQueue, consumers = replicate n Idle\<rparr>"

abbreviation queue_reachable :: "nat \<Rightarrow> system \<Rightarrow> bool" where
  "queue_reachable n s \<equiv> queue_step\<^sup>*\<^sup>* (queue_init n) s"

abbreviation num :: "consumer \<Rightarrow> system \<Rightarrow> nat" where
  "num c s \<equiv> count_list (consumers s) c"

text \<open>
  The wake-up invariant. \<open>waiters\<close> counts exactly the consumers that have incremented and not yet
  decremented it, and an open queue has enough wake-ups under way (tokens in the channel
  and consumers on their way back to the head of the loop) for every job a consumer could take.
\<close>

definition wakeups_suffice :: "system \<Rightarrow> bool" where
  "wakeups_suffice s \<longleftrightarrow> (open_queue (sq s) \<longrightarrow>
     min (num Selecting s + num Awake s + num Retrying s) (length (jobs (sq s)))
       \<le> notify (sq s) + num Awake s + num Retrying s)"

definition waiters_exact :: "system \<Rightarrow> bool" where
  "waiters_exact s \<longleftrightarrow>
     waiters (sq s) = int (num Selecting s + num Awake s + num Cancelled s)"

definition queue_inv :: "nat \<Rightarrow> system \<Rightarrow> bool" where
  "queue_inv n s \<longleftrightarrow> length (consumers s) = n \<and> notify (sq s) \<le> notify_cap \<and>
     waiters_exact s \<and> wakeups_suffice s"

lemma count_list_update:
  "i < length xs \<Longrightarrow> count_list (xs[i := y]) x + (if xs ! i = x then 1 else 0)
     = count_list xs x + (if y = x then 1 else 0)"
proof (induction xs arbitrary: i)
  case (Cons a xs)
  show ?case
  proof (cases i)
    case (Suc k)
    then show ?thesis using Cons.IH[of k] Cons.prems by auto
  qed simp
qed simp

lemma count_list_three:
  "distinct [x, y, z] \<Longrightarrow> count_list xs x + count_list xs y + count_list xs z \<le> length xs"
  by (induction xs) auto

lemma signal_loop_notify:
  "notify q \<le> notify_cap \<Longrightarrow> notify (signal_loop n q) = min notify_cap (notify q + n)"
  by (induction n arbitrary: q) auto

lemma signalAvailableLocked_notify:
  assumes "notify q \<le> notify_cap"
  shows "notify (signalAvailableLocked q) \<le> notify_cap"
    and "min notify_cap (notify q + nat (min (waiters q) (int (length (jobs q))))) \<le> notify (signalAvailableLocked q)"
  using assms by (auto simp: signalAvailableLocked_def Let_def signal_loop_notify jobs_def)

lemma signalOneLocked_notify:
  assumes "notify q \<le> notify_cap"
  shows "notify (signalOneLocked q) \<le> notify_cap" "notify q \<le> notify (signalOneLocked q)"
    and "0 < waiters q \<Longrightarrow> notify (signalOneLocked q) = min notify_cap (notify q + 1)"
  using assms by (auto simp: signalOneLocked_def)

lemma wakeups_bound: "num Selecting s + num Awake s + num Retrying s \<le> length (consumers s)"
  by (rule count_list_three) simp

lemmas queue_inv_defs = queue_inv_def waiters_exact_def wakeups_suffice_def

lemma inv_Enqueue:
  assumes inv: "queue_inv n s" and n: "n \<le> notify_cap" and st: "Enqueue j p (sq s) = Inr q'"
  shows "queue_inv n (s\<lparr>sq := q'\<rparr>)"
proof -
  let ?r = "if p = PriorityBatch then (sq s)\<lparr>batch := batch (sq s) @ [j]\<rparr>
            else (sq s)\<lparr>normal := normal (sq s) @ [j]\<rparr>"
  have q': "q' = (if \<not> paused ?r then signalOneLocked ?r else ?r)"
    using st by (auto simp: Enqueue_def Let_def split: if_splits)
  have r: "notify ?r = notify (sq s)" "waiters ?r = waiters (sq s)" "paused ?r = paused (sq s)"
    "closed ?r = closed (sq s)" "length (jobs ?r) = length (jobs (sq s)) + 1"
    by (auto simp: jobs_def)
  have j: "jobs q' = jobs ?r" "waiters q' = waiters (sq s)" "paused q' = paused (sq s)" "closed q' = closed (sq s)"
    by (auto simp: q' r jobs_def)
  note b = wakeups_bound[of s] and sg = signalOneLocked_notify[of ?r]
  have "notify q' \<le> notify_cap" using sg inv by (auto simp: q' r queue_inv_defs)
  moreover have "wakeups_suffice (s\<lparr>sq := q'\<rparr>)"
  proof (cases "open_queue q'")
    case True
    then have o: "open_queue (sq s)" "q' = signalOneLocked ?r"
      using q' j r by (auto simp: open_queue_def)
    show ?thesis
    proof (cases "0 < waiters (sq s)")
      case True
      then have tok: "notify q' = min notify_cap (notify (sq s) + 1)"
        using sg(3) inv r by (simp add: o queue_inv_defs)
      have "min (num Selecting s + num Awake s + num Retrying s) (length (jobs (sq s)))
          \<le> notify (sq s) + num Awake s + num Retrying s" "length (consumers s) = n"
        using inv o by (simp_all add: queue_inv_defs)
      then have "min (num Selecting s + num Awake s + num Retrying s) (length (jobs (sq s)) + 1)
          \<le> notify q' + num Awake s + num Retrying s"
        using tok n b by linarith
      then show ?thesis using j(1) r(5) by (simp add: wakeups_suffice_def)
    next
      case False
      then have "num Selecting s + num Awake s = 0" using inv by (simp add: queue_inv_defs)
      then show ?thesis by (simp add: wakeups_suffice_def min_le_iff_disj)
    qed
  qed (simp add: wakeups_suffice_def)
  ultimately show ?thesis using inv j by (simp add: queue_inv_def waiters_exact_def)
qed

text \<open>An operation that tops the tokens up for the jobs present keeps the invariant.\<close>

lemma inv_signalAvailable:
  assumes inv: "queue_inv n s" and n: "n \<le> notify_cap"
    and r: "notify r = notify (sq s)" "waiters r = waiters (sq s)"
  shows "queue_inv n (s\<lparr>sq := signalAvailableLocked r\<rparr>)"
proof -
  have w: "waiters r = int (num Selecting s + num Awake s + num Cancelled s)"
    using inv r by (simp add: queue_inv_defs)
  have cap: "notify r \<le> notify_cap" using inv r by (simp add: queue_inv_defs)
  note tok = signalAvailableLocked_notify[OF cap]
  let ?J = "length (jobs r)"
  have "min notify_cap (min (num Selecting s) ?J) \<le> notify (signalAvailableLocked r)"
    using tok(2) w by linarith
  moreover have "num Selecting s + num Awake s + num Retrying s \<le> notify_cap"
    using wakeups_bound[of s] n inv by (simp add: queue_inv_def)
  ultimately have "min (num Selecting s + num Awake s + num Retrying s) ?J
      \<le> notify (signalAvailableLocked r) + num Awake s + num Retrying s" by linarith
  then have "wakeups_suffice (s\<lparr>sq := signalAvailableLocked r\<rparr>)"
    by (simp add: wakeups_suffice_def jobs_def)
  then show ?thesis using inv tok(1) w by (simp add: queue_inv_def waiters_exact_def)
qed

lemma inv_shrink:
  assumes inv: "queue_inv n s" and r: "notify q' = notify (sq s)" "waiters q' = waiters (sq s)"
    and o: "open_queue q' \<Longrightarrow> open_queue (sq s) \<and> length (jobs q') \<le> length (jobs (sq s))"
  shows "queue_inv n (s\<lparr>sq := q'\<rparr>)"
  using assms by (fastforce simp: queue_inv_defs)

lemma inv_Remove: "queue_inv n s \<Longrightarrow> Remove j (sq s) = Inr q' \<Longrightarrow> queue_inv n (s\<lparr>sq := q'\<rparr>)"
  by (rule inv_shrink) (auto simp: Remove_def open_queue_def jobs_def length_remove1 split: if_splits)

lemma inv_Pause: "queue_inv n s \<Longrightarrow> Pause (sq s) = Inr q' \<Longrightarrow> queue_inv n (s\<lparr>sq := q'\<rparr>)"
  by (rule inv_shrink) (auto simp: Pause_def open_queue_def split: if_splits)

lemma inv_Close: "queue_inv n s \<Longrightarrow> queue_inv n (s\<lparr>sq := Close (sq s)\<rparr>)"
  by (rule inv_shrink) (auto simp: Close_def open_queue_def split: if_splits)

lemma inv_Resume:
  "queue_inv n s \<Longrightarrow> n \<le> notify_cap \<Longrightarrow> Resume (sq s) = Inr q' \<Longrightarrow> queue_inv n (s\<lparr>sq := q'\<rparr>)"
  by (auto simp: Resume_def intro!: inv_signalAvailable split: if_splits)

lemma inv_Reorder:
  assumes inv: "queue_inv n s" and n: "n \<le> notify_cap" and st: "Reorder ids (sq s) = Inr q'"
  shows "queue_inv n (s\<lparr>sq := q'\<rparr>)"
proof (cases "paused (sq s)")
  case True
  then have "notify q' = notify (sq s)"
    using st by (auto simp: Reorder_def Let_def split: if_splits option.splits)
  then show ?thesis using inv Reorder_Inr(2,6-8)[OF st] True
    by (intro inv_shrink) (auto simp: open_queue_def)
next
  case False
  then show ?thesis using inv n st
    by (auto simp: Reorder_def Let_def split: if_splits option.splits intro!: inv_signalAvailable)
qed

text \<open>A consumer that moves from one state to another shifts the counts by one.\<close>

lemma count_move:
  assumes "i < length cs" "cs ! i = c" "c \<noteq> d"
  shows "count_list (cs[i := d]) x =
    (if x = c then count_list cs x - 1 else if x = d then count_list cs x + 1 else count_list cs x)"
    and "0 < count_list cs c"
proof -
  show "0 < count_list cs c"
    using assms by (metis count_list_0_iff gr0I nth_mem)
  then show "count_list (cs[i := d]) x =
    (if x = c then count_list cs x - 1 else if x = d then count_list cs x + 1 else count_list cs x)"
    using count_list_update[OF assms(1), of d x] assms(2,3) by auto
qed

lemma dequeue_attempt_cases:
  assumes "dequeue_attempt q = (a, q')"
  obtains (closed) "closed q" "a = AttemptClosed" "q' = q"
  | (job) j where "open_queue q" "a = AttemptJob j" "jobs q = j # jobs q'" "open_queue q'"
      "notify q' = notify q" "waiters q' = waiters q"
  | (wait) "a = AttemptWait" "\<not> closed q" "q' = q\<lparr>waiters := waiters q + 1\<rparr>"
      "open_queue q \<Longrightarrow> jobs q = []"
proof (cases "closed q")
  case True
  then show ?thesis using assms by (intro closed) (auto simp: dequeue_attempt_def)
next
  case False
  show ?thesis
  proof (cases "open_queue q \<and> jobs q \<noteq> []")
    case True
    then show ?thesis using assms
      by (intro job[of "hd (jobs q)"])
        (auto simp: dequeue_attempt_def open_queue_def jobs_def split: if_splits)
  next
    case stay: False
    then show ?thesis using assms False
      by (intro wait) (auto simp: dequeue_attempt_def open_queue_def jobs_def split: if_splits)
  qed
qed

text \<open>A consumer that returns from \<open>Dequeue\<close> leaves every count but those of its states alone.\<close>

lemma count_return:
  assumes "i < length cs" "cs ! i \<in> {Idle, Retrying}"
  shows "count_list (cs[i := Idle]) Selecting = count_list cs Selecting"
    "count_list (cs[i := Idle]) Awake = count_list cs Awake"
    "count_list (cs[i := Idle]) Cancelled = count_list cs Cancelled"
    "count_list cs Retrying \<le> count_list (cs[i := Idle]) Retrying + 1"
    "count_list (cs[i := Idle]) Retrying \<le> count_list cs Retrying"
  using count_list_update[OF assms(1), of Idle] assms(2)
  by (auto dest: meta_spec[of _ Selecting] meta_spec[of _ Awake] meta_spec[of _ Cancelled]
      meta_spec[of _ Retrying] split: if_splits)

lemma inv_attempt:
  assumes inv: "queue_inv n s" and i: "i < length (consumers s)" "consumers s ! i \<in> {Idle, Retrying}"
    and st: "dequeue_attempt (sq s) = (a, q')"
  shows "queue_inv n (s\<lparr>sq := q', consumers := (consumers s)[i := attempt_next a]\<rparr>)"
  using st
proof (cases rule: dequeue_attempt_cases)
  case closed
  then show ?thesis
    using inv count_return[OF i] by (simp add: queue_inv_defs attempt_next_def open_queue_def)
next
  case (job j)
  then have "min (num Selecting s + num Awake s + num Retrying s) (length (jobs (sq s)))
      \<le> notify (sq s) + num Awake s + num Retrying s"
    using inv by (simp add: queue_inv_defs)
  then have "wakeups_suffice (s\<lparr>sq := q', consumers := (consumers s)[i := Idle]\<rparr>)"
    using count_return[OF i] job by (simp add: wakeups_suffice_def)
  then show ?thesis
    using inv count_return[OF i] job
    by (simp add: queue_inv_def waiters_exact_def attempt_next_def)
next
  case wait
  then show ?thesis using i inv
    by (auto simp: queue_inv_defs attempt_next_def open_queue_def jobs_def count_move)
qed

lemma inv_step: "queue_step s t \<Longrightarrow> n \<le> notify_cap \<Longrightarrow> queue_inv n s \<Longrightarrow> queue_inv n t"
proof (induction rule: queue_step.induct)
  case (receive i s)
  then show ?case using count_move(2)[of i "consumers s" Selecting Awake]
    by (auto simp: queue_inv_defs count_move open_queue_def jobs_def)
next
  case (receive_close i s)
  then show ?case using count_move(2)[of i "consumers s" Selecting Awake]
    by (auto simp: queue_inv_defs count_move open_queue_def)
next
  case (ctx_done i s)
  then show ?case using count_move(2)[of i "consumers s" Selecting Cancelled]
    by (auto simp: queue_inv_defs count_move)
next
  case (leave_awake i s)
  then show ?case using count_move(2)[of i "consumers s" Awake Retrying]
    by (auto simp: queue_inv_defs count_move leave_select_def open_queue_def jobs_def)
next
  case (leave_cancelled i s)
  then show ?case using count_move(2)[of i "consumers s" Cancelled Idle]
    by (auto simp: queue_inv_defs count_move leave_select_def open_queue_def jobs_def)
qed (auto intro: inv_Enqueue inv_Remove inv_Pause inv_Resume inv_Reorder inv_Close inv_attempt)

lemma inv_init: "queue_inv n (queue_init n)"
proof -
  have "count_list (replicate n Idle) c = (if c = Idle then n else 0)" for c
    by (induction n) auto
  then show ?thesis
    by (simp add: queue_inv_defs queue_init_def NewInMemoryQueue_def)
qed

lemma queue_reachable_inv: "queue_reachable n s \<Longrightarrow> n \<le> notify_cap \<Longrightarrow> queue_inv n s"
  by (induction rule: rtranclp_induct) (auto intro: inv_init inv_step)

section \<open>Properties\<close>

text \<open>
  C1. No lost wake-up. In every state that consumers, producers, pauses, reorders and
  cancellations can reach together, with at most 1024 consumers (the capacity of the
  \<open>notify\<close> channel), an open queue that holds a job never leaves all its consumers blocked: a
  token waits in the channel or some consumer is on its way back to the head of the loop.
  \<open>waiters\<close> is exactly the number of consumers between its increment and its decrement.
\<close>

theorem no_lost_wakeup:
  assumes "queue_reachable n s" "n \<le> 1024"
  shows "waiters (sq s) = int (num Selecting s + num Awake s + num Cancelled s) \<and>
    (open_queue (sq s) \<and> jobs (sq s) \<noteq> [] \<and> 0 < num Selecting s \<longrightarrow>
      0 < notify (sq s) \<or> 0 < num Awake s \<or> 0 < num Retrying s)"
proof -
  have inv: "queue_inv n s" using queue_reachable_inv[OF assms(1)] assms(2)
    by (simp add: notify_cap_def)
  have "0 < notify (sq s) + num Awake s + num Retrying s"
    if "open_queue (sq s)" "jobs (sq s) \<noteq> []" "0 < num Selecting s"
  proof -
    have "min (num Selecting s + num Awake s + num Retrying s) (length (jobs (sq s)))
        \<le> notify (sq s) + num Awake s + num Retrying s"
      using inv that(1) by (simp add: queue_inv_defs)
    moreover have "0 < length (jobs (sq s))" using that(2) by simp
    ultimately show ?thesis using that(3) by linarith
  qed
  then show ?thesis using inv by (auto simp: queue_inv_defs)
qed

lemma one_blocked_then_enqueue:
  "queue_reachable 1
     \<lparr>sq = \<lparr>normal = [''a''], batch = [], paused = False, closed = False, waiters = 1, notify = 1\<rparr>,
      consumers = [Selecting]\<rparr>"
proof -
  let ?q = "NewInMemoryQueue\<lparr>waiters := 1\<rparr>"
  have "queue_step (queue_init 1) \<lparr>sq = ?q, consumers = [Selecting]\<rparr>"
    using queue_step.attempt[of 0 "queue_init 1" AttemptWait ?q]
    by (simp add: queue_init_def dequeue_attempt_def NewInMemoryQueue_def attempt_next_def)
  moreover have "queue_step \<lparr>sq = ?q, consumers = [Selecting]\<rparr>
     \<lparr>sq = \<lparr>normal = [''a''], batch = [], paused = False, closed = False, waiters = 1, notify = 1\<rparr>,
      consumers = [Selecting]\<rparr>"
    using queue_step.enqueue[of "''a''" 0 "\<lparr>sq = ?q, consumers = [Selecting]\<rparr>"]
    by (simp add: Enqueue_def signalOneLocked_def NewInMemoryQueue_def priority_defs notify_cap_def)
  ultimately show ?thesis by (meson converse_rtranclp_into_rtranclp rtranclp.rtrancl_refl)
qed

theorem no_lost_wakeup_witness:
  "waiters (sq \<lparr>sq = \<lparr>normal = [''a''], batch = [], paused = False, closed = False, waiters = 1, notify = 1\<rparr>,
      consumers = [Selecting]\<rparr>) = 1"
  using no_lost_wakeup[OF one_blocked_then_enqueue] by simp

text \<open>
  C34. Order of service. Draining an open queue hands out the whole normal tier before the batch
  tier, each first in first out, and everything in the queue comes out. A normal job enqueued
  last is served right after the normal jobs before it and before every batch job.
\<close>

theorem served_in_tier_order:
  assumes "open_queue q"
  shows "pq_drain (length (normal q) + length (batch q)) q = normal q @ batch q \<and>
    pq_drain (Suc (length (normal q) + length (batch q))) (enq_normal j q) = normal q @ j # batch q \<and>
    pq_drain (Suc (length (normal q) + length (batch q))) (enq_batch j q) = normal q @ batch q @ [j]"
proof -
  have o: "open_queue (enq_normal j q)" "open_queue (enq_batch j q)"
    using pq.ok_enq[OF assms] by auto
  show ?thesis
    using pq.drain_all[OF assms] pq.drain_all[OF o(1)] pq.drain_all[OF o(2)]
      pq.hi_enq_hi[OF assms] pq.lo_enq_lo[OF assms] by (simp add: pq_drain_def del: pq.drain.simps)
qed

theorem served_in_tier_order_witness:
  "pq_drain 2 \<lparr>normal = [''n''], batch = [''b''], paused = False, closed = False, waiters = 0, notify = 0\<rparr>
     = [''n'', ''b'']"
  using served_in_tier_order[of "\<lparr>normal = [''n''], batch = [''b''], paused = False, closed = False, waiters = 0, notify = 0\<rparr>"]
  by (simp add: open_queue_def numeral_2_eq_2 del: pq_drain_simps)

text \<open>
  Reordering with distinct ids permutes the queue. When \<open>Reorder\<close> succeeds, the queue
  holds exactly the given list in the given order; no job is lost or added and none changes its
  tier.
\<close>

theorem reorder_permutes:
  assumes "Reorder ids q = Inr q'" "distinct ids"
  shows "jobs q' = ids \<and> mset (jobs q') = mset (jobs q) \<and>
    set (normal q') = set (normal q) \<and> set (batch q') = set (batch q) \<and>
    closed q' = closed q \<and> paused q' = paused q"
proof -
  note r = Reorder_Inr[OF assms(1)]
  note m = mset_of_distinct_cover[OF assms(2) r(2,3)]
  have d: "distinct (jobs q)" using m assms(2) by (metis mset_eq_imp_distinct_iff)
  have "set (normal q') \<union> set (batch q') = set (normal q) \<union> set (batch q)"
    using m(2) r(1) by (metis jobs_def set_append)
  moreover have "set (normal q) \<inter> set (batch q) = {}" using d by (auto simp: jobs_def)
  ultimately show ?thesis using r m by blast
qed

theorem reorder_permutes_witness:
  "mset (jobs \<lparr>normal = [''b'', ''a''], batch = [''c''], paused = True, closed = False, waiters = 0, notify = 0\<rparr>) =
   mset (jobs \<lparr>normal = [''a'', ''b''], batch = [''c''], paused = True, closed = False, waiters = 0, notify = 0\<rparr>)"
  using reorder_permutes[of "[''b'', ''a'', ''c'']"
    "\<lparr>normal = [''a'', ''b''], batch = [''c''], paused = True, closed = False, waiters = 0, notify = 0\<rparr>"
    "\<lparr>normal = [''b'', ''a''], batch = [''c''], paused = True, closed = False, waiters = 0, notify = 0\<rparr>"]
  by (simp add: Reorder_def tier_map_def Let_def priority_defs gm.get_put jobs_def)

text \<open>
  Reordering does not reject repeated ids. For every two jobs a queue can hold, a list that
  names one of them twice has the right length and passes every check, and the other job
  is gone while the repeated one is served twice.
\<close>

theorem reorder_repeated_id_loses_job:
  "\<exists>q'. Reorder [a, a] \<lparr>normal = [a, b], batch = [], paused = True, closed = False, waiters = w, notify = t\<rparr> = Inr q' \<and>
     jobs q' = [a, a]"
  by (simp add: Reorder_def tier_map_def Let_def priority_defs gm.get_put jobs_def)

text \<open>
  The gates. A closed queue refuses every operation and tells a consumer so, even with jobs
  left; a paused queue hands nothing out; \<open>Remove\<close> takes exactly one occurrence of the job and
  fails precisely when the id is empty, the queue is closed or the job is not queued.
\<close>

theorem queue_gates:
  "(closed q \<longrightarrow> Enqueue j p q = Inl QueueClosed \<and> Pause q = Inl QueueClosed \<and> Resume q = Inl QueueClosed \<and>
      Reorder ids q = Inl QueueClosed \<and> fst (dequeue_attempt q) = AttemptClosed) \<and>
   (paused q \<longrightarrow> (\<forall>k. fst (dequeue_attempt q) \<noteq> AttemptJob k)) \<and>
   (case Remove j q of
      Inr q' \<Rightarrow> add_mset j (mset (jobs q')) = mset (jobs q)
    | Inl e \<Rightarrow> j = [] \<or> closed q \<or> j \<notin> set (jobs q))"
  by (auto simp: Enqueue_def Pause_def Resume_def Reorder_def dequeue_attempt_def Remove_def jobs_def)

theorem queue_gates_witness:
  "Enqueue ''a'' 0 (NewInMemoryQueue\<lparr>closed := True\<rparr>) = Inl QueueClosed"
  using queue_gates[of "NewInMemoryQueue\<lparr>closed := True\<rparr>" "''a''" 0] by simp

end
