(* ===== verification/RateLimit.thy ===== *)
theory RateLimit
  imports Prelude
begin

text \<open>
  The per-client sliding-window rate limiter of the server (\<open>server/ratelimit.go\<close>): the limiter
  itself, the attribution of a request to a client address behind trusted proxies, the
  request gate and the replacement of the limiters when the settings change.

  The abstract limiter keeps the whole history of admitted requests; the concrete one keeps only
  what is still in the window and forgets idle clients. The locale \<open>window_limiter\<close> states what a
  limiter promises with respect to that history.

  The address operations of \<open>net/netip\<close> and \<open>net.SplitHostPort\<close> are arguments (the record
  \<open>netip\<close>): the theorems hold whatever they return.
\<close>

section \<open>The limiter\<close>

record rate_limiter =
  entries :: "(string, gotime list) gomap"
  rl_max :: int
  window :: duration

definition NewRateLimiter :: "int \<Rightarrow> duration \<Rightarrow> rate_limiter" where
  "NewRateLimiter mx w = \<lparr>entries = [], rl_max = mx, window = w\<rparr>"

text \<open>\<open>AllowPanic\<close> is the out-of-range read \<open>times[0]\<close> of an empty slice.\<close>

datatype allow_result = Allowed | Denied int | AllowPanic

text \<open>\<open>int(d.Seconds())\<close>: the float64 sum of whole seconds and nanoseconds, truncated.\<close>

definition whole_seconds :: "duration \<Rightarrow> int" where
  "whole_seconds d =
     (let sec = trunc_div d second; nsec = d - sec * second
      in float_to_int (fl (of_int sec + fl (of_int nsec / 1000000000))))"

definition Allow :: "gotime \<Rightarrow> string \<Rightarrow> rate_limiter \<Rightarrow> allow_result \<times> rate_limiter" where
  "Allow now ip rl =
     (let cutoff = now - window rl;
          times = filter (\<lambda>t. cutoff < t) (gm_get_or [] (entries rl) ip)
      in if int (length times) \<ge> rl_max rl then
           (let rl' = rl\<lparr>entries := gm_set ip times (entries rl)\<rparr> in
            case times of
              [] \<Rightarrow> (AllowPanic, rl')
            | t # _ \<Rightarrow> (Denied (max (whole_seconds (time_sub (t + window rl) now) + 1) 1), rl'))
         else (Allowed, rl\<lparr>entries := gm_set ip (times @ [now]) (entries rl)\<rparr>))"

definition Keys :: "rate_limiter \<Rightarrow> int" where
  "Keys rl = int (length (entries rl))"

definition Cleanup :: "gotime \<Rightarrow> rate_limiter \<Rightarrow> rate_limiter" where
  "Cleanup now rl =
     (let cutoff = now - window rl
      in rl\<lparr>entries := gm_drop (\<lambda>ip times. \<not> (\<exists>t \<in> set times. cutoff < t)) (entries rl)\<rparr>)"

section \<open>The client a request is attributed to\<close>

record ('a, 'p) netip =
  split_host_port :: "string \<Rightarrow> string option"
  ParseAddr :: "string \<Rightarrow> 'a option"
  ParsePrefix :: "string \<Rightarrow> 'p option"
  host_prefix :: "'a \<Rightarrow> 'p"
  Unmap :: "'a \<Rightarrow> 'a"
  addr_string :: "'a \<Rightarrow> string"
  Contains :: "'p \<Rightarrow> 'a \<Rightarrow> bool"
  is6 :: "'a \<Rightarrow> bool"
  is4in6 :: "'a \<Rightarrow> bool"
  masked64 :: "'a \<Rightarrow> string"

record request =
  http_method :: string
  RemoteAddr :: string
  xff_header :: string

fun parseTrustedProxies :: "('a, 'p) netip \<Rightarrow> string list \<Rightarrow> 'p list" where
  "parseTrustedProxies net [] = []"
| "parseTrustedProxies net (s0 # rest) =
     (let s = trim_space s0; out = parseTrustedProxies net rest in
      if s = [] then out
      else case ParsePrefix net s of
             Some p \<Rightarrow> p # out
           | None \<Rightarrow> (case ParseAddr net s of Some a \<Rightarrow> host_prefix net a # out | None \<Rightarrow> out))"

definition ipInPrefixes :: "('a, 'p) netip \<Rightarrow> 'a \<Rightarrow> 'p list \<Rightarrow> bool" where
  "ipInPrefixes net addr prefixes = list_ex (\<lambda>p. Contains net p (Unmap net addr)) prefixes"

text \<open>The walk over the hops, which the loop visits from the last to the first.\<close>

fun walk_hops :: "('a, 'p) netip \<Rightarrow> 'p list \<Rightarrow> string list \<Rightarrow> string option" where
  "walk_hops net trusted [] = None"
| "walk_hops net trusted (part # parts) =
     (let hop = trim_space part in
      if hop = [] then walk_hops net trusted parts
      else case ParseAddr net hop of
             None \<Rightarrow> Some hop
           | Some a \<Rightarrow> if \<not> ipInPrefixes net a trusted then Some (addr_string net (Unmap net a))
                       else walk_hops net trusted parts)"

definition clientIP :: "('a, 'p) netip \<Rightarrow> request \<Rightarrow> 'p list \<Rightarrow> string" where
  "clientIP net r trusted =
     (let remoteHost = (case split_host_port net (RemoteAddr r) of None \<Rightarrow> RemoteAddr r | Some h \<Rightarrow> h) in
      case ParseAddr net remoteHost of
        None \<Rightarrow> remoteHost
      | Some remote \<Rightarrow>
          if \<not> ipInPrefixes net remote trusted then addr_string net (Unmap net remote)
          else if xff_header r = [] then addr_string net (Unmap net remote)
          else (case walk_hops net trusted (rev (split_on (CHR '','') (xff_header r))) of
                  Some s \<Rightarrow> s
                | None \<Rightarrow> addr_string net (Unmap net remote)))"

definition rateLimitKey :: "('a, 'p) netip \<Rightarrow> string \<Rightarrow> string" where
  "rateLimitKey net ip =
     (case ParseAddr net ip of
        None \<Rightarrow> ip
      | Some addr \<Rightarrow> if \<not> is6 net addr \<or> is4in6 net addr then ip else masked64 net addr)"

section \<open>The request gates and the live limiters\<close>

text \<open>
  The outcome of a gate: the request passes on, or it is answered with status 429 and the
  \<open>Retry-After\<close> seconds, or the handler panics.
\<close>

datatype gate = Pass | TooMany int | GatePanic

fun gate_of :: "allow_result \<Rightarrow> gate" where
  "gate_of Allowed = Pass"
| "gate_of (Denied ra) = TooMany ra"
| "gate_of AllowPanic = GatePanic"

definition allowRequest ::
  "('a, 'p) netip \<Rightarrow> gotime \<Rightarrow> request \<Rightarrow> rate_limiter option \<Rightarrow> 'p list \<Rightarrow> gate \<times> rate_limiter option" where
  "allowRequest net now r orl trusted =
     (case orl of
        None \<Rightarrow> (Pass, None)
      | Some rl \<Rightarrow> (case Allow now (rateLimitKey net (clientIP net r trusted)) rl of
                      (res, rl') \<Rightarrow> (gate_of res, Some rl')))"

record limiters =
  rateLimiter :: "rate_limiter option"
  getRateLimiter :: "rate_limiter option"

definition rateLimitMiddleware ::
  "('a, 'p) netip \<Rightarrow> gotime \<Rightarrow> request \<Rightarrow> 'p list \<Rightarrow> limiters \<Rightarrow> gate \<times> limiters" where
  "rateLimitMiddleware net now r trusted s =
     (if http_method r = ''POST'' then
        (case allowRequest net now r (rateLimiter s) trusted of (g, rl) \<Rightarrow> (g, s\<lparr>rateLimiter := rl\<rparr>))
      else (Pass, s))"

definition limitGET ::
  "('a, 'p) netip \<Rightarrow> gotime \<Rightarrow> request \<Rightarrow> 'p list \<Rightarrow> limiters \<Rightarrow> gate \<times> limiters" where
  "limitGET net now r trusted s =
     (case allowRequest net now r (getRateLimiter s) trusted of (g, rl) \<Rightarrow> (g, s\<lparr>getRateLimiter := rl\<rparr>))"

definition storeLimiter :: "rate_limiter option \<Rightarrow> int \<Rightarrow> duration \<Rightarrow> rate_limiter option" where
  "storeLimiter p mx w =
     (case p of
        None \<Rightarrow> Some (NewRateLimiter mx w)
      | Some rl \<Rightarrow> if rl_max rl \<noteq> mx \<or> window rl \<noteq> w then Some (NewRateLimiter mx w) else p)"

record public_api_config =
  RateLimitEnabled :: bool
  RateLimitMax :: int
  RateLimitGetMax :: int
  RateLimitWindow :: duration

definition applyRateLimit :: "public_api_config \<Rightarrow> limiters \<Rightarrow> limiters" where
  "applyRateLimit api s =
     (if \<not> RateLimitEnabled api then s\<lparr>rateLimiter := None, getRateLimiter := None\<rparr>
      else s\<lparr>rateLimiter := storeLimiter (rateLimiter s) (RateLimitMax api) (RateLimitWindow api),
             getRateLimiter := storeLimiter (getRateLimiter s) (RateLimitGetMax api) (RateLimitWindow api)\<rparr>)"

definition rateLimitKeys :: "limiters \<Rightarrow> int" where
  "rateLimitKeys s = (case rateLimiter s of None \<Rightarrow> 0 | Some rl \<Rightarrow> Keys rl)"

definition cleanupRateLimit :: "gotime \<Rightarrow> limiters \<Rightarrow> limiters" where
  "cleanupRateLimit now s =
     s\<lparr>rateLimiter := map_option (Cleanup now) (rateLimiter s),
       getRateLimiter := map_option (Cleanup now) (getRateLimiter s)\<rparr>"

section \<open>Refinement of a full history\<close>

text \<open>The abstract limiter: it remembers every admitted request and counts those in the window.\<close>

type_synonym history = "string \<Rightarrow> gotime list"

definition admits :: "int \<Rightarrow> duration \<Rightarrow> history \<Rightarrow> gotime \<Rightarrow> string \<Rightarrow> bool" where
  "admits mx w h now ip \<longleftrightarrow> int (length (filter (\<lambda>t. now - w < t) (h ip))) < mx"

datatype event = Request gotime string | Sweep gotime

fun event_time :: "event \<Rightarrow> gotime" where
  "event_time (Request t ip) = t"
| "event_time (Sweep t) = t"

fun spec_event :: "int \<Rightarrow> duration \<Rightarrow> event \<Rightarrow> history \<Rightarrow> history" where
  "spec_event mx w (Request now ip) h = (if admits mx w h now ip then h(ip := h ip @ [now]) else h)"
| "spec_event mx w (Sweep now) h = h"

text \<open>
  What the server relies on: a limiter, seen through the part of the history it still has to
  know at the present time, decides as the full history does, and sweeping changes nothing.
\<close>

locale window_limiter =
  fixes allow :: "gotime \<Rightarrow> string \<Rightarrow> 'l \<Rightarrow> bool \<times> 'l"
    and sweep :: "gotime \<Rightarrow> 'l \<Rightarrow> 'l"
    and recent :: "'l \<Rightarrow> gotime \<Rightarrow> string \<Rightarrow> gotime list"
    and ok :: "'l \<Rightarrow> bool"
    and mx :: int and w :: duration
  assumes allow_iff: "ok l \<Longrightarrow> fst (allow now ip l) \<longleftrightarrow> int (length (recent l (now - w) ip)) < mx"
    and recent_allow: "ok l \<Longrightarrow> now - w \<le> c \<Longrightarrow> recent (snd (allow now ip l)) c ip' =
          (if ip' = ip \<and> fst (allow now ip l) \<and> c < now then recent l c ip' @ [now] else recent l c ip')"
    and recent_sweep: "ok l \<Longrightarrow> now - w \<le> c \<Longrightarrow> recent (sweep now l) c ip = recent l c ip"
    and ok_step: "ok l \<Longrightarrow> ok (snd (allow now ip l)) \<and> ok (sweep now l)"
begin

fun handle :: "event \<Rightarrow> 'l \<Rightarrow> 'l" where
  "handle (Request now ip) l = snd (allow now ip l)"
| "handle (Sweep now) l = sweep now l"

definition tracks :: "gotime \<Rightarrow> 'l \<Rightarrow> history \<Rightarrow> bool" where
  "tracks now l h \<longleftrightarrow> (\<forall>ip c. now - w \<le> c \<longrightarrow> recent l c ip = filter (\<lambda>t. c < t) (h ip))"

lemma tracks_mono: "tracks now l h \<Longrightarrow> now \<le> now' \<Longrightarrow> tracks now' l h"
  by (auto simp: tracks_def)

lemma tracks_decides: "ok l \<Longrightarrow> tracks now l h \<Longrightarrow> fst (allow now ip l) = admits mx w h now ip"
  by (simp add: tracks_def admits_def allow_iff)

lemma tracks_handle:
  assumes "ok l" "tracks (event_time e) l h"
  shows "tracks (event_time e) (handle e l) (spec_event mx w e h)"
  using assms
proof (cases e)
  case (Request now ip)
  then have dec: "fst (allow now ip l) = admits mx w h now ip"
    using assms by (simp add: tracks_decides)
  then show ?thesis using assms Request by (auto simp: tracks_def recent_allow)
next
  case (Sweep now)
  then show ?thesis using assms by (simp add: tracks_def recent_sweep)
qed

lemma ok_handle: "ok l \<Longrightarrow> ok (handle e l)"
  by (cases e) (simp_all add: ok_step)

lemma tracks_run:
  "ok l \<Longrightarrow> tracks now l h \<Longrightarrow> sorted (now # map event_time es) \<Longrightarrow>
     ok (fold handle es l) \<and>
     tracks (last (now # map event_time es)) (fold handle es l) (fold (spec_event mx w) es h)"
proof (induction es arbitrary: now l h)
  case (Cons e es)
  have "tracks (event_time e) l h" using Cons.prems tracks_mono by auto
  then have "tracks (event_time e) (handle e l) (spec_event mx w e h)"
    using tracks_handle Cons.prems(1) by blast
  then show ?case using Cons.IH[of "handle e l" "event_time e"] ok_handle Cons.prems by simp
qed simp

end

definition allow_bool :: "gotime \<Rightarrow> string \<Rightarrow> rate_limiter \<Rightarrow> bool \<times> rate_limiter" where
  "allow_bool now ip rl = (case Allow now ip rl of (res, rl') \<Rightarrow> (res = Allowed, rl'))"

definition recent_of :: "rate_limiter \<Rightarrow> gotime \<Rightarrow> string \<Rightarrow> gotime list" where
  "recent_of rl c ip = filter (\<lambda>t. c < t) (gm_get_or [] (entries rl) ip)"

definition limiter_ok :: "int \<Rightarrow> duration \<Rightarrow> rate_limiter \<Rightarrow> bool" where
  "limiter_ok mx w rl \<longleftrightarrow> gm_wf (entries rl) \<and> rl_max rl = mx \<and> window rl = w"

lemma allow_bool_cases:
  "allow_bool now ip rl =
     (let times = recent_of rl (now - window rl) ip in
      if int (length times) < rl_max rl
      then (True, rl\<lparr>entries := gm_set ip (times @ [now]) (entries rl)\<rparr>)
      else (False, rl\<lparr>entries := gm_set ip times (entries rl)\<rparr>))"
  by (auto simp: allow_bool_def Allow_def recent_of_def Let_def split: list.splits)

lemma recent_of_narrow:
  "c' \<le> c \<Longrightarrow> filter (\<lambda>t. c < t) (recent_of rl c' ip) = recent_of rl c ip"
  by (auto simp: recent_of_def intro!: filter_cong)

lemma recent_of_set:
  "recent_of (rl\<lparr>entries := gm_set ip ts (entries rl)\<rparr>) c ip' =
     (if ip' = ip then filter (\<lambda>t. c < t) ts else recent_of rl c ip')"
  by (simp add: recent_of_def gm_get_or_def gm.get_put)

interpretation wl: window_limiter allow_bool Cleanup recent_of "limiter_ok mx w" mx w
  for mx :: int and w :: duration
proof
  fix l :: rate_limiter and now c :: gotime and ip ip' :: string
  assume ok: "limiter_ok mx w l"
  show "fst (allow_bool now ip l) \<longleftrightarrow> int (length (recent_of l (now - w) ip)) < mx"
    using ok by (simp add: allow_bool_cases Let_def limiter_ok_def)
  show "limiter_ok mx w (snd (allow_bool now ip l)) \<and> limiter_ok mx w (Cleanup now l)"
    using ok by (simp add: allow_bool_cases Let_def limiter_ok_def Cleanup_def)
  assume c: "now - w \<le> c"
  show "recent_of (snd (allow_bool now ip l)) c ip' =
      (if ip' = ip \<and> fst (allow_bool now ip l) \<and> c < now then recent_of l c ip' @ [now]
       else recent_of l c ip')"
    using ok c by (simp add: allow_bool_cases Let_def limiter_ok_def recent_of_set recent_of_narrow)
  show "recent_of (Cleanup now l) c ip = recent_of l c ip"
  proof (cases "gm_get (entries l) ip")
    case None
    then show ?thesis using ok
      by (simp add: recent_of_def gm_get_or_def Cleanup_def Let_def limiter_ok_def gm.get_drop)
  next
    case (Some ts)
    have "filter (\<lambda>t. c < t) ts = []" if "\<not> (\<exists>t \<in> set ts. now - w < t)"
      using that c by (force simp: filter_empty_conv)
    then show ?thesis using ok Some
      by (simp add: recent_of_def gm_get_or_def Cleanup_def Let_def limiter_ok_def gm.get_drop)
  qed
qed

text \<open>The server's view of one event on the limiter.\<close>

fun limiter_event :: "event \<Rightarrow> rate_limiter \<Rightarrow> rate_limiter" where
  "limiter_event (Request now ip) rl = snd (Allow now ip rl)"
| "limiter_event (Sweep now) rl = Cleanup now rl"

lemma limiter_event_handle: "limiter_event e rl = wl.handle e rl"
  by (cases e) (auto simp: allow_bool_def split: prod.splits)

lemma limiter_runs:
  assumes "sorted (map event_time es)"
  shows "limiter_ok mx w (fold limiter_event es (NewRateLimiter mx w)) \<and>
    (\<forall>now. (\<forall>e \<in> set es. event_time e \<le> now) \<longrightarrow>
      wl.tracks w now (fold limiter_event es (NewRateLimiter mx w)) (fold (spec_event mx w) es (\<lambda>_. [])))"
proof -
  let ?l = "NewRateLimiter mx w"
  have init: "limiter_ok mx w ?l" "wl.tracks w t ?l (\<lambda>_. [])" for t
    by (simp_all add: limiter_ok_def NewRateLimiter_def wl.tracks_def recent_of_def gm_get_or_def)
  have fold: "fold limiter_event es ?l = fold wl.handle es ?l"
    by (rule fold_cong) (auto simp: limiter_event_handle)
  define t0 where "t0 = (case es of [] \<Rightarrow> 0 | e # _ \<Rightarrow> event_time e)"
  have s: "sorted (t0 # map event_time es)" using assms by (cases es) (auto simp: t0_def)
  note run = wl.tracks_run[OF init s]
  have "wl.tracks w now (fold wl.handle es ?l) (fold (spec_event mx w) es (\<lambda>_. []))"
    if "\<forall>e \<in> set es. event_time e \<le> now" for now
  proof (cases "es = []")
    case True
    then show ?thesis using init by simp
  next
    case False
    then have "last (t0 # map event_time es) \<le> now" using that by (simp add: last_map)
    then show ?thesis using wl.tracks_mono run by blast
  qed
  then show ?thesis using run fold by simp
qed

lemma spec_window_bound:
  assumes "sorted (map event_time es)"
  shows "(\<forall>ip t. int (length (filter (\<lambda>a. t - w < a \<and> a \<le> t) (fold (spec_event mx w) es (\<lambda>_. []) ip))) \<le> max mx 0) \<and>
    (\<forall>ip. \<forall>a \<in> set (fold (spec_event mx w) es (\<lambda>_. []) ip). \<exists>e \<in> set es. a = event_time e)"
  using assms
proof (induction es rule: rev_induct)
  case (snoc e es)
  let ?h = "fold (spec_event mx w) es (\<lambda>_. [])"
  have s: "sorted (map event_time es)" "\<And>x. x \<in> set es \<Longrightarrow> event_time x \<le> event_time e"
    using snoc.prems by (auto simp: sorted_append)
  note IH = snoc.IH[OF s(1)]
  have past: "a \<le> event_time e" if "a \<in> set (?h ip)" for a ip
    using IH s(2) that by (metis (no_types, lifting))
  show ?case
  proof (cases e)
    case (Request now ip)
    have "int (length (filter (\<lambda>a. t - w < a \<and> a \<le> t) (?h ip @ [now]))) \<le> max mx 0"
      if adm: "admits mx w ?h now ip" for t
    proof (cases "now \<le> t")
      case False
      then show ?thesis using IH by simp
    next
      case True
      have "length (filter (\<lambda>a. t - w < a \<and> a \<le> t) (?h ip)) \<le> length (filter (\<lambda>a. now - w < a) (?h ip))"
        using True by (auto simp: length_filter_conv_card intro!: card_mono)
      then show ?thesis using adm by (simp add: admits_def)
    qed
    then show ?thesis using IH Request by auto
  next
    case (Sweep now)
    then show ?thesis using IH by auto
  qed
qed simp

section \<open>Properties\<close>

text \<open>
  C10. The limiter decides as the full history would. For any interleaving of requests and sweeps
  in clock order, the next request is admitted exactly when fewer than \<open>max\<close> requests of the
  same client were admitted within the window before it: forgetting old hits and evicting idle
  clients is never observable.
\<close>

theorem limiter_refines_history:
  assumes "sorted (map event_time es)" "\<forall>e \<in> set es. event_time e \<le> now"
  shows "fst (Allow now ip (fold limiter_event es (NewRateLimiter mx w))) = Allowed \<longleftrightarrow>
    admits mx w (fold (spec_event mx w) es (\<lambda>_. [])) now ip"
proof -
  let ?l = "fold limiter_event es (NewRateLimiter mx w)"
  have "fst (allow_bool now ip ?l) = admits mx w (fold (spec_event mx w) es (\<lambda>_. [])) now ip"
    using limiter_runs[OF assms(1)] assms(2) by (intro wl.tracks_decides) auto
  then show ?thesis by (simp add: allow_bool_def split: prod.splits)
qed

theorem limiter_refines_history_witness:
  "fst (Allow 12 ''a'' (fold limiter_event [Request 5 ''a'', Sweep 7, Request 8 ''b''] (NewRateLimiter 1 10))) \<noteq> Allowed"
  using limiter_refines_history[of "[Request 5 ''a'', Sweep 7, Request 8 ''b'']" 12 "''a''" 1 10]
  by (simp add: admits_def)



text \<open>
  A limit below one panics. With \<open>max\<close> at or below zero the first request of a client reads
  the oldest hit of an empty slice.
\<close>

theorem limiter_nonpositive_max_panics:
  "fst (Allow now ip (NewRateLimiter mx w)) = AllowPanic \<longleftrightarrow> mx \<le> 0"
  by (auto simp: Allow_def NewRateLimiter_def gm_get_or_def Let_def)

lemma walk_hops_append:
  "walk_hops net trusted xs = Some h \<Longrightarrow> walk_hops net trusted (xs @ ys) = Some h"
  by (induction xs) (auto simp: Let_def split: if_splits option.splits)

text \<open>
  C36. A client cannot choose its address. Whatever it puts in front of the hops its proxies
  append to \<open>X-Forwarded-For\<close>, the attribution is that of the appended hops, as soon as these
  name an untrusted one; and when the peer is not a trusted proxy the header is ignored.
\<close>

theorem client_ip_not_spoofable:
  assumes "walk_hops net trusted (rev (split_on (CHR '','') hops)) = Some h" "hops \<noteq> []"
  shows "clientIP net (r\<lparr>xff_header := forged @ CHR '','' # hops\<rparr>) trusted =
      clientIP net (r\<lparr>xff_header := hops\<rparr>) trusted \<and>
    (trusted = [] \<longrightarrow> clientIP net (r\<lparr>xff_header := hops\<rparr>) trusted = clientIP net (r\<lparr>xff_header := []\<rparr>) trusted)"
proof -
  have "walk_hops net trusted (rev (split_on (CHR '','') (forged @ CHR '','' # hops))) = Some h"
    using walk_hops_append[OF assms(1)] by (simp add: split_on_middle)
  then show ?thesis using assms
    by (auto simp: clientIP_def ipInPrefixes_def Let_def split: option.splits)
qed

text \<open>Addresses that are their own text, to run the attribution on concrete headers.\<close>

definition text_netip :: "(string, string) netip" where
  "text_netip = \<lparr>split_host_port = (\<lambda>_. None), ParseAddr = Some, ParsePrefix = Some,
     host_prefix = (\<lambda>a. a), Unmap = (\<lambda>a. a), addr_string = (\<lambda>a. a), Contains = (=),
     is6 = (\<lambda>_. False), is4in6 = (\<lambda>_. False), masked64 = (\<lambda>a. a)\<rparr>"

theorem client_ip_not_spoofable_witness:
  "clientIP text_netip \<lparr>http_method = ''POST'', RemoteAddr = ''p'', xff_header = ''x,c''\<rparr> [''p''] = ''c''"
proof -
  have "walk_hops text_netip [''p''] (rev (split_on (CHR '','') ''c'')) = Some ''c''" by code_simp
  from client_ip_not_spoofable[OF this, where r = "\<lparr>http_method = ''POST'', RemoteAddr = ''p'', xff_header = []\<rparr>" and forged = "''x''"]
  have "clientIP text_netip \<lparr>http_method = ''POST'', RemoteAddr = ''p'', xff_header = ''x,c''\<rparr> [''p''] =
      clientIP text_netip \<lparr>http_method = ''POST'', RemoteAddr = ''p'', xff_header = ''c''\<rparr> [''p'']" by simp
  also have "\<dots> = ''c''" by code_simp
  finally show ?thesis .
qed

end
