(* ===== verification/Scoring.thy ===== *)
theory Scoring
  imports Prelude
begin

text \<open>
  The scoring engine (\<open>scoring/scoring.go\<close>, \<open>scoring/bonus.go\<close>, \<open>scoring/config.go\<close>): penalties
  per category, the weighted aggregate in float64 arithmetic, the letter grade and the A+
  criteria.

  The configuration's maps are association lists; their order is the order in which the two
  \<open>range\<close> loops over \<open>CategoryWeights\<close> visit the categories. The nil-pointer dereference of a
  category that has no weight is the result \<open>None\<close>.
  A product and a sum are rounded separately, as on amd64; platforms with a fused multiply-add may
  round once.
\<close>

section \<open>Configuration\<close>

record bonus_criteria_config =
  NoWarningsOrErrors :: bool
  DNSSECEnabled :: bool
  StrongAlgorithm :: bool
  NSEC3NonOptout :: bool
  CDSCDNSKEYPublished :: bool
  IPv6AllNameservers :: bool
  ASDiversity :: bool

record grade_band =
  band_grade :: string
  MinScore :: int

record scoring_config =
  SeverityPenalties :: "(string, int) gomap"
  CategoryWeights :: "(string, rat) gomap"
  ModuleCategories :: "(string, string) gomap"
  TagPenalties :: "(string, int) gomap"
  GradeBands :: "grade_band list"
  BonusCriteria :: bonus_criteria_config

definition renamedTags :: "(string, string) gomap" where
  "renamedTags =
     [(''IN_BAILIWICK_ADDR_MISMATCH'', ''IN_DOMAIN_ADDR_MISMATCH''),
      (''OUT_OF_BAILIWICK_ADDR_MISMATCH'', ''NOT_IN_DOMAIN_ADDR_MISMATCH''),
      (''IN_BAILIWICK_GLUE_MISSING'', ''IN_DOMAIN_GLUE_MISSING'')]"

definition migrate_one :: "string \<times> string \<Rightarrow> (string, int) gomap \<Rightarrow> (string, int) gomap" where
  "migrate_one = (\<lambda>(old, current) penalties.
     case gm_get penalties old of
       None \<Rightarrow> penalties
     | Some penalty \<Rightarrow>
         let p = gm_del old penalties
         in if gm_has p current then p else gm_set current penalty p)"

text \<open>The loop visits the renames in the order of the first argument.\<close>

definition migrateRenamedTags :: "(string, string) gomap \<Rightarrow> (string, int) gomap \<Rightarrow> (string, int) gomap" where
  "migrateRenamedTags renames penalties = fold migrate_one renames penalties"

definition DefaultConfig :: scoring_config where
  "DefaultConfig = \<lparr>
     SeverityPenalties = [(''NOTICE'', 1), (''WARNING'', 5), (''ERROR'', 20), (''CRITICAL'', 0)],
     CategoryWeights = [(''dnssec'', fl (15 / 10)), (''nameserver_health'', fl (12 / 10)),
       (''connectivity'', fl 1), (''zone_consistency'', fl (8 / 10))],
     ModuleCategories = [(''DNSSEC'', ''dnssec''), (''NAMESERVER'', ''nameserver_health''),
       (''BASIC'', ''nameserver_health''), (''DELEGATION'', ''nameserver_health''),
       (''CONNECTIVITY'', ''connectivity''), (''ADDRESS'', ''connectivity''),
       (''CONSISTENCY'', ''zone_consistency''), (''ZONE'', ''zone_consistency''),
       (''SYNTAX'', ''zone_consistency'')],
     TagPenalties = [(''CN05_ANSWER_NEEDS_TCP'', 0), (''DS07_NOT_SIGNED'', 20),
       (''DS07_NO_DS_FOR_SIGNED_ZONE'', 20), (''DS02_RSA_EXPONENT_UNSUPPORTED'', 0),
       (''DS08_RSA_EXPONENT_UNSUPPORTED'', 0), (''DS09_RSA_EXPONENT_UNSUPPORTED'', 0),
       (''DNSKEY_RSA_EXPONENT_LARGE'', 0), (''DS19_BLOCKLIST_NOT_FOUND'', 0),
       (''NO_IPV6_NS_CHILD'', 20), (''NO_IPV6_NS_DEL'', 20), (''N15_SOFTWARE_VERSION'', 0),
       (''N16_HAS_NSID'', 0), (''N18_EXTENDED_ERROR_REPORTED'', 0), (''N18_FILTERED_RESPONSE'', 0),
       (''N18_NO_EXTENDED_ERROR'', 0), (''N18_NO_RESPONSE'', 0),
       (''N18_RESOLVER_BEHAVIOR_REPORTED'', 0), (''N18_SERVER_ERROR_REPORTED'', 0),
       (''Z11_SPF_UNKNOWN_MODIFIER'', 0), (''Z13_SPF_MACRO_TARGET'', 0)],
     GradeBands = [\<lparr>band_grade = ''A'', MinScore = 90\<rparr>, \<lparr>band_grade = ''B'', MinScore = 75\<rparr>,
       \<lparr>band_grade = ''C'', MinScore = 60\<rparr>, \<lparr>band_grade = ''D'', MinScore = 40\<rparr>,
       \<lparr>band_grade = ''F'', MinScore = 0\<rparr>],
     BonusCriteria = \<lparr>NoWarningsOrErrors = True, DNSSECEnabled = True, StrongAlgorithm = True,
       NSEC3NonOptout = True, CDSCDNSKEYPublished = True, IPv6AllNameservers = True,
       ASDiversity = True\<rparr>\<rparr>"

section \<open>The A+ criteria\<close>

record scoring_entry =
  e_module :: string
  e_tag :: string
  e_level :: string

text \<open>A criterion that is \<open>nil\<close> does not apply.\<close>

type_synonym criterion = "bool option"

type_synonym tag_set = "(string, bool) gomap"

abbreviation has_tag :: "tag_set \<Rightarrow> string \<Rightarrow> bool" where
  "has_tag tags t \<equiv> gm_get_or False tags t"

definition noWarningsOrErrors :: "scoring_entry list \<Rightarrow> bool" where
  "noWarningsOrErrors entries =
     list_all (\<lambda>e. to_upper (e_level e) \<notin> {''WARNING'', ''ERROR'', ''CRITICAL''}) entries"

definition dnssecEnabled :: "tag_set \<Rightarrow> criterion" where
  "dnssecEnabled tags = (if has_tag tags ''DS07_SIGNED'' then Some True else Some False)"

definition strongAlgorithm :: "tag_set \<Rightarrow> criterion" where
  "strongAlgorithm tags =
     (if list_ex (has_tag tags)
           [''DS05_ALGO_DEPRECATED'', ''DS05_ALGO_NOT_RECOMMENDED'', ''DS01_DS_ALGO_DEPRECATED'']
      then Some False
      else if has_tag tags ''DS05_ALGO_OK'' \<or> has_tag tags ''DS01_DS_ALGO_OK'' then Some True
      else Some False)"

definition nsec3NonOptout :: "tag_set \<Rightarrow> criterion" where
  "nsec3NonOptout tags =
     (if has_tag tags ''DS03_NSEC3_OPT_OUT_ENABLED_TLD'' then None
      else if has_tag tags ''DS03_NSEC3_OPT_OUT_ENABLED_NON_TLD'' then Some False
      else if has_tag tags ''DS03_NSEC3_OPT_OUT_DISABLED'' \<or> has_tag tags ''DS03_NO_NSEC3'' then Some True
      else Some False)"

definition isTLDZone :: "string \<Rightarrow> bool" where
  "isTLDZone domain = (\<not> contains (trim_suffix domain ''.'') ''.'')"

definition cdsCDNSKEYPublished :: "string \<Rightarrow> tag_set \<Rightarrow> criterion" where
  "cdsCDNSKEYPublished domain tags =
     (if isTLDZone domain then None
      else if list_ex (has_tag tags)
           [''DS15_HAS_CDS_AND_CDNSKEY'', ''DS15_HAS_CDS_NO_CDNSKEY'', ''DS15_HAS_CDNSKEY_NO_CDS'']
      then Some True
      else if has_tag tags ''DS18_NO_CDS_CDNSKEY_BUT_ROLLOVER_EVIDENCE'' then None
      else Some False)"

definition ipv6AllNameservers :: "tag_set \<Rightarrow> criterion" where
  "ipv6AllNameservers tags =
     (if has_tag tags ''IPV6_DISABLED'' \<or> has_tag tags ''CN01_IPV6_DISABLED'' then Some False
      else if has_tag tags ''IPV6_ONE_ASN'' \<or> has_tag tags ''IPV6_SAME_ASN'' \<or>
              has_tag tags ''IPV6_DIFFERENT_ASN'' then Some True
      else None)"

definition asDiversity :: "tag_set \<Rightarrow> criterion" where
  "asDiversity tags =
     (if has_tag tags ''IPV4_DIFFERENT_ASN'' \<or> has_tag tags ''IPV6_DIFFERENT_ASN'' then Some True
      else let hasIPv4Single = has_tag tags ''IPV4_ONE_ASN'' \<or> has_tag tags ''IPV4_SAME_ASN'';
               hasIPv6Single = has_tag tags ''IPV6_ONE_ASN'' \<or> has_tag tags ''IPV6_SAME_ASN''
           in if hasIPv4Single \<or> hasIPv6Single then Some False else Some False)"

definition allCriteriaMet :: "(string, criterion) gomap \<Rightarrow> bool" where
  "allCriteriaMet criteria = list_all (\<lambda>(k, v). v \<noteq> Some False) criteria"

record bonus_result =
  Eligible :: bool
  Criteria :: "(string, criterion) gomap"

definition tag_set_of :: "scoring_entry list \<Rightarrow> tag_set" where
  "tag_set_of entries = fold (\<lambda>e. gm_set (to_upper (e_tag e)) True) entries []"

definition evaluateBonus ::
  "string \<Rightarrow> scoring_entry list \<Rightarrow> int \<Rightarrow> bonus_criteria_config \<Rightarrow> bonus_result" where
  "evaluateBonus domain entries score cfg =
     (let tags = tag_set_of entries;
          put = (\<lambda>on k v m. if on then gm_set k v m else m);
          c = put (NoWarningsOrErrors cfg) ''no_warnings_or_errors'' (Some (noWarningsOrErrors entries)) [];
          c = put (DNSSECEnabled cfg) ''dnssec_enabled'' (dnssecEnabled tags) c;
          c = put (StrongAlgorithm cfg) ''strong_algorithm'' (strongAlgorithm tags) c;
          c = put (NSEC3NonOptout cfg) ''nsec3_non_optout'' (nsec3NonOptout tags) c;
          c = put (CDSCDNSKEYPublished cfg) ''cds_cdnskey_published'' (cdsCDNSKEYPublished domain tags) c;
          c = put (IPv6AllNameservers cfg) ''ipv6_all_nameservers'' (ipv6AllNameservers tags) c;
          c = put (ASDiversity cfg) ''as_diversity'' (asDiversity tags) c
      in \<lparr>Eligible = (score = 100 \<and> allCriteriaMet c), Criteria = c\<rparr>)"

section \<open>The score\<close>

record category_result =
  cat_score :: int
  cat_penalties :: int
  cat_entryCount :: int
  Tested :: bool

record scoring_result =
  Score :: int
  Grade :: string
  Categories :: "(string, category_result) gomap"
  Bonus :: bonus_result
  DisabledStacks :: "string list"

record cat_accum =
  penalties :: int
  entryCount :: int
  totalEntries :: int
  acc_hasCritical :: bool

record accum_state =
  cats :: "(string, cat_accum) gomap"
  hasCritical :: bool
  ipv4Disabled :: bool
  ipv6Disabled :: bool

definition empty_accum :: cat_accum where
  "empty_accum = \<lparr>penalties = 0, entryCount = 0, totalEntries = 0, acc_hasCritical = False\<rparr>"

definition is_critical :: "scoring_entry \<Rightarrow> bool" where
  "is_critical e = (to_upper (e_level e) = ''CRITICAL'')"

text \<open>The penalty of an entry: the tag table first, then the severity table; 0 when neither has it.\<close>

definition entry_penalty :: "scoring_config \<Rightarrow> scoring_entry \<Rightarrow> int" where
  "entry_penalty cfg e =
     (case gm_get (TagPenalties cfg) (to_upper (e_tag e)) of
        Some p \<Rightarrow> p
      | None \<Rightarrow> (case gm_get (SeverityPenalties cfg) (to_upper (e_level e)) of Some p \<Rightarrow> p | None \<Rightarrow> 0))"

definition charge :: "scoring_config \<Rightarrow> scoring_entry \<Rightarrow> cat_accum \<Rightarrow> cat_accum" where
  "charge cfg e a =
     (let a = a\<lparr>totalEntries := totalEntries a + 1,
                acc_hasCritical := acc_hasCritical a \<or> is_critical e\<rparr>;
          p = entry_penalty cfg e
      in if p = 0 then a else a\<lparr>penalties := penalties a + p, entryCount := entryCount a + 1\<rparr>)"

text \<open>The flags of the run that an entry raises.\<close>

definition note_flags :: "scoring_entry \<Rightarrow> accum_state \<Rightarrow> accum_state" where
  "note_flags e st =
     (let t = to_upper (e_tag e);
          st = (if t = ''IPV4_DISABLED'' \<or> t = ''CN01_IPV4_DISABLED'' then st\<lparr>ipv4Disabled := True\<rparr>
                else if t = ''IPV6_DISABLED'' \<or> t = ''CN01_IPV6_DISABLED'' then st\<lparr>ipv6Disabled := True\<rparr>
                else st)
      in if is_critical e then st\<lparr>hasCritical := True\<rparr> else st)"

text \<open>One turn of the loop over the entries; \<open>None\<close> is the nil dereference of an unweighted category.\<close>

definition accumulate :: "scoring_config \<Rightarrow> scoring_entry \<Rightarrow> accum_state \<Rightarrow> accum_state option" where
  "accumulate cfg e st0 =
     (let st = note_flags e st0
      in case gm_get (ModuleCategories cfg) (to_upper (e_module e)) of
           None \<Rightarrow> Some st
         | Some cat \<Rightarrow>
             (case gm_get (cats st) cat of
                None \<Rightarrow> None
              | Some a \<Rightarrow> Some (st\<lparr>cats := gm_set cat (charge cfg e a) (cats st)\<rparr>)))"

fun accumulate_all :: "scoring_config \<Rightarrow> scoring_entry list \<Rightarrow> accum_state \<Rightarrow> accum_state option" where
  "accumulate_all cfg [] st = Some st"
| "accumulate_all cfg (e # es) st =
     (case accumulate cfg e st of None \<Rightarrow> None | Some st' \<Rightarrow> accumulate_all cfg es st')"

definition initial_accums :: "scoring_config \<Rightarrow> accum_state" where
  "initial_accums cfg =
     \<lparr>cats = map (\<lambda>(cat, w). (cat, empty_accum)) (CategoryWeights cfg),
      hasCritical = False, ipv4Disabled = False, ipv6Disabled = False\<rparr>"

definition sub_score :: "bool \<Rightarrow> cat_accum \<Rightarrow> int" where
  "sub_score critical a = (if critical then 0 else max (100 - penalties a) 0)"

text \<open>The second loop: the running weighted sum and total weight, each operation rounded.\<close>

definition weigh :: "(string \<Rightarrow> int) \<Rightarrow> string \<times> rat \<Rightarrow> rat \<times> rat \<Rightarrow> rat \<times> rat" where
  "weigh sub = (\<lambda>(cat, weight) (weightedSum, totalWeight).
     (fl (weightedSum + fl (fl (of_int (sub cat)) * weight)), fl (totalWeight + weight)))"

definition aggregate_score :: "(string, rat) gomap \<Rightarrow> (string \<Rightarrow> int) \<Rightarrow> int" where
  "aggregate_score weights sub =
     (case fold (weigh sub) weights (0, 0) of (weightedSum, totalWeight) \<Rightarrow>
        let a = (if totalWeight > 0 then float_to_int (fl (weightedSum / totalWeight)) else 0);
            a = (if a > 100 then 100 else a)
        in if a < 0 then 0 else a)"

fun scoreToGrade :: "int \<Rightarrow> grade_band list \<Rightarrow> string" where
  "scoreToGrade score [] = ''F''"
| "scoreToGrade score (band # bands) =
     (if score \<ge> MinScore band then band_grade band else scoreToGrade score bands)"

definition accum_of :: "accum_state \<Rightarrow> string \<Rightarrow> cat_accum" where
  "accum_of st cat = gm_get_or empty_accum (cats st) cat"

definition Compute :: "string \<Rightarrow> scoring_entry list \<Rightarrow> scoring_config \<Rightarrow> scoring_result option" where
  "Compute domain entries cfg =
     (case accumulate_all cfg entries (initial_accums cfg) of
        None \<Rightarrow> None
      | Some st \<Rightarrow>
          let sub = (\<lambda>cat. sub_score (hasCritical st) (accum_of st cat));
              categories = map (\<lambda>(cat, w). (cat,
                 \<lparr>cat_score = sub cat, cat_penalties = penalties (accum_of st cat),
                  cat_entryCount = entryCount (accum_of st cat),
                  Tested = (totalEntries (accum_of st cat) > 0)\<rparr>)) (CategoryWeights cfg);
              agg = aggregate_score (CategoryWeights cfg) sub;
              agg = (if hasCritical st \<and> agg > 10 then 10 else agg);
              grade = scoreToGrade agg (GradeBands cfg);
              bonus = evaluateBonus domain entries agg (BonusCriteria cfg);
              grade = (if Eligible bonus then ''A+'' else grade)
          in Some \<lparr>Score = agg, Grade = grade, Categories = categories, Bonus = bonus,
                   DisabledStacks = (if ipv4Disabled st then [''ipv4''] else []) @
                                    (if ipv6Disabled st then [''ipv6''] else [])\<rparr>)"

section \<open>What the entry loop computes\<close>

definition category_of :: "scoring_config \<Rightarrow> scoring_entry \<Rightarrow> string option" where
  "category_of cfg e = gm_get (ModuleCategories cfg) (to_upper (e_module e))"

definition entries_in :: "scoring_config \<Rightarrow> string \<Rightarrow> scoring_entry list \<Rightarrow> scoring_entry list" where
  "entries_in cfg cat es = filter (\<lambda>e. category_of cfg e = Some cat) es"

lemma charge_fields:
  "penalties (charge cfg e a) = penalties a + entry_penalty cfg e"
  "entryCount (charge cfg e a) = entryCount a + (if entry_penalty cfg e = 0 then 0 else 1)"
  "totalEntries (charge cfg e a) = totalEntries a + 1"
  by (simp_all add: charge_def Let_def)

lemma note_flags_fields [simp]:
  "cats (note_flags e st) = cats st" "hasCritical (note_flags e st) = (hasCritical st \<or> is_critical e)"
  by (simp_all add: note_flags_def Let_def)

lemma accumulate_cases:
  assumes "accumulate cfg e st = Some st'"
  shows "hasCritical st' = (hasCritical st \<or> is_critical e)"
    "accum_of st' cat = (if category_of cfg e = Some cat then charge cfg e (accum_of st cat) else accum_of st cat)"
    "gm_has (cats st') cat = gm_has (cats st) cat"
  using assms by (auto simp: accumulate_def Let_def category_of_def accum_of_def gm_get_or_def gm_has_def
      gm.get_put split: option.splits if_splits)

lemma accumulate_all_spec:
  assumes "accumulate_all cfg es st = Some st'"
  shows "hasCritical st' = (hasCritical st \<or> (\<exists>e \<in> set es. is_critical e))"
    "penalties (accum_of st' cat) = penalties (accum_of st cat) + sum_list (map (entry_penalty cfg) (entries_in cfg cat es))"
    "entryCount (accum_of st' cat) = entryCount (accum_of st cat) +
       int (length (filter (\<lambda>e. entry_penalty cfg e \<noteq> 0) (entries_in cfg cat es)))"
    "totalEntries (accum_of st' cat) = totalEntries (accum_of st cat) + int (length (entries_in cfg cat es))"
  using assms
proof (induction es arbitrary: st)
  case (Cons e es)
  {
    case 1
    then show ?case using Cons.IH(1) by (fastforce simp: accumulate_cases(1) split: option.splits)
  next
    case 2
    then show ?case using Cons.IH(2)
      by (fastforce simp: accumulate_cases(2) charge_fields entries_in_def split: option.splits)
  next
    case 3
    then show ?case using Cons.IH(3)
      by (fastforce simp: accumulate_cases(2) charge_fields entries_in_def split: option.splits)
  next
    case 4
    then show ?case using Cons.IH(4)
      by (fastforce simp: accumulate_cases(2) charge_fields entries_in_def split: option.splits)
  }
qed (simp_all add: entries_in_def)

lemma accumulate_None:
  "accumulate cfg e st = None \<longleftrightarrow> (\<exists>cat. category_of cfg e = Some cat \<and> \<not> gm_has (cats st) cat)"
  by (auto simp: accumulate_def Let_def category_of_def gm_has_def split: option.splits)

lemma accumulate_all_None:
  "accumulate_all cfg es st = None \<longleftrightarrow>
     (\<exists>e \<in> set es. \<exists>cat. category_of cfg e = Some cat \<and> \<not> gm_has (cats st) cat)"
proof (induction es arbitrary: st)
  case (Cons e es)
  show ?case
  proof (cases "accumulate cfg e st")
    case None
    then show ?thesis using accumulate_None[of cfg e st] by auto
  next
    case (Some st')
    then have "\<not> (\<exists>cat. category_of cfg e = Some cat \<and> \<not> gm_has (cats st) cat)"
      using accumulate_None[of cfg e st] by auto
    then show ?thesis using Some Cons.IH[of st'] accumulate_cases(3)[OF Some] by auto
  qed
qed simp

lemma initial_accums_fields:
  "accum_of (initial_accums cfg) cat = empty_accum" "hasCritical (initial_accums cfg) = False"
  "gm_has (cats (initial_accums cfg)) cat = gm_has (CategoryWeights cfg) cat"
proof -
  have "gm_get (map (\<lambda>(cat, w). (cat, empty_accum)) ws) cat =
      map_option (\<lambda>_. empty_accum) (gm_get ws cat)" for ws :: "(string, rat) gomap"
    by (induction ws) (auto simp: gm_get_def)
  then show "accum_of (initial_accums cfg) cat = empty_accum"
    "gm_has (cats (initial_accums cfg)) cat = gm_has (CategoryWeights cfg) cat"
    by (auto simp: accum_of_def initial_accums_def gm_get_or_def gm_has_def split: option.splits)
qed (simp add: initial_accums_def)

text \<open>The sub-score of a category as a function of the entries alone.\<close>

definition sub_of :: "scoring_config \<Rightarrow> scoring_entry list \<Rightarrow> string \<Rightarrow> int" where
  "sub_of cfg es cat =
     (if \<exists>e \<in> set es. is_critical e then 0
      else max (100 - sum_list (map (entry_penalty cfg) (entries_in cfg cat es))) 0)"

lemma Compute_None:
  "Compute d es cfg = None \<longleftrightarrow>
     (\<exists>e \<in> set es. \<exists>cat. category_of cfg e = Some cat \<and> \<not> gm_has (CategoryWeights cfg) cat)"
  using accumulate_all_None[of cfg es "initial_accums cfg"]
  by (cases "accumulate_all cfg es (initial_accums cfg)")
    (simp_all add: Compute_def Let_def initial_accums_fields)

lemma Compute_Some:
  assumes "Compute d es cfg = Some r"
  shows "Score r = (let a = aggregate_score (CategoryWeights cfg) (sub_of cfg es) in
      if (\<exists>e \<in> set es. is_critical e) \<and> a > 10 then 10 else a)"
    "Bonus r = evaluateBonus d es (Score r) (BonusCriteria cfg)"
    "Grade r = (if Eligible (Bonus r) then ''A+'' else scoreToGrade (Score r) (GradeBands cfg))"
    "Categories r = map (\<lambda>(cat, w). (cat,
       \<lparr>cat_score = sub_of cfg es cat,
        cat_penalties = sum_list (map (entry_penalty cfg) (entries_in cfg cat es)),
        cat_entryCount = int (length (filter (\<lambda>e. entry_penalty cfg e \<noteq> 0) (entries_in cfg cat es))),
        Tested = (entries_in cfg cat es \<noteq> [])\<rparr>)) (CategoryWeights cfg)"
proof -
  obtain st where st: "accumulate_all cfg es (initial_accums cfg) = Some st"
    using assms by (auto simp: Compute_def split: option.splits)
  note sp = accumulate_all_spec[OF st, unfolded initial_accums_fields]
  have crit: "hasCritical st = (\<exists>e \<in> set es. is_critical e)" using sp(1) by simp
  have sub: "sub_score (\<exists>e \<in> set es. is_critical e) (accum_of st cat) = sub_of cfg es cat" for cat
    by (simp add: sub_score_def sub_of_def sp empty_accum_def)
  show "Score r = (let a = aggregate_score (CategoryWeights cfg) (sub_of cfg es) in
      if (\<exists>e \<in> set es. is_critical e) \<and> a > 10 then 10 else a)"
    "Bonus r = evaluateBonus d es (Score r) (BonusCriteria cfg)"
    "Grade r = (if Eligible (Bonus r) then ''A+'' else scoreToGrade (Score r) (GradeBands cfg))"
    "Categories r = map (\<lambda>(cat, w). (cat,
       \<lparr>cat_score = sub_of cfg es cat,
        cat_penalties = sum_list (map (entry_penalty cfg) (entries_in cfg cat es)),
        cat_entryCount = int (length (filter (\<lambda>e. entry_penalty cfg e \<noteq> 0) (entries_in cfg cat es))),
        Tested = (entries_in cfg cat es \<noteq> [])\<rparr>)) (CategoryWeights cfg)"
    using assms by (auto simp: Compute_def Let_def st crit sub sp(2-4) empty_accum_def)
qed

section \<open>Accuracy of the aggregate\<close>

definition lo :: rat where "lo = 1 - unit_roundoff"
definition hi :: rat where "hi = 1 + unit_roundoff"

lemma lo_hi: "0 < lo" "lo \<le> 1" "1 \<le> hi"
  by (simp_all add: lo_def hi_def unit_roundoff_def)

text \<open>\<open>approx k x y\<close>: \<open>y\<close> is \<open>x\<close> up to at most \<open>k\<close> roundings.\<close>

definition approx :: "nat \<Rightarrow> rat \<Rightarrow> rat \<Rightarrow> bool" where
  "approx k x y \<longleftrightarrow> lo ^ k * x \<le> y \<and> y \<le> hi ^ k * x"

lemma approx_mono: "approx j x y \<Longrightarrow> 0 \<le> x \<Longrightarrow> j \<le> k \<Longrightarrow> approx k x y"
proof -
  assume w: "approx j x y" "0 \<le> x" "j \<le> k"
  have "lo ^ k * x \<le> lo ^ j * x" "hi ^ j * x \<le> hi ^ k * x"
    using w lo_hi by (simp_all add: mult_right_mono power_decreasing power_increasing)
  then show "approx k x y" using w(1) by (auto simp: approx_def)
qed

lemma approx_fl: "approx k x y \<Longrightarrow> 0 \<le> x \<Longrightarrow> approx (Suc k) x (fl y)"
proof -
  assume w: "approx k x y" "0 \<le> x"
  have y: "0 \<le> y" using w lo_hi by (meson approx_def mult_nonneg_nonneg order.trans zero_le_power less_imp_le)
  have "lo * (lo ^ k * x) \<le> lo * y" "hi * y \<le> hi * (hi ^ k * x)"
    using w lo_hi by (auto simp: approx_def intro!: mult_left_mono)
  then show "approx (Suc k) x (fl y)"
    using fl_error[OF y] by (auto simp: approx_def lo_def hi_def mult.commute mult.left_commute)
qed

lemma approx_add: "approx k x y \<Longrightarrow> approx k x' y' \<Longrightarrow> approx k (x + x') (y + y')"
  by (simp add: approx_def distrib_left add_mono)

lemma approx_mult: "approx k x y \<Longrightarrow> 0 \<le> c \<Longrightarrow> approx k (x * c) (y * c)"
  by (simp add: approx_def flip: mult.assoc) (simp add: mult_right_mono)

lemma approx_refl: "approx 0 x x"
  by (simp add: approx_def)

lemma weigh_error:
  assumes "2 \<le> k" "approx k A a" "approx k B b" "0 \<le> A" "0 \<le> B"
    "\<forall>(c, w) \<in> set ws. 0 \<le> w \<and> 0 \<le> sub c"
  shows "case fold (weigh sub) ws (a, b) of (a', b') \<Rightarrow>
    approx (k + length ws) (A + (\<Sum>(c, w) \<leftarrow> ws. of_int (sub c) * w)) a' \<and>
    approx (k + length ws) (B + (\<Sum>(c, w) \<leftarrow> ws. w)) b'"
  using assms
proof (induction ws arbitrary: k A B a b)
  case (Cons cw ws)
  obtain c w where cw: "cw = (c, w)" by fastforce
  have pos: "0 \<le> w" "0 \<le> sub c" using Cons.prems cw by auto
  let ?t = "of_int (sub c) * w" and ?ft = "fl (fl (of_int (sub c)) * w)"
  have "approx (Suc 0) (of_int (sub c)) (fl (of_int (sub c)))"
    using pos by (intro approx_fl approx_refl) auto
  then have "approx 2 ?t ?ft"
    using pos by (auto intro!: approx_fl approx_mult simp: numeral_2_eq_2)
  then have t: "approx k ?t ?ft" using approx_mono pos Cons.prems(1) by simp
  have a: "approx (Suc k) (A + ?t) (fl (a + ?ft))"
    using approx_add[OF Cons.prems(2) t] pos Cons.prems(4) by (intro approx_fl) auto
  have "approx k w w" using approx_mono[OF approx_refl pos(1)] by simp
  then have b: "approx (Suc k) (B + w) (fl (b + w))"
    using approx_add Cons.prems(3,5) pos by (intro approx_fl) auto
  show ?case
    using Cons.IH[OF _ a b] Cons.prems pos
    by (simp add: cw weigh_def add.assoc) 
qed simp

text \<open>The exact weighted average of the sub-scores.\<close>

definition exact_average :: "(string, rat) gomap \<Rightarrow> (string \<Rightarrow> int) \<Rightarrow> rat" where
  "exact_average ws sub = (\<Sum>(c, w) \<leftarrow> ws. of_int (sub c) * w) / (\<Sum>(c, w) \<leftarrow> ws. w)"

definition default_weights :: "(string, rat) gomap \<Rightarrow> bool" where
  "default_weights ws \<longleftrightarrow> mset ws = mset (CategoryWeights DefaultConfig)"

text \<open>The roundings that the default weights give rise to.\<close>

lemma fl_w0: "fl (4 / 5) = 3602879701896397 / 4503599627370496"
  using fl_nearest[of "-1" "4 / 5" 7205759403792794] by simp

lemma fl_w1: "fl (3602879701896397 / 4503599627370496) = 3602879701896397 / 4503599627370496"
  using fl_nearest[of "-1" "3602879701896397 / 4503599627370496" 7205759403792794] by simp

lemma fl_w2: "fl (5404319552844595 / 4503599627370496) = 5404319552844595 / 4503599627370496"
  using fl_nearest[of "0" "5404319552844595 / 4503599627370496" 5404319552844595] by simp

lemma fl_w3: "fl (6 / 5) = 5404319552844595 / 4503599627370496"
  using fl_nearest[of "0" "6 / 5" 5404319552844595] by simp

lemma fl_w4: "fl (3 / 2) = 3 / 2"
  using fl_nearest[of "0" "3 / 2" 6755399441055744] by simp

lemma fl_w5: "fl (8106479329266893 / 4503599627370496) = 8106479329266893 / 4503599627370496"
  using fl_nearest[of "0" "8106479329266893 / 4503599627370496" 8106479329266893] by simp

lemma fl_w6: "fl (9907919180215091 / 4503599627370496) = 2476979795053773 / 1125899906842624"
  using fl_nearest[of "1" "9907919180215091 / 4503599627370496" 4953959590107546] by simp

lemma fl_w7: "fl (10358279142952141 / 4503599627370496) = 2589569785738035 / 1125899906842624"
  using fl_nearest[of "1" "10358279142952141 / 4503599627370496" 5179139571476070] by simp

lemma fl_w8: "fl (5 / 2) = 5 / 2"
  using fl_nearest[of "1" "5 / 2" 5629499534213120] by simp

lemma fl_w9: "fl (12159718993900339 / 4503599627370496) = 3039929748475085 / 1125899906842624"
  using fl_nearest[of "1" "12159718993900339 / 4503599627370496" 6079859496950170] by simp

lemma fl_w10: "fl (13510798882111489 / 4503599627370496) = 3"
  using fl_nearest[of "1" "13510798882111489 / 4503599627370496" 6755399441055744] by simp

lemma fl_w11: "fl (3715469692580659 / 1125899906842624) = 3715469692580659 / 1125899906842624"
  using fl_nearest[of "1" "3715469692580659 / 1125899906842624" 7430939385161318] by simp

lemma fl_w12: "fl (14861878770322637 / 4503599627370496) = 3715469692580659 / 1125899906842624"
  using fl_nearest[of "1" "14861878770322637 / 4503599627370496" 7430939385161318] by simp

lemma fl_w13: "fl (15762598695796735 / 4503599627370496) = 7 / 2"
  using fl_nearest[of "1" "15762598695796735 / 4503599627370496" 7881299347898368] by simp

lemma fl_w14: "fl (7 / 2) = 7 / 2"
  using fl_nearest[of "1" "7 / 2" 7881299347898368] by simp

lemma fl_w15: "fl (15762598695796737 / 4503599627370496) = 7 / 2"
  using fl_nearest[of "1" "15762598695796737 / 4503599627370496" 7881299347898368] by simp

lemma fl_w16: "fl (16663318621270835 / 4503599627370496) = 4165829655317709 / 1125899906842624"
  using fl_nearest[of "1" "16663318621270835 / 4503599627370496" 8331659310635418] by simp

lemma fl_w17: "fl (4165829655317709 / 1125899906842624) = 4165829655317709 / 1125899906842624"
  using fl_nearest[of "1" "4165829655317709 / 1125899906842624" 8331659310635418] by simp

lemma fl_w18: "fl (20266198323167231 / 4503599627370496) = 9 / 2"
  using fl_nearest[of "2" "20266198323167231 / 4503599627370496" 5066549580791808] by simp

lemma fl_w19: "fl (9 / 2) = 9 / 2"
  using fl_nearest[of "2" "9 / 2" 5066549580791808] by simp

lemma fl_w20: "fl (20266198323167233 / 4503599627370496) = 9 / 2"
  using fl_nearest[of "2" "20266198323167233 / 4503599627370496" 5066549580791808] by simp

lemma fl_w21: "fl (25220157913274779 / 4503599627370496) = 6305039478318695 / 1125899906842624"
  using fl_nearest[of "2" "25220157913274779 / 4503599627370496" 6305039478318695] by simp

lemma fl_w22: "fl (6305039478318695 / 1125899906842624) = 6305039478318695 / 1125899906842624"
  using fl_nearest[of "2" "6305039478318695 / 1125899906842624" 6305039478318695] by simp

lemma fl_w23: "fl (6333186975989759 / 158329674399744) = 5629499534213119 / 140737488355328"
  using fl_nearest[of "5" "6333186975989759 / 158329674399744" 5629499534213119] by simp

lemma fl_w24: "fl (5235434566818201 / 70368744177664) = 5235434566818201 / 70368744177664"
  using fl_nearest[of "6" "5235434566818201 / 70368744177664" 5235434566818201] by simp

lemma fl_w25: "fl (167533906138182445 / 2251799813685248) = 5235434566818201 / 70368744177664"
  using fl_nearest[of "6" "167533906138182445 / 2251799813685248" 5235434566818201] by simp

lemma fl_w26: "fl (90071992547409925 / 1125899906842624) = 80"
  using fl_nearest[of "6" "90071992547409925 / 1125899906842624" 5629499534213120] by simp

lemma fl_w27: "fl (118895030162581095 / 1125899906842624) = 3715469692580659 / 35184372088832"
  using fl_nearest[of "6" "118895030162581095 / 1125899906842624" 7430939385161318] by simp

lemma fl_w28: "fl (135107988821114875 / 1125899906842624) = 120"
  using fl_nearest[of "6" "135107988821114875 / 1125899906842624" 8444249301319680] by simp

lemma fl_w29: "fl (12272308984584601 / 70368744177664) = 1534038623073075 / 8796093022208"
  using fl_nearest[of "7" "12272308984584601 / 70368744177664" 6136154492292300] by simp

lemma fl_w30: "fl (202661983231672295 / 1125899906842624) = 6333186975989759 / 35184372088832"
  using fl_nearest[of "7" "202661983231672295 / 1125899906842624" 6333186975989759] by simp

lemma fl_w31: "fl (12666373951979519 / 70368744177664) = 180"
  using fl_nearest[of "7" "12666373951979519 / 70368744177664" 6333186975989760] by simp

lemmas fl_table = fl_w0 fl_w1 fl_w2 fl_w3 fl_w4 fl_w5 fl_w6 fl_w7 fl_w8 fl_w9 fl_w10 fl_w11 fl_w12 fl_w13 fl_w14 fl_w15 fl_w16 fl_w17 fl_w18 fl_w19 fl_w20 fl_w21 fl_w22 fl_w23 fl_w24 fl_w25 fl_w26 fl_w27 fl_w28 fl_w29 fl_w30 fl_w31

lemma default_weight_values:
  "(\<Sum>(c, w) \<leftarrow> CategoryWeights DefaultConfig. w) \<le> 46 / 10"
  "4 \<le> (\<Sum>(c, w) \<leftarrow> CategoryWeights DefaultConfig. w)"
  "length (CategoryWeights DefaultConfig) = 4"
  "list_all (\<lambda>(c, w). 7 / 10 \<le> w) (CategoryWeights DefaultConfig)"
  by (simp_all add: DefaultConfig_def fl_table)

lemma sum_perm: "mset xs = mset ys \<Longrightarrow> (\<Sum>x \<leftarrow> xs. f x) = (\<Sum>x \<leftarrow> ys. f x :: rat)"
  by (metis mset_map sum_mset_sum_list)

lemma default_weights_facts:
  assumes "default_weights ws"
  shows "(\<Sum>(c, w) \<leftarrow> ws. w) \<le> 46 / 10" "4 \<le> (\<Sum>(c, w) \<leftarrow> ws. w)" "length ws = 4"
    "(c, w) \<in> set ws \<Longrightarrow> 7 / 10 \<le> w"
    "set ws = set (CategoryWeights DefaultConfig)"
proof -
  have m: "mset ws = mset (CategoryWeights DefaultConfig)" using assms by (simp add: default_weights_def)
  show st: "set ws = set (CategoryWeights DefaultConfig)" using m by (metis set_mset_mset)
  show "length ws = 4" using m default_weight_values(3) by (metis size_mset)
  show "(\<Sum>(c, w) \<leftarrow> ws. w) \<le> 46 / 10" "4 \<le> (\<Sum>(c, w) \<leftarrow> ws. w)"
    using sum_perm[OF m, of "\<lambda>(c, w). w"] default_weight_values(1,2) by simp_all
  show "(c, w) \<in> set ws \<Longrightarrow> 7 / 10 \<le> w" using default_weight_values(4) st by (auto simp: list_all_iff)
qed

lemma rounding_constants: "1 - 1 / 10 ^ 14 \<le> lo ^ 7 / hi ^ 6" "hi ^ 7 / lo ^ 6 \<le> 1 + 1 / 10 ^ 14"
  by (simp_all add: lo_def hi_def unit_roundoff_def power_divide)

lemma sum_list_le:
  "\<forall>(c, w) \<in> set ws. f c w \<le> (g c w :: rat) \<Longrightarrow> (\<Sum>(c, w) \<leftarrow> ws. f c w) \<le> (\<Sum>(c, w) \<leftarrow> ws. g c w)"
  by (induction ws) (auto intro: add_mono)

lemma relative_to_absolute:
  "(1 - 1 / 10 ^ 14) * g \<le> q \<Longrightarrow> q \<le> (1 + 1 / 10 ^ 14) * g \<Longrightarrow> 0 \<le> g \<Longrightarrow> g \<le> 100 \<Longrightarrow>
     \<bar>q - g\<bar> \<le> (1 / 10 ^ 12 :: rat)"
proof -
  assume "(1 - 1 / 10 ^ 14) * g \<le> q" "q \<le> (1 + 1 / 10 ^ 14) * g"
  then have a: "99999999999999 * g \<le> q * 100000000000000" "q * 100000000000000 \<le> 100000000000001 * g"
    by simp_all
  assume "0 \<le> g" "g \<le> 100"
  then have "(q - g) * 1000000000000 \<le> 1" "(g - q) * 1000000000000 \<le> 1"
    using a by (simp_all add: left_diff_distrib)
  then show ?thesis by (intro abs_leI) simp_all
qed

lemma float_average_error:
  assumes ws: "default_weights ws" and sub: "\<And>c. 0 \<le> sub c \<and> sub c \<le> 100"
    and ab: "fold (weigh sub) ws (0, 0) = (a, b)"
  shows "0 < b" "\<bar>fl (a / b) - exact_average ws sub\<bar> \<le> 1 / 10 ^ 12" "0 \<le> exact_average ws sub"
    "exact_average ws sub \<le> 100"
proof -
  define S T where "S = (\<Sum>(c, w) \<leftarrow> ws. of_int (sub c) * w)" and "T = (\<Sum>(c, w) \<leftarrow> ws. w)"
  note f = default_weights_facts[OF ws]
  have pos: "\<forall>(c, w) \<in> set ws. 0 \<le> w \<and> 0 \<le> sub c" using f(4) sub by force
  have T: "0 < T" using f(2) by (simp add: T_def)
  have zero: "approx 2 0 0" by (simp add: approx_def)
  from weigh_error[OF order_refl zero zero order_refl order_refl pos] ab f(3)
  have A: "approx 6 S a" and B: "approx 6 T b" by (simp_all add: S_def T_def)
  have pw: "0 < lo ^ 6" "0 < hi ^ 6" using lo_hi by (simp_all add: less_le_trans[OF zero_less_one])
  show b: "0 < b" using B T pw by (meson approx_def less_le_trans mult_pos_pos)
  have "S = (\<Sum>(c, w) \<leftarrow> ws. of_int (sub c) * w)" by (simp add: S_def)
  have "0 \<le> S" using sum_list_le[of ws "\<lambda>c w. 0" "\<lambda>c w. of_int (sub c) * w"] pos
    by (force simp: S_def case_prod_unfold)
  moreover have "S \<le> 100 * T"
    using sum_list_le[of ws "\<lambda>c w. of_int (sub c) * w" "\<lambda>c w. 100 * w"] pos sub
    by (force simp: S_def T_def case_prod_unfold sum_list_const_mult intro: mult_right_mono)
  ultimately have avg: "0 \<le> S / T" "S / T \<le> 100" using T by (simp_all add: divide_le_eq)
  show "0 \<le> exact_average ws sub" "exact_average ws sub \<le> 100"
    using avg by (simp_all add: exact_average_def S_def T_def)
  have a: "0 \<le> a" using A \<open>0 \<le> S\<close> pw by (meson approx_def less_imp_le mult_nonneg_nonneg order.trans)
  have "lo ^ 6 * S / (hi ^ 6 * T) \<le> a / b" "a / b \<le> hi ^ 6 * S / (lo ^ 6 * T)"
    using A B a b T pw \<open>0 \<le> S\<close> by (auto simp: approx_def intro!: frac_le mult_nonneg_nonneg)
  then have "lo ^ 6 / hi ^ 6 * (S / T) \<le> a / b" "a / b \<le> hi ^ 6 / lo ^ 6 * (S / T)" by simp_all
  then have "lo * (lo ^ 6 / hi ^ 6 * (S / T)) \<le> lo * (a / b)" "hi * (a / b) \<le> hi * (hi ^ 6 / lo ^ 6 * (S / T))"
    using lo_hi by (simp_all only: mult_left_mono less_imp_le order.trans[OF zero_le_one])
  moreover have "lo * (a / b) \<le> fl (a / b)" "fl (a / b) \<le> hi * (a / b)"
    using fl_error[of "a / b"] a b by (simp_all add: lo_def hi_def mult.commute)
  moreover have "lo * (lo ^ 6 / hi ^ 6 * (S / T)) = lo ^ 7 / hi ^ 6 * (S / T)"
    "hi * (hi ^ 6 / lo ^ 6 * (S / T)) = hi ^ 7 / lo ^ 6 * (S / T)"
    by (simp_all flip: power_Suc mult.assoc)
  ultimately have "lo ^ 7 / hi ^ 6 * (S / T) \<le> fl (a / b)" "fl (a / b) \<le> hi ^ 7 / lo ^ 6 * (S / T)"
    by linarith+
  moreover have "(1 - 1 / 10 ^ 14) * (S / T) \<le> lo ^ 7 / hi ^ 6 * (S / T)"
    "hi ^ 7 / lo ^ 6 * (S / T) \<le> (1 + 1 / 10 ^ 14) * (S / T)"
    by (rule mult_right_mono[OF rounding_constants(1) avg(1)])
      (rule mult_right_mono[OF rounding_constants(2) avg(1)])
  ultimately have "(1 - 1 / 10 ^ 14) * (S / T) \<le> fl (a / b)" "fl (a / b) \<le> (1 + 1 / 10 ^ 14) * (S / T)"
    by linarith+
  then show "\<bar>fl (a / b) - exact_average ws sub\<bar> \<le> 1 / 10 ^ 12"
    using relative_to_absolute avg unfolding exact_average_def S_def T_def by blast
qed

lemma aggregate_bounds:
  assumes ws: "default_weights ws" and sub: "\<And>c. 0 \<le> sub c \<and> sub c \<le> 100"
  shows "\<lfloor>exact_average ws sub - 1 / 10 ^ 12\<rfloor> \<le> aggregate_score ws sub"
    "aggregate_score ws sub \<le> \<lfloor>exact_average ws sub + 1 / 10 ^ 12\<rfloor>"
    "0 \<le> aggregate_score ws sub" "aggregate_score ws sub \<le> 100"
proof -
  obtain a b where ab: "fold (weigh sub) ws (0, 0) = (a, b)" by fastforce
  note e = float_average_error[OF ws sub ab]
  define q avg where "q = fl (a / b)" and "avg = exact_average ws sub"
  have q: "\<bar>q - avg\<bar> \<le> 1 / 10 ^ 12" "0 \<le> avg" "avg \<le> 100" using e by (simp_all add: q_def avg_def)
  have "0 \<le> a / b"
  proof (rule ccontr)
    assume "\<not> 0 \<le> a / b"
    then have "a < 0" using e(1) by (simp add: zero_le_divide_iff not_le)
    have zero: "approx 2 0 0" by (simp add: approx_def)
    have pos: "\<forall>(c, w) \<in> set ws. 0 \<le> w \<and> 0 \<le> sub c" using default_weights_facts(4)[OF ws] sub by force
    have "approx 6 (\<Sum>(c, w) \<leftarrow> ws. of_int (sub c) * w) a"
      using weigh_error[OF order_refl zero zero order_refl order_refl pos] ab default_weights_facts(3)[OF ws] by simp
    moreover have "0 \<le> (\<Sum>(c, w) \<leftarrow> ws. of_int (sub c) * w :: rat)"
      using pos by (intro sum_list_nonneg) auto
    ultimately show False using \<open>a < 0\<close> lo_hi(1) unfolding approx_def
      by (meson less_imp_le linorder_not_le mult_nonneg_nonneg order.trans zero_le_power)
  qed
  then have q0: "0 \<le> q" by (simp add: q_def fl_nonneg)
  have "q \<le> avg + 1 / 10 ^ 12" using q(1) by linarith
  also have "\<dots> \<le> 100 + 1 / 10 ^ 12" using q(3) by simp
  also have "\<dots> < 101" by simp
  finally have "q < 101" .
  then have "\<lfloor>q\<rfloor> \<le> 100" using floor_less_iff[of q 101] by simp
  then have agg: "aggregate_score ws sub = \<lfloor>q\<rfloor>"
    using ab e(1) q0 by (simp add: aggregate_score_def Let_def float_to_int_def q_def not_less)
  have "avg - 1 / 10 ^ 12 \<le> q" "q \<le> avg + 1 / 10 ^ 12" using q(1) by linarith+
  then show "\<lfloor>exact_average ws sub - 1 / 10 ^ 12\<rfloor> \<le> aggregate_score ws sub"
    "aggregate_score ws sub \<le> \<lfloor>exact_average ws sub + 1 / 10 ^ 12\<rfloor>"
    unfolding agg avg_def by (simp_all only: floor_mono)
  show "0 \<le> aggregate_score ws sub" "aggregate_score ws sub \<le> 100"
    using q0 \<open>\<lfloor>q\<rfloor> \<le> 100\<close> agg by simp_all
qed

lemma default_penalties_nonneg:
  assumes "TagPenalties cfg = TagPenalties DefaultConfig" "SeverityPenalties cfg = SeverityPenalties DefaultConfig"
  shows "0 \<le> entry_penalty cfg e"
proof -
  have "list_all (\<lambda>(k, p). 0 \<le> p) (TagPenalties DefaultConfig)"
    "list_all (\<lambda>(k, p). 0 \<le> p) (SeverityPenalties DefaultConfig)" by code_simp+
  then show ?thesis using assms
    by (auto simp: entry_penalty_def list_all_iff dest!: gm_get_in split: option.splits)
qed

abbreviation default_ordered :: "(string, rat) gomap \<Rightarrow> scoring_config" where
  "default_ordered ws \<equiv> DefaultConfig\<lparr>CategoryWeights := ws\<rparr>"

lemma sub_of_range:
  assumes "\<And>e. 0 \<le> entry_penalty cfg e"
  shows "0 \<le> sub_of cfg es cat \<and> sub_of cfg es cat \<le> 100"
proof -
  have "0 \<le> sum_list (map (entry_penalty cfg) (entries_in cfg cat es))"
    using assms by (intro sum_list_nonneg) auto
  then show ?thesis by (simp add: sub_of_def)
qed

lemma sub_of_default: "0 \<le> sub_of (default_ordered ws) es cat \<and> sub_of (default_ordered ws) es cat \<le> 100"
  by (rule sub_of_range, rule default_penalties_nonneg) simp_all

text \<open>With a perfect score in every category the rounding errors cancel in every order.\<close>

fun perms :: "nat \<Rightarrow> 'a list \<Rightarrow> 'a list list" where
  "perms 0 xs = [[]]"
| "perms (Suc n) xs = concat (map (\<lambda>x. map (Cons x) (perms n (remove1 x xs))) xs)"

lemma perms_complete: "mset xs = mset ys \<Longrightarrow> xs \<in> set (perms (length ys) ys)"
proof (induction xs arbitrary: ys)
  case (Cons x xs)
  then have x: "x \<in> set ys" by (metis list.set_intros(1) set_mset_mset)
  then obtain n where n: "length ys = Suc n" by (metis length_pos_if_in_set Suc_pred)
  have "mset xs = mset (remove1 x ys)" using Cons.prems by (simp flip: Cons.prems)
  then have "xs \<in> set (perms (length (remove1 x ys)) (remove1 x ys))" by (rule Cons.IH)
  then show ?case using x n by (auto simp: length_remove1)
qed simp

lemma all_hundred_orders:
  "list_all (\<lambda>ws. aggregate_score ws (\<lambda>_. 100) = 100) (perms (Suc (Suc (Suc (Suc 0)))) (CategoryWeights DefaultConfig))"
  by (simp add: DefaultConfig_def fl_table aggregate_score_def weigh_def float_to_int_def)

lemma aggregate_cong:
  assumes "\<And>c w. (c, w) \<in> set ws \<Longrightarrow> f c = g c"
  shows "aggregate_score ws f = aggregate_score ws g"
proof -
  have "fold (weigh f) ws s = fold (weigh g) ws s" for s
    by (rule fold_cong) (use assms in \<open>auto simp: weigh_def\<close>)
  then show ?thesis by (simp add: aggregate_score_def)
qed

lemma aggregate_all_hundred:
  assumes "default_weights ws" "\<And>c w. (c, w) \<in> set ws \<Longrightarrow> sub c = 100"
  shows "aggregate_score ws sub = 100"
proof -
  have "ws \<in> set (perms (length (CategoryWeights DefaultConfig)) (CategoryWeights DefaultConfig))"
    using assms(1) perms_complete by (auto simp: default_weights_def)
  then have "aggregate_score ws (\<lambda>_. 100) = 100"
    using all_hundred_orders default_weight_values(3)
    by (simp add: list_all_iff numeral_eq_Suc del: perms.simps)
  then show ?thesis using aggregate_cong[of ws sub "\<lambda>_. 100"] assms(2) by simp
qed

lemma average_below_hundred:
  assumes ws: "default_weights ws" and sub: "\<And>c. 0 \<le> sub c \<and> sub c \<le> 100"
    and low: "(c0, w0) \<in> set ws" "sub c0 < 100"
  shows "exact_average ws sub \<le> 100 - 1 / 10"
proof -
  note f = default_weights_facts[OF ws]
  define T where "T = (\<Sum>(c, w) \<leftarrow> ws. w)"
  have T: "4 \<le> T" "T \<le> 46 / 10" using f(1,2) by (simp_all add: T_def)
  obtain xs ys where split: "ws = xs @ (c0, w0) # ys" using low(1) by (meson split_list)
  have w: "0 \<le> w" if "(c, w) \<in> set ws" for c w using f(4)[OF that] by simp
  have le: "(\<Sum>(c, w) \<leftarrow> zs. of_int (sub c) * w) \<le> (\<Sum>(c, w) \<leftarrow> zs. 100 * w)" if "set zs \<subseteq> set ws" for zs
    using that w sub by (intro sum_list_le) (force intro!: mult_right_mono)
  have "of_int (sub c0) * w0 \<le> 99 * w0"
    using low(2) w[OF low(1)] by (intro mult_right_mono) auto
  then have "(\<Sum>(c, w) \<leftarrow> ws. of_int (sub c) * w) \<le> (\<Sum>(c, w) \<leftarrow> ws. 100 * w) - w0"
    using le[of xs] le[of ys] by (auto simp: split subset_iff)
  also have "(\<Sum>(c, w) \<leftarrow> ws. 100 * w) = 100 * T"
    by (simp add: T_def case_prod_unfold sum_list_const_mult)
  also have "100 * T - w0 \<le> (100 - 1 / 10) * T" using f(4)[OF low(1)] T(2) by (simp add: algebra_simps)
  finally show ?thesis using T by (simp add: exact_average_def T_def[symmetric] pos_divide_le_eq)
qed

lemma sum_list_zero_iff:
  "(\<And>x. x \<in> set xs \<Longrightarrow> 0 \<le> (f x :: int)) \<Longrightarrow> sum_list (map f xs) = 0 \<longleftrightarrow> (\<forall>x \<in> set xs. f x = 0)"
proof (induction xs)
  case (Cons x xs)
  have "0 \<le> sum_list (map f xs)" using Cons.prems by (intro sum_list_nonneg) auto
  then show ?case using Cons by (auto simp: add_nonneg_eq_0_iff)
qed simp

lemma default_categories:
  assumes "default_weights ws" "category_of (default_ordered ws) e = Some cat"
  shows "\<exists>w. (cat, w) \<in> set ws"
proof -
  have "list_all (\<lambda>(m, c). c \<in> fst ` set (CategoryWeights DefaultConfig)) (ModuleCategories DefaultConfig)"
    by (simp add: DefaultConfig_def)
  then have "cat \<in> fst ` set (CategoryWeights DefaultConfig)"
    using assms(2) by (auto simp: category_of_def list_all_iff dest!: gm_get_in)
  then show ?thesis using default_weights_facts(5)[OF assms(1)] by auto
qed

lemma fold_weigh_zero:
  "(\<And>c. sub c = 0) \<Longrightarrow> fst s = 0 \<Longrightarrow> fst (fold (weigh sub) ws s) = 0"
  by (induction ws arbitrary: s) (auto simp: weigh_def case_prod_unfold)

lemma aggregate_zero: "(\<And>c. sub c = 0) \<Longrightarrow> aggregate_score ws sub = 0"
  using fold_weigh_zero[of sub "(0, 0)" ws]
  by (auto simp: aggregate_score_def Let_def split: prod.splits)

lemma has_tag_set_of:
  "has_tag (tag_set_of es) t \<longleftrightarrow> (\<exists>e \<in> set es. to_upper (e_tag e) = t)"
proof -
  have "gm_get_or False (fold (\<lambda>e. gm_set (to_upper (e_tag e)) True) es m) t \<longleftrightarrow>
      (\<exists>e \<in> set es. to_upper (e_tag e) = t) \<or> gm_get_or False m t" for m
    by (induction es arbitrary: m) (auto simp: gm_get_or_def gm.get_put)
  then show ?thesis by (simp add: tag_set_of_def gm_get_or_def)
qed

lemma default_weights_default [simp]: "default_weights (CategoryWeights DefaultConfig)"
  by (simp add: default_weights_def)

lemma default_never_panics: "default_weights ws \<Longrightarrow> Compute d es (default_ordered ws) \<noteq> None"
  by (auto simp: Compute_None gm_has_iff dest!: default_categories) force

lemma default_computes:
  "Compute d es DefaultConfig = Some (the (Compute d es DefaultConfig))"
  using default_never_panics[OF default_weights_default, of d es] by simp

section \<open>Properties\<close>

text \<open>
  C12. The score is the weighted average of the sub-scores, whatever order the map is visited
  in. With the default configuration and no CRITICAL entry, the reported score is the exact
  weighted average of the category sub-scores rounded down, up to the float64 error, which is
  below \<open>10\<^sup>-\<^sup>1\<^sup>2\<close>: it can matter only when the exact average is that close to an integer.
\<close>

theorem score_accurate:
  assumes "Compute d es (default_ordered ws) = Some r" "default_weights ws"
    "\<forall>e \<in> set es. \<not> is_critical e"
  shows "\<lfloor>exact_average ws (sub_of (default_ordered ws) es) - 1 / 10 ^ 12\<rfloor> \<le> Score r \<and>
    Score r \<le> \<lfloor>exact_average ws (sub_of (default_ordered ws) es) + 1 / 10 ^ 12\<rfloor>"
proof -
  have "Score r = aggregate_score ws (sub_of (default_ordered ws) es)"
    using Compute_Some(1)[OF assms(1)] assms(3) by (auto simp: Let_def)
  then show ?thesis using aggregate_bounds(1,2)[OF assms(2) sub_of_default] by simp
qed

theorem score_accurate_witness:
  "Score (the (Compute ''se'' [] DefaultConfig)) \<le>
     \<lfloor>exact_average (CategoryWeights DefaultConfig) (sub_of DefaultConfig []) + 1 / 10 ^ 12\<rfloor>"
  using score_accurate[where d = "''se''" and es = "[]" and ws = "CategoryWeights DefaultConfig"]
    default_computes[of "''se''" "[]"] by simp

text \<open>
  A perfect score means no finding was penalised. With the default configuration, in every
  iteration order, the score is 100 exactly when no entry is CRITICAL and no entry of a module
  that counts towards a category carries a penalty.
\<close>

theorem perfect_score_iff:
  assumes "Compute d es (default_ordered ws) = Some r" "default_weights ws"
  shows "Score r = 100 \<longleftrightarrow>
    (\<forall>e \<in> set es. \<not> is_critical e \<and>
       (category_of (default_ordered ws) e \<noteq> None \<longrightarrow> entry_penalty (default_ordered ws) e = 0))"
proof -
  let ?cfg = "default_ordered ws" and ?sub = "sub_of (default_ordered ws) es"
  have pos: "0 \<le> entry_penalty ?cfg e" for e by (rule default_penalties_nonneg) simp_all
  have sc: "Score r = (let a = aggregate_score ws ?sub in if (\<exists>e \<in> set es. is_critical e) \<and> a > 10 then 10 else a)"
    using Compute_Some(1)[OF assms(1)] by simp
  have full: "Score r = 100 \<longleftrightarrow> (\<forall>c w. (c, w) \<in> set ws \<longrightarrow> ?sub c = 100)" (is "_ \<longleftrightarrow> ?full")
    if "\<forall>e \<in> set es. \<not> is_critical e"
  proof
    assume "Score r = 100"
    then have agg: "100 \<le> \<lfloor>exact_average ws ?sub + 1 / 10 ^ 12\<rfloor>"
      using aggregate_bounds(2)[OF assms(2), of ?sub] sub_of_default[of ws es] sc that by (auto simp: Let_def)
    show ?full
    proof (intro allI impI, rule ccontr)
      fix c w assume cw: "(c, w) \<in> set ws" "?sub c \<noteq> 100"
      then have "?sub c < 100" using sub_of_default[of ws es c] by simp
      then have "exact_average ws ?sub \<le> 100 - 1 / 10"
        using average_below_hundred[OF assms(2) _ cw(1), of ?sub] sub_of_default[of ws es] by simp
      then have "exact_average ws ?sub + 1 / 10 ^ 12 < 100" by simp
      then show False using agg floor_less_iff[of "exact_average ws ?sub + 1 / 10 ^ 12" 100] by simp
    qed
  next
    assume ?full
    then show "Score r = 100" using aggregate_all_hundred[OF assms(2), of ?sub] sc that by (auto simp: Let_def)
  qed
  have sub100: "?sub c = 100 \<longleftrightarrow> (\<forall>e \<in> set (entries_in ?cfg c es). entry_penalty ?cfg e = 0)"
    if "\<forall>e \<in> set es. \<not> is_critical e" for c
  proof -
    have "0 \<le> sum_list (map (entry_penalty ?cfg) (entries_in ?cfg c es))"
      using pos by (intro sum_list_nonneg) auto
    then have "?sub c = 100 \<longleftrightarrow> sum_list (map (entry_penalty ?cfg) (entries_in ?cfg c es)) = 0"
      using that by (auto simp: sub_of_def)
    then show ?thesis using sum_list_zero_iff[of _ "entry_penalty ?cfg"] pos by simp
  qed
  show ?thesis
  proof (cases "\<forall>e \<in> set es. \<not> is_critical e")
    case True
    have "(\<forall>c w. (c, w) \<in> set ws \<longrightarrow> ?sub c = 100) \<longleftrightarrow>
        (\<forall>e \<in> set es. category_of ?cfg e \<noteq> None \<longrightarrow> entry_penalty ?cfg e = 0)"
      unfolding sub100[OF True] entries_in_def using default_categories[OF assms(2)] by fastforce
    then show ?thesis using full[OF True] True by blast
  next
    case False
    then have "?sub c = 0" for c by (auto simp: sub_of_def)
    then have "Score r = 0" using sc aggregate_zero[of ?sub ws] by (simp add: Let_def)
    then show ?thesis using False by auto
  qed
qed

theorem perfect_score_iff_witness: "Score (the (Compute ''se'' [] DefaultConfig)) = 100"
  using perfect_score_iff[where d = "''se''" and es = "[]" and ws = "CategoryWeights DefaultConfig"]
    default_computes[of "''se''" "[]"] by simp

text \<open>
  A CRITICAL entry settles the run. Under any configuration the score is then 0, every
  category score is 0, A+ is out of reach and the grade is the one the bands give to 0.
\<close>

theorem critical_forces_zero:
  assumes "Compute d es cfg = Some r" "\<exists>e \<in> set es. is_critical e"
  shows "Score r = 0 \<and> (\<forall>(cat, c) \<in> set (Categories r). cat_score c = 0) \<and>
    \<not> Eligible (Bonus r) \<and> Grade r = scoreToGrade 0 (GradeBands cfg)"
proof -
  note c = Compute_Some[OF assms(1)]
  have sub: "sub_of cfg es cat = 0" for cat using assms(2) by (simp add: sub_of_def)
  have sc: "Score r = 0" using c(1) aggregate_zero[of "sub_of cfg es"] sub by (simp add: Let_def)
  then have "\<not> Eligible (Bonus r)" using c(2) by (simp add: evaluateBonus_def Let_def)
  then show ?thesis using sc c(3,4) sub by auto
qed

theorem critical_forces_zero_witness:
  "Score (the (Compute ''se'' [\<lparr>e_module = ''BASIC'', e_tag = ''X'', e_level = ''critical''\<rparr>] DefaultConfig)) = 0"
proof -
  let ?es = "[\<lparr>e_module = ''BASIC'', e_tag = ''X'', e_level = ''critical''\<rparr>]"
  have "\<exists>e \<in> set ?es. is_critical e" by code_simp
  then show ?thesis using critical_forces_zero[OF default_computes] by blast
qed

text \<open>
  What A+ takes. With every criterion enabled and no band of that name, a run is graded A+
  exactly when its score is 100, nothing is at WARNING or above, the zone is signed with an
  algorithm reported sound and none reported weak, NSEC3 opt-out is absent or the zone
  is a TLD that uses it, CDS or CDNSKEY is published or not expected, IPv6 is not disabled and
  the name servers span several autonomous systems.
\<close>

theorem a_plus_iff:
  assumes "Compute d es cfg = Some r" "BonusCriteria cfg = BonusCriteria DefaultConfig"
    "\<forall>b \<in> set (GradeBands cfg). band_grade b \<noteq> ''A+''"
  shows "Grade r = ''A+'' \<longleftrightarrow>
    Score r = 100 \<and> noWarningsOrErrors es \<and> has_tag (tag_set_of es) ''DS07_SIGNED'' \<and>
    strongAlgorithm (tag_set_of es) = Some True \<and> nsec3NonOptout (tag_set_of es) \<noteq> Some False \<and>
    cdsCDNSKEYPublished d (tag_set_of es) \<noteq> Some False \<and>
    \<not> (\<exists>e \<in> set es. to_upper (e_tag e) \<in> {''IPV6_DISABLED'', ''CN01_IPV6_DISABLED''}) \<and>
    (\<exists>e \<in> set es. to_upper (e_tag e) \<in> {''IPV4_DIFFERENT_ASN'', ''IPV6_DIFFERENT_ASN''})"
proof -
  have band: "scoreToGrade n bs \<noteq> ''A+''" if "\<forall>b \<in> set bs. band_grade b \<noteq> ''A+''" for n bs
    using that by (induction bs) auto
  have g: "Grade r = ''A+'' \<longleftrightarrow> Eligible (evaluateBonus d es (Score r) (BonusCriteria DefaultConfig))"
    using Compute_Some(2,3)[OF assms(1)] band assms(2,3) by auto
  have strong: "strongAlgorithm t \<noteq> Some False \<longleftrightarrow> strongAlgorithm t = Some True" for t
    by (auto simp: strongAlgorithm_def split: if_splits)
  have ip: "ipv6AllNameservers (tag_set_of es) \<noteq> Some False \<longleftrightarrow>
      \<not> (\<exists>e \<in> set es. to_upper (e_tag e) \<in> {''IPV6_DISABLED'', ''CN01_IPV6_DISABLED''})"
    using has_tag_set_of[of es] by (auto simp: ipv6AllNameservers_def)
  have asn: "asDiversity (tag_set_of es) \<noteq> Some False \<longleftrightarrow>
      (\<exists>e \<in> set es. to_upper (e_tag e) \<in> {''IPV4_DIFFERENT_ASN'', ''IPV6_DIFFERENT_ASN''})"
    using has_tag_set_of[of es] by (auto simp: asDiversity_def Let_def)
  show ?thesis unfolding g
    using strong[of "tag_set_of es"] ip asn
    by (auto simp: evaluateBonus_def DefaultConfig_def Let_def allCriteriaMet_def gm_set_def dnssecEnabled_def)
qed

theorem a_plus_iff_witness: "Grade (the (Compute ''se'' [] DefaultConfig)) \<noteq> ''A+''"
proof -
  have "\<forall>b \<in> set (GradeBands DefaultConfig). band_grade b \<noteq> ''A+''" by (simp add: DefaultConfig_def)
  then show ?thesis using a_plus_iff[OF default_computes, of "''se''" "[]"] by simp
qed

text \<open>
  When scoring panics. The score is computed for every run exactly when each module that an
  entry names maps to a category with a weight; the default configuration never panics, and
  mapping one module to an unweighted category makes its first entry panic.
\<close>

theorem scoring_panics_iff:
  "(Compute d es cfg = None \<longleftrightarrow>
      (\<exists>e \<in> set es. \<exists>cat. gm_get (ModuleCategories cfg) (to_upper (e_module e)) = Some cat \<and>
         \<not> gm_has (CategoryWeights cfg) cat)) \<and>
   Compute d es DefaultConfig \<noteq> None"
proof -
  have "Compute d es DefaultConfig \<noteq> None" using default_computes[of d es] by (metis option.distinct(1))
  then show ?thesis by (simp add: Compute_None category_of_def)
qed

definition findings_of :: "nat \<Rightarrow> string \<Rightarrow> string \<Rightarrow> scoring_entry list" where
  "findings_of n m l = replicate n \<lparr>e_module = m, e_tag = ''X'', e_level = l\<rparr>"

definition borderline_run :: "scoring_entry list" where
  "borderline_run = findings_of 5 ''DNSSEC'' ''ERROR'' @
     findings_of 1 ''BASIC'' ''ERROR'' @ findings_of 3 ''BASIC'' ''WARNING'' @ findings_of 3 ''BASIC'' ''NOTICE'' @
     findings_of 4 ''ZONE'' ''ERROR'' @ findings_of 2 ''ZONE'' ''WARNING'' @ findings_of 3 ''ZONE'' ''NOTICE''"

lemma sub_of_default_ordered: "sub_of (default_ordered ws) es cat = sub_of DefaultConfig es cat"
proof -
  have "entry_penalty (default_ordered ws) = entry_penalty DefaultConfig"
    "entries_in (default_ordered ws) = entries_in DefaultConfig"
    by (auto simp: entry_penalty_def entries_in_def category_of_def fun_eq_iff split: option.splits)
  then show ?thesis by (simp add: sub_of_def)
qed

lemma borderline_subs:
  "sub_of (default_ordered ws) borderline_run ''dnssec'' = 0"
  "sub_of (default_ordered ws) borderline_run ''nameserver_health'' = 62"
  "sub_of (default_ordered ws) borderline_run ''connectivity'' = 100"
  "sub_of (default_ordered ws) borderline_run ''zone_consistency'' = 7"
proof -
  have "sub_of DefaultConfig borderline_run ''dnssec'' = 0 \<and>
    sub_of DefaultConfig borderline_run ''nameserver_health'' = 62 \<and>
    sub_of DefaultConfig borderline_run ''connectivity'' = 100 \<and>
    sub_of DefaultConfig borderline_run ''zone_consistency'' = 7" by code_simp
  then show "sub_of (default_ordered ws) borderline_run ''dnssec'' = 0"
  "sub_of (default_ordered ws) borderline_run ''nameserver_health'' = 62"
  "sub_of (default_ordered ws) borderline_run ''connectivity'' = 100"
  "sub_of (default_ordered ws) borderline_run ''zone_consistency'' = 7"
    by (simp_all add: sub_of_default_ordered)
qed

lemma borderline_score:
  assumes "default_weights ws" "aggregate_score ws (sub_of (default_ordered ws) borderline_run) = n" "n < 100"
  shows "map_option (\<lambda>r. (Score r, Grade r)) (Compute d borderline_run (default_ordered ws)) =
    Some (n, scoreToGrade n (GradeBands DefaultConfig))"
proof -
  obtain r where r: "Compute d borderline_run (default_ordered ws) = Some r"
    using default_never_panics[OF assms(1), of d borderline_run] by auto
  have "\<not> (\<exists>e \<in> set borderline_run. is_critical e)" by code_simp
  then have "Score r = n" using Compute_Some(1)[OF r] assms(2) by (simp add: Let_def)
  then show ?thesis using r Compute_Some(2,3)[OF r] assms(3) by (simp add: evaluateBonus_def Let_def)
qed

text \<open>
  The grade can depend on the iteration order of a Go map. The same 21 entries score 39 and
  grade F when the weights are visited in the order of the source text, and score 40 and grade D
  in the reverse order; the exact average is 40.
\<close>

theorem grade_depends_on_map_order:
  "map_option (\<lambda>r. (Score r, Grade r)) (Compute ''example.se'' borderline_run DefaultConfig) = Some (39, ''F'') \<and>
   map_option (\<lambda>r. (Score r, Grade r))
     (Compute ''example.se'' borderline_run (default_ordered (rev (CategoryWeights DefaultConfig)))) = Some (40, ''D'')"
proof -
  let ?ws = "CategoryWeights DefaultConfig"
  have rev: "default_weights (rev ?ws)" by (simp add: default_weights_def)
  have "aggregate_score ?ws (sub_of (default_ordered ?ws) borderline_run) = 39"
    "aggregate_score (rev ?ws) (sub_of (default_ordered (rev ?ws)) borderline_run) = 40"
    unfolding aggregate_score_def weigh_def
    by (simp_all add: borderline_subs fl_table float_to_int_def floor_eq_iff
        DefaultConfig_def[THEN arg_cong[of _ _ CategoryWeights]])
  from borderline_score[OF default_weights_default this(1)] borderline_score[OF rev this(2)]
  show ?thesis by (simp add: DefaultConfig_def)
qed

text \<open>
  Tag penalties are looked up by the upper-case tag only. A configuration key that is not
  itself upper case never takes effect, whatever the entries.
\<close>

theorem lower_case_tag_penalty_ignored:
  assumes "to_upper k \<noteq> k"
  shows "Compute d es (cfg\<lparr>TagPenalties := gm_set k p (TagPenalties cfg)\<rparr>) = Compute d es cfg"
proof -
  let ?cfg = "cfg\<lparr>TagPenalties := gm_set k p (TagPenalties cfg)\<rparr>"
  have "to_upper t \<noteq> k" for t using assms by (metis to_upper_idem)
  then have "entry_penalty ?cfg e = entry_penalty cfg e" for e
    by (simp add: entry_penalty_def gm.get_put split: option.splits)
  then have "accumulate ?cfg e st = accumulate cfg e st" for e st
    by (simp add: accumulate_def charge_def Let_def split: option.splits)
  then have "accumulate_all ?cfg es st = accumulate_all cfg es st" for st
    by (induction es arbitrary: st) (auto split: option.splits)
  moreover have "initial_accums ?cfg = initial_accums cfg" by (simp add: initial_accums_def)
  ultimately show ?thesis by (simp add: Compute_def Let_def split: option.splits)
qed

theorem lower_case_tag_penalty_ignored_witness:
  "Compute ''se'' [] (DefaultConfig\<lparr>TagPenalties := gm_set ''ds07_not_signed'' 0 (TagPenalties DefaultConfig)\<rparr>) =
   Compute ''se'' [] DefaultConfig"
proof -
  have "to_upper ''ds07_not_signed'' \<noteq> ''ds07_not_signed''" by code_simp
  from lower_case_tag_penalty_ignored[OF this] show ?thesis .
qed

lemma migrate_one_get:
  "old \<noteq> cur \<Longrightarrow> gm_get (migrate_one (old, cur) p) k =
     (if k = old then None
      else if k = cur then (case gm_get p cur of Some v \<Rightarrow> Some v | None \<Rightarrow> gm_get p old)
      else gm_get p k)"
  by (auto simp: migrate_one_def Let_def gm_has_def gm.get_put gm.get_del split: option.splits)

lemma migrate_get:
  assumes "distinct (map fst rs @ map snd rs)"
  shows "gm_get (fold migrate_one rs p) k =
    (if k \<in> fst ` set rs then None
     else case gm_get p k of Some v \<Rightarrow> Some v
          | None \<Rightarrow> (case map_of (map prod.swap rs) k of None \<Rightarrow> None | Some old \<Rightarrow> gm_get p old))"
  using assms
proof (induction rs arbitrary: p)
  case (Cons r rs)
  obtain old cur where r: "r = (old, cur)" by fastforce
  have d: "distinct (map fst rs @ map snd rs)" "old \<noteq> cur" "old \<notin> fst ` set rs" "old \<notin> snd ` set rs"
    "cur \<notin> fst ` set rs" "cur \<notin> snd ` set rs" using Cons.prems r by auto
  have n: "map_of (map prod.swap rs) old = None" "map_of (map prod.swap rs) cur = None"
    using d by (simp_all add: map_of_eq_None_iff image_image)
  have o: "o' \<in> fst ` set rs" if "map_of (map prod.swap rs) k = Some o'" for o'
    using map_of_SomeD[OF that] by force
  have IH: "gm_get (fold migrate_one (r # rs) p) k =
    (if k \<in> fst ` set rs then None
     else case gm_get (migrate_one (old, cur) p) k of Some v \<Rightarrow> Some v
          | None \<Rightarrow> (case map_of (map prod.swap rs) k of None \<Rightarrow> None
                    | Some old' \<Rightarrow> gm_get (migrate_one (old, cur) p) old'))"
    using Cons.IH[OF d(1), of "migrate_one r p"] unfolding r by simp
  consider "k = old" | "k = cur" | "k \<noteq> old" "k \<noteq> cur" by blast
  then show ?case
  proof cases
    case 1
    then show ?thesis using IH d n by (simp add: r migrate_one_get)
  next
    case 2
    then show ?thesis using IH d n by (simp add: r migrate_one_get split: option.splits)
  next
    case 3
    have "gm_get (migrate_one (old, cur) p) o' = gm_get p o'" if "map_of (map prod.swap rs) k = Some o'" for o'
      using o[OF that] d by (auto simp: migrate_one_get)
    then show ?thesis using IH d 3 by (simp add: r migrate_one_get split: option.splits)
  qed
qed (simp split: option.splits)

text \<open>
  Renamed tags keep their penalty. Whatever order the renames are visited in, the migrated
  table has no retired key, an explicit current key keeps its own penalty, otherwise the
  current key takes over the penalty of the retired one, and every other key is untouched.
\<close>

theorem migrate_renamed_tags:
  assumes "mset rs = mset renamedTags"
  shows "gm_get (migrateRenamedTags rs p) k =
    (if k \<in> {''IN_BAILIWICK_ADDR_MISMATCH'', ''OUT_OF_BAILIWICK_ADDR_MISMATCH'', ''IN_BAILIWICK_GLUE_MISSING''} then None
     else case gm_get p k of Some v \<Rightarrow> Some v
          | None \<Rightarrow> (case map_of (map prod.swap renamedTags) k of None \<Rightarrow> None | Some old \<Rightarrow> gm_get p old))"
proof -
  have m: "mset (map fst rs @ map snd rs) = mset (map fst renamedTags @ map snd renamedTags)"
    using assms by (metis mset_append mset_map)
  have "distinct (map fst renamedTags @ map snd renamedTags)" by code_simp
  then have d: "distinct (map fst rs @ map snd rs)" using m mset_eq_imp_distinct_iff by blast
  have s: "set rs = set renamedTags" using assms by (metis set_mset_mset)
  have "distinct (map fst (map prod.swap rs))" "distinct (map fst (map prod.swap renamedTags))"
    using d \<open>distinct (map fst renamedTags @ map snd renamedTags)\<close> by (auto simp: comp_def)
  then have eq: "map_of (map prod.swap rs) = map_of (map prod.swap renamedTags)"
    using s by (intro map_of_eqI) auto
  have old: "fst ` set rs =
      {''IN_BAILIWICK_ADDR_MISMATCH'', ''OUT_OF_BAILIWICK_ADDR_MISMATCH'', ''IN_BAILIWICK_GLUE_MISSING''}"
    by (simp add: s renamedTags_def)
  show ?thesis unfolding migrateRenamedTags_def migrate_get[OF d] eq old by (rule refl)
qed

theorem migrate_renamed_tags_witness:
  "gm_get (migrateRenamedTags (rev renamedTags) [(''IN_BAILIWICK_GLUE_MISSING'', 7)]) ''IN_DOMAIN_GLUE_MISSING'' = Some 7"
  using migrate_renamed_tags[of "rev renamedTags" "[(''IN_BAILIWICK_GLUE_MISSING'', 7)]" "''IN_DOMAIN_GLUE_MISSING''"]
  by (simp add: renamedTags_def gm_get_def)

end
