(* ===== verification/Normalization.thy ===== *)
theory Normalization
  imports Prelude
begin

text \<open>
  Normalisation of the names a user submits (\<open>engine/normalization\<close>): labels, names, targets and
  the error values with their messages.

  Names are byte strings, so the Unicode full stops, the white space and the ambiguous capital I
  are their UTF-8 encodings. The IDNA conversion (\<open>golang.org/x/net/idna\<close>), the address parser and
  the reverse name (\<open>codeberg.org/miekg/dns/dnsutil\<close>) are arguments; \<open>idna_ok\<close> states what is used of
  the conversion: an A-label is made of lower-case letters, digits and hyphens.
\<close>

section \<open>Errors\<close>

record norm_error =
  err_tag :: string
  err_params :: "(string, string) gomap"

record error_spec =
  spec_message :: string
  spec_args :: "string list"

definition quoted :: "string \<Rightarrow> string" where
  "quoted s = CHR 0x22 # s @ [CHR 0x22]"

definition errorSpecs :: "(string, error_spec) gomap" where
  "errorSpecs =
     [(''AMBIGUOUS_DOWNCASING'', \<lparr>spec_message =
         ''Ambiguous downcasing of character '' @ quoted ''{unicode_name}'' @ '' in the domain name. Use all lower case instead.'',
         spec_args = [''unicode_name'']\<rparr>),
      (''DOMAIN_NAME_TOO_LONG'', \<lparr>spec_message =
         ''Domain name is too long (more than 253 characters with no final dot).'', spec_args = []\<rparr>),
      (''EMPTY_DOMAIN_NAME'', \<lparr>spec_message = ''Domain name is empty.'', spec_args = []\<rparr>),
      (''INITIAL_DOT'', \<lparr>spec_message = ''Domain name starts with dot.'', spec_args = []\<rparr>),
      (''INVALID_ASCII'', \<lparr>spec_message =
         ''Domain name has an ASCII label ('' @ quoted ''{label}'' @ '') with a character not permitted.'', spec_args = [''label'']\<rparr>),
      (''INVALID_U_LABEL'', \<lparr>spec_message =
         ''Domain name has a non-ASCII label ('' @ quoted ''{label}'' @ '') which is not a valid U-label.'', spec_args = [''label'']\<rparr>),
      (''REPEATED_DOTS'', \<lparr>spec_message = ''Domain name has repeated dots.'', spec_args = []\<rparr>),
      (''LABEL_TOO_LONG'', \<lparr>spec_message =
         ''Domain name has a label that is too long (more than 63 characters), '' @ quoted ''{label}'' @ ''.'', spec_args = [''label'']\<rparr>)]"

text \<open>The loop over the required arguments; \<open>None\<close> is the error of a missing one.\<close>

fun resolve_args :: "string list \<Rightarrow> (string, string) gomap \<Rightarrow> (string, string) gomap \<Rightarrow> (string, string) gomap option" where
  "resolve_args [] params resolved = Some resolved"
| "resolve_args (arg # args) params resolved =
     (case gm_get params arg of
        None \<Rightarrow> None
      | Some value \<Rightarrow> resolve_args args params (gm_set arg value resolved))"

definition zero_error :: norm_error where
  "zero_error = \<lparr>err_tag = [], err_params = []\<rparr>"

text \<open>\<open>Inl\<close> carries the zero \<open>Error\<close> that the code returns next to the Go error.\<close>

definition NewError :: "string \<Rightarrow> (string, string) gomap \<Rightarrow> norm_error + norm_error" where
  "NewError tag params =
     (case gm_get errorSpecs tag of
        None \<Rightarrow> Inl zero_error
      | Some spec \<Rightarrow>
          (case resolve_args (spec_args spec) params [] of
             None \<Rightarrow> Inl zero_error
           | Some resolved \<Rightarrow> Inr \<lparr>err_tag = tag, err_params = resolved\<rparr>))"

text \<open>\<open>err, _ := NewError(\<dots>)\<close>\<close>

definition new_error :: "string \<Rightarrow> (string, string) gomap \<Rightarrow> norm_error" where
  "new_error tag params = (case NewError tag params of Inl e \<Rightarrow> e | Inr e \<Rightarrow> e)"

text \<open>\<open>strings.ReplaceAll\<close> for a non-empty pattern: occurrences from left to right, not overlapping.\<close>

function replace_all :: "string \<Rightarrow> string \<Rightarrow> string \<Rightarrow> string" where
  "replace_all [] old new = []"
| "replace_all (c # s) old new =
     (if old \<noteq> [] \<and> has_prefix (c # s) old then new @ replace_all (drop (length old) (c # s)) old new
      else c # replace_all s old new)"
  by pat_completeness auto
termination
  by (relation "measure (\<lambda>(s, old, new). length s)") (auto simp: neq_Nil_conv)

definition error_Message :: "norm_error \<Rightarrow> string" where
  "error_Message e =
     (case gm_get errorSpecs (err_tag e) of
        None \<Rightarrow> []
      | Some spec \<Rightarrow>
          fold (\<lambda>(key, value) msg. replace_all msg (''{'' @ key @ ''}'') value) (err_params e) (spec_message spec))"

section \<open>Names\<close>

definition valid_byte :: "char \<Rightarrow> bool" where
  "valid_byte c = (let n = (of_char c :: nat) in
     65 \<le> n \<and> n \<le> 90 \<or> 97 \<le> n \<and> n \<le> 122 \<or> 48 \<le> n \<and> n \<le> 57 \<or>
     c = CHR ''/'' \<or> c = CHR ''_'' \<or> c = CHR ''-'')"

definition validASCII :: "string \<Rightarrow> bool" where
  "validASCII s = (s \<noteq> [] \<and> list_all valid_byte s)"

definition asciiOnly :: "string \<Rightarrow> bool" where
  "asciiOnly s = (s \<noteq> [] \<and> list_all (\<lambda>c. (of_char c :: nat) \<le> 127) s)"

text \<open>FULLWIDTH, IDEOGRAPHIC and HALFWIDTH IDEOGRAPHIC FULL STOP in UTF-8.\<close>

definition full_stops :: "string list" where
  "full_stops = [[CHR 0xEF, CHR 0xBC, CHR 0x8E], [CHR 0xE3, CHR 0x80, CHR 0x82], [CHR 0xEF, CHR 0xBD, CHR 0xA1]]"

function fullStopReplace :: "string \<Rightarrow> string" where
  "fullStopReplace [] = []"
| "fullStopReplace (c # s) =
     (if list_ex (has_prefix (c # s)) full_stops then CHR ''.'' # fullStopReplace (drop 3 (c # s))
      else c # fullStopReplace s)"
  by pat_completeness auto
termination
  by (relation "measure length") auto

text \<open>LATIN CAPITAL LETTER I WITH DOT ABOVE, the only ambiguous rune.\<close>

definition ambiguousRunes :: "(string, string) gomap" where
  "ambiguousRunes = [([CHR 0xC4, CHR 0xB0], ''LATIN CAPITAL LETTER I WITH DOT ABOVE'')]"

definition whitespaceRunes :: "string list" where
  "whitespaceRunes =
     [[CHR 0x20], [CHR 0x09], [CHR 0xC2, CHR 0xA0]] @
     map (\<lambda>i. [CHR 0xE2, CHR 0x80, char_of (128 + i :: nat)]) [0..<11] @
     [[CHR 0xE2, CHR 0x81, CHR 0x9F], [CHR 0xE3, CHR 0x80, CHR 0x80], [CHR 0xE1, CHR 0x9A, CHR 0x80]]"

text \<open>Trimming with fuel: every round removes at least one byte, so the length is enough.\<close>

fun trim_left :: "nat \<Rightarrow> string \<Rightarrow> string" where
  "trim_left 0 s = s"
| "trim_left (Suc n) s =
     (case find (has_prefix s) whitespaceRunes of None \<Rightarrow> s | Some w \<Rightarrow> trim_left n (drop (length w) s))"

fun trim_right :: "nat \<Rightarrow> string \<Rightarrow> string" where
  "trim_right 0 s = s"
| "trim_right (Suc n) s =
     (case find (has_suffix s) whitespaceRunes of None \<Rightarrow> s | Some w \<Rightarrow> trim_right n (trim_suffix s w))"

definition TrimSpace :: "string \<Rightarrow> string" where
  "TrimSpace str = (let l = trim_left (length str) str in trim_right (length l) l)"

definition NormalizeLabel :: "(string \<Rightarrow> string option) \<Rightarrow> string \<Rightarrow> norm_error list \<times> string" where
  "NormalizeLabel to_ascii label =
     (if validASCII label then
        (let alabel = to_lower label in
         if length alabel > 63 then ([new_error ''LABEL_TOO_LONG'' [(''label'', label)]], [])
         else ([], alabel))
      else if asciiOnly label then ([new_error ''INVALID_ASCII'' [(''label'', label)]], [])
      else case to_ascii label of
             None \<Rightarrow> ([new_error ''INVALID_U_LABEL'' [(''label'', label)]], [])
           | Some alabel \<Rightarrow>
               if length alabel > 63 then ([new_error ''LABEL_TOO_LONG'' [(''label'', label)]], [])
               else ([], alabel))"

definition NormalizeName :: "(string \<Rightarrow> string option) \<Rightarrow> string \<Rightarrow> norm_error list \<times> string" where
  "NormalizeName to_ascii name =
     (if name = [] then ([new_error ''EMPTY_DOMAIN_NAME'' []], [])
      else case find (\<lambda>(r, label). contains name r) ambiguousRunes of
        Some (r, label) \<Rightarrow> ([new_error ''AMBIGUOUS_DOWNCASING'' [(''unicode_name'', label)]], [])
      | None \<Rightarrow>
          let uname = fullStopReplace name in
          if uname = ''.'' then ([], uname)
          else if has_prefix uname ''.'' then ([new_error ''INITIAL_DOT'' []], [])
          else if contains uname ''..'' then ([new_error ''REPEATED_DOTS'' []], [])
          else
            let labels = split_on (CHR ''.'') (trim_suffix uname ''.'');
                results = map (NormalizeLabel to_ascii) labels;
                errors = concat (map fst results)
            in if errors \<noteq> [] then (errors, [])
               else let finalName = join ''.'' (map snd results) in
                    if length finalName > 253 then ([new_error ''DOMAIN_NAME_TOO_LONG'' []], [])
                    else ([], finalName))"

text \<open>\<open>parse_unzoned\<close> is \<open>netip.ParseAddr\<close> restricted to addresses without a zone.\<close>

definition NormalizeTarget ::
  "(string \<Rightarrow> string option) \<Rightarrow> (string \<Rightarrow> 'a option) \<Rightarrow> ('a \<Rightarrow> string) \<Rightarrow> string \<Rightarrow> norm_error list \<times> string" where
  "NormalizeTarget to_ascii parse_unzoned reverse_addr name =
     (case parse_unzoned name of
        Some addr \<Rightarrow> ([], trim_suffix (reverse_addr addr) ''.'')
      | None \<Rightarrow> NormalizeName to_ascii name)"

section \<open>Normal names\<close>

definition ldh_byte :: "char \<Rightarrow> bool" where
  "ldh_byte c = (let n = (of_char c :: nat) in 97 \<le> n \<and> n \<le> 122 \<or> 48 \<le> n \<and> n \<le> 57 \<or> c = CHR ''-'')"

text \<open>What is used of the IDNA conversion: an A-label is not empty and is lower-case LDH.\<close>

definition idna_ok :: "(string \<Rightarrow> string option) \<Rightarrow> bool" where
  "idna_ok to_ascii \<longleftrightarrow> (\<forall>l a. to_ascii l = Some a \<longrightarrow> a \<noteq> [] \<and> list_all ldh_byte a)"

definition normal_label :: "string \<Rightarrow> bool" where
  "normal_label l \<longleftrightarrow> l \<noteq> [] \<and> length l \<le> 63 \<and> list_all valid_byte l \<and> to_lower l = l"

definition normal_name :: "string \<Rightarrow> bool" where
  "normal_name m \<longleftrightarrow> length m \<le> 253 \<and> list_all normal_label (split_on (CHR ''.'') m)"

lemma valid_byte_facts:
  "valid_byte c \<Longrightarrow> (of_char c :: nat) < 128" "valid_byte c \<Longrightarrow> valid_byte (lower_byte c)"
  "valid_byte c \<Longrightarrow> c \<noteq> CHR ''.''" "ldh_byte c \<Longrightarrow> valid_byte c" "ldh_byte c \<Longrightarrow> lower_byte c = c"
  by (auto simp: valid_byte_def ldh_byte_def lower_byte_def Let_def of_char_of take_bit_nat_eq_self)

lemma NormalizeLabel_ok:
  assumes "idna_ok f" "NormalizeLabel f l = ([], a)"
  shows "normal_label a"
proof (cases "validASCII l")
  case True
  then have a: "a = to_lower l" "length l \<le> 63" "l \<noteq> []" "list_all valid_byte l"
    using assms(2) by (auto simp: NormalizeLabel_def Let_def validASCII_def split: if_splits)
  then have "list_all valid_byte a" by (auto simp: list_all_iff to_lower_def valid_byte_facts)
  then show ?thesis using a by (simp add: normal_label_def)
next
  case False
  then have a: "f l = Some a" "length a \<le> 63"
    using assms(2) by (auto simp: NormalizeLabel_def split: if_splits option.splits)
  then have "a \<noteq> []" "list_all ldh_byte a" using assms(1) by (auto simp: idna_ok_def)
  then show ?thesis using a(2)
    by (auto simp: normal_label_def list_all_iff to_lower_def valid_byte_facts map_idI)
qed

lemma NormalizeLabel_normal: "normal_label l \<Longrightarrow> NormalizeLabel f l = ([], l)"
  by (auto simp: NormalizeLabel_def normal_label_def validASCII_def Let_def)

lemma NormalizeLabel_errors: "fst (NormalizeLabel f l) \<noteq> [] \<Longrightarrow> snd (NormalizeLabel f l) = []"
  by (auto simp: NormalizeLabel_def Let_def split: if_splits option.splits)

lemma split_on_covers: "c \<in> set m \<Longrightarrow> c = d \<or> (\<exists>l \<in> set (split_on d m). c \<in> set l)"
  by (induction m) (auto split: list.splits)

lemma normal_bytes:
  assumes "list_all normal_label (split_on (CHR ''.'') m)" "c \<in> set m"
  shows "(of_char c :: nat) < 128"
proof -
  have "c = CHR ''.'' \<or> (\<exists>l \<in> set (split_on (CHR ''.'') m). c \<in> set l)"
    using assms(2) by (rule split_on_covers)
  then show ?thesis using assms(1)
    by (auto simp: list_all_iff normal_label_def valid_byte_facts)
qed

lemma fullStopReplace_ascii: "(\<And>c. c \<in> set m \<Longrightarrow> (of_char c :: nat) < 128) \<Longrightarrow> fullStopReplace m = m"
proof (induction m)
  case (Cons c m)
  have "(of_char c :: nat) < 128" using Cons.prems by simp
  then have "c \<noteq> CHR 0xEF" "c \<noteq> CHR 0xE3" by auto
  then show ?case using Cons by (simp add: full_stops_def has_prefix_def)
qed simp

lemma no_empty_label:
  assumes "[] \<notin> set (split_on (CHR ''.'') m)"
  shows "m \<noteq> []" "\<not> has_prefix m ''.''" "\<not> contains m ''..''" "\<not> has_suffix m ''.''"
proof -
  show "m \<noteq> []" using assms by auto
  show "\<not> has_prefix m ''.''" using assms by (cases m) (auto simp: has_prefix_def)
  show "\<not> contains m ''..''"
  proof
    assume "contains m ''..''"
    then obtain a b where "m = a @ ''..'' @ b" by (auto simp: contains_iff)
    then have "m = a @ CHR ''.'' # CHR ''.'' # b" by simp
    then show False using assms by (simp add: split_on_middle)
  qed
  show "\<not> has_suffix m ''.''"
  proof
    assume "has_suffix m ''.''"
    then obtain a where "m = a @ ''.''" by (auto simp: has_suffix_iff)
    then show False using assms by (simp add: split_on_middle)
  qed
qed

lemma ascii_name_facts:
  assumes ne: "[] \<notin> set (split_on (CHR ''.'') m)" and ascii: "\<And>c. c \<in> set m \<Longrightarrow> (of_char c :: nat) < 128"
  shows "m \<noteq> []" "find (\<lambda>(r, label). contains m r) ambiguousRunes = None" "fullStopReplace m = m"
    "m \<noteq> ''.''" "\<not> has_prefix m ''.''" "\<not> contains m ''..''" "trim_suffix m ''.'' = m"
proof -
  note n = no_empty_label[OF ne]
  show "m \<noteq> []" "\<not> has_prefix m ''.''" "\<not> contains m ''..''" "trim_suffix m ''.'' = m" "m \<noteq> ''.''"
    using n by (auto simp: trim_suffix_def has_prefix_def)
  show "fullStopReplace m = m" using ascii by (rule fullStopReplace_ascii)
  have "CHR 0xC4 \<notin> set m" using ascii[of "CHR 0xC4"] by auto
  then have "\<not> contains m [CHR 0xC4, CHR 0xB0]" by (auto simp: contains_iff)
  then show "find (\<lambda>(r, label). contains m r) ambiguousRunes = None" by (simp add: ambiguousRunes_def)
qed

lemma ascii_name_dot_facts:
  assumes ne: "[] \<notin> set (split_on (CHR ''.'') m)" and ascii: "\<And>c. c \<in> set m \<Longrightarrow> (of_char c :: nat) < 128"
  shows "find (\<lambda>(r, label). contains (m @ ''.'') r) ambiguousRunes = None" "fullStopReplace (m @ ''.'') = m @ ''.''"
    "m @ ''.'' \<noteq> ''.''" "\<not> has_prefix (m @ ''.'') ''.''" "\<not> contains (m @ ''.'') ''..''"
    "trim_suffix (m @ ''.'') ''.'' = m"
proof -
  note n = no_empty_label[OF ne]
  show "m @ ''.'' \<noteq> ''.''" "trim_suffix (m @ ''.'') ''.'' = m"
    using n(1) by (auto simp: trim_suffix_def has_suffix_def)
  show "\<not> has_prefix (m @ ''.'') ''.''" using n(1,2) by (cases m) (auto simp: has_prefix_def)
  show "fullStopReplace (m @ ''.'') = m @ ''.''" using ascii by (intro fullStopReplace_ascii) auto
  have "CHR 0xC4 \<notin> set (m @ ''.'')" using ascii[of "CHR 0xC4"] by auto
  then have "\<not> contains (m @ ''.'') [CHR 0xC4, CHR 0xB0]"
    unfolding contains_iff by (metis append_Cons in_set_conv_decomp)
  then show "find (\<lambda>(r, label). contains (m @ ''.'') r) ambiguousRunes = None" by (simp add: ambiguousRunes_def)
  show "\<not> contains (m @ ''.'') ''..''"
  proof
    assume "contains (m @ ''.'') ''..''"
    then obtain a b where ab: "m @ ''.'' = a @ ''..'' @ b" unfolding contains_iff by blast
    show False
    proof (cases b rule: rev_cases)
      case Nil
      then have "m = a @ ''.''" using ab by simp
      then show False using n(4) by (auto simp: has_suffix_iff)
    next
      case (snoc b' c)
      then have "m = a @ ''..'' @ b'" using ab by simp
      then show False using n(3) unfolding contains_iff by blast
    qed
  qed
qed

lemma normal_name_facts:
  assumes "list_all normal_label (split_on (CHR ''.'') m)"
  shows "m \<noteq> []" "find (\<lambda>(r, label). contains m r) ambiguousRunes = None" "fullStopReplace m = m"
    "m \<noteq> ''.''" "\<not> has_prefix m ''.''" "\<not> contains m ''..''" "trim_suffix m ''.'' = m"
  using ascii_name_facts[OF _ normal_bytes[OF assms]] assms by (auto simp: list_all_iff normal_label_def)

lemma NormalizeName_fixed:
  assumes "normal_name m"
  shows "NormalizeName f m = ([], m)"
proof -
  let ?ls = "split_on (CHR ''.'') m"
  have ls: "list_all normal_label ?ls" "length m \<le> 253" using assms by (simp_all add: normal_name_def)
  have r: "NormalizeLabel f l = ([], l)" if "l \<in> set ?ls" for l
    using ls(1) that by (simp add: list_all_iff NormalizeLabel_normal)
  have "map (snd \<circ> NormalizeLabel f) ?ls = ?ls" by (rule map_idI) (simp add: r)
  then show ?thesis using normal_name_facts[OF ls(1)] ls(2)
    by (simp add: NormalizeName_def Let_def r)
qed

lemma NormalizeName_normal:
  assumes "idna_ok f" "NormalizeName f n = ([], m)"
  shows "m = ''.'' \<or> normal_name m"
proof (cases "m = ''.''")
  case False
  define ls where "ls = split_on (CHR ''.'') (trim_suffix (fullStopReplace n) ''.'')"
  have m: "concat (map fst (map (NormalizeLabel f) ls)) = []" "m = join ''.'' (map snd (map (NormalizeLabel f) ls))"
    "length m \<le> 253"
    using assms(2) False
    by (auto simp: NormalizeName_def Let_def ls_def split: if_splits option.splits prod.splits simp del: map_map)
  have norm: "normal_label (snd (NormalizeLabel f l))" if "l \<in> set ls" for l
    using NormalizeLabel_ok[OF assms(1), of l "snd (NormalizeLabel f l)"] m(1) that by (cases "NormalizeLabel f l") auto
  have "split_on (CHR ''.'') m = map snd (map (NormalizeLabel f) ls)"
    unfolding m(2) by (rule split_on_join)
      (use norm in \<open>auto simp: ls_def normal_label_def list_all_iff dest: valid_byte_facts(3)\<close>)
  then show ?thesis using norm m(3) by (auto simp: normal_name_def list_all_iff)
qed simp

section \<open>Properties\<close>



definition known_error :: "norm_error \<Rightarrow> bool" where
  "known_error e \<longleftrightarrow>
     (case gm_get errorSpecs (err_tag e) of None \<Rightarrow> False | Some spec \<Rightarrow> map fst (err_params e) = spec_args spec)"

lemma known_errors:
  "known_error (new_error ''LABEL_TOO_LONG'' [(''label'', l)])"
  "known_error (new_error ''INVALID_ASCII'' [(''label'', l)])"
  "known_error (new_error ''INVALID_U_LABEL'' [(''label'', l)])"
  "known_error (new_error ''AMBIGUOUS_DOWNCASING'' [(''unicode_name'', l)])"
  "known_error (new_error ''EMPTY_DOMAIN_NAME'' [])" "known_error (new_error ''INITIAL_DOT'' [])"
  "known_error (new_error ''REPEATED_DOTS'' [])" "known_error (new_error ''DOMAIN_NAME_TOO_LONG'' [])"
  by (simp_all add: known_error_def new_error_def NewError_def errorSpecs_def gm_get_def gm_set_def)

lemma NormalizeLabel_known: "e \<in> set (fst (NormalizeLabel f l)) \<Longrightarrow> known_error e"
  by (auto simp: NormalizeLabel_def Let_def known_errors split: if_splits option.splits)

lemma NormalizeName_known: "e \<in> set (fst (NormalizeName f n)) \<Longrightarrow> known_error e"
  by (auto simp: NormalizeName_def Let_def known_errors split: if_splits option.splits prod.splits
      dest: NormalizeLabel_known)

text \<open>
  Errors and names exclude each other. A name comes back exactly when there is no error;
  every error carries a tag of the table with the arguments its message asks for, so that no
  message is empty.
\<close>

theorem normalize_errors_exclusive:
  assumes "idna_ok to_ascii"
  shows "(fst (NormalizeName to_ascii n) \<noteq> [] \<longleftrightarrow> snd (NormalizeName to_ascii n) = []) \<and>
    list_all known_error (fst (NormalizeName to_ascii n))"
proof -
  have "snd (NormalizeName to_ascii n) \<noteq> []" if "fst (NormalizeName to_ascii n) = []"
    using NormalizeName_normal[OF assms, of n "snd (NormalizeName to_ascii n)"] that normal_name_facts(1)
    by (cases "NormalizeName to_ascii n") (auto simp: normal_name_def)
  moreover have "snd (NormalizeName to_ascii n) = []" if "fst (NormalizeName to_ascii n) \<noteq> []"
    using that by (auto simp: NormalizeName_def Let_def split: option.splits prod.splits if_splits)
  ultimately show ?thesis using NormalizeName_known by (auto simp: list_all_iff)
qed

theorem normalize_errors_exclusive_witness:
  "NormalizeName (\<lambda>_. None) ''a..b'' = ([new_error ''REPEATED_DOTS'' []], []) \<and>
   list_all known_error [new_error ''REPEATED_DOTS'' []]"
proof -
  have n: "NormalizeName (\<lambda>_. None) ''a..b'' = ([new_error ''REPEATED_DOTS'' []], [])" by code_simp
  have "idna_ok (\<lambda>_. None)" by (simp add: idna_ok_def)
  from normalize_errors_exclusive[OF this, of "''a..b''"] show ?thesis by (simp add: n)
qed

lemma to_lower_join: "to_lower (join ''.'' ls) = join ''.'' (map to_lower ls)"
proof -
  have "lower_byte (CHR ''.'') = CHR ''.''" by code_simp
  then show ?thesis by (induction ls rule: induct_list012) (auto simp: to_lower_def)
qed

lemma NormalizeLabel_ascii:
  "validASCII l \<Longrightarrow> length l \<le> 63 \<Longrightarrow> NormalizeLabel f l = ([], to_lower l)"
  by (simp add: NormalizeLabel_def Let_def)

text \<open>
  Plain ASCII names are just lower-cased. A name whose labels are 1 to 63 permitted ASCII
  bytes, with or without a final dot, is normalised to its lower case without the dot, whatever
  the IDNA conversion does; so names that differ only in case normalise alike.
\<close>

theorem ascii_name_lower_cased:
  assumes "ls \<noteq> []" "\<forall>l \<in> set ls. validASCII l \<and> length l \<le> 63" "length (join ''.'' ls) \<le> 253"
  shows "NormalizeName to_ascii (join ''.'' ls) = ([], to_lower (join ''.'' ls)) \<and>
    NormalizeName to_ascii (join ''.'' ls @ ''.'') = ([], to_lower (join ''.'' ls))"
proof -
  let ?m = "join ''.'' ls"
  have "CHR ''.'' \<notin> set l" if "l \<in> set ls" for l
    using assms(2) that by (auto simp: validASCII_def list_all_iff dest: valid_byte_facts(3))
  then have sp: "split_on (CHR ''.'') ?m = ls" using assms(1) by (intro split_on_join) auto
  have ne: "[] \<notin> set (split_on (CHR ''.'') ?m)" using assms(2) sp by (auto simp: validASCII_def)
  have ascii: "(of_char c :: nat) < 128" if "c \<in> set ?m" for c
  proof -
    have "c = CHR ''.'' \<or> (\<exists>l \<in> set (split_on (CHR ''.'') ?m). c \<in> set l)" using that by (rule split_on_covers)
    then show ?thesis using assms(2) sp by (auto simp: validASCII_def list_all_iff dest: valid_byte_facts(1))
  qed
  have lab: "NormalizeLabel to_ascii l = ([], to_lower l)" if "l \<in> set ls" for l
    using assms(2) that by (simp add: NormalizeLabel_ascii)
  have fin: "join ''.'' (map (snd \<circ> NormalizeLabel to_ascii) ls) = to_lower ?m"
    by (simp add: lab to_lower_join cong: map_cong)
  show ?thesis
    using ascii_name_facts[OF ne ascii] ascii_name_dot_facts[OF ne ascii] assms(3)
    by (simp add: NormalizeName_def Let_def sp lab fin)
qed

theorem ascii_name_lower_cased_witness:
  "NormalizeName (\<lambda>_. None) ''WWW.se'' = ([], ''www.se'')"
proof -
  have "\<forall>l \<in> set [''WWW'', ''se'']. validASCII l \<and> length l \<le> 63" by code_simp
  then have "NormalizeName (\<lambda>_. None) (join ''.'' [''WWW'', ''se'']) = ([], to_lower (join ''.'' [''WWW'', ''se'']))"
    using ascii_name_lower_cased[of "[''WWW'', ''se'']" "\<lambda>_. None"] by simp
  moreover have "to_lower (join ''.'' [''WWW'', ''se'']) = ''www.se''" by code_simp
  ultimately show ?thesis by simp
qed

end
