(* ===== verification/Recurrence.thy ===== *)
theory Recurrence
  imports Prelude
begin

unbundle bit_operations_syntax

text \<open>
  Calendar recurrence rules (\<open>server/recurrence/recurrence.go\<close>): dates, weekday and day sets,
  rule validation, the next occurrence after an instant, previews and the English rendering.

  The proleptic Gregorian calendar of the \<open>time\<close> package is the first part. A time zone is an
  argument: \<open>lookup s\<close> gives the offset in seconds east of UTC that is in force at second \<open>s\<close> (counted
  from Go's zero time) and the half-open range of seconds for which it is in force, as
  \<open>Location.lookup\<close> does; \<open>time.LoadLocation\<close> is an argument too.
\<close>

section \<open>The Gregorian calendar\<close>

definition day_ns :: int where "day_ns = 86400 * second"

definition is_leap :: "int \<Rightarrow> bool" where
  "is_leap y \<longleftrightarrow> 4 dvd y \<and> (\<not> 100 dvd y \<or> 400 dvd y)"

definition days_before_year :: "int \<Rightarrow> int" where
  "days_before_year y = (let z = y - 1 in 365 * z + z div 4 - z div 100 + z div 400)"

definition days_before_month :: "bool \<Rightarrow> int \<Rightarrow> int" where
  "days_before_month leap m = (let l = (if leap then 1 else 0) in
     if m \<le> 1 then 0 else if m = 2 then 31 else if m = 3 then 59 + l else if m = 4 then 90 + l
     else if m = 5 then 120 + l else if m = 6 then 151 + l else if m = 7 then 181 + l
     else if m = 8 then 212 + l else if m = 9 then 243 + l else if m = 10 then 273 + l
     else if m = 11 then 304 + l else if m = 12 then 334 + l else 365 + l)"

definition month_of :: "bool \<Rightarrow> int \<Rightarrow> int" where
  "month_of leap d = (let l = (if leap then 1 else 0) in
     if d < 31 then 1 else if d < 59 + l then 2 else if d < 90 + l then 3
     else if d < 120 + l then 4 else if d < 151 + l then 5 else if d < 181 + l then 6
     else if d < 212 + l then 7 else if d < 243 + l then 8 else if d < 273 + l then 9
     else if d < 304 + l then 10 else if d < 334 + l then 11 else 12)"

definition year_of :: "int \<Rightarrow> int" where
  "year_of n = (let e = (400 * n) div 146097 + 1 in
     if n < days_before_year e then e - 1 else if days_before_year (e + 1) \<le> n then e + 1 else e)"

text \<open>\<open>time.Date\<close> in UTC: month overflow carries into the year, any day count is added on.\<close>

definition day_number :: "int \<Rightarrow> int \<Rightarrow> int \<Rightarrow> int" where
  "day_number y m d =
     (let y' = y + (m - 1) div 12; m' = (m - 1) mod 12 + 1
      in days_before_year y' + days_before_month (is_leap y') m' + d - 1)"

section \<open>Dates\<close>

record date =
  Year :: int
  Month :: int
  Day :: int

definition civil :: "int \<Rightarrow> date" where
  "civil n = (let y = year_of n; doy = n - days_before_year y; m = month_of (is_leap y) doy
     in \<lparr>Year = y, Month = m, Day = doy - days_before_month (is_leap y) m + 1\<rparr>)"

definition zero_date :: date where "zero_date = \<lparr>Year = 0, Month = 0, Day = 0\<rparr>"

definition date_IsZero :: "date \<Rightarrow> bool" where "date_IsZero d = (d = zero_date)"

definition date_midnight :: "date \<Rightarrow> gotime" where
  "date_midnight d = day_number (Year d) (Month d) (Day d) * day_ns"

definition dateOf :: "gotime \<Rightarrow> date" where
  "dateOf t = civil (t div day_ns)"

definition date_valid :: "date \<Rightarrow> bool" where
  "date_valid d = (\<not> date_IsZero d \<and> dateOf (date_midnight d) = d)"

definition addDays :: "date \<Rightarrow> int \<Rightarrow> date" where
  "addDays d n = dateOf (day_number (Year d) (Month d) (Day d + n) * day_ns)"

text \<open>\<open>int(d.Hours() / 24)\<close>, in float64.\<close>

definition float_hours :: "duration \<Rightarrow> rat" where
  "float_hours d = (let hour = trunc_div d (3600 * second); nsec = d - hour * (3600 * second)
     in fl (of_int hour + fl (of_int nsec / of_int (3600 * second))))"

definition daysSince :: "date \<Rightarrow> date \<Rightarrow> int" where
  "daysSince d o' = float_to_int (fl (float_hours (time_sub (date_midnight d) (date_midnight o')) / 24))"

text \<open>Zero-padded decimal of a given width, as the \<open>time\<close> and \<open>fmt\<close> packages print it.\<close>

definition pad :: "nat \<Rightarrow> int \<Rightarrow> string" where
  "pad w i = (let ds = digits (nat \<bar>i\<bar>) in
     (if i < 0 then ''-'' else []) @ replicate (w - length ds) (CHR ''0'') @ ds)"

definition date_String :: "date \<Rightarrow> string" where
  "date_String d = (if date_IsZero d then [] else
     let c = dateOf (date_midnight d) in pad 4 (Year c) @ ''-'' @ pad 2 (Month c) @ ''-'' @ pad 2 (Day c))"

datatype rule_error = ErrKind | ErrInterval | ErrAnchorDate | ErrWeekdays | ErrDaysOfMonth
  | ErrTimeOfDay | ErrZone | ErrNoOccurrence

definition month_length :: "int \<Rightarrow> int \<Rightarrow> int" where
  "month_length y m = days_before_month (is_leap y) (m + 1) - days_before_month (is_leap y) m"

text \<open>\<open>time.Parse(time.DateOnly, \<dots>)\<close>: four, two and two digits, in range for the month.\<close>

definition ParseDate :: "string \<Rightarrow> rule_error + date" where
  "ParseDate s0 = (let s = trim_space s0 in
     if length s = 10 \<and> s ! 4 = CHR ''-'' \<and> s ! 7 = CHR ''-'' then
       (case (number 0 (take 4 s), number 0 (take 2 (drop 5 s)), number 0 (drop 8 s)) of
          (Some y, Some m, Some d) \<Rightarrow>
            if 1 \<le> m \<and> m \<le> 12 \<and> 1 \<le> d \<and> d \<le> month_length y m
            then Inr \<lparr>Year = y, Month = m, Day = d\<rparr> else Inl ErrAnchorDate
        | _ \<Rightarrow> Inl ErrAnchorDate)
     else Inl ErrAnchorDate)"

section \<open>Kinds, weekday sets, day sets and times of day\<close>

datatype kind = KindInterval | KindWeekly | KindMonthly | OtherKind string

definition ParseKind :: "string \<Rightarrow> rule_error + kind" where
  "ParseKind s = (let k = trim_space s in
     if k = ''interval'' then Inr KindInterval else if k = ''weekly'' then Inr KindWeekly
     else if k = ''monthly'' then Inr KindMonthly else Inl ErrKind)"

definition MaxIntervalDays :: int where "MaxIntervalDays = 365"
definition MaxDayOfMonth :: nat where "MaxDayOfMonth = 28"

type_synonym weekday_set = "8 word"
type_synonym day_set = "32 word"

definition validDays :: day_set where "validDays = push_bit (MaxDayOfMonth + 1) 1 - 2"

definition weekdayNames :: "string list" where
  "weekdayNames = [''sun'', ''mon'', ''tue'', ''wed'', ''thu'', ''fri'', ''sat'']"

fun index_of :: "'a \<Rightarrow> 'a list \<Rightarrow> nat option" where
  "index_of x [] = None"
| "index_of x (y # ys) = (if x = y then Some 0 else map_option Suc (index_of x ys))"

fun parse_weekdays :: "weekday_set \<Rightarrow> string list \<Rightarrow> rule_error + weekday_set" where
  "parse_weekdays st [] = Inr st"
| "parse_weekdays st (name # names) =
     (case index_of (to_lower (trim_space name)) weekdayNames of
        None \<Rightarrow> Inl ErrWeekdays
      | Some i \<Rightarrow> parse_weekdays (st OR push_bit i 1) names)"

definition ParseWeekdays :: "string list \<Rightarrow> rule_error + weekday_set" where
  "ParseWeekdays names = parse_weekdays 0 names"

definition weekday_Has :: "weekday_set \<Rightarrow> nat \<Rightarrow> bool" where
  "weekday_Has s wd = (s AND push_bit wd 1 \<noteq> 0)"

definition mondayFirst :: "nat list" where "mondayFirst = [1, 2, 3, 4, 5, 6, 0]"

definition weekday_Names :: "weekday_set \<Rightarrow> string list" where
  "weekday_Names s = map (\<lambda>wd. weekdayNames ! wd) (filter (weekday_Has s) mondayFirst)"

fun parse_days :: "day_set \<Rightarrow> int list \<Rightarrow> rule_error + day_set" where
  "parse_days st [] = Inr st"
| "parse_days st (d # ds) =
     (if d < 1 \<or> d > int MaxDayOfMonth then Inl ErrDaysOfMonth
      else parse_days (st OR push_bit (nat d) 1) ds)"

definition ParseDays :: "int list \<Rightarrow> rule_error + day_set" where
  "ParseDays days = parse_days 0 days"

definition day_Has :: "day_set \<Rightarrow> int \<Rightarrow> bool" where
  "day_Has s day = (day \<ge> 0 \<and> day < 32 \<and> s AND push_bit (nat day) 1 \<noteq> 0)"

definition set_Days :: "day_set \<Rightarrow> int list" where
  "set_Days s = filter (day_Has s) (map int [1..<MaxDayOfMonth + 1])"

record time_of_day =
  Hour :: int
  Minute :: int

definition tod_valid :: "time_of_day \<Rightarrow> bool" where
  "tod_valid t = (Hour t \<ge> 0 \<and> Hour t < 24 \<and> Minute t \<ge> 0 \<and> Minute t < 60)"

text \<open>\<open>strings.Cut\<close> at the first colon.\<close>

fun cut :: "char \<Rightarrow> string \<Rightarrow> (string \<times> string) option" where
  "cut sep [] = None"
| "cut sep (c # s) = (if c = sep then Some ([], s) else map_option (\<lambda>(a, b). (c # a, b)) (cut sep s))"

definition ParseTimeOfDay :: "string \<Rightarrow> rule_error + time_of_day" where
  "ParseTimeOfDay s =
     (case cut (CHR '':'') (trim_space s) of
        None \<Rightarrow> Inl ErrTimeOfDay
      | Some (h, m) \<Rightarrow>
          if length h \<noteq> 2 \<or> length m \<noteq> 2 then Inl ErrTimeOfDay
          else (case (atoi h, atoi m) of
                  (Some hour, Some minute) \<Rightarrow>
                    (let tod = \<lparr>Hour = hour, Minute = minute\<rparr>
                     in if tod_valid tod then Inr tod else Inl ErrTimeOfDay)
                | _ \<Rightarrow> Inl ErrTimeOfDay))"

definition tod_String :: "time_of_day \<Rightarrow> string" where
  "tod_String t = pad 2 (Hour t) @ '':'' @ pad 2 (Minute t)"

section \<open>Rules\<close>

record rule =
  Kind :: kind
  IntervalDays :: int
  AnchorDate :: date
  Weekdays :: weekday_set
  DaysOfMonth :: day_set
  LastDay :: bool
  TimeOfDay :: time_of_day
  Zone :: string

type_synonym zone = "int \<Rightarrow> int \<times> int \<times> int"

definition utc_zone :: zone where "utc_zone = (\<lambda>s. (0, - (2 ^ 63), 2 ^ 63))"

definition rule_location :: "(string \<Rightarrow> zone option) \<Rightarrow> rule \<Rightarrow> rule_error + zone" where
  "rule_location load r =
     (if Zone r = [] then Inr utc_zone
      else if Zone r = ''Local'' then Inl ErrZone
      else case load (Zone r) of None \<Rightarrow> Inl ErrZone | Some loc \<Rightarrow> Inr loc)"

definition Validate :: "(string \<Rightarrow> zone option) \<Rightarrow> rule \<Rightarrow> rule_error option" where
  "Validate load r =
     (let tail = (if \<not> tod_valid (TimeOfDay r) then Some ErrTimeOfDay
                  else case rule_location load r of Inl e \<Rightarrow> Some e | Inr _ \<Rightarrow> None)
      in case Kind r of
           KindInterval \<Rightarrow>
             if IntervalDays r < 1 \<or> IntervalDays r > MaxIntervalDays then Some ErrInterval
             else if \<not> date_valid (AnchorDate r) then Some ErrAnchorDate else tail
         | KindWeekly \<Rightarrow> if Weekdays r = 0 \<or> Weekdays r \<ge> push_bit 7 1 then Some ErrWeekdays else tail
         | KindMonthly \<Rightarrow>
             if DaysOfMonth r AND NOT validDays \<noteq> 0 \<or> (DaysOfMonth r = 0 \<and> \<not> LastDay r)
             then Some ErrDaysOfMonth else tail
         | OtherKind s \<Rightarrow> Some ErrKind)"

definition Canonical :: "rule \<Rightarrow> rule" where
  "Canonical r =
     (let out = \<lparr>Kind = Kind r, IntervalDays = 1, AnchorDate = zero_date, Weekdays = 0, DaysOfMonth = 0,
                 LastDay = False, TimeOfDay = TimeOfDay r, Zone = Zone r\<rparr>;
          out = (case Kind r of
                   KindInterval \<Rightarrow> out\<lparr>IntervalDays := IntervalDays r, AnchorDate := AnchorDate r\<rparr>
                 | KindWeekly \<Rightarrow> out\<lparr>Weekdays := Weekdays r\<rparr>
                 | KindMonthly \<Rightarrow> out\<lparr>DaysOfMonth := DaysOfMonth r, LastDay := LastDay r\<rparr>
                 | OtherKind s \<Rightarrow> out)
      in if Zone out = [] then out\<lparr>Zone := ''UTC''\<rparr> else out)"

section \<open>Occurrences\<close>

definition zone_offset :: "zone \<Rightarrow> gotime \<Rightarrow> int" where
  "zone_offset z t = fst (z (t div second))"

text \<open>The wall clock of an instant, as if it were UTC.\<close>

definition local_time :: "zone \<Rightarrow> gotime \<Rightarrow> gotime" where
  "local_time z t = t + zone_offset z t * second"

text \<open>\<open>time.Date(\<dots>, loc)\<close>: guess the offset from the wall clock, correct it once if needed.\<close>

definition date_in :: "zone \<Rightarrow> gotime \<Rightarrow> gotime" where
  "date_in z wall =
     (case z (wall div second) of (offset, start, stop) \<Rightarrow>
        if offset = 0 then wall
        else let utc = wall div second - offset;
                 offset' = (if utc < start \<or> utc \<ge> stop then fst (z utc) else offset)
             in wall - offset' * second)"

definition wall_hour :: "gotime \<Rightarrow> int" where "wall_hour w = w mod day_ns div (3600 * second)"
definition wall_minute :: "gotime \<Rightarrow> int" where "wall_minute w = w mod (3600 * second) div (60 * second)"

definition sameWall :: "zone \<Rightarrow> gotime \<Rightarrow> gotime \<Rightarrow> bool" where
  "sameWall z a b =
     (let la = local_time z a; lb = local_time z b
      in dateOf la = dateOf lb \<and> wall_hour la = wall_hour lb \<and> wall_minute la = wall_minute lb)"

definition rule_at :: "rule \<Rightarrow> zone \<Rightarrow> date \<Rightarrow> gotime" where
  "rule_at r z d =
     (let wall = date_midnight d + (Hour (TimeOfDay r) * 3600 + Minute (TimeOfDay r) * 60) * second;
          t = date_in z wall;
          cur = zone_offset z t;
          prev = zone_offset z (t - 3 * 3600 * second)
      in if prev > cur then
           (let e = t - (prev - cur) * second in if sameWall z e t then e else t)
         else t)"

definition weekday_of :: "date \<Rightarrow> nat" where
  "weekday_of d = nat ((date_midnight d div day_ns + 1) mod 7)"

definition rule_matches :: "rule \<Rightarrow> date \<Rightarrow> bool" where
  "rule_matches r d =
     (case Kind r of
        KindWeekly \<Rightarrow> weekday_Has (Weekdays r) (weekday_of d)
      | KindMonthly \<Rightarrow> day_Has (DaysOfMonth r) (Day d) \<or> (LastDay r \<and> Day (addDays d 1) = 1)
      | _ \<Rightarrow> False)"

text \<open>
  The unbounded loop over the multiples of the interval, for the instants \<open>occ k\<close> of the \<open>k\<close>-th one;
  not returning is \<open>None\<close>.
\<close>

definition interval_occ :: "rule \<Rightarrow> zone \<Rightarrow> int \<Rightarrow> gotime" where
  "interval_occ r z k = rule_at r z (addDays (AnchorDate r) (k * IntervalDays r))"

partial_function (option) interval_loop :: "(int \<Rightarrow> gotime) \<Rightarrow> gotime \<Rightarrow> int \<Rightarrow> gotime option" where
  "interval_loop occ t k = (if occ k > t then Some (occ k) else interval_loop occ t (k + 1))"

declare interval_loop.simps [code]

fun scan_days :: "rule \<Rightarrow> zone \<Rightarrow> gotime \<Rightarrow> date \<Rightarrow> nat list \<Rightarrow> gotime option" where
  "scan_days r z t start [] = None"
| "scan_days r z t start (i # js) =
     (let d = addDays start (int i) in
      if \<not> rule_matches r d then scan_days r z t start js
      else let occ = rule_at r z d in if occ > t then Some occ else scan_days r z t start js)"

text \<open>\<open>None\<close>: the interval loop does not end.\<close>

definition Next :: "(string \<Rightarrow> zone option) \<Rightarrow> rule \<Rightarrow> gotime \<Rightarrow> (rule_error + gotime) option" where
  "Next load r t =
     (case Validate load r of
        Some e \<Rightarrow> Some (Inl e)
      | None \<Rightarrow>
          (case rule_location load r of
             Inl e \<Rightarrow> Some (Inl e)
           | Inr z \<Rightarrow>
               let start = addDays (dateOf (local_time z t)) (- 1) in
               if Kind r = KindInterval then
                 (let gap = daysSince start (AnchorDate r);
                      k = (if gap > 0 then trunc_div (gap + IntervalDays r - 1) (IntervalDays r) else 0)
                  in map_option Inr (interval_loop (interval_occ r z) t k))
               else (case scan_days r z t start [0..<64] of
                       Some occ \<Rightarrow> Some (Inr occ)
                     | None \<Rightarrow> Some (Inl ErrNoOccurrence))))"

fun preview_loop :: "(string \<Rightarrow> zone option) \<Rightarrow> rule \<Rightarrow> gotime \<Rightarrow> nat \<Rightarrow> (rule_error + gotime list) option" where
  "preview_loop load r t 0 = Some (Inr [])"
| "preview_loop load r t (Suc n) =
     (case Next load r t of
        None \<Rightarrow> None
      | Some (Inl e) \<Rightarrow> Some (Inl e)
      | Some (Inr nxt) \<Rightarrow>
          (case preview_loop load r nxt n of
             None \<Rightarrow> None
           | Some (Inl e) \<Rightarrow> Some (Inl e)
           | Some (Inr ts) \<Rightarrow> Some (Inr (nxt # ts))))"

definition Preview :: "(string \<Rightarrow> zone option) \<Rightarrow> rule \<Rightarrow> gotime \<Rightarrow> nat \<Rightarrow> (rule_error + gotime list) option" where
  "Preview load r t n = preview_loop load r t n"

section \<open>English\<close>

definition joinAnd :: "string list \<Rightarrow> string" where
  "joinAnd items = (if length items < 2 then join [] items
     else join '', '' (butlast items) @ '' and '' @ last items)"

definition longDayNames :: "string list" where
  "longDayNames = [''Sunday'', ''Monday'', ''Tuesday'', ''Wednesday'', ''Thursday'', ''Friday'', ''Saturday'']"

definition kind_string :: "kind \<Rightarrow> string" where
  "kind_string k = (case k of KindInterval \<Rightarrow> ''interval'' | KindWeekly \<Rightarrow> ''weekly''
     | KindMonthly \<Rightarrow> ''monthly'' | OtherKind s \<Rightarrow> s)"

definition monthly_text :: "rule \<Rightarrow> string" where
  "monthly_text r = (let parts = map itoa (set_Days (DaysOfMonth r));
        label = (if length parts > 1 then ''days '' else ''day '')
      in if parts = [] then ''Monthly, the last day''
         else if LastDay r then ''Monthly, '' @ label @ joinAnd (parts @ [''the last day''])
         else ''Monthly, '' @ label @ joinAnd parts)"

definition rule_String :: "rule \<Rightarrow> string" where
  "rule_String r =
     (let zone = (if Zone r = [] then ''UTC'' else Zone r);
          finish = (\<lambda>what. what @ '', '' @ tod_String (TimeOfDay r) @ '' '' @ zone)
      in case Kind r of
           KindInterval \<Rightarrow>
             finish (if IntervalDays r = 1 then ''Every day from '' @ date_String (AnchorDate r)
                     else ''Every '' @ itoa (IntervalDays r) @ '' days from '' @ date_String (AnchorDate r))
         | KindWeekly \<Rightarrow>
             finish (''Weekly, '' @ joinAnd (map (\<lambda>wd. longDayNames ! wd)
                (filter (weekday_Has (Weekdays r)) mondayFirst)))
         | KindMonthly \<Rightarrow> finish (monthly_text r)
         | OtherKind s \<Rightarrow> kind_string (Kind r))"

section \<open>The calendar is a bijection\<close>

lemma cycle_arith:
  "z = 4 * a + ma \<Longrightarrow> z = 100 * b + mb \<Longrightarrow> z = 400 * c + mc \<Longrightarrow>
     400 * (365 * z + a - b + c) = 146097 * z - 100 * ma + 4 * mb - (mc :: int)"
  by algebra

lemma days_before_year_400:
  "400 * days_before_year y = 146097 * (y - 1) - 100 * ((y - 1) mod 4) + 4 * ((y - 1) mod 100) - (y - 1) mod 400"
  unfolding days_before_year_def Let_def by (rule cycle_arith) simp_all

lemma days_before_year_bounds:
  "146097 * (y - 1) - 699 \<le> 400 * days_before_year y" "400 * days_before_year y \<le> 146097 * (y - 1) + 396"
proof -
  have "0 \<le> (y - 1) mod 4" "(y - 1) mod 4 \<le> 3" "0 \<le> (y - 1) mod 100" "(y - 1) mod 100 \<le> 99"
    "0 \<le> (y - 1) mod 400" "(y - 1) mod 400 \<le> 399"
    using pos_mod_bound[of 4 "y - 1"] pos_mod_bound[of 100 "y - 1"] pos_mod_bound[of 400 "y - 1"] by auto
  then show "146097 * (y - 1) - 699 \<le> 400 * days_before_year y" "400 * days_before_year y \<le> 146097 * (y - 1) + 396"
    unfolding days_before_year_400 by linarith+
qed

lemma div_succ: "0 < k \<Longrightarrow> (z + 1) div k = z div k + (if k dvd z + 1 then 1 else (0 :: int))"
proof -
  assume k: "0 < k"
  have z: "z = k * (z div k) + z mod k" by simp
  have m: "0 \<le> z mod k" "z mod k < k" using k by simp_all
  show ?thesis
  proof (cases "z mod k + 1 = k")
    case True
    then have "z + 1 = k * (z div k) + k" using z by linarith
    then have "z + 1 = k * (z div k + 1)" by (simp add: distrib_left)
    then show ?thesis using k by (metis dvd_triv_left nonzero_mult_div_cancel_left order_less_irrefl)
  next
    case False
    then have r: "0 \<le> z mod k + 1" "z mod k + 1 < k" using m by simp_all
    have e: "z + 1 = k * (z div k) + (z mod k + 1)" using z by simp
    have "(z + 1) div k = z div k" "(z + 1) mod k = z mod k + 1"
      using int_div_pos_eq[OF e r] int_mod_pos_eq[OF e r] by simp_all
    then show ?thesis using r m by (auto simp: dvd_eq_mod_eq_0)
  qed
qed

lemma days_before_year_Suc: "days_before_year (y + 1) = days_before_year y + (if is_leap y then 366 else 365)"
proof -
  define a b c where "a = (y - 1) div 4" and "b = (y - 1) div 100" and "c = (y - 1) div 400"
  have d: "(100 :: int) dvd y \<Longrightarrow> 4 dvd y" "(400 :: int) dvd y \<Longrightarrow> 100 dvd y"
    by (rule dvd_trans[rotated], assumption, simp)+
  have "y div 4 = a + (if 4 dvd y then 1 else 0)" "y div 100 = b + (if 100 dvd y then 1 else 0)"
    "y div 400 = c + (if 400 dvd y then 1 else 0)"
    using div_succ[of 4 "y - 1"] div_succ[of 100 "y - 1"] div_succ[of 400 "y - 1"] by (simp_all add: a_def b_def c_def)
  then have "days_before_year (y + 1) =
      365 * y + (a + (if 4 dvd y then 1 else 0)) - (b + (if 100 dvd y then 1 else 0)) + (c + (if 400 dvd y then 1 else 0))"
    by (simp only: days_before_year_def Let_def add_diff_cancel_right')
  moreover have "days_before_year y = 365 * (y - 1) + a - b + c"
    by (simp only: days_before_year_def Let_def a_def b_def c_def)
  ultimately show ?thesis using d
    by (cases "4 dvd y"; cases "100 dvd y"; cases "400 dvd y") (simp_all add: is_leap_def)
qed

lemma quotient_bounds: "x = 146097 * q + r \<Longrightarrow> 0 \<le> r \<Longrightarrow> r < 146097 \<Longrightarrow> 146097 * q \<le> x \<and> x < 146097 * (q + 1 :: int)"
  by auto

lemma year_of_bounds: "days_before_year (year_of n) \<le> n" "n < days_before_year (year_of n + 1)"
proof -
  define e where "e = (400 * n) div 146097 + 1"
  have e: "146097 * (e - 1) \<le> 400 * n \<and> 400 * n < 146097 * (e - 1 + 1)"
    by (rule quotient_bounds[where r = "400 * n mod 146097"]) (simp_all add: e_def)
  have "400 * days_before_year (e - 1) \<le> 400 * n" "400 * n < 400 * days_before_year (e + 2)"
    using days_before_year_bounds[of "e - 1"] days_before_year_bounds[of "e + 2"] e by simp_all
  then have "days_before_year (e - 1) \<le> n" "n < days_before_year (e + 2)" by simp_all
  moreover have "2 + e = e + 2" by simp
  ultimately show "days_before_year (year_of n) \<le> n" "n < days_before_year (year_of n + 1)"
    unfolding year_of_def e_def[symmetric] Let_def by (auto simp: not_less not_le add.commute)
qed

lemma days_before_year_mono: "y \<le> y' \<Longrightarrow> days_before_year y \<le> days_before_year y'"
proof (induction rule: int_ge_induct)
  case (step i)
  then show ?case using days_before_year_Suc[of i] by (auto split: if_splits)
qed simp

lemma year_of_unique:
  assumes "days_before_year y \<le> n" "n < days_before_year (y + 1)"
  shows "year_of n = y"
proof (rule ccontr)
  assume "year_of n \<noteq> y"
  then consider "year_of n + 1 \<le> y" | "y + 1 \<le> year_of n" by linarith
  then show False
    using days_before_year_mono[of "year_of n + 1" y] days_before_year_mono[of "y + 1" "year_of n"]
      year_of_bounds[of n] assms by cases linarith+
qed

text \<open>A date of the calendar.\<close>

definition real_date :: "date \<Rightarrow> bool" where
  "real_date d \<longleftrightarrow> 1 \<le> Month d \<and> Month d \<le> 12 \<and> 1 \<le> Day d \<and> Day d \<le> month_length (Year d) (Month d)"

abbreviation day_no :: "date \<Rightarrow> int" where
  "day_no d \<equiv> day_number (Year d) (Month d) (Day d)"

lemma months: "1 \<le> m \<Longrightarrow> m \<le> 12 \<Longrightarrow> m \<in> {1, 2, 3, 4, 5, 6, 7, 8, 9, 10, 11, 12 :: int}"
  by (simp only: insert_iff empty_iff) presburger

lemma month_of_bounds:
  assumes "0 \<le> d" "d < (if leap then 366 else 365)"
  shows "1 \<le> month_of leap d" "month_of leap d \<le> 12" "days_before_month leap (month_of leap d) \<le> d"
    "d < days_before_month leap (month_of leap d + 1)"
  using assms by (auto simp: month_of_def days_before_month_def Let_def)

lemma month_of_unique:
  assumes "1 \<le> m" "m \<le> 12" "days_before_month leap m \<le> d" "d < days_before_month leap (m + 1)"
  shows "month_of leap d = m"
  using months[OF assms(1,2)] assms(3,4)
  by (auto simp: month_of_def days_before_month_def Let_def split: if_splits)

lemma days_before_month_range:
  assumes "1 \<le> m" "m \<le> 12"
  shows "0 \<le> days_before_month leap m" "days_before_month leap (m + 1) \<le> (if leap then 366 else 365)"
  using months[OF assms] by (auto simp: days_before_month_def Let_def)

lemma civil_real: "real_date (civil n)"
proof -
  let ?y = "year_of n"
  have d: "0 \<le> n - days_before_year ?y" "n - days_before_year ?y < (if is_leap ?y then 366 else 365)"
    using year_of_bounds[of n] days_before_year_Suc[of ?y] by (auto split: if_splits)
  show ?thesis using month_of_bounds[OF d]
    by (simp add: real_date_def civil_def Let_def month_length_def)
qed

lemma month_carry: "1 \<le> m \<Longrightarrow> m \<le> 12 \<Longrightarrow> (m - 1) div 12 = 0 \<and> (m - 1) mod 12 = m - (1 :: int)"
  by (simp add: div_pos_pos_trivial mod_pos_pos_trivial)

lemma day_number_real:
  "1 \<le> m \<Longrightarrow> m \<le> 12 \<Longrightarrow> day_number y m d = days_before_year y + days_before_month (is_leap y) m + d - 1"
  by (simp add: day_number_def Let_def month_carry)

lemma day_no_civil [simp]: "day_no (civil n) = n"
  using civil_real[of n] by (simp add: day_number_real real_date_def) (simp add: civil_def Let_def)

lemma civil_day_no:
  assumes "real_date d"
  shows "civil (day_no d) = d"
proof -
  have m: "1 \<le> Month d" "Month d \<le> 12" "1 \<le> Day d" "Day d \<le> month_length (Year d) (Month d)"
    using assms by (simp_all add: real_date_def)
  let ?b = "days_before_month (is_leap (Year d)) (Month d)"
  have n: "day_no d = days_before_year (Year d) + ?b + Day d - 1" using m by (simp add: day_number_real)
  have r: "0 \<le> ?b" "?b + Day d \<le> (if is_leap (Year d) then 366 else 365)"
    using days_before_month_range[OF m(1,2), of "is_leap (Year d)"] m(4) by (auto simp: month_length_def)
  have y: "year_of (day_no d) = Year d"
    by (rule year_of_unique) (use n m r days_before_year_Suc[of "Year d"] in \<open>auto split: if_splits\<close>)
  have mo: "month_of (is_leap (Year d)) (day_no d - days_before_year (Year d)) = Month d"
    by (rule month_of_unique[OF m(1,2)]) (use n m in \<open>auto simp: month_length_def\<close>)
  show ?thesis by (cases d) (use y mo n in \<open>simp add: civil_def Let_def\<close>)
qed

lemma day_ns_pos: "0 < day_ns" by (simp add: day_ns_def second_def)

lemma dateOf_midnight [simp]: "dateOf (n * day_ns) = civil n"
  using day_ns_pos by (simp add: dateOf_def)

lemma date_valid_iff: "date_valid d \<longleftrightarrow> real_date d"
proof
  assume "date_valid d"
  then have "civil (day_no d) = d" by (simp add: date_valid_def date_midnight_def)
  then show "real_date d" using civil_real by metis
next
  assume "real_date d"
  moreover from this have "\<not> date_IsZero d" by (auto simp: real_date_def date_IsZero_def zero_date_def)
  ultimately show "date_valid d" by (simp add: date_valid_def date_midnight_def civil_day_no)
qed

lemma addDays_civil [simp]: "addDays (civil n) k = civil (n + k)"
proof -
  have "day_number (Year (civil n)) (Month (civil n)) (Day (civil n) + k) = day_no (civil n) + k"
    by (simp only: day_number_def Let_def)
  then show ?thesis by (simp add: addDays_def)
qed

lemma addDays_real: "real_date d \<Longrightarrow> addDays d k = civil (day_no d + k)"
  using addDays_civil[of "day_no d" k] by (simp add: civil_day_no)

section \<open>Where an occurrence can fall\<close>

abbreviation zoff :: "zone \<Rightarrow> int \<Rightarrow> int" where
  "zoff z s \<equiv> fst (z s)"

text \<open>What is used of a zone: its offsets differ by at most a day.\<close>

definition zone_ok :: "zone \<Rightarrow> bool" where
  "zone_ok z \<longleftrightarrow> (\<forall>s s'. \<bar>zoff z s - zoff z s'\<bar> \<le> 86400)"

lemma second_pos: "0 < second" by (simp add: second_def)

lemma date_in_offset: "\<exists>s. date_in z wall = wall - zoff z s * second"
proof (cases "z (wall div second)")
  case (fields off start stop)
  show ?thesis
  proof (cases "off = 0")
    case True
    then have "date_in z wall = wall - zoff z (wall div second) * second" using fields by (simp add: date_in_def)
    then show ?thesis by blast
  next
    case False
    let ?utc = "wall div second - off"
    have "date_in z wall = wall - zoff z (if ?utc < start \<or> ?utc \<ge> stop then ?utc else wall div second) * second"
      using fields False by (simp add: date_in_def Let_def)
    then show ?thesis by blast
  qed
qed

lemma rule_at_bounds:
  assumes "zone_ok z" "tod_valid (TimeOfDay r)"
  shows "\<exists>s. (m - 1) * day_ns - zoff z s * second \<le> rule_at r z (civil m) \<and>
    rule_at r z (civil m) < (m + 1) * day_ns - zoff z s * second"
proof -
  define tod where "tod = (Hour (TimeOfDay r) * 3600 + Minute (TimeOfDay r) * 60) * second"
  have tod: "0 \<le> tod" "tod < day_ns"
    using assms(2) by (auto simp: tod_def tod_valid_def day_ns_def second_def)
  define t where "t = date_in z (m * day_ns + tod)"
  obtain s where s: "t = m * day_ns + tod - zoff z s * second"
    using date_in_offset[of z "m * day_ns + tod"] by (auto simp: t_def)
  define prev cur where "prev = zone_offset z (t - 3 * 3600 * second)" and "cur = zone_offset z t"
  have at: "rule_at r z (civil m) = t \<or> (prev > cur \<and> rule_at r z (civil m) = t - (prev - cur) * second)"
    by (auto simp: rule_at_def Let_def date_midnight_def tod_def[symmetric] t_def prev_def cur_def)
  have "prev - cur \<le> 86400" using assms(1)
    by (metis (no_types) abs_le_iff prev_def cur_def zone_ok_def zone_offset_def)
  then have "(prev - cur) * second \<le> day_ns" using second_pos by (simp add: day_ns_def)
  moreover have "prev > cur \<Longrightarrow> 0 < (prev - cur) * second" using second_pos by simp
  ultimately have "t - day_ns \<le> rule_at r z (civil m)" "rule_at r z (civil m) \<le> t"
    using at day_ns_pos by auto
  then show ?thesis using s tod by (intro exI[of _ s]) (simp add: algebra_simps)
qed

lemma offset_gap: "zone_ok z \<Longrightarrow> (zoff z s - zoff z s') * second \<le> day_ns"
proof -
  assume "zone_ok z"
  then have "zoff z s - zoff z s' \<le> 86400" by (metis abs_le_iff zone_ok_def)
  then show ?thesis using second_pos by (simp add: day_ns_def)
qed

text \<open>The local day of an instant decides which dates can have passed.\<close>

definition local_day :: "zone \<Rightarrow> gotime \<Rightarrow> int" where
  "local_day z t = local_time z t div day_ns"

lemma local_day_bounds:
  "local_day z t * day_ns - zoff z (t div second) * second \<le> t"
  "t < (local_day z t + 1) * day_ns - zoff z (t div second) * second"
proof -
  have "local_time z t = local_day z t * day_ns + local_time z t mod day_ns" by (simp add: local_day_def)
  moreover have "0 \<le> local_time z t mod day_ns" "local_time z t mod day_ns < day_ns"
    using day_ns_pos by simp_all
  ultimately show "local_day z t * day_ns - zoff z (t div second) * second \<le> t"
    "t < (local_day z t + 1) * day_ns - zoff z (t div second) * second"
    by (simp_all add: local_time_def zone_offset_def algebra_simps)
qed

lemma past_occurrence:
  assumes "zone_ok z" "tod_valid (TimeOfDay r)" "m \<le> local_day z t - 2"
  shows "rule_at r z (civil m) \<le> t"
proof -
  obtain s where s: "rule_at r z (civil m) < (m + 1) * day_ns - zoff z s * second"
    using rule_at_bounds[OF assms(1,2)] by blast
  have "(m + 1) * day_ns \<le> (local_day z t - 1) * day_ns" using assms(3) day_ns_pos by simp
  then show ?thesis using s local_day_bounds(1)[of z t] offset_gap[OF assms(1), of "t div second" s]
    by (simp add: algebra_simps)
qed

lemma future_occurrence:
  assumes "zone_ok z" "tod_valid (TimeOfDay r)" "local_day z t + 3 \<le> m"
  shows "t < rule_at r z (civil m)"
proof -
  obtain s where s: "(m - 1) * day_ns - zoff z s * second \<le> rule_at r z (civil m)"
    using rule_at_bounds[OF assms(1,2)] by blast
  have "(local_day z t + 2) * day_ns \<le> (m - 1) * day_ns" using assms(3) day_ns_pos by simp
  then show ?thesis using s local_day_bounds(2)[of t z] offset_gap[OF assms(1), of s "t div second"]
    by (simp add: algebra_simps)
qed

section \<open>Every valid rule recurs\<close>

lemma weekday_of_civil: "weekday_of (civil m) = nat ((m + 1) mod 7)"
  using day_ns_pos by (simp add: weekday_of_def date_midnight_def)

lemma weekly_recurs:
  assumes "weekday_Has s b" "b < 7"
  shows "\<exists>m. n \<le> m \<and> m < n + 7 \<and> weekday_Has s (weekday_of (civil m))"
proof -
  define m where "m = n + (int b - n - 1) mod 7"
  have "(m + 1) mod 7 = (n + 1 + (int b - n - 1) mod 7) mod 7" by (simp add: m_def algebra_simps)
  also have "\<dots> = (n + 1 + (int b - n - 1)) mod 7" by (rule mod_add_right_eq)
  also have "\<dots> = int b" using assms(2) by simp
  finally have "(m + 1) mod 7 = int b" .
  moreover have "n \<le> m" "m < n + 7" by (simp_all add: m_def)
  ultimately show ?thesis using assms(1) by (intro exI[of _ m]) (simp add: weekday_of_civil)
qed

lemma month_length_range: "1 \<le> m \<Longrightarrow> m \<le> 12 \<Longrightarrow> 28 \<le> month_length y m \<and> month_length y m \<le> 31"
  using months[of m] by (auto simp: month_length_def days_before_month_def Let_def)

definition next_month :: "int \<Rightarrow> int \<Rightarrow> int \<times> int" where
  "next_month y m = (if m = 12 then (y + 1, 1) else (y, m + 1))"

lemma day_number_next_month:
  assumes "1 \<le> m" "m \<le> 12" "next_month y m = (y', m')"
  shows "day_number y' m' 1 = day_number y m (month_length y m) + 1" "1 \<le> m'" "m' \<le> 12"
proof -
  show m': "1 \<le> m'" "m' \<le> 12" using assms by (auto simp: next_month_def split: if_splits)
  have len: "day_number y m (month_length y m) = days_before_year y + days_before_month (is_leap y) (m + 1) - 1"
    using assms by (simp add: day_number_real month_length_def)
  show "day_number y' m' 1 = day_number y m (month_length y m) + 1"
  proof (cases "m = 12")
    case True
    then have "day_number y' m' 1 = days_before_year (y + 1)"
      using assms(3) by (auto simp: next_month_def day_number_real days_before_month_def)
    then show ?thesis unfolding len using True days_before_year_Suc[of y] by (simp add: days_before_month_def)
  next
    case False
    then show ?thesis unfolding len using assms m' by (auto simp: day_number_real next_month_def)
  qed
qed

lemma civil_of_month_day:
  assumes "1 \<le> m" "m \<le> 12" "1 \<le> k" "k \<le> month_length y m"
  shows "civil (day_number y m k) = \<lparr>Year = y, Month = m, Day = k\<rparr>"
  using civil_day_no[of "\<lparr>Year = y, Month = m, Day = k\<rparr>"] assms by (simp add: real_date_def)

lemma day_number_shift: "day_number y m (d + k) = day_number y m d + k"
  by (simp add: day_number_def Let_def)

text \<open>Every stretch of 31 days has each day 1 to 28 and a last day of a month.\<close>

lemma monthly_recurs:
  assumes "1 \<le> k" "k \<le> 28"
  shows "\<exists>m. n \<le> m \<and> m < n + 31 \<and> Day (civil m) = k"
proof -
  obtain y mo d where c: "civil n = \<lparr>Year = y, Month = mo, Day = d\<rparr>" by (cases "civil n")
  have r: "1 \<le> mo" "mo \<le> 12" "1 \<le> d" "d \<le> month_length y mo" and n: "day_number y mo d = n"
    using civil_real[of n] day_no_civil[of n] c by (simp_all add: real_date_def)
  note len = month_length_range[OF r(1,2), of y]
  show ?thesis
  proof (cases "d \<le> k")
    case True
    have "civil (n + (k - d)) = \<lparr>Year = y, Month = mo, Day = k\<rparr>"
      using civil_of_month_day[of mo k y] r assms len day_number_shift[of y mo d "k - d"] n by simp
    then show ?thesis using True r assms by (intro exI[of _ "n + (k - d)"]) simp
  next
    case False
    obtain y' m' where nm: "next_month y mo = (y', m')" by fastforce
    note f = day_number_next_month[OF r(1,2) nm]
    have "day_number y' m' k = n + (month_length y mo - d) + k"
      using f(1) day_number_shift[of y' m' 1 "k - 1"] day_number_shift[of y mo d "month_length y mo - d"] n by simp
    then have "civil (n + (month_length y mo - d) + k) = \<lparr>Year = y', Month = m', Day = k\<rparr>"
      using civil_of_month_day[OF f(2,3), of k y'] month_length_range[OF f(2,3), of y'] assms by simp
    then show ?thesis using False r len assms
      by (intro exI[of _ "n + (month_length y mo - d) + k"]) simp
  qed
qed

lemma last_day_recurs: "\<exists>m. n \<le> m \<and> m < n + 31 \<and> Day (addDays (civil m) 1) = 1"
proof -
  obtain m where "n + 1 \<le> m" "m < n + 1 + 31" "Day (civil m) = 1" using monthly_recurs[of 1 "n + 1"] by auto
  then show ?thesis by (intro exI[of _ "m - 1"]) simp
qed

section \<open>The search finds the first occurrence\<close>

definition occurrence :: "rule \<Rightarrow> int \<Rightarrow> bool" where
  "occurrence r m \<longleftrightarrow>
     (if Kind r = KindInterval then \<exists>k \<ge> 0. m = day_no (AnchorDate r) + k * IntervalDays r
      else rule_matches r (civil m))"

lemma scan_days_Some:
  "scan_days r z t (civil s) js = Some u \<Longrightarrow>
     \<exists>js1 i js2. js = js1 @ i # js2 \<and> rule_matches r (civil (s + int i)) \<and> u = rule_at r z (civil (s + int i)) \<and> t < u \<and>
       (\<forall>j \<in> set js1. rule_matches r (civil (s + int j)) \<longrightarrow> rule_at r z (civil (s + int j)) \<le> t)"
proof (induction js)
  case (Cons j js)
  show ?case
  proof (cases "rule_matches r (civil (s + int j)) \<and> t < rule_at r z (civil (s + int j))")
    case True
    then have "u = rule_at r z (civil (s + int j))" using Cons.prems by (simp add: Let_def)
    then show ?thesis using True by (intro exI[of _ "[]"]) auto
  next
    case False
    then have "scan_days r z t (civil s) js = Some u" using Cons.prems by (auto simp: Let_def split: if_splits)
    then obtain js1 i js2 where i: "js = js1 @ i # js2" "rule_matches r (civil (s + int i))"
      "u = rule_at r z (civil (s + int i))" "t < u"
      "\<forall>j \<in> set js1. rule_matches r (civil (s + int j)) \<longrightarrow> rule_at r z (civil (s + int j)) \<le> t"
      using Cons.IH by blast
    then show ?thesis using False by (intro exI[of _ "j # js1"] exI[of _ i] exI[of _ js2]) auto
  qed
qed simp

lemma scan_days_None:
  "scan_days r z t (civil s) js = None \<Longrightarrow> j \<in> set js \<Longrightarrow> rule_matches r (civil (s + int j)) \<Longrightarrow>
     rule_at r z (civil (s + int j)) \<le> t"
  by (induction js) (auto simp: Let_def split: if_splits)

lemma upt_split: "[0..<n] = js1 @ i # js2 \<Longrightarrow> set js1 = {0..<i} \<and> i < n"
proof -
  assume e: "[0..<n] = js1 @ i # js2"
  have len: "length js1 < n" using arg_cong[OF e, of length] by simp
  have "i = [0..<n] ! length js1" by (simp add: e)
  then have i: "i = length js1" using len by simp
  have "js1 = take (length js1) [0..<n]" by (simp add: e)
  then have "js1 = [0..<i]" using len i by (simp add: take_upt)
  then have "set js1 = {0..<i}" by (metis atLeastLessThan_upt)
  then show ?thesis using i len by simp
qed

lemma interval_loop_first:
  assumes "t < occ K" "k \<le> K"
  shows "\<exists>j. k \<le> j \<and> interval_loop occ t k = Some (occ j) \<and> t < occ j \<and> (\<forall>i. k \<le> i \<and> i < j \<longrightarrow> occ i \<le> t)"
  using assms
proof (induction "nat (K - k)" arbitrary: k rule: less_induct)
  case less
  show ?case
  proof (cases "t < occ k")
    case True
    then show ?thesis by (intro exI[of _ k]) (simp add: interval_loop.simps)
  next
    case False
    then have "k < K" using less.prems by (cases "k = K") auto
    then obtain j where j: "k + 1 \<le> j" "interval_loop occ t (k + 1) = Some (occ j)" "t < occ j"
      "\<forall>i. k + 1 \<le> i \<and> i < j \<longrightarrow> occ i \<le> t"
      using less.hyps[of "k + 1"] less.prems(1) by auto
    have "interval_loop occ t k = Some (occ j)" using False j(2) by (subst interval_loop.simps) simp
    moreover have "occ i \<le> t" if "k \<le> i" "i < j" for i
      using that j(4) False by (cases "i = k") auto
    ultimately show ?thesis using j by (intro exI[of _ j]) auto
  qed
qed

lemma fl_nonpos: "x \<le> 0 \<Longrightarrow> fl x \<le> 0"
proof -
  assume x: "x \<le> 0"
  have "round_even y \<le> 0" if "y \<le> 0" for y :: rat
  proof (cases "y = 0")
    case False
    then have "\<lfloor>y\<rfloor> \<le> - 1" using that by (simp add: floor_le_iff)
    then show ?thesis by (auto simp: round_even_def round_frac_def)
  qed (simp add: round_even_def round_frac_def)
  then show ?thesis using x by (auto simp: fl_def round_to_def divide_nonpos_pos mult_nonpos_nonneg)
qed

lemma float_to_int_nonpos: "x \<le> 0 \<Longrightarrow> float_to_int x \<le> 0"
  by (auto simp: float_to_int_def floor_le_iff)

lemma trunc_nonpos:
  assumes "d \<le> 0" "0 < b"
  shows "trunc_div d b \<le> 0" "d - trunc_div d b * b \<le> 0"
proof -
  have t: "trunc_div d b = - (- d div b)" using assms by (cases "d = 0") (auto simp: trunc_div_def sgn_if)
  have "0 \<le> - d div b" using assms by (simp add: pos_imp_zdiv_nonneg_iff)
  then show "trunc_div d b \<le> 0" using t by simp
  have "(- d div b) * b \<le> - d" using assms(2) by (metis div_mult_mod_eq le_add_same_cancel1 pos_mod_sign)
  then show "d - trunc_div d b * b \<le> 0" using t by simp
qed

lemma float_days_nonpos:
  assumes "d \<le> 0"
  shows "float_to_int (fl (float_hours d / 24)) \<le> 0"
proof -
  have b: "0 < 3600 * second" using second_pos by simp
  have "(of_int (trunc_div d (3600 * second)) :: rat) \<le> 0"
    "(of_int (d - trunc_div d (3600 * second) * (3600 * second)) :: rat) \<le> 0"
    using trunc_nonpos[OF assms b] by (simp_all only: of_int_le_0_iff)
  moreover have "(0 :: rat) < of_int (3600 * second)" using b by (simp only: of_int_0_less_iff)
  ultimately have "float_hours d \<le> 0" unfolding float_hours_def Let_def
    by (intro fl_nonpos add_nonpos_nonpos divide_nonpos_pos)
  then show ?thesis by (intro float_to_int_nonpos fl_nonpos) simp
qed

lemma float_days_exact:
  assumes "0 \<le> g" "g \<le> 106751"
  shows "float_to_int (fl (float_hours (g * day_ns) / 24)) = g"
proof -
  have e: "g * day_ns = (24 * g) * (3600 * second)" by (simp add: day_ns_def)
  have "trunc_div (g * day_ns) (3600 * second) = 24 * g"
    unfolding e using assms second_pos by (simp add: trunc_div_def sgn_if abs_mult)
  then have "float_hours (g * day_ns) = fl (of_int (24 * g))" by (simp add: float_hours_def Let_def e)
  also have "\<dots> = of_int (24 * g)" by (rule fl_of_int) (use assms in auto)
  finally have "fl (float_hours (g * day_ns) / 24) = of_int g"
    using fl_of_int[of g] assms by simp
  then show ?thesis using assms by (simp add: float_to_int_def)
qed

lemma float_days_saturated: "float_to_int (fl (float_hours max_duration / 24)) = 106751"
  by code_simp

lemma daysSince_le:
  assumes "0 < daysSince d a"
  shows "daysSince d a \<le> day_no d - day_no a"
proof -
  define g where "g = day_no d - day_no a"
  have diff: "date_midnight d - date_midnight a = g * day_ns"
    by (simp add: date_midnight_def g_def left_diff_distrib)
  have lims: "106751 * day_ns \<le> max_duration" "max_duration < 106752 * day_ns" "min_duration \<le> 0"
    by (simp_all add: day_ns_def second_def max_duration_def min_duration_def)
  consider "g \<le> 0" | "0 < g" "g \<le> 106751" | "106752 \<le> g" by linarith
  then show ?thesis
  proof cases
    case 1
    then have "time_sub (date_midnight d) (date_midnight a) \<le> 0"
      using diff day_ns_pos lims by (simp add: time_sub_def mult_nonpos_nonneg min_le_iff_disj)
    then have "daysSince d a \<le> 0" unfolding daysSince_def by (rule float_days_nonpos)
    then show ?thesis using assms by simp
  next
    case 2
    then have "g * day_ns \<le> 106751 * day_ns" "0 < g * day_ns" using day_ns_pos by simp_all
    then have "min max_duration (g * day_ns) = g * day_ns" using lims by linarith
    then have "time_sub (date_midnight d) (date_midnight a) = g * day_ns"
      using diff lims \<open>0 < g * day_ns\<close> by (simp add: time_sub_def)
    then show ?thesis using 2 float_days_exact[of g] by (simp add: daysSince_def g_def)
  next
    case 3
    then have "106752 * day_ns \<le> g * day_ns" using day_ns_pos by simp
    then have "min max_duration (g * day_ns) = max_duration" using lims by linarith
    then have "time_sub (date_midnight d) (date_midnight a) = max_duration"
      using diff by (simp add: time_sub_def max_duration_def min_duration_def)
    then show ?thesis using 3 float_days_saturated by (simp add: daysSince_def g_def)
  qed
qed

lemma ceil_before:
  assumes "0 < g" "0 < i" "k < trunc_div (g + i - 1) i"
  shows "k * i < (g :: int)"
proof -
  have "trunc_div (g + i - 1) i = (g + i - 1) div i" using assms by (simp add: trunc_div_def sgn_if)
  then have "(k + 1) * i \<le> (g + i - 1) div i * i" using assms by (intro mult_right_mono) auto
  also have "\<dots> \<le> g + i - 1" using assms(2) by (metis div_mult_mod_eq le_add_same_cancel1 pos_mod_sign)
  finally show ?thesis by (simp add: algebra_simps)
qed

lemma Validate_None:
  assumes "Validate load r = None"
  shows "tod_valid (TimeOfDay r)" "\<exists>z. rule_location load r = Inr z"
    "Kind r = KindInterval \<Longrightarrow> 1 \<le> IntervalDays r \<and> IntervalDays r \<le> 365 \<and> real_date (AnchorDate r)"
    "Kind r = KindWeekly \<Longrightarrow> Weekdays r \<noteq> 0 \<and> Weekdays r < push_bit 7 1"
    "Kind r = KindMonthly \<Longrightarrow> DaysOfMonth r AND NOT validDays = 0 \<and> (DaysOfMonth r \<noteq> 0 \<or> LastDay r)"
    "\<not> (\<exists>s. Kind r = OtherKind s)"
  using assms
  by (auto simp: Validate_def Let_def MaxIntervalDays_def date_valid_iff not_le not_less
      split: kind.splits if_splits sum.splits)

lemma weekday_Has_bit: "weekday_Has s n \<longleftrightarrow> bit s n"
  by (simp add: weekday_Has_def bit_iff_and_push_bit_not_eq_0)

lemma day_Has_bit: "day_Has s d \<longleftrightarrow> 0 \<le> d \<and> d < 32 \<and> bit s (nat d)"
  by (simp add: day_Has_def bit_iff_and_push_bit_not_eq_0)

lemma word_has_bit: "(s :: 'a::len word) \<noteq> 0 \<Longrightarrow> \<exists>n. n < LENGTH('a) \<and> bit s n"
  by (metis bit_eq_iff bit_0_eq bot_apply bot_bool_def bit_imp_le_length le_less_linear less_irrefl)

lemma week_bit:
  assumes "s \<noteq> 0" "s < push_bit 7 (1 :: 8 word)"
  shows "\<exists>b < 7. weekday_Has s b"
proof -
  have "uint s < 128" using assms(2) by (simp add: word_less_def)
  then have "take_bit 7 (uint s) = uint s" by (intro take_bit_int_eq_self) simp_all
  then have "\<not> bit (uint s) 7" by (metis bit_take_bit_iff less_irrefl)
  then have "\<not> bit s 7" by (simp add: bit_uint_iff)
  moreover obtain n where "n < 8" "bit s n" using word_has_bit[OF assms(1)] by auto
  ultimately show ?thesis by (intro exI[of _ n]) (auto simp: weekday_Has_bit less_Suc_eq numeral_eq_Suc)
qed

lemma validDays_bits: "bit validDays n \<longleftrightarrow> 1 \<le> n \<and> n \<le> 28"
proof (cases "n < 32")
  case True
  have "list_all (\<lambda>n. bit validDays n \<longleftrightarrow> 1 \<le> n \<and> n \<le> 28) [0..<32]" by code_simp
  then show ?thesis using True by (simp only: list_all_iff set_upt atLeastLessThan_iff) auto
next
  case False
  then show ?thesis by (auto dest: bit_imp_le_length)
qed

lemma month_bit:
  assumes "s AND NOT validDays = 0" "s \<noteq> 0"
  shows "\<exists>k. 1 \<le> k \<and> k \<le> 28 \<and> day_Has s k"
proof -
  obtain n where n: "n < 32" "bit s n" using word_has_bit[OF assms(2)] by auto
  have "\<not> bit (s AND NOT validDays) n" using assms(1) by simp
  then have "1 \<le> n" "n \<le> 28" using n validDays_bits by (auto simp: bit_and_iff bit_not_iff)
  then show ?thesis using n by (intro exI[of _ "int n"]) (simp add: day_Has_bit)
qed

lemma matching_day:
  assumes "Validate load r = None" "Kind r \<noteq> KindInterval"
  shows "\<exists>m. n \<le> m \<and> m < n + 31 \<and> rule_matches r (civil m)"
proof (cases "Kind r")
  case KindWeekly
  then obtain b where b: "b < 7" "weekday_Has (Weekdays r) b" using Validate_None(4)[OF assms(1)] week_bit by blast
  then show ?thesis using weekly_recurs[OF b(2,1), of n] KindWeekly by (force simp: rule_matches_def)
next
  case KindMonthly
  note v = Validate_None(5)[OF assms(1) KindMonthly]
  show ?thesis
  proof (cases "DaysOfMonth r = 0")
    case True
    then show ?thesis using v last_day_recurs[of n] KindMonthly by (auto simp: rule_matches_def)
  next
    case False
    then obtain k where k: "1 \<le> k" "k \<le> 28" "day_Has (DaysOfMonth r) k" using month_bit v by blast
    then show ?thesis using monthly_recurs[OF k(1,2), of n] KindMonthly by (auto simp: rule_matches_def)
  qed
next
  case (OtherKind s)
  then show ?thesis using Validate_None(6)[OF assms(1)] by blast
qed (use assms in simp)

text \<open>The first occurrence after \<open>t\<close>, in calendar order.\<close>

definition first_after :: "rule \<Rightarrow> zone \<Rightarrow> gotime \<Rightarrow> gotime \<Rightarrow> bool" where
  "first_after r z t u \<longleftrightarrow> t < u \<and> (\<exists>m. occurrence r m \<and> u = rule_at r z (civil m) \<and>
     (\<forall>m' < m. occurrence r m' \<longrightarrow> rule_at r z (civil m') \<le> t))"

lemma Next_scan:
  assumes v: "Validate load r = None" and z: "rule_location load r = Inr z" "zone_ok z" and k: "Kind r \<noteq> KindInterval"
  shows "\<exists>u. Next load r t = Some (Inr u) \<and> first_after r z t u"
proof -
  note tod = Validate_None(1)[OF v]
  define n where "n = local_day z t"
  have start: "addDays (dateOf (local_time z t)) (- 1) = civil (n - 1)"
    by (simp add: dateOf_def n_def local_day_def)
  obtain m where m: "n + 3 \<le> m" "m < n + 3 + 31" "rule_matches r (civil m)" using matching_day[OF v k] by blast
  have "t < rule_at r z (civil m)" using future_occurrence[OF z(2) tod] m(1) by (simp add: n_def)
  moreover have "nat (m - n + 1) \<in> set [0..<64]" "n - 1 + int (nat (m - n + 1)) = m" using m by auto
  ultimately have "scan_days r z t (civil (n - 1)) [0..<64] \<noteq> None"
    using scan_days_None[of r z t "n - 1" "[0..<64]" "nat (m - n + 1)"] m(3) by fastforce
  then obtain u where u: "scan_days r z t (civil (n - 1)) [0..<64] = Some u" by blast
  obtain js1 i js2 where i: "[0..<64] = js1 @ i # js2" "rule_matches r (civil (n - 1 + int i))"
    "u = rule_at r z (civil (n - 1 + int i))" "t < u"
    "\<forall>j \<in> set js1. rule_matches r (civil (n - 1 + int j)) \<longrightarrow> rule_at r z (civil (n - 1 + int j)) \<le> t"
    using scan_days_Some[OF u] by blast
  have before: "rule_at r z (civil m') \<le> t" if "m' < n - 1 + int i" "rule_matches r (civil m')" for m'
  proof (cases "m' \<le> n - 2")
    case True
    then show ?thesis using past_occurrence[OF z(2) tod] by (simp add: n_def)
  next
    case False
    then have "nat (m' - n + 1) \<in> set js1" "n - 1 + int (nat (m' - n + 1)) = m'"
      using that(1) upt_split[OF i(1)] by auto
    then show ?thesis using i(5) that(2) by metis
  qed
  have "Next load r t = Some (Inr u)" using v z(1) k start u by (simp add: Next_def Let_def)
  moreover have "first_after r z t u"
    unfolding first_after_def using i(2-4) before k by (auto simp: occurrence_def)
  ultimately show ?thesis by blast
qed

lemma Next_interval:
  assumes v: "Validate load r = None" and z: "rule_location load r = Inr z" "zone_ok z" and k: "Kind r = KindInterval"
  shows "\<exists>u. Next load r t = Some (Inr u) \<and> first_after r z t u"
proof -
  note tod = Validate_None(1)[OF v] and iv = Validate_None(3)[OF v k]
  define n i a where "n = local_day z t" and "i = IntervalDays r" and "a = day_no (AnchorDate r)"
  have i: "1 \<le> i" using iv by (simp add: i_def)
  have day: "addDays (AnchorDate r) x = civil (a + x)" for x using iv by (simp add: addDays_real a_def)
  define gap where "gap = daysSince (civil (n - 1)) (AnchorDate r)"
  define k0 where "k0 = (if gap > 0 then trunc_div (gap + i - 1) i else 0)"
  have k0: "0 \<le> k0" using i by (simp add: k0_def trunc_div_def sgn_if pos_imp_zdiv_nonneg_iff)
  have early: "a + x * i \<le> n - 2" if "x < k0" "0 \<le> x" for x
  proof -
    have g: "0 < gap" using that by (auto simp: k0_def split: if_splits)
    then have "x * i < gap" using ceil_before[of gap i x] that i by (simp add: k0_def)
    moreover have "gap \<le> n - 1 - a"
      using daysSince_le[of "civil (n - 1)" "AnchorDate r"] g by (simp add: gap_def a_def)
    ultimately show ?thesis by simp
  qed
  define K where "K = max k0 (\<bar>n + 3 - a\<bar>)"
  have "n + 3 - a \<le> K * i" using i k0 by (smt (verit) K_def mult_le_cancel_left1 max.cobounded2)
  then have "t < interval_occ r z K"
    using future_occurrence[OF z(2) tod] by (simp add: interval_occ_def day n_def i_def)
  moreover have "k0 \<le> K" by (simp add: K_def)
  ultimately obtain j where j: "k0 \<le> j" "interval_loop (interval_occ r z) t k0 = Some (rule_at r z (civil (a + j * i)))"
    "t < rule_at r z (civil (a + j * i))" "\<forall>x. k0 \<le> x \<and> x < j \<longrightarrow> rule_at r z (civil (a + x * i)) \<le> t"
    using interval_loop_first[of t "interval_occ r z" K k0] by (auto simp: interval_occ_def day i_def)
  have start: "addDays (dateOf (local_time z t)) (- 1) = civil (n - 1)"
    by (simp add: dateOf_def n_def local_day_def)
  have "Next load r t = Some (Inr (rule_at r z (civil (a + j * i))))"
    using v z(1) k j(2) unfolding k0_def i_def by (simp add: Next_def Let_def start gap_def[symmetric] split: if_splits)
  moreover have "rule_at r z (civil (a + x * i)) \<le> t" if "0 \<le> x" "a + x * i < a + j * i" for x
    using j(4) that early[of x] past_occurrence[OF z(2) tod] i n_def
    by (cases "x < k0") (auto simp: mult_less_cancel_right)
  moreover have "occurrence r (a + j * i)" using j(1) k0 k
    unfolding occurrence_def a_def i_def by (simp only: if_True simp_thms) (rule exI[of _ j], simp)
  ultimately have "first_after r z t (rule_at r z (civil (a + j * i)))"
    unfolding first_after_def using j(3) k
    by (intro conjI exI[of _ "a + j * i"]) (auto simp: occurrence_def a_def i_def)
  then show ?thesis using \<open>Next load r t = _\<close> by blast
qed

lemma Next_first:
  assumes "Validate load r = None" "rule_location load r = Inr z" "zone_ok z"
  shows "\<exists>u. Next load r t = Some (Inr u) \<and> first_after r z t u"
  using Next_interval[OF assms] Next_scan[OF assms] by blast

section \<open>Texts\<close>

lemma pad2: "0 \<le> i \<Longrightarrow> i < 100 \<Longrightarrow> pad 2 i = [char_of (48 + nat (i div 10)), char_of (48 + nat (i mod 10))]"
proof -
  assume i: "0 \<le> i" "i < 100"
  have z: "CHR ''0'' = char_of (48 + 0 :: nat)" by code_simp
  show ?thesis
  proof (cases "i < 10")
    case True
    then show ?thesis using i by (simp add: pad_def Let_def digits_small z div_pos_pos_trivial mod_pos_pos_trivial)
  next
    case False
    then have "digits (nat i) = [char_of (48 + nat (i div 10)), char_of (48 + nat (i mod 10))]"
      using i by (subst digits_step) (auto simp: digits_small nat_div_distrib nat_mod_distrib)
    then show ?thesis using i by (simp add: pad_def Let_def)
  qed
qed

lemma number_two:
  assumes "0 \<le> a" "a < 10" "0 \<le> b" "b < 10"
  shows "number 0 [char_of (48 + nat a), char_of (48 + nat b)] = Some (10 * a + b)"
  using assms by (simp add: digit_char)

lemma digit_not_special:
  assumes "0 \<le> d" "d < 10"
  shows "char_of (48 + nat d) \<noteq> CHR '':''" "char_of (48 + nat d) \<noteq> CHR ''-''" "char_of (48 + nat d) \<noteq> CHR ''+''"
    "\<not> space_byte (char_of (48 + nat d))"
proof -
  have "of_char (char_of (48 + nat d) :: char) = 48 + nat d"
    using assms by (simp add: of_char_of take_bit_nat_eq_self)
  then show "char_of (48 + nat d) \<noteq> CHR '':''" "char_of (48 + nat d) \<noteq> CHR ''-''" "char_of (48 + nat d) \<noteq> CHR ''+''"
    "\<not> space_byte (char_of (48 + nat d))"
    using assms by (auto simp: space_byte_def Let_def dest!: arg_cong[of _ _ "of_char :: char \<Rightarrow> nat"])
qed

lemma trim_space_id: "s \<noteq> [] \<Longrightarrow> \<not> space_byte (hd s) \<Longrightarrow> \<not> space_byte (last s) \<Longrightarrow> trim_space s = s"
proof -
  assume s: "s \<noteq> []" "\<not> space_byte (hd s)" "\<not> space_byte (last s)"
  have "dropWhile space_byte s = s" using s by (cases s) auto
  moreover have "dropWhile space_byte (rev s) = rev s" using s by (cases s rule: rev_cases) auto
  ultimately show ?thesis by (simp add: trim_space_def)
qed

lemma tod_roundtrip: "tod_valid t \<Longrightarrow> ParseTimeOfDay (tod_String t) = Inr t"
proof -
  assume v: "tod_valid t"
  define a b c d where "a = Hour t div 10" and "b = Hour t mod 10" and "c = Minute t div 10" and "d = Minute t mod 10"
  have r: "0 \<le> a" "a < 10" "0 \<le> b" "b < 10" "0 \<le> c" "c < 10" "0 \<le> d" "d < 10"
    "Hour t = 10 * a + b" "Minute t = 10 * c + d"
    using v by (auto simp: tod_valid_def a_def b_def c_def d_def)
  let ?ch = "\<lambda>x. char_of (48 + nat x) :: char"
  have str: "tod_String t = [?ch a, ?ch b, CHR '':'', ?ch c, ?ch d]"
    using v by (simp add: tod_String_def pad2 tod_valid_def a_def b_def c_def d_def)
  have "trim_space (tod_String t) = tod_String t"
    unfolding str using digit_not_special r by (intro trim_space_id) auto
  moreover have "cut (CHR '':'') (tod_String t) = Some ([?ch a, ?ch b], [?ch c, ?ch d])"
    unfolding str using digit_not_special(1) r by simp
  moreover have "atoi [?ch x, ?ch y] = Some (10 * x + y)" if "0 \<le> x" "x < 10" "0 \<le> y" "y < 10" for x y
    using number_two[OF that] digit_not_special[OF that(1,2)] by (simp add: atoi_def)
  ultimately show ?thesis using r v by (cases t) (simp add: ParseTimeOfDay_def Let_def tod_valid_def)
qed

lemma parse_days_bits:
  "\<forall>d \<in> set ds. 1 \<le> d \<and> d \<le> 28 \<Longrightarrow>
     \<exists>st'. parse_days st ds = Inr st' \<and> (\<forall>n. bit st' n \<longleftrightarrow> bit st n \<or> int n \<in> set ds)"
proof (induction ds arbitrary: st)
  case (Cons d ds)
  have b: "bit (st OR push_bit (nat d) 1) n \<longleftrightarrow> bit st n \<or> int n = d" for n
  proof -
    have "bit (push_bit (nat d) 1 :: 32 word) n \<longleftrightarrow> nat d = n"
      using Cons.prems by (auto simp: bit_exp_iff)
    then show ?thesis using Cons.prems by (auto simp: bit_or_iff)
  qed
  show ?case using Cons.IH[of "st OR push_bit (nat d) 1"] Cons.prems b by (auto simp: MaxDayOfMonth_def)
qed simp

lemma days_roundtrip:
  assumes "s AND NOT validDays = 0"
  shows "ParseDays (set_Days s) = Inr s"
proof -
  have mem: "d \<in> set (set_Days s) \<longleftrightarrow> 1 \<le> d \<and> d \<le> 28 \<and> bit s (nat d)" for d
    by (auto simp: set_Days_def day_Has_bit MaxDayOfMonth_def image_iff intro!: bexI[of _ "nat d"])
  have "bit s n \<Longrightarrow> 1 \<le> n \<and> n \<le> 28" for n
  proof -
    assume "bit s n"
    moreover have "\<not> bit (s AND NOT validDays) n" using assms by simp
    ultimately show ?thesis using validDays_bits bit_imp_le_length[of s n]
      by (auto simp: bit_and_iff bit_not_iff)
  qed
  moreover obtain st where st: "parse_days 0 (set_Days s) = Inr st" "\<forall>n. bit st n \<longleftrightarrow> int n \<in> set (set_Days s)"
    using parse_days_bits[of "set_Days s" 0] mem by auto
  ultimately have "st = s" by (auto simp: bit_eq_iff mem)
  then show ?thesis using st by (simp add: ParseDays_def)
qed

lemma weekday_index:
  assumes "wd < 7"
  shows "index_of (to_lower (trim_space (weekdayNames ! wd))) weekdayNames = Some wd"
proof -
  have "list_all (\<lambda>wd. index_of (to_lower (trim_space (weekdayNames ! wd))) weekdayNames = Some wd) [0..<7]"
    by code_simp
  from bspec[OF this[unfolded list_all_iff], of wd] show ?thesis using assms by simp
qed

lemma parse_weekdays_bits:
  "\<forall>wd \<in> set wds. wd < 7 \<Longrightarrow>
     \<exists>st'. parse_weekdays st (map (\<lambda>wd. weekdayNames ! wd) wds) = Inr st' \<and> (\<forall>n. bit st' n \<longleftrightarrow> bit st n \<or> n \<in> set wds)"
proof (induction wds arbitrary: st)
  case (Cons wd wds)
  have "bit (push_bit wd 1 :: 8 word) n \<longleftrightarrow> wd = n" for n using Cons.prems by (auto simp: bit_exp_iff)
  then have "bit (st OR push_bit wd 1) n \<longleftrightarrow> bit st n \<or> n = wd" for n by (auto simp: bit_or_iff)
  then show ?case using Cons.IH[of "st OR push_bit wd 1"] Cons.prems by (auto simp: weekday_index)
qed simp

lemma weekdays_roundtrip:
  assumes "s < push_bit 7 1"
  shows "ParseWeekdays (weekday_Names s) = Inr s"
proof -
  have "uint s < 128" using assms by (simp add: word_less_def)
  then have "take_bit 7 (uint s) = uint s" by (intro take_bit_int_eq_self) simp_all
  then have seven: "bit s n \<Longrightarrow> n < 7" for n by (metis bit_take_bit_iff bit_uint_iff bit_imp_le_length)
  let ?wds = "filter (weekday_Has s) mondayFirst"
  have mem: "n \<in> set ?wds \<longleftrightarrow> bit s n" for n
    using seven[of n] by (auto simp: mondayFirst_def weekday_Has_bit less_Suc_eq numeral_eq_Suc)
  obtain st where st: "parse_weekdays 0 (weekday_Names s) = Inr st" "\<forall>n. bit st n \<longleftrightarrow> n \<in> set ?wds"
    using parse_weekdays_bits[of ?wds 0] mem seven by (auto simp: weekday_Names_def)
  then have "st = s" by (intro bit_eqI) (simp only: mem)
  then show ?thesis using st by (simp add: ParseWeekdays_def)
qed

section \<open>Properties\<close>


definition daily_rule :: rule where
  "daily_rule = \<lparr>Kind = KindInterval, IntervalDays = 1, AnchorDate = \<lparr>Year = 2024, Month = 2, Day = 29\<rparr>,
     Weekdays = 0, DaysOfMonth = 0, LastDay = False, TimeOfDay = \<lparr>Hour = 6, Minute = 30\<rparr>, Zone = []\<rparr>"

lemma daily_rule_facts:
  "Validate (\<lambda>_. None) daily_rule = None" "rule_location (\<lambda>_. None) daily_rule = Inr utc_zone" "zone_ok utc_zone"
proof -
  show "Validate (\<lambda>_. None) daily_rule = None" by code_simp
qed (simp_all add: rule_location_def daily_rule_def zone_ok_def utc_zone_def)


fun chained :: "rule \<Rightarrow> zone \<Rightarrow> gotime \<Rightarrow> gotime list \<Rightarrow> bool" where
  "chained r z t [] \<longleftrightarrow> True"
| "chained r z t (u # us) \<longleftrightarrow> first_after r z t u \<and> chained r z u us"

lemma chained_sorted: "chained r z t us \<Longrightarrow> sorted_wrt (<) (t # us)"
proof (induction us arbitrary: t)
  case (Cons u us)
  then have "t < u" "sorted_wrt (<) (u # us)" by (auto simp: first_after_def)
  then show ?case by auto
qed simp

text \<open>
  A preview lists the next occurrences in order: it has the length asked for, starts after
  the given instant, is strictly increasing, and each entry is the first occurrence after the
  one before it.
\<close>

theorem preview_is_chain:
  assumes "Validate load r = None" "rule_location load r = Inr z" "zone_ok z"
  shows "\<exists>us. Preview load r t n = Some (Inr us) \<and> length us = n \<and> chained r z t us \<and> sorted_wrt (<) (t # us)"
proof -
  have "\<exists>us. preview_loop load r t n = Some (Inr us) \<and> length us = n \<and> chained r z t us"
  proof (induction n arbitrary: t)
    case (Suc n)
    obtain u where u: "Next load r t = Some (Inr u)" "first_after r z t u" using Next_first[OF assms] by blast
    obtain us where "preview_loop load r u n = Some (Inr us)" "length us = n" "chained r z u us"
      using Suc.IH by blast
    then show ?case using u by (intro exI[of _ "u # us"]) simp
  qed simp
  then show ?thesis using chained_sorted unfolding Preview_def by blast
qed

theorem preview_is_chain_witness:
  "\<exists>us. Preview (\<lambda>_. None) daily_rule 0 3 = Some (Inr us) \<and> length us = 3 \<and> sorted_wrt (<) (0 # us)"
  using preview_is_chain[OF daily_rule_facts, of 0 3] by blast

text \<open>
  The calendar is a bijection. Day numbers and real dates correspond one to one, a date
  is accepted as valid exactly when it exists in the Gregorian calendar, and adding days to
  a valid date is addition of day numbers.
\<close>

theorem calendar_bijection:
  "day_no (civil n) = n \<and> real_date (civil n) \<and> (real_date d \<longrightarrow> civil (day_no d) = d) \<and>
   (date_valid d \<longleftrightarrow> real_date d) \<and> addDays (civil n) k = civil (n + k)"
  by (simp add: civil_real civil_day_no date_valid_iff)

theorem calendar_bijection_witness: "civil (day_no \<lparr>Year = 2024, Month = 2, Day = 29\<rparr>) = \<lparr>Year = 2024, Month = 2, Day = 29\<rparr>"
proof -
  have "real_date \<lparr>Year = 2024, Month = 2, Day = 29\<rparr>" by code_simp
  then show ?thesis using calendar_bijection[of 0 "\<lparr>Year = 2024, Month = 2, Day = 29\<rparr>"] by blast
qed

text \<open>
  C38. What is printed can be read back. Times of day, weekday sets and day sets survive
  printing and parsing unchanged.
\<close>

theorem recurrence_text_roundtrip:
  "(tod_valid t \<longrightarrow> ParseTimeOfDay (tod_String t) = Inr t) \<and>
   (ws < push_bit 7 1 \<longrightarrow> ParseWeekdays (weekday_Names ws) = Inr ws) \<and>
   (ds AND NOT validDays = 0 \<longrightarrow> ParseDays (set_Days ds) = Inr ds)"
  using tod_roundtrip weekdays_roundtrip days_roundtrip by blast

theorem recurrence_text_roundtrip_witness:
  "ParseTimeOfDay (tod_String \<lparr>Hour = 23, Minute = 5\<rparr>) = Inr \<lparr>Hour = 23, Minute = 5\<rparr>"
  using recurrence_text_roundtrip[of "\<lparr>Hour = 23, Minute = 5\<rparr>"] by (simp add: tod_valid_def)

text \<open>
  A time of day may carry signs. Although the format is HH:MM with digits, the integer parser
  accepts a sign in place of the first digit, so a text such as plus five, minus zero is read as five
  o'clock.
\<close>

theorem time_of_day_accepts_signs:
  "ParseTimeOfDay ''+5:-0'' = Inr \<lparr>Hour = 5, Minute = 0\<rparr>"
  by code_simp

lemma Canonical_fields:
  "Kind (Canonical r) = Kind r" "TimeOfDay (Canonical r) = TimeOfDay r"
  "Zone (Canonical r) = (if Zone r = [] then ''UTC'' else Zone r)"
  "Kind r = KindInterval \<Longrightarrow> IntervalDays (Canonical r) = IntervalDays r \<and> AnchorDate (Canonical r) = AnchorDate r"
  "Kind r = KindWeekly \<Longrightarrow> Weekdays (Canonical r) = Weekdays r"
  "Kind r = KindMonthly \<Longrightarrow> DaysOfMonth (Canonical r) = DaysOfMonth r \<and> LastDay (Canonical r) = LastDay r"
  by (auto simp: Canonical_def Let_def split: kind.splits)

lemma Canonical_location:
  "load ''UTC'' = Some utc_zone \<Longrightarrow> rule_location load (Canonical r) = rule_location load r"
  by (simp add: rule_location_def Canonical_fields)

lemma Canonical_Validate: "load ''UTC'' = Some utc_zone \<Longrightarrow> Validate load (Canonical r) = Validate load r"
  by (cases "Kind r") (simp_all add: Validate_def Let_def Canonical_fields Canonical_location)

lemma Canonical_at: "rule_at (Canonical r) = rule_at r"
  by (simp add: fun_eq_iff rule_at_def Canonical_fields)

lemma Canonical_matches: "rule_matches (Canonical r) = rule_matches r"
  by (simp add: fun_eq_iff rule_matches_def Canonical_fields split: kind.splits)

lemma Canonical_scan: "scan_days (Canonical r) z t s js = scan_days r z t s js"
  by (induction js) (simp_all add: Let_def Canonical_at Canonical_matches)

text \<open>
  Canonical rules. Making a rule canonical changes neither its validity nor any of its
  occurrences, when the zone named UTC is the UTC zone; doing it again changes nothing.
\<close>

theorem canonical_same_occurrences:
  assumes "load ''UTC'' = Some utc_zone"
  shows "Validate load (Canonical r) = Validate load r \<and> Next load (Canonical r) t = Next load r t \<and>
    Canonical (Canonical r) = Canonical r"
proof -
  have "Kind r = KindInterval \<Longrightarrow> interval_occ (Canonical r) = interval_occ r"
    by (simp add: fun_eq_iff interval_occ_def Canonical_at Canonical_fields)
  then have "Next load (Canonical r) t = Next load r t"
    by (auto simp: Next_def Let_def Canonical_fields Canonical_location[of load, OF assms] Canonical_Validate[of load, OF assms]
        Canonical_scan split: option.splits sum.splits)
  moreover have "Canonical (Canonical r) = Canonical r"
    by (cases "Kind r") (auto simp: Canonical_def Let_def)
  ultimately show ?thesis by (simp add: Canonical_Validate[of load, OF assms])
qed

theorem canonical_same_occurrences_witness:
  "Validate (\<lambda>n. if n = ''UTC'' then Some utc_zone else None) (Canonical daily_rule) =
   Validate (\<lambda>n. if n = ''UTC'' then Some utc_zone else None) daily_rule"
  using canonical_same_occurrences[of "\<lambda>n. if n = ''UTC'' then Some utc_zone else None" daily_rule] by simp

end
