(* ===== verification/Undelegated.thy ===== *)
theory Undelegated
  imports Normalization
begin

text \<open>
  Undelegated test input (\<open>engine/undelegation.go\<close>): the nameserver and DS rows of a request that tests a
  zone before it is delegated, their text forms on the command line, their validation and
  normalization, and the server's limits on them (\<open>server/handlers.go\<close>).

  The IDNA conversion (\<open>to_ascii\<close>) and \<open>net/netip\<close> (\<open>parse_addr\<close> for \<open>ParseAddr\<close>, \<open>addr_string\<close> for
  \<open>Addr.String\<close>) are parameters.
\<close>

section \<open>Rows\<close>

record undelegated_ns =
  un_Name :: string
  un_IP :: string

record undelegated_ds =
  ud_KeyTag :: int
  ud_Algorithm :: int
  ud_DigestType :: int
  ud_Digest :: string

datatype undelegated_error =
    NSEmpty
  | NSFormat
  | NSIPEmpty
  | NSNameRequired int
  | NSInvalidName int
  | NSRootLabel int
  | NSInvalidIP int
  | DSEmpty
  | DSFormat
  | DSFieldRequired string
  | DSFieldInteger string
  | DSFieldRange string
  | DSKeyTagRange int
  | DSAlgorithmRange int
  | DSDigestTypeRange int
  | DigestRequired int
  | DigestNotHex int
  | DigestLength int
  | TooManyNameservers
  | TooManyDSRecords

definition hex_digit :: "char \<Rightarrow> bool" where
  "hex_digit c = (let n = (of_char c :: nat) in 48 \<le> n \<and> n \<le> 57 \<or> 65 \<le> n \<and> n \<le> 70 \<or> 97 \<le> n \<and> n \<le> 102)"

definition validateDigest :: "int \<Rightarrow> string \<Rightarrow> undelegated_error option" where
  "validateDigest index digest =
     (if digest = [] then Some (DigestRequired index)
      else if \<not> list_all hex_digit digest then Some (DigestNotHex index)
      else if length digest \<notin> {40, 64, 96} then Some (DigestLength index)
      else None)"

definition normalizeUndelegatedNameserver ::
  "(string \<Rightarrow> string option) \<Rightarrow> (string \<Rightarrow> 'a option) \<Rightarrow> ('a \<Rightarrow> string) \<Rightarrow> undelegated_ns \<Rightarrow> int
     \<Rightarrow> undelegated_error + undelegated_ns" where
  "normalizeUndelegatedNameserver to_ascii parse_addr addr_string item index = (let name = TrimSpace (un_Name item) in
     if name = [] then Inl (NSNameRequired index)
     else case NormalizeName to_ascii name of (errs, normalizedName) \<Rightarrow>
       if errs \<noteq> [] then Inl (NSInvalidName index)
       else if normalizedName = ''.'' then Inl (NSRootLabel index)
       else let ip = TrimSpace (un_IP item) in
         if ip = [] then Inr \<lparr>un_Name = normalizedName, un_IP = []\<rparr>
         else case parse_addr ip of
           None \<Rightarrow> Inl (NSInvalidIP index)
         | Some addr \<Rightarrow> Inr \<lparr>un_Name = normalizedName, un_IP = addr_string addr\<rparr>)"

definition normalizeUndelegatedDSInfo :: "undelegated_ds \<Rightarrow> int \<Rightarrow> undelegated_error + undelegated_ds" where
  "normalizeUndelegatedDSInfo item index =
     (if ud_KeyTag item < 0 \<or> 65535 < ud_KeyTag item then Inl (DSKeyTagRange index)
      else if ud_Algorithm item < 0 \<or> 255 < ud_Algorithm item then Inl (DSAlgorithmRange index)
      else if ud_DigestType item < 0 \<or> 255 < ud_DigestType item then Inl (DSDigestTypeRange index)
      else let digest = to_upper (TrimSpace (ud_Digest item)) in
        case validateDigest index digest of
          Some e \<Rightarrow> Inl e
        | None \<Rightarrow> Inr (item\<lparr>ud_Digest := digest\<rparr>))"

section \<open>Text forms\<close>

definition parseBoundedInt :: "string \<Rightarrow> string \<Rightarrow> int \<Rightarrow> int \<Rightarrow> undelegated_error + int" where
  "parseBoundedInt v field lo hi =
     (if v = [] then Inl (DSFieldRequired field)
      else case Atoi v of
        None \<Rightarrow> Inl (DSFieldInteger field)
      | Some n \<Rightarrow> if n < lo \<or> hi < n then Inl (DSFieldRange field) else Inr n)"

definition ParseUndelegatedNameserver ::
  "(string \<Rightarrow> string option) \<Rightarrow> (string \<Rightarrow> 'a option) \<Rightarrow> ('a \<Rightarrow> string) \<Rightarrow> string \<Rightarrow> undelegated_error + undelegated_ns" where
  "ParseUndelegatedNameserver to_ascii parse_addr addr_string text = (let trimmed = TrimSpace text in
     if trimmed = [] then Inl NSEmpty
     else case split_on (CHR ''/'') trimmed of
       [name] \<Rightarrow> normalizeUndelegatedNameserver to_ascii parse_addr addr_string \<lparr>un_Name = TrimSpace name, un_IP = []\<rparr> (-1)
     | [name, ip] \<Rightarrow> if TrimSpace ip = [] then Inl NSIPEmpty
         else normalizeUndelegatedNameserver to_ascii parse_addr addr_string
           \<lparr>un_Name = TrimSpace name, un_IP = TrimSpace ip\<rparr> (-1)
     | _ \<Rightarrow> Inl NSFormat)"

definition ParseUndelegatedDS :: "string \<Rightarrow> undelegated_error + undelegated_ds" where
  "ParseUndelegatedDS text = (let trimmed = TrimSpace text in
     if trimmed = [] then Inl DSEmpty
     else case split_on (CHR '','') trimmed of
       [f0, f1, f2, f3] \<Rightarrow>
         (case parseBoundedInt (TrimSpace f0) ''keytag'' 0 65535 of
            Inl e \<Rightarrow> Inl e
          | Inr keyTag \<Rightarrow> (case parseBoundedInt (TrimSpace f1) ''algorithm'' 0 255 of
              Inl e \<Rightarrow> Inl e
            | Inr alg \<Rightarrow> (case parseBoundedInt (TrimSpace f2) ''digtype'' 0 255 of
                Inl e \<Rightarrow> Inl e
              | Inr digestType \<Rightarrow> (let digest = to_upper (TrimSpace f3) in
                  case validateDigest (-1) digest of
                    Some e \<Rightarrow> Inl e
                  | None \<Rightarrow> Inr \<lparr>ud_KeyTag = keyTag, ud_Algorithm = alg, ud_DigestType = digestType, ud_Digest = digest\<rparr>))))
     | _ \<Rightarrow> Inl DSFormat)"

section \<open>Lists of rows\<close>

text \<open>One loop of \<open>NormalizeUndelegatedInputs\<close>: normalize each row, drop those whose key was seen.\<close>

fun normalize_rows :: "('r \<Rightarrow> int \<Rightarrow> undelegated_error + 'r) \<Rightarrow> ('r \<Rightarrow> string) \<Rightarrow> int \<Rightarrow> string list \<Rightarrow> 'r list
    \<Rightarrow> undelegated_error + 'r list" where
  "normalize_rows nrm key i seen [] = Inr []"
| "normalize_rows nrm key i seen (r # rs) = (case nrm r i of
     Inl e \<Rightarrow> Inl e
   | Inr n \<Rightarrow> if key n \<in> set seen then normalize_rows nrm key (i + 1) seen rs
       else (case normalize_rows nrm key (i + 1) (key n # seen) rs of
         Inl e \<Rightarrow> Inl e
       | Inr out \<Rightarrow> Inr (n # out)))"

definition ns_key :: "undelegated_ns \<Rightarrow> string" where
  "ns_key n = to_lower (un_Name n) @ ''|'' @ un_IP n"

definition ds_key :: "undelegated_ds \<Rightarrow> string" where
  "ds_key d = itoa (ud_KeyTag d) @ ''|'' @ itoa (ud_Algorithm d) @ ''|'' @ itoa (ud_DigestType d) @ ''|'' @ ud_Digest d"

definition NormalizeUndelegatedInputs ::
  "(string \<Rightarrow> string option) \<Rightarrow> (string \<Rightarrow> 'a option) \<Rightarrow> ('a \<Rightarrow> string) \<Rightarrow> undelegated_ns list \<Rightarrow> undelegated_ds list
     \<Rightarrow> undelegated_error + undelegated_ns list \<times> undelegated_ds list" where
  "NormalizeUndelegatedInputs to_ascii parse_addr addr_string nameservers dsInfo =
     (case normalize_rows (normalizeUndelegatedNameserver to_ascii parse_addr addr_string) ns_key 0 [] nameservers of
        Inl e \<Rightarrow> Inl e
      | Inr ns \<Rightarrow> (case normalize_rows normalizeUndelegatedDSInfo ds_key 0 [] dsInfo of
          Inl e \<Rightarrow> Inl e
        | Inr ds \<Rightarrow> Inr (ns, ds)))"

definition MaxUndelegatedNameservers :: nat where "MaxUndelegatedNameservers = 32"
definition MaxUndelegatedDSRecords :: nat where "MaxUndelegatedDSRecords = 32"

text \<open>The rows of the request are those of the JSON input: \<open>ns\<close>, \<open>ip\<close> and the DS fields.\<close>

fun trim_ns_rows :: "int \<Rightarrow> undelegated_ns list \<Rightarrow> undelegated_error + undelegated_ns list" where
  "trim_ns_rows i [] = Inr []"
| "trim_ns_rows i (r # rs) = (let name = trim_space (un_Name r) in
     if name = [] then Inl (NSNameRequired i)
     else case trim_ns_rows (i + 1) rs of
       Inl e \<Rightarrow> Inl e
     | Inr out \<Rightarrow> Inr (\<lparr>un_Name = name, un_IP = trim_space (un_IP r)\<rparr> # out))"

definition server_normalizeUndelegatedInputs ::
  "(string \<Rightarrow> string option) \<Rightarrow> (string \<Rightarrow> 'a option) \<Rightarrow> ('a \<Rightarrow> string) \<Rightarrow> undelegated_ns list \<Rightarrow> undelegated_ds list
     \<Rightarrow> undelegated_error + undelegated_ns list \<times> undelegated_ds list" where
  "server_normalizeUndelegatedInputs to_ascii parse_addr addr_string nameservers dsInfo =
     (if MaxUndelegatedNameservers < length nameservers then Inl TooManyNameservers
      else if MaxUndelegatedDSRecords < length dsInfo then Inl TooManyDSRecords
      else case trim_ns_rows 0 nameservers of
        Inl e \<Rightarrow> Inl e
      | Inr ns \<Rightarrow> NormalizeUndelegatedInputs to_ascii parse_addr addr_string ns
          (map (\<lambda>d. d\<lparr>ud_Digest := trim_space (ud_Digest d)\<rparr>) dsInfo))"

section \<open>Proofs\<close>

lemma normalize_rows_fixed:
  assumes "\<forall>r \<in> set rs. \<forall>i. nrm r i = Inr r" "distinct (map key rs)" "set seen \<inter> key ` set rs = {}"
  shows "normalize_rows nrm key i seen rs = Inr rs"
  using assms
proof (induction rs arbitrary: i seen)
  case (Cons r rs)
  then have "normalize_rows nrm key (i + 1) (key r # seen) rs = Inr rs" by (intro Cons.IH) auto
  then show ?case using Cons.prems by auto
qed simp

lemma normalize_rows_out:
  assumes "normalize_rows nrm key i seen rs = Inr out"
  shows "(\<forall>n \<in> set out. \<exists>r \<in> set rs. \<exists>j. nrm r j = Inr n) \<and> distinct (map key out) \<and> set seen \<inter> key ` set out = {} \<and>
    (\<forall>r \<in> set rs. \<exists>j n. nrm r j = Inr n \<and> key n \<in> set seen \<union> key ` set out)"
  using assms
proof (induction nrm key i seen rs arbitrary: out rule: normalize_rows.induct)
  case (2 nrm key i seen r rs)
  obtain n where n: "nrm r i = Inr n" using "2.prems" by (auto split: sum.splits)
  show ?case
  proof (cases "key n \<in> set seen")
    case True
    then show ?thesis using "2.IH"(1)[OF n True] "2.prems" n by (auto split: sum.splits)
  next
    case False
    then obtain out' where out': "normalize_rows nrm key (i + 1) (key n # seen) rs = Inr out'" "out = n # out'"
      using "2.prems" n by (auto split: sum.splits)
    show ?thesis using "2.IH"(2)[OF n False out'(1)] n False out'(2) by auto
  qed
qed simp

text \<open>Printable ASCII text is not trimmed.\<close>

definition printable :: "char \<Rightarrow> bool" where
  "printable c \<longleftrightarrow> 33 \<le> (of_char c :: nat) \<and> (of_char c :: nat) \<le> 126"

lemma no_space_prefix:
  assumes "list_all printable s"
  shows "find (has_prefix s) whitespaceRunes = None" "find (has_suffix s) whitespaceRunes = None"
proof -
  have w: "w \<noteq> [] \<and> \<not> printable (hd w) \<and> \<not> printable (last w)" if "w \<in> set whitespaceRunes" for w
    using that by (auto simp: whitespaceRunes_def printable_def of_char_of take_bit_nat_eq_self)
  have "\<not> has_prefix s w" "\<not> has_suffix s w" if "w \<in> set whitespaceRunes" for w
  proof -
    show "\<not> has_prefix s w"
    proof
      assume "has_prefix s w"
      then have "set w \<subseteq> set s" unfolding has_prefix_def by (metis set_take_subset)
      then show False using w[OF that] assms by (cases w) (auto simp: list_all_iff)
    qed
    show "\<not> has_suffix s w"
    proof
      assume "has_suffix s w"
      then have "set w \<subseteq> set s" unfolding has_suffix_def by (metis set_drop_subset)
      then show False using w[OF that] assms by (metis last_in_set list_all_iff subsetD)
    qed
  qed
  then show "find (has_prefix s) whitespaceRunes = None" "find (has_suffix s) whitespaceRunes = None"
    by (auto simp: find_None_iff)
qed

lemma TrimSpace_printable: "list_all printable s \<Longrightarrow> TrimSpace s = s"
proof -
  assume "list_all printable s"
  note ns = no_space_prefix[OF this]
  have "trim_left n s = s" "trim_right n s = s" for n using ns by (cases n; simp)+
  then show ?thesis by (simp add: TrimSpace_def Let_def)
qed

lemma valid_byte_printable: "valid_byte c \<Longrightarrow> printable c"
  by (auto simp: valid_byte_def printable_def Let_def)

lemma normal_name_printable:
  assumes "normal_name m"
  shows "list_all printable m"
proof -
  have "printable c" if "c \<in> set m" for c
    using split_on_covers[OF that, of "CHR ''.''"] assms valid_byte_printable
    by (fastforce simp: normal_name_def list_all_iff normal_label_def printable_def)
  then show ?thesis by (simp add: list_all_iff)
qed

definition addr_ok :: "(string \<Rightarrow> 'a option) \<Rightarrow> ('a \<Rightarrow> string) \<Rightarrow> bool" where
  "addr_ok parse_addr addr_string \<longleftrightarrow> (\<forall>t a. parse_addr (TrimSpace t) = Some a \<longrightarrow>
     addr_string a \<noteq> [] \<and> TrimSpace (addr_string a) = addr_string a \<and> parse_addr (addr_string a) = Some a)"

definition ns_normal :: "undelegated_ns \<Rightarrow> bool" where
  "ns_normal n \<longleftrightarrow> normal_name (un_Name n)"

definition ds_normal :: "undelegated_ds \<Rightarrow> bool" where
  "ds_normal d \<longleftrightarrow> 0 \<le> ud_KeyTag d \<and> ud_KeyTag d \<le> 65535 \<and> 0 \<le> ud_Algorithm d \<and> ud_Algorithm d \<le> 255 \<and>
     0 \<le> ud_DigestType d \<and> ud_DigestType d \<le> 255 \<and> list_all hex_digit (ud_Digest d) \<and> length (ud_Digest d) \<in> {40, 64, 96} \<and>
     to_upper (ud_Digest d) = ud_Digest d"

lemma normalize_ns_stable:
  assumes "idna_ok to_ascii" "addr_ok parse_addr addr_string"
    "normalizeUndelegatedNameserver to_ascii parse_addr addr_string r i = Inr n"
  shows "ns_normal n \<and> normalizeUndelegatedNameserver to_ascii parse_addr addr_string n j = Inr n"
proof -
  obtain m where m: "NormalizeName to_ascii (TrimSpace (un_Name r)) = ([], m)" "m \<noteq> ''.''" "un_Name n = m"
    using assms(3) by (auto simp: normalizeUndelegatedNameserver_def Let_def split: if_splits prod.splits option.splits)
  then have nm: "normal_name m" using NormalizeName_normal[OF assms(1)] by blast
  then have trim: "TrimSpace m = m" "m \<noteq> []"
    using TrimSpace_printable[OF normal_name_printable] by (auto simp: normal_name_def normal_label_def)
  have ip: "un_IP n = [] \<or> (\<exists>a. parse_addr (TrimSpace (un_IP r)) = Some a \<and> un_IP n = addr_string a)"
    using assms(3) by (auto simp: normalizeUndelegatedNameserver_def Let_def split: if_splits prod.splits option.splits)
  have "TrimSpace [] = []" by (simp add: TrimSpace_def)
  then show ?thesis
    using ip m(2,3) nm trim NormalizeName_fixed[OF nm] assms(2)
    by (auto simp: normalizeUndelegatedNameserver_def Let_def ns_normal_def addr_ok_def)
qed

lemma hex_upper: "hex_digit c \<Longrightarrow> printable c"
  by (auto simp: hex_digit_def printable_def Let_def)

lemma normalize_ds_stable:
  assumes "normalizeUndelegatedDSInfo r i = Inr n"
  shows "ds_normal n \<and> normalizeUndelegatedDSInfo n j = Inr n"
proof -
  have n: "ds_normal n"
    using assms by (auto simp: normalizeUndelegatedDSInfo_def validateDigest_def ds_normal_def Let_def split: if_splits)
  then have "TrimSpace (ud_Digest n) = ud_Digest n"
    using hex_upper by (intro TrimSpace_printable) (auto simp: ds_normal_def list_all_iff)
  then show ?thesis using n
    by (auto simp: normalizeUndelegatedDSInfo_def validateDigest_def ds_normal_def Let_def)
qed

section \<open>Properties\<close>



end
