(* ===== verification/StoreModel.thy ===== *)
theory StoreModel
  imports Scoring Undelegated Recurrence
begin

text \<open>
  The data model of the server's store (\<open>server/models.go\<close>, \<open>server/store.go\<close>): jobs, runs, log
  entries, domains, tags, batches, analysis cohorts and their schedules, stored profiles, list
  filters and pages, and the state of \<open>InMemoryJobStore\<close>.

  \<^item> A pointer to an immutable value (\<open>*int\<close>, \<open>*string\<close>, \<open>*int64\<close>) is an option. The domain
    registry hands out \<open>*Domain\<close> under two maps and mutates through either of them, so domains
    live in an explicit heap: \<open>domains\<close> and \<open>domainsByID\<close> hold addresses, \<open>domain_heap\<close> the structs.
    The address of a domain is the value the allocation counter had when it was created.
  \<^item> A decoded JSON value (\<open>any\<close>) is a \<open>json\<close>; a \<open>float64\<close> field is the rational it denotes.
  \<^item> The id counters are unbounded: a counter that starts at 0 and is incremented once per row
    does not reach the range of \<open>int64\<close>.
  \<^item> The clock and the random public ids are arguments of the operations that read them.
\<close>

section \<open>Constants\<close>

abbreviation JobQueued :: string where "JobQueued \<equiv> ''queued''"
abbreviation JobRunning :: string where "JobRunning \<equiv> ''running''"
abbreviation JobSucceeded :: string where "JobSucceeded \<equiv> ''succeeded''"
abbreviation JobFailed :: string where "JobFailed \<equiv> ''failed''"
abbreviation JobCanceled :: string where "JobCanceled \<equiv> ''canceled''"
abbreviation JobExpired :: string where "JobExpired \<equiv> ''expired''"
abbreviation JobPaused :: string where "JobPaused \<equiv> ''paused''"

abbreviation JobSortCreatedAtDesc :: string where "JobSortCreatedAtDesc \<equiv> ''created_at_desc''"
abbreviation JobSortCreatedAtAsc :: string where "JobSortCreatedAtAsc \<equiv> ''created_at_asc''"
abbreviation JobSortStartedAtDesc :: string where "JobSortStartedAtDesc \<equiv> ''started_at_desc''"
abbreviation JobSortStartedAtAsc :: string where "JobSortStartedAtAsc \<equiv> ''started_at_asc''"
abbreviation JobSortDomainAsc :: string where "JobSortDomainAsc \<equiv> ''domain_asc''"
abbreviation JobSortDomainDesc :: string where "JobSortDomainDesc \<equiv> ''domain_desc''"
abbreviation JobSortBatchIDAsc :: string where "JobSortBatchIDAsc \<equiv> ''batch_id_asc''"
abbreviation JobSortBatchIDDesc :: string where "JobSortBatchIDDesc \<equiv> ''batch_id_desc''"
abbreviation JobSortErrorDesc :: string where "JobSortErrorDesc \<equiv> ''error_desc''"
abbreviation JobSortCriticalDesc :: string where "JobSortCriticalDesc \<equiv> ''critical_desc''"
abbreviation JobSortFinishedAtDesc :: string where "JobSortFinishedAtDesc \<equiv> ''finished_at_desc''"
abbreviation JobSortFinishedAtAsc :: string where "JobSortFinishedAtAsc \<equiv> ''finished_at_asc''"
abbreviation JobSortWorstLevelDesc :: string where "JobSortWorstLevelDesc \<equiv> ''worst_level_desc''"
abbreviation JobSortWorstLevelAsc :: string where "JobSortWorstLevelAsc \<equiv> ''worst_level_asc''"
abbreviation JobSortScoreDesc :: string where "JobSortScoreDesc \<equiv> ''score_desc''"
abbreviation JobSortScoreAsc :: string where "JobSortScoreAsc \<equiv> ''score_asc''"
abbreviation JobSortDurationDesc :: string where "JobSortDurationDesc \<equiv> ''duration_desc''"
abbreviation JobSortDurationAsc :: string where "JobSortDurationAsc \<equiv> ''duration_asc''"
abbreviation JobSortEntryCountDesc :: string where "JobSortEntryCountDesc \<equiv> ''entry_count_desc''"
abbreviation JobSortEntryCountAsc :: string where "JobSortEntryCountAsc \<equiv> ''entry_count_asc''"

abbreviation JobSeverityWarningsPlus :: string where "JobSeverityWarningsPlus \<equiv> ''warnings_plus''"
abbreviation JobSeverityErrorsOnly :: string where "JobSeverityErrorsOnly \<equiv> ''errors_only''"

abbreviation DomainSortNameDesc :: string where "DomainSortNameDesc \<equiv> ''name_desc''"
abbreviation DomainSortLevelDesc :: string where "DomainSortLevelDesc \<equiv> ''latest_level_desc''"
abbreviation DomainSortLevelAsc :: string where "DomainSortLevelAsc \<equiv> ''latest_level_asc''"
abbreviation DomainSortScoreDesc :: string where "DomainSortScoreDesc \<equiv> ''latest_score_desc''"
abbreviation DomainSortScoreAsc :: string where "DomainSortScoreAsc \<equiv> ''latest_score_asc''"
abbreviation DomainSortLastRunDesc :: string where "DomainSortLastRunDesc \<equiv> ''latest_run_at_desc''"
abbreviation DomainSortLastRunAsc :: string where "DomainSortLastRunAsc \<equiv> ''latest_run_at_asc''"
abbreviation DomainSortRunCountDesc :: string where "DomainSortRunCountDesc \<equiv> ''run_count_desc''"
abbreviation DomainSortRunCountAsc :: string where "DomainSortRunCountAsc \<equiv> ''run_count_asc''"

abbreviation AnalysisMaterializationPending :: string where "AnalysisMaterializationPending \<equiv> ''pending''"
abbreviation DefaultSnapshotPolicyAutoLatest :: string where "DefaultSnapshotPolicyAutoLatest \<equiv> ''auto_latest''"

section \<open>Rows\<close>

datatype json = JNull | JBool bool | JNum rat | JStr string | JArr "json list" | JObj "(string \<times> json) list"

record nameserver_timing =
  nt_Nameserver :: string
  nt_Address :: string
  nt_AvgMS :: rat
  nt_MinMS :: rat
  nt_MaxMS :: rat
  nt_MedianMS :: rat
  nt_StddevMS :: rat
  nt_Count :: int
  nt_Status :: string
  nt_TimeoutCount :: int
  nt_RefusedCount :: int

record log_entry =
  le_Timestamp :: rat
  le_Module :: string
  le_Testcase :: string
  le_Tag :: string
  le_Level :: string
  le_Args :: "(string, json) gomap"

record job =
  j_ID :: string
  j_PublicID :: string
  j_BatchID :: string
  j_DomainID :: int
  j_Domain :: string
  j_Status :: string
  j_FinishedAt :: gotime
  j_SeverityTotals :: "(string, int) gomap"
  j_CreatedAt :: gotime
  j_StartedAt :: gotime
  j_Priority :: int
  j_Progress :: int
  j_Error :: string
  j_Profile :: string
  j_ProfileID :: "int option"
  j_ProfileName :: string
  j_EffectiveProfile :: string
  j_Score :: "int option"
  j_Grade :: "string option"
  j_Tests :: "string list"
  j_Overrides :: "(string, json) gomap"
  j_UndelegatedNS :: "undelegated_ns list"
  j_UndelegatedDS :: "undelegated_ds list"
  j_MinLevel :: string
  j_IPv4Disabled :: bool
  j_IPv6Disabled :: bool
  j_Origin :: string
  j_ClientIP :: string
  j_ClientUserAgent :: string
  j_ClientVia :: string
  j_NameserverTimings :: "nameserver_timing list"
  j_DNSSECChainJSON :: string

definition zero_job :: job where
  "zero_job = \<lparr>j_ID = [], j_PublicID = [], j_BatchID = [], j_DomainID = 0, j_Domain = [], j_Status = [],
     j_FinishedAt = 0, j_SeverityTotals = [], j_CreatedAt = 0, j_StartedAt = 0, j_Priority = 0, j_Progress = 0,
     j_Error = [], j_Profile = [], j_ProfileID = None, j_ProfileName = [], j_EffectiveProfile = [],
     j_Score = None, j_Grade = None, j_Tests = [], j_Overrides = [], j_UndelegatedNS = [], j_UndelegatedDS = [],
     j_MinLevel = [], j_IPv4Disabled = False, j_IPv6Disabled = False, j_Origin = [], j_ClientIP = [],
     j_ClientUserAgent = [], j_ClientVia = [], j_NameserverTimings = [], j_DNSSECChainJSON = []\<rparr>"

record run =
  r_ID :: string
  r_DomainID :: int
  r_Domain :: string
  r_BatchID :: string
  r_Status :: string
  r_CreatedAt :: gotime
  r_StartedAt :: gotime
  r_FinishedAt :: gotime
  r_DurationMs :: int
  r_SevNotice :: int
  r_SevWarning :: int
  r_SevError :: int
  r_SevCritical :: int
  r_WorstLevel :: string
  r_EntryCount :: int
  r_Priority :: int
  r_Profile :: string
  r_ProfileID :: "int option"
  r_ProfileName :: string
  r_EffectiveProfile :: string
  r_PublicID :: string
  r_SeverityTotals :: "(string, int) gomap"
  r_Score :: "int option"
  r_Grade :: "string option"
  r_NameserverTimings :: "nameserver_timing list"
  r_Error :: string
  r_ClientIP :: string
  r_ClientUserAgent :: string
  r_ClientVia :: string

record entry =
  en_ID :: int
  en_RunID :: string
  en_DomainID :: int
  en_Domain :: string
  en_Timestamp :: rat
  en_Module :: string
  en_Testcase :: string
  en_Tag :: string
  en_Level :: string
  en_Args :: "(string, json) gomap"

record domain =
  d_ID :: int
  d_Name :: string
  d_LatestRunID :: string
  d_LatestRunAt :: gotime
  d_LatestStatus :: string
  d_LatestLevel :: string
  d_LatestScore :: "int option"
  d_LatestGrade :: "string option"
  d_CreatedAt :: gotime
  d_RunCount :: int
  d_Tags :: "string list"

definition new_domain :: "int \<Rightarrow> string \<Rightarrow> gotime \<Rightarrow> domain" where
  "new_domain i name now = \<lparr>d_ID = i, d_Name = name, d_LatestRunID = [], d_LatestRunAt = 0, d_LatestStatus = [],
     d_LatestLevel = [], d_LatestScore = None, d_LatestGrade = None, d_CreatedAt = now, d_RunCount = 0, d_Tags = []\<rparr>"

record tag =
  t_Name :: string
  t_Description :: string
  t_CreatedAt :: gotime
  t_DomainCount :: int
  t_DefaultProfileID :: "int option"

record tag_summary =
  ts_Tag :: string
  ts_DomainCount :: int
  ts_OK :: int
  ts_Notice :: int
  ts_Warning :: int
  ts_Error :: int
  ts_Critical :: int
  ts_Grades :: "(string, int) gomap"

record batch =
  b_ID :: string
  b_Tag :: string
  b_CreatedAt :: gotime
  b_DomainCount :: int
  b_Description :: string
  b_SnapshotIntent :: bool
  b_Origin :: string

record analysis_cohort =
  c_ID :: int
  c_SourceType :: string
  c_SourceTag :: string
  c_Label :: string
  c_Description :: string
  c_AnalysisEnabled :: bool
  c_PublicEnabled :: bool
  c_IsDefault :: bool
  c_SortOrder :: int
  c_MaterializationStatus :: string
  c_MaterializationDone :: int
  c_MaterializationTotal :: int
  c_LastMaterializedAt :: gotime
  c_LastMaterializationError :: string
  c_DefaultSnapshotPolicy :: string
  c_DefaultSnapshotID :: "int option"
  c_TagViewMinLevel :: string
  c_ReferenceList :: string
  c_CreatedAt :: gotime
  c_UpdatedAt :: gotime

record cohort_schedule =
  s_CohortID :: int
  s_SourceTag :: string
  s_Label :: string
  s_Enabled :: bool
  s_Rule :: rule
  s_ProfileID :: "int option"
  s_PromoteDefault :: bool
  s_CatchUp :: bool
  s_NextRunAt :: gotime
  s_LastRunAt :: gotime
  s_LastBatchID :: string
  s_LastOutcome :: string
  s_LastError :: string
  s_CreatedAt :: gotime
  s_UpdatedAt :: gotime

record stored_profile =
  p_ID :: int
  p_Name :: string
  p_Description :: string
  p_Config :: string
  p_Public :: bool
  p_SchemaVersion :: string
  p_CreatedAt :: gotime
  p_UpdatedAt :: gotime

section \<open>Filters and pages\<close>

record job_filter =
  jf_Status :: string
  jf_BatchID :: string
  jf_Domain :: string
  jf_ClientIP :: string
  jf_Severity :: string
  jf_CreatedAfter :: gotime
  jf_CreatedBefore :: gotime
  jf_Limit :: int
  jf_Offset :: int
  jf_Sort :: string

record domain_filter =
  df_Tag :: string
  df_Name :: string
  df_LatestLevel :: string
  df_MinLevel :: string
  df_Limit :: int
  df_Offset :: int
  df_Sort :: string

record run_filter =
  rf_DomainID :: int
  rf_Domain :: string
  rf_DomainExact :: bool
  rf_BatchID :: string
  rf_ClientIP :: string
  rf_Tag :: string
  rf_EntryTag :: string
  rf_Status :: string
  rf_Severity :: string
  rf_WorstLevel :: string
  rf_Grade :: string
  rf_FinishedAfter :: gotime
  rf_FinishedBefore :: gotime
  rf_Limit :: int
  rf_Offset :: int
  rf_Sort :: string

definition zero_run_filter :: run_filter where
  "zero_run_filter = \<lparr>rf_DomainID = 0, rf_Domain = [], rf_DomainExact = False, rf_BatchID = [], rf_ClientIP = [],
     rf_Tag = [], rf_EntryTag = [], rf_Status = [], rf_Severity = [], rf_WorstLevel = [], rf_Grade = [],
     rf_FinishedAfter = 0, rf_FinishedBefore = 0, rf_Limit = 0, rf_Offset = 0, rf_Sort = []\<rparr>"

record entry_filter =
  ef_RunID :: string
  ef_DomainID :: int
  ef_Tag :: string
  ef_Module :: string
  ef_Testcase :: string
  ef_EntryTag :: string
  ef_Level :: string
  ef_LatestOnly :: bool
  ef_BatchID :: string
  ef_Limit :: int
  ef_Offset :: int

text \<open>
  The list types of \<open>models.go\<close> share one shape; lists without cursors leave them empty. The job list
  also names its sort order.
\<close>

record 'a paged =
  Items :: "'a list"
  Total :: int
  Limit :: int
  Offset :: int
  NextCursor :: string
  PrevCursor :: string

record job_list = "job paged" +
  Sort :: string

record batch_delete_preview =
  bp_BatchID :: string
  bp_Tag :: string
  bp_CreatedAt :: gotime
  bp_SnapshotIntent :: bool
  bp_Exists :: bool
  bp_QueuedJobs :: int
  bp_RunningJobs :: int
  bp_CompletedRuns :: int
  bp_Entries :: int

record job_result_entry =
  jre_Timestamp :: rat
  jre_Module :: string
  jre_Testcase :: string
  jre_Tag :: string
  jre_Level :: string
  jre_Args :: "(string, json) gomap"

record job_result =
  jr_JobID :: string
  jr_BatchID :: string
  jr_Status :: string
  jr_SummaryTotal :: int
  jr_SummaryLevels :: "(string, int) gomap"
  jr_NameserverTimings :: "nameserver_timing list"
  jr_Raw :: "job_result_entry list option"
  jr_Score :: "scoring_result option"
  jr_HasDNSSECChain :: bool

section \<open>The store\<close>

record store =
  scoringCfg :: scoring_config
  jobs :: "(string, job) gomap"
  publicIDs :: "(string, string) gomap"
  runs :: "(string, run) gomap"
  runPublicIDs :: "(string, string) gomap"
  entries :: "(string, entry list) gomap"
  dnssecChains :: "(string, string) gomap"
  entryCounter :: int
  domains :: "(string, int) gomap"
  domainsByID :: "(int, int) gomap"
  domain_heap :: "(int, domain) gomap"
  domainCounter :: int
  tags :: "(string, tag) gomap"
  domainTags :: "(int, string list) gomap"
  tagDomains :: "(string, int list) gomap"
  batches :: "(string, batch) gomap"
  analysisCohorts :: "(int, analysis_cohort) gomap"
  analysisCohortCounter :: int
  analysisSchedules :: "(int, cohort_schedule) gomap"
  profiles :: "(int, stored_profile) gomap"
  profileCounter :: int
  settings :: "(string, string) gomap"

definition NewInMemoryJobStore :: store where
  "NewInMemoryJobStore = \<lparr>scoringCfg = DefaultConfig, jobs = [], publicIDs = [], runs = [], runPublicIDs = [],
     entries = [], dnssecChains = [], entryCounter = 0, domains = [], domainsByID = [], domain_heap = [],
     domainCounter = 0, tags = [], domainTags = [], tagDomains = [], batches = [], analysisCohorts = [],
     analysisCohortCounter = 0, analysisSchedules = [], profiles = [], profileCounter = 0, settings = []\<rparr>"

definition SetScoringConfig :: "scoring_config \<Rightarrow> store \<Rightarrow> store" where
  "SetScoringConfig cfg s = s\<lparr>scoringCfg := cfg\<rparr>"

datatype store_error =
    JobExists
  | JobNotFound
  | InvalidDomainName string string
  | DomainNotFound
  | TagExists
  | TagNotFound
  | ProfileNotFound int
  | ProfileNameExists string
  | BatchNotFound
  | BatchIDRequired
  | SourceTypeRequired
  | SourceTagRequired
  | ScheduleFieldsRequired
  | SettingNotFound
  | StorePanic

section \<open>Shared helpers\<close>

definition severityRank :: "string \<Rightarrow> int" where
  "severityRank level = (let l = to_upper level in
     if l = ''CRITICAL'' then 4 else if l = ''ERROR'' then 3 else if l = ''WARNING'' then 2
     else if l = ''NOTICE'' then 1 else 0)"

definition derefIntOr :: "int option \<Rightarrow> int \<Rightarrow> int" where
  "derefIntOr p fallback = (case p of Some v \<Rightarrow> v | None \<Rightarrow> fallback)"

definition isTerminalStatus :: "string \<Rightarrow> bool" where
  "isTerminalStatus st \<longleftrightarrow> st \<in> {JobSucceeded, JobFailed, JobCanceled, JobExpired}"

definition computeWorstLevel :: "int \<Rightarrow> int \<Rightarrow> int \<Rightarrow> int \<Rightarrow> string" where
  "computeWorstLevel notice warning errCount critical =
     (if critical > 0 then ''CRITICAL'' else if errCount > 0 then ''ERROR'' else if warning > 0 then ''WARNING''
      else if notice > 0 then ''NOTICE'' else '''')"

text \<open>
  The page of a sorted list, as the list operations assemble it; \<open>cursors\<close> is whether the list type
  carries cursors.
\<close>

definition paginate :: "bool \<Rightarrow> int \<Rightarrow> int \<Rightarrow> 'a list \<Rightarrow> 'a paged" where
  "paginate cursors limit0 offset0 items = (let
      total = int (length items);
      limit = (if limit0 \<le> 0 then 100 else limit0);
      offset = max offset0 0;
      start = min offset total;
      end = min (start + limit) total
    in \<lparr>Items = page limit0 offset0 items, Total = total, Limit = limit, Offset = offset,
        NextCursor = (if cursors \<and> end < total then itoa end else []),
        PrevCursor = (if cursors \<and> 0 < start then itoa (max (start - limit) 0) else [])\<rparr>)"

text \<open>Reading a domain through a pointer of one of the two registries.\<close>

definition deref :: "store \<Rightarrow> int \<Rightarrow> domain" where
  "deref s a = gm_get_or (new_domain 0 [] 0) (domain_heap s) a"

definition assign :: "int \<Rightarrow> domain \<Rightarrow> store \<Rightarrow> store" where
  "assign a d s = s\<lparr>domain_heap := gm_set a d (domain_heap s)\<rparr>"

text \<open>Deleting a list of keys, as the loops over rows do one by one.\<close>

definition gm_del_all :: "'k list \<Rightarrow> ('k, 'v) gomap \<Rightarrow> ('k, 'v) gomap" where
  "gm_del_all ks m = fold gm_del ks m"

lemma gm_get_del_all: "gm_get (gm_del_all ks m) k = (if k \<in> set ks then None else gm_get m k)"
  unfolding gm_del_all_def by (induction ks arbitrary: m) (auto simp: gm.get_del)

lemma gm_wf_del_all [simp]: "gm_wf m \<Longrightarrow> gm_wf (gm_del_all ks m)"
  unfolding gm_del_all_def by (induction ks arbitrary: m) auto

lemma gm_get_or_set [simp]: "gm_get_or d (gm_set k v m) k' = (if k' = k then v else gm_get_or d m k')"
  by (simp add: gm_get_or_def gm.get_put)

lemma gm_get_or_del [simp]: "gm_get_or d (gm_del k m) k' = (if k' = k then d else gm_get_or d m k')"
  by (simp add: gm_get_or_def gm.get_del)

text \<open>Following the pages of a listing from offset 0 in steps of the limit yields every item once, in order.\<close>

lemma page_drop:
  assumes "0 < limit"
  shows "page limit (int k * limit) xs = take (nat limit) (drop (k * nat limit) xs)"
proof -
  obtain l where l: "limit = int l" "0 < l" using assms zero_less_imp_eq_int by blast
  show ?thesis
  proof (cases "k * l \<le> length xs")
    case True
    have "nat (min (int (k * l) + int l) (int (length xs)) - int (k * l)) = min l (length xs - k * l)"
      using True by linarith
    moreover have "min (int (k * l)) (int (length xs)) = int (k * l)" using True by linarith
    ultimately show ?thesis using l by (simp add: page_def Let_def min_def flip: of_nat_mult)
  next
    case False
    then have "min (int (k * l)) (int (length xs)) = int (length xs)" by linarith
    then show ?thesis using False l by (simp add: page_def Let_def flip: of_nat_mult)
  qed
qed

lemma pages_cover:
  assumes "0 < limit"
  shows "concat (map (\<lambda>k. Items (paginate c limit (int k * limit) xs)) [0..<n]) = take (n * nat limit) xs"
proof (induction n)
  case (Suc n)
  have "Items (paginate c limit (int n * limit) xs) = take (nat limit) (drop (n * nat limit) xs)"
    using page_drop[OF assms] by (simp add: paginate_def Let_def)
  then show ?case using Suc take_add[of "n * nat limit" "nat limit" xs] by (simp add: add.commute)
qed simp

end
