(* ===== verification/StoreDomains.thy ===== *)
theory StoreDomains
  imports StoreModel
begin

text \<open>
  The domain registry and the tags of \<open>InMemoryJobStore\<close> (\<open>server/store.go\<close>): creation and lookup of
  domains through the two registries that share the structs, the latest-run fields, sorted and
  filtered listing, and the tag relation kept in two indexes. The lemmas show that both registries
  name the same structs, that both tag indexes stand for one relation and how each operation changes it, and
  that listings do not depend on the iteration order of the maps.
\<close>

section \<open>Domains\<close>

definition getOrCreateDomainLocked :: "gotime \<Rightarrow> string \<Rightarrow> store \<Rightarrow> int \<times> store" where
  "getOrCreateDomainLocked now name s = (case gm_get (domains s) name of
     Some a \<Rightarrow> (a, s)
   | None \<Rightarrow> (let i = domainCounter s + 1 in
       (i, s\<lparr>domainCounter := i,
             domain_heap := gm_set i (new_domain i name now) (domain_heap s),
             domains := gm_set name i (domains s),
             domainsByID := gm_set i i (domainsByID s)\<rparr>)))"

definition GetOrCreateDomain ::
  "(string \<Rightarrow> string option) \<Rightarrow> (string \<Rightarrow> 'a option) \<Rightarrow> ('a \<Rightarrow> string) \<Rightarrow> gotime \<Rightarrow> string \<Rightarrow> store \<Rightarrow> store_error + domain \<times> store" where
  "GetOrCreateDomain to_ascii parse_unzoned reverse_addr now name s =
     (case NormalizeTarget to_ascii parse_unzoned reverse_addr (trim_space name) of
        (e # _, _) \<Rightarrow> Inl (InvalidDomainName name (error_Message e))
      | ([], normalized) \<Rightarrow> (case getOrCreateDomainLocked now normalized s of (a, s') \<Rightarrow> Inr (deref s' a, s')))"

definition tags_of :: "store \<Rightarrow> int \<Rightarrow> string list" where
  "tags_of s i = gm_get_or [] (domainTags s) i"

definition with_tags :: "store \<Rightarrow> domain \<Rightarrow> domain" where
  "with_tags s d = d\<lparr>d_Tags := tags_of s (d_ID d)\<rparr>"

definition GetDomain :: "int \<Rightarrow> store \<Rightarrow> domain option" where
  "GetDomain i s = (case gm_get (domainsByID s) i of None \<Rightarrow> None | Some a \<Rightarrow> Some (with_tags s (deref s a)))"

definition GetDomainByName :: "string \<Rightarrow> store \<Rightarrow> domain option" where
  "GetDomainByName name s = (case gm_get (domains s) name of None \<Rightarrow> None | Some a \<Rightarrow> Some (with_tags s (deref s a)))"

definition GetDomainNamesByIDs :: "int list \<Rightarrow> store \<Rightarrow> (int, string) gomap" where
  "GetDomainNamesByIDs ids s =
     fold (\<lambda>i out. case gm_get (domainsByID s) i of None \<Rightarrow> out | Some a \<Rightarrow> gm_set i (d_Name (deref s a)) out) ids []"

definition UpdateDomainLatest :: "int \<Rightarrow> string \<Rightarrow> gotime \<Rightarrow> string \<Rightarrow> string \<Rightarrow> store \<Rightarrow> store_error + store" where
  "UpdateDomainLatest domainID runID finishedAt status level s = (case gm_get (domainsByID s) domainID of
     None \<Rightarrow> Inl DomainNotFound
   | Some a \<Rightarrow> (let d = deref s a in
       Inr (assign a (d\<lparr>d_LatestRunID := runID, d_LatestRunAt := finishedAt, d_LatestStatus := status,
                        d_LatestLevel := level, d_RunCount := d_RunCount d + 1\<rparr>) s)))"

text \<open>The comparator that \<open>sortDomainSlice\<close> selects.\<close>

definition domain_less :: "string \<Rightarrow> domain \<Rightarrow> domain \<Rightarrow> bool" where
  "domain_less ds =
     (if ds = DomainSortNameDesc then cmp_key_desc d_Name
      else if ds = DomainSortLevelDesc then cmp_desc (severityRank \<circ> d_LatestLevel) (cmp_key d_Name)
      else if ds = DomainSortLevelAsc then cmp_asc (severityRank \<circ> d_LatestLevel) (cmp_key d_Name)
      else if ds = DomainSortScoreDesc then cmp_desc (\<lambda>d. derefIntOr (d_LatestScore d) (-1)) (cmp_key d_Name)
      else if ds = DomainSortScoreAsc then cmp_asc (\<lambda>d. derefIntOr (d_LatestScore d) 9999) (cmp_key d_Name)
      else if ds = DomainSortLastRunDesc then cmp_desc d_LatestRunAt (cmp_key d_Name)
      else if ds = DomainSortLastRunAsc then cmp_asc d_LatestRunAt (cmp_key d_Name)
      else if ds = DomainSortRunCountDesc then cmp_desc d_RunCount (cmp_key d_Name)
      else if ds = DomainSortRunCountAsc then cmp_asc d_RunCount (cmp_key d_Name)
      else cmp_key d_Name)"

definition sortDomainSlice :: "string \<Rightarrow> domain list \<Rightarrow> domain list" where
  "sortDomainSlice ds items = sort_by (domain_less ds) items"

definition domain_matches :: "domain_filter \<Rightarrow> string list \<Rightarrow> domain \<Rightarrow> bool" where
  "domain_matches f ts d \<longleftrightarrow>
     (if df_Tag f = ''__none__'' then ts = [] else df_Tag f = [] \<or> df_Tag f \<in> set ts) \<and>
     (df_Name f = [] \<or> contains (to_lower (d_Name d)) (to_lower (df_Name f))) \<and>
     (df_LatestLevel f = [] \<or> d_LatestLevel d = df_LatestLevel f) \<and>
     (df_MinLevel f = [] \<or> severityRank (df_MinLevel f) \<le> severityRank (d_LatestLevel d))"

definition matching_domains :: "domain_filter \<Rightarrow> store \<Rightarrow> domain list" where
  "matching_domains f s =
     map (with_tags s) (filter (\<lambda>d. domain_matches f (tags_of s (d_ID d)) d) (map (deref s \<circ> snd) (domains s)))"

definition ListDomains :: "domain_filter \<Rightarrow> store \<Rightarrow> domain paged" where
  "ListDomains f s = paginate False (df_Limit f) (df_Offset f) (sortDomainSlice (df_Sort f) (matching_domains f s))"

section \<open>Tags\<close>

definition domains_of :: "store \<Rightarrow> string \<Rightarrow> int list" where
  "domains_of s t = gm_get_or [] (tagDomains s) t"

definition CreateTag :: "gotime \<Rightarrow> string \<Rightarrow> string \<Rightarrow> store \<Rightarrow> store_error + store" where
  "CreateTag now name description s =
     (if gm_has (tags s) name then Inl TagExists
      else Inr (s\<lparr>tags := gm_set name \<lparr>t_Name = name, t_Description = description, t_CreatedAt = now,
                                    t_DomainCount = 0, t_DefaultProfileID = None\<rparr> (tags s)\<rparr>))"

definition counted :: "store \<Rightarrow> tag \<Rightarrow> tag" where
  "counted s t = t\<lparr>t_DomainCount := int (length (domains_of s (t_Name t)))\<rparr>"

definition ListTags :: "int \<Rightarrow> int \<Rightarrow> store \<Rightarrow> tag list" where
  "ListTags limit offset s = page limit offset (sort_by (cmp_key t_Name) (map (counted s \<circ> snd) (tags s)))"

definition tag_one :: "string \<Rightarrow> int \<Rightarrow> store \<Rightarrow> store" where
  "tag_one t i s = (if t \<in> set (tags_of s i) then s
     else s\<lparr>domainTags := gm_set i (tags_of s i @ [t]) (domainTags s),
            tagDomains := gm_set t (domains_of s t @ [i]) (tagDomains s)\<rparr>)"

definition TagDomains :: "gotime \<Rightarrow> string \<Rightarrow> int list \<Rightarrow> store \<Rightarrow> store" where
  "TagDomains now t ids s =
     fold (tag_one t) ids
       (if gm_has (tags s) t then s
        else s\<lparr>tags := gm_set t \<lparr>t_Name = t, t_Description = [], t_CreatedAt = now, t_DomainCount = 0,
                                t_DefaultProfileID = None\<rparr> (tags s)\<rparr>)"

definition GetTag :: "string \<Rightarrow> store \<Rightarrow> tag option" where
  "GetTag name s = map_option (\<lambda>t. t\<lparr>t_DomainCount := int (length (domains_of s name))\<rparr>) (gm_get (tags s) name)"

definition UpdateTag :: "string \<Rightarrow> string \<Rightarrow> store \<Rightarrow> store_error + store" where
  "UpdateTag name description s = (case gm_get (tags s) name of
     None \<Rightarrow> Inl TagNotFound
   | Some t \<Rightarrow> Inr (s\<lparr>tags := gm_set name (t\<lparr>t_Description := description\<rparr>) (tags s)\<rparr>))"

definition SetTagDefaultProfile :: "string \<Rightarrow> int option \<Rightarrow> store \<Rightarrow> store_error + store" where
  "SetTagDefaultProfile name profileID s = (case gm_get (tags s) name of
     None \<Rightarrow> Inl TagNotFound
   | Some t \<Rightarrow> (case profileID of
        Some p \<Rightarrow> if gm_has (profiles s) p then Inr (s\<lparr>tags := gm_set name (t\<lparr>t_DefaultProfileID := Some p\<rparr>) (tags s)\<rparr>)
                  else Inl (ProfileNotFound p)
      | None \<Rightarrow> Inr (s\<lparr>tags := gm_set name (t\<lparr>t_DefaultProfileID := None\<rparr>) (tags s)\<rparr>)))"

definition untag_one :: "string \<Rightarrow> int \<Rightarrow> store \<Rightarrow> store" where
  "untag_one t i s = s\<lparr>domainTags := gm_set i (filter (\<lambda>u. u \<noteq> t) (tags_of s i)) (domainTags s)\<rparr>"

definition DeleteTag :: "string \<Rightarrow> store \<Rightarrow> store_error + store" where
  "DeleteTag name s =
     (if \<not> gm_has (tags s) name then Inl TagNotFound
      else let s' = fold (untag_one name) (domains_of s name) s in
        Inr (s'\<lparr>tagDomains := gm_del name (tagDomains s'), tags := gm_del name (tags s')\<rparr>))"

definition UntagDomains :: "string \<Rightarrow> int list \<Rightarrow> store \<Rightarrow> store" where
  "UntagDomains t ids s =
     fold (untag_one t) ids (s\<lparr>tagDomains := gm_set t (filter (\<lambda>i. i \<notin> set ids) (domains_of s t)) (tagDomains s)\<rparr>)"

definition GetDomainTags :: "int \<Rightarrow> store \<Rightarrow> string list" where
  "GetDomainTags i s = tags_of s i"

definition ListDomainsByTag :: "string \<Rightarrow> domain_filter \<Rightarrow> store \<Rightarrow> domain paged" where
  "ListDomainsByTag t f s = ListDomains (f\<lparr>df_Tag := t\<rparr>) s"

definition count_level :: "domain \<Rightarrow> tag_summary \<Rightarrow> tag_summary" where
  "count_level d su = (let l = to_upper (d_LatestLevel d) in
     if l = ''CRITICAL'' then su\<lparr>ts_Critical := ts_Critical su + 1\<rparr>
     else if l = ''ERROR'' then su\<lparr>ts_Error := ts_Error su + 1\<rparr>
     else if l = ''WARNING'' then su\<lparr>ts_Warning := ts_Warning su + 1\<rparr>
     else if l = ''NOTICE'' then su\<lparr>ts_Notice := ts_Notice su + 1\<rparr>
     else su\<lparr>ts_OK := ts_OK su + 1\<rparr>)"

definition count_grade :: "store \<Rightarrow> domain \<Rightarrow> tag_summary \<Rightarrow> tag_summary" where
  "count_grade s d su =
     (if d_LatestRunID d = [] then su
      else case gm_get (runs s) (d_LatestRunID d) of
        None \<Rightarrow> su
      | Some r \<Rightarrow> (case r_Grade r of None \<Rightarrow> su
                  | Some g \<Rightarrow> su\<lparr>ts_Grades := gm_set g (gm_get_or 0 (ts_Grades su) g + 1) (ts_Grades su)\<rparr>))"

definition summarize_one :: "store \<Rightarrow> int \<Rightarrow> tag_summary \<Rightarrow> tag_summary" where
  "summarize_one s i su = (case gm_get (domainsByID s) i of
     None \<Rightarrow> su
   | Some a \<Rightarrow> count_grade s (deref s a) (count_level (deref s a) su))"

definition GetTagSummary :: "string \<Rightarrow> store \<Rightarrow> tag_summary option" where
  "GetTagSummary t s = (case gm_get (tagDomains s) t of
     None \<Rightarrow> None
   | Some ids \<Rightarrow> Some (fold (summarize_one s) ids
       \<lparr>ts_Tag = t, ts_DomainCount = int (length ids), ts_OK = 0, ts_Notice = 0, ts_Warning = 0, ts_Error = 0,
        ts_Critical = 0, ts_Grades = []\<rparr>))"

section \<open>The registry interface\<close>

text \<open>
  What the graduation of jobs relies on: interning a name yields the address the name had, or a new
  one that no other name has, and leaves every other name alone.
\<close>

locale registry =
  fixes intern :: "'k \<Rightarrow> 's \<Rightarrow> 'a \<times> 's"
    and addr :: "'s \<Rightarrow> 'k \<Rightarrow> 'a option"
    and ok :: "'s \<Rightarrow> bool"
  assumes intern_known: "addr s k = Some a \<Longrightarrow> intern k s = (a, s)"
    and addr_intern: "addr (snd (intern k s)) k' = (if k' = k then Some (fst (intern k s)) else addr s k')"
    and intern_ok: "ok s \<Longrightarrow> ok (snd (intern k s))"
    and addr_inj: "ok s \<Longrightarrow> addr s k = Some a \<Longrightarrow> addr s k' = Some a \<Longrightarrow> k = k'"
begin

lemma intern_idem: "intern k (snd (intern k s)) = intern k s"
  by (metis addr_intern intern_known prod.collapse)

lemma intern_stable: "addr s k = Some a \<Longrightarrow> addr (snd (intern k' s)) k = Some a"
  by (cases "k' = k") (auto simp: addr_intern dest: intern_known[of s k a])

lemma intern_distinct:
  assumes "ok s" "addr s k = Some a" "k \<noteq> k'"
  shows "fst (intern k' s) \<noteq> a"
  using addr_inj[OF intern_ok[OF assms(1), of k']] intern_stable[OF assms(2), of k'] addr_intern[of k' s k'] assms(3)
  by metis

end

definition registry_ok :: "store \<Rightarrow> bool" where
  "registry_ok s \<longleftrightarrow> gm_wf (domains s) \<and> gm_wf (domainsByID s) \<and> gm_wf (domain_heap s) \<and> 0 \<le> domainCounter s \<and>
     (\<forall>n a. gm_get (domains s) n = Some a \<longrightarrow>
        gm_get (domainsByID s) a = Some a \<and> (\<exists>d. gm_get (domain_heap s) a = Some d \<and> d_Name d = n)) \<and>
     (\<forall>i a. gm_get (domainsByID s) i = Some a \<longrightarrow> a = i \<and> 0 < i \<and> i \<le> domainCounter s \<and>
        (\<exists>d. gm_get (domain_heap s) i = Some d \<and> d_ID d = i \<and> gm_get (domains s) (d_Name d) = Some i))"

lemma registry_by_name:
  "registry_ok s \<Longrightarrow> gm_get (domains s) n = Some a \<Longrightarrow>
     gm_get (domainsByID s) a = Some a \<and> d_Name (deref s a) = n \<and> d_ID (deref s a) = a"
  unfolding registry_ok_def deref_def gm_get_or_def by fastforce

lemma registry_by_id:
  "registry_ok s \<Longrightarrow> gm_get (domainsByID s) i = Some a \<Longrightarrow>
     a = i \<and> 0 < i \<and> i \<le> domainCounter s \<and> d_ID (deref s i) = i \<and> gm_get (domains s) (d_Name (deref s i)) = Some i"
  unfolding registry_ok_def deref_def gm_get_or_def by fastforce

lemma registry_ok_frame [simp]:
  "registry_ok (s\<lparr>scoringCfg := x1\<rparr>) = registry_ok s" "registry_ok (s\<lparr>jobs := x2\<rparr>) = registry_ok s"
  "registry_ok (s\<lparr>publicIDs := x3\<rparr>) = registry_ok s" "registry_ok (s\<lparr>runs := x4\<rparr>) = registry_ok s"
  "registry_ok (s\<lparr>runPublicIDs := x5\<rparr>) = registry_ok s" "registry_ok (s\<lparr>entries := x6\<rparr>) = registry_ok s"
  "registry_ok (s\<lparr>dnssecChains := x7\<rparr>) = registry_ok s" "registry_ok (s\<lparr>entryCounter := x8\<rparr>) = registry_ok s"
  "registry_ok (s\<lparr>tags := x9\<rparr>) = registry_ok s" "registry_ok (s\<lparr>domainTags := x10\<rparr>) = registry_ok s"
  "registry_ok (s\<lparr>tagDomains := x11\<rparr>) = registry_ok s" "registry_ok (s\<lparr>batches := x12\<rparr>) = registry_ok s"
  "registry_ok (s\<lparr>analysisCohorts := x13\<rparr>) = registry_ok s"
  "registry_ok (s\<lparr>analysisCohortCounter := x14\<rparr>) = registry_ok s"
  "registry_ok (s\<lparr>analysisSchedules := x15\<rparr>) = registry_ok s" "registry_ok (s\<lparr>profiles := x16\<rparr>) = registry_ok s"
  "registry_ok (s\<lparr>profileCounter := x17\<rparr>) = registry_ok s" "registry_ok (s\<lparr>settings := x18\<rparr>) = registry_ok s"
  by (simp_all add: registry_ok_def)

lemma registry_ok_new: "registry_ok NewInMemoryJobStore"
  by (simp add: registry_ok_def NewInMemoryJobStore_def)

lemma registry_ok_assign:
  assumes "registry_ok s" "gm_get (domain_heap s) a = Some d" "d_ID d' = d_ID d" "d_Name d' = d_Name d"
  shows "registry_ok (assign a d' s)"
  using assms unfolding registry_ok_def assign_def by (auto simp: gm.get_put) (metis option.inject)+

lemma getOrCreate_known: "gm_get (domains s) n = Some a \<Longrightarrow> getOrCreateDomainLocked now n s = (a, s)"
  by (simp add: getOrCreateDomainLocked_def)

lemma getOrCreate_addr:
  "gm_get (domains (snd (getOrCreateDomainLocked now n s))) n' =
     (if n' = n then Some (fst (getOrCreateDomainLocked now n s)) else gm_get (domains s) n')"
  by (simp add: getOrCreateDomainLocked_def Let_def gm.get_put split: option.splits)

lemma getOrCreate_ok:
  assumes "registry_ok s"
  shows "registry_ok (snd (getOrCreateDomainLocked now n s))"
proof (cases "gm_get (domains s) n")
  case None
  let ?i = "domainCounter s + 1"
  have fresh: "gm_get (domainsByID s) ?i = None"
    using assms registry_by_id[of s ?i] by (cases "gm_get (domainsByID s) ?i") auto
  have "gm_get (domains s) m \<noteq> Some ?i" for m
    using assms fresh unfolding registry_ok_def by auto
  then show ?thesis using assms None fresh unfolding registry_ok_def getOrCreateDomainLocked_def
    by (auto simp: Let_def gm.get_put new_domain_def) (smt (verit, ccfv_SIG) option.distinct(1))+
next
  case (Some a)
  then show ?thesis using assms by (simp add: getOrCreate_known)
qed

interpretation dom: registry "getOrCreateDomainLocked now" "\<lambda>s. gm_get (domains s)" registry_ok for now
proof
  show "registry_ok s \<Longrightarrow> gm_get (domains s) k = Some a \<Longrightarrow> gm_get (domains s) k' = Some a \<Longrightarrow> k = k'" for s k k' a
    by (metis registry_by_name)
qed (simp_all add: getOrCreate_known getOrCreate_addr getOrCreate_ok)

lemma getOrCreate_fields:
  assumes "getOrCreateDomainLocked now n s = (a, s1)"
  shows "jobs s1 = jobs s" "publicIDs s1 = publicIDs s" "runs s1 = runs s" "runPublicIDs s1 = runPublicIDs s"
    "entries s1 = entries s" "dnssecChains s1 = dnssecChains s" "entryCounter s1 = entryCounter s"
    "tags s1 = tags s" "domainTags s1 = domainTags s" "tagDomains s1 = tagDomains s" "batches s1 = batches s"
    "analysisCohorts s1 = analysisCohorts s" "analysisCohortCounter s1 = analysisCohortCounter s"
    "analysisSchedules s1 = analysisSchedules s" "profiles s1 = profiles s" "profileCounter s1 = profileCounter s"
    "settings s1 = settings s" "scoringCfg s1 = scoringCfg s" "domainCounter s \<le> domainCounter s1"
  using assms by (auto simp: getOrCreateDomainLocked_def Let_def split: option.splits)

section \<open>The tag relation\<close>

definition tag_index_ok :: "store \<Rightarrow> bool" where
  "tag_index_ok s \<longleftrightarrow> gm_wf (tags s) \<and> gm_wf (domainTags s) \<and> gm_wf (tagDomains s) \<and>
     (\<forall>i t. t \<in> set (tags_of s i) \<longleftrightarrow> i \<in> set (domains_of s t)) \<and>
     (\<forall>i. distinct (tags_of s i)) \<and> (\<forall>t. distinct (domains_of s t)) \<and>
     (\<forall>t. domains_of s t \<noteq> [] \<longrightarrow> gm_has (tags s) t) \<and>
     (\<forall>n t. gm_get (tags s) n = Some t \<longrightarrow> t_Name t = n)"

lemma tag_index_ok_frame [simp]:
  "tag_index_ok (s\<lparr>scoringCfg := x1\<rparr>) = tag_index_ok s" "tag_index_ok (s\<lparr>jobs := x2\<rparr>) = tag_index_ok s"
  "tag_index_ok (s\<lparr>publicIDs := x3\<rparr>) = tag_index_ok s" "tag_index_ok (s\<lparr>runs := x4\<rparr>) = tag_index_ok s"
  "tag_index_ok (s\<lparr>runPublicIDs := x5\<rparr>) = tag_index_ok s" "tag_index_ok (s\<lparr>entries := x6\<rparr>) = tag_index_ok s"
  "tag_index_ok (s\<lparr>dnssecChains := x7\<rparr>) = tag_index_ok s" "tag_index_ok (s\<lparr>entryCounter := x8\<rparr>) = tag_index_ok s"
  "tag_index_ok (s\<lparr>domains := x9\<rparr>) = tag_index_ok s" "tag_index_ok (s\<lparr>domainsByID := x10\<rparr>) = tag_index_ok s"
  "tag_index_ok (s\<lparr>domain_heap := x11\<rparr>) = tag_index_ok s" "tag_index_ok (s\<lparr>batches := x12\<rparr>) = tag_index_ok s"
  "tag_index_ok (s\<lparr>analysisCohorts := x13\<rparr>) = tag_index_ok s"
  "tag_index_ok (s\<lparr>analysisCohortCounter := x14\<rparr>) = tag_index_ok s"
  "tag_index_ok (s\<lparr>analysisSchedules := x15\<rparr>) = tag_index_ok s" "tag_index_ok (s\<lparr>profiles := x16\<rparr>) = tag_index_ok s"
  "tag_index_ok (s\<lparr>profileCounter := x17\<rparr>) = tag_index_ok s" "tag_index_ok (s\<lparr>settings := x18\<rparr>) = tag_index_ok s"
  "tag_index_ok (s\<lparr>domainCounter := x19\<rparr>) = tag_index_ok s" "tag_index_ok (assign a d s) = tag_index_ok s"
  by (simp_all add: tag_index_ok_def tags_of_def domains_of_def assign_def)

lemma tag_index_ok_new: "tag_index_ok NewInMemoryJobStore"
  by (simp add: tag_index_ok_def NewInMemoryJobStore_def tags_of_def domains_of_def gm_get_or_def)

text \<open>The relation the two indexes stand for.\<close>

definition tagged :: "store \<Rightarrow> string \<Rightarrow> int \<Rightarrow> bool" where
  "tagged s t i \<longleftrightarrow> t \<in> set (tags_of s i)"

lemma tag_one_fields:
  "tags_of (tag_one t i s) k = (if k = i \<and> t \<notin> set (tags_of s i) then tags_of s i @ [t] else tags_of s k)"
  "domains_of (tag_one t i s) u = (if u = t \<and> t \<notin> set (tags_of s i) then domains_of s t @ [i] else domains_of s u)"
  "tags (tag_one t i s) = tags s"
  by (auto simp: tag_one_def tags_of_def domains_of_def)

lemma tag_one_ok: "tag_index_ok s \<Longrightarrow> gm_has (tags s) t \<Longrightarrow> tag_index_ok (tag_one t i s)"
  unfolding tag_index_ok_def tag_one_fields by (auto simp: tag_one_def)

lemma fold_tag_one:
  assumes "tag_index_ok s" "gm_has (tags s) t"
  shows "tag_index_ok (fold (tag_one t) ids s) \<and> tags (fold (tag_one t) ids s) = tags s \<and>
    (\<forall>u i. tagged (fold (tag_one t) ids s) u i \<longleftrightarrow> tagged s u i \<or> (u = t \<and> i \<in> set ids))"
  using assms
proof (induction ids arbitrary: s)
  case (Cons i ids)
  have "tag_index_ok (tag_one t i s)" "gm_has (tags (tag_one t i s)) t"
    using Cons.prems by (auto simp: tag_one_ok tag_one_fields)
  from Cons.IH[OF this] show ?case
    by (auto simp: tag_one_fields tagged_def)
qed simp

lemma untag_one_fields:
  "tags_of (untag_one t i s) k = (if k = i then filter (\<lambda>u. u \<noteq> t) (tags_of s i) else tags_of s k)"
  "domains_of (untag_one t i s) u = domains_of s u" "tags (untag_one t i s) = tags s"
  "tagDomains (untag_one t i s) = tagDomains s"
  "gm_wf (domainTags s) \<Longrightarrow> gm_wf (domainTags (untag_one t i s))"
  by (auto simp: untag_one_def tags_of_def domains_of_def)

lemma fold_untag_one:
  "tags_of (fold (untag_one t) ids s) k = (if k \<in> set ids then filter (\<lambda>u. u \<noteq> t) (tags_of s k) else tags_of s k) \<and>
   tagDomains (fold (untag_one t) ids s) = tagDomains s \<and> tags (fold (untag_one t) ids s) = tags s \<and>
   (gm_wf (domainTags s) \<longrightarrow> gm_wf (domainTags (fold (untag_one t) ids s)))"
proof (induction ids arbitrary: s)
  case (Cons i ids)
  show ?case using Cons[of "untag_one t i s"] by (auto simp: untag_one_fields)
qed simp

lemma CreateTag_ok: "tag_index_ok s \<Longrightarrow> CreateTag now n d s = Inr s' \<Longrightarrow> tag_index_ok s'"
  by (auto simp: CreateTag_def tag_index_ok_def tags_of_def domains_of_def gm.get_put split: if_splits)

lemma tag_update_ok:
  "tag_index_ok s \<Longrightarrow> gm_get (tags s) n = Some t \<Longrightarrow> t_Name t' = t_Name t \<Longrightarrow>
     tag_index_ok (s\<lparr>tags := gm_set n t' (tags s)\<rparr>)"
  by (auto simp: tag_index_ok_def tags_of_def domains_of_def gm.get_put)

lemma UpdateTag_ok: "tag_index_ok s \<Longrightarrow> UpdateTag n d s = Inr s' \<Longrightarrow> tag_index_ok s'"
  by (auto simp: UpdateTag_def split: option.splits intro!: tag_update_ok)

lemma SetTagDefaultProfile_ok: "tag_index_ok s \<Longrightarrow> SetTagDefaultProfile n p s = Inr s' \<Longrightarrow> tag_index_ok s'"
  by (auto simp: SetTagDefaultProfile_def split: option.splits if_splits intro!: tag_update_ok)

lemma TagDomains_start:
  "tag_index_ok s \<Longrightarrow> tag_index_ok (if gm_has (tags s) t then s
     else s\<lparr>tags := gm_set t \<lparr>t_Name = t, t_Description = [], t_CreatedAt = now, t_DomainCount = 0,
                             t_DefaultProfileID = None\<rparr> (tags s)\<rparr>)"
  by (auto simp: tag_index_ok_def tags_of_def domains_of_def gm.get_put)

lemma TagDomains_effect:
  assumes "tag_index_ok s"
  shows "tag_index_ok (TagDomains now t ids s) \<and> gm_has (tags (TagDomains now t ids s)) t \<and>
    (\<forall>u i. tagged (TagDomains now t ids s) u i \<longleftrightarrow> tagged s u i \<or> (u = t \<and> i \<in> set ids))"
proof -
  let ?s = "if gm_has (tags s) t then s
     else s\<lparr>tags := gm_set t \<lparr>t_Name = t, t_Description = [], t_CreatedAt = now, t_DomainCount = 0,
                             t_DefaultProfileID = None\<rparr> (tags s)\<rparr>"
  have "gm_has (tags ?s) t" by simp
  moreover have "tagged ?s u i \<longleftrightarrow> tagged s u i" for u i by (simp add: tagged_def tags_of_def)
  ultimately show ?thesis
    using fold_tag_one[OF TagDomains_start[OF assms, of t now], of t ids] unfolding TagDomains_def by presburger
qed

lemma UntagDomains_effect:
  assumes "tag_index_ok s"
  shows "tag_index_ok (UntagDomains t ids s) \<and>
    (\<forall>u i. tagged (UntagDomains t ids s) u i \<longleftrightarrow> tagged s u i \<and> \<not> (u = t \<and> i \<in> set ids))"
proof -
  let ?s = "s\<lparr>tagDomains := gm_set t (filter (\<lambda>i. i \<notin> set ids) (domains_of s t)) (tagDomains s)\<rparr>"
  let ?r = "fold (untag_one t) ids ?s"
  have f: "tags_of ?r k = (if k \<in> set ids then filter (\<lambda>u. u \<noteq> t) (tags_of s k) else tags_of s k)" for k
    using fold_untag_one[of t ids ?s k] by (simp add: tags_of_def)
  have d: "domains_of ?r u = (if u = t then filter (\<lambda>i. i \<notin> set ids) (domains_of s t) else domains_of s u)" for u
    using fold_untag_one[of t ids ?s 0] by (simp add: domains_of_def)
  have w: "gm_wf (domainTags ?r)" "tags ?r = tags s" "gm_wf (tagDomains ?r)"
    using fold_untag_one[of t ids ?s 0] assms by (auto simp: tag_index_ok_def)
  have "tag_index_ok ?r" using assms unfolding tag_index_ok_def f d w(2) by (auto simp: w split: if_splits) (metis filter.simps(1))
  moreover have "tagged ?r u i \<longleftrightarrow> tagged s u i \<and> \<not> (u = t \<and> i \<in> set ids)" for u i
    unfolding tagged_def f by auto
  ultimately show ?thesis unfolding UntagDomains_def by blast
qed

lemma DeleteTag_effect:
  assumes "tag_index_ok s" "DeleteTag t s = Inr s'"
  shows "tag_index_ok s' \<and> \<not> gm_has (tags s') t \<and> (\<forall>u i. tagged s' u i \<longleftrightarrow> tagged s u i \<and> u \<noteq> t)"
proof -
  let ?ids = "domains_of s t"
  let ?r = "fold (untag_one t) ?ids s"
  have s': "s' = ?r\<lparr>tagDomains := gm_del t (tagDomains ?r), tags := gm_del t (tags ?r)\<rparr>"
    using assms(2) by (simp add: DeleteTag_def Let_def split: if_splits)
  have w: "tagDomains ?r = tagDomains s" "tags ?r = tags s" "gm_wf (domainTags ?r)"
    using fold_untag_one[of t ?ids s 0] assms by (auto simp: tag_index_ok_def)
  have f: "tags_of s' k = filter (\<lambda>u. u \<noteq> t) (tags_of s k)" for k
  proof (cases "k \<in> set ?ids")
    case True
    then show ?thesis using fold_untag_one[of t ?ids s k] by (simp add: s' tags_of_def)
  next
    case False
    then have "t \<notin> set (tags_of s k)" using assms(1) by (simp add: tag_index_ok_def)
    then have "filter (\<lambda>u. u \<noteq> t) (tags_of s k) = tags_of s k" by (auto simp: filter_id_conv)
    then show ?thesis using False fold_untag_one[of t ?ids s k] by (simp add: s' tags_of_def)
  qed
  have "tagDomains s' = gm_del t (tagDomains s)" by (simp add: s' w)
  then have d: "domains_of s' u = (if u = t then [] else domains_of s u)" for u
    by (simp add: domains_of_def)
  have "tag_index_ok s'" using assms(1) unfolding tag_index_ok_def f d
    by (auto simp: s' w gm_has_def gm.get_del split: if_splits)
  moreover have "\<not> gm_has (tags s') t" by (simp add: s' gm_has_def gm.get_del)
  moreover have "tagged s' u i \<longleftrightarrow> tagged s u i \<and> u \<noteq> t" for u i unfolding tagged_def f by auto
  ultimately show ?thesis by blast
qed

section \<open>Listings and summaries\<close>

lemma keyed_domain_less: "keyed_order (domain_less ds) d_Name"
  by (simp add: domain_less_def keyed_orders)

lemma registry_name_inj: "registry_ok s \<Longrightarrow> inj_on d_Name (deref s ` snd ` set (domains s))"
proof (rule inj_onI, clarsimp)
  fix n a n' a'
  assume ok: "registry_ok s" and in1: "(n, a) \<in> set (domains s)" and in2: "(n', a') \<in> set (domains s)"
    and eq: "d_Name (deref s a) = d_Name (deref s a')"
  have wf: "gm_wf (domains s)" using ok by (simp add: registry_ok_def)
  from registry_by_name[OF ok gm_in_get[OF wf in1]] registry_by_name[OF ok gm_in_get[OF wf in2]] eq
  have "n = n'" by simp
  then show "deref s a = deref s a'" using gm_in_get[OF wf in1] gm_in_get[OF wf in2] by simp
qed

lemma matching_domains_inj: "registry_ok s \<Longrightarrow> inj_on d_Name (set (matching_domains f s))"
proof -
  assume "registry_ok s"
  from registry_name_inj[OF this] have "inj_on (d_Name \<circ> with_tags s) (deref s ` snd ` set (domains s))"
    by (simp add: inj_on_def with_tags_def)
  then have "inj_on d_Name (with_tags s ` deref s ` snd ` set (domains s))" by (rule inj_on_imageI)
  moreover have "set (matching_domains f s) \<subseteq> with_tags s ` deref s ` snd ` set (domains s)"
    by (auto simp: matching_domains_def)
  ultimately show "inj_on d_Name (set (matching_domains f s))" by (rule inj_on_subset)
qed

lemma ListDomains_order:
  assumes "registry_ok s" "mset ds = mset (domains s)"
  shows "ListDomains f (s\<lparr>domains := ds\<rparr>) = ListDomains f s"
proof -
  let ?s = "s\<lparr>domains := ds\<rparr>"
  have fields: "with_tags ?s = with_tags s" "tags_of ?s = tags_of s" "deref ?s = deref s"
    by (auto simp: fun_eq_iff with_tags_def tags_of_def deref_def)
  have "mset (matching_domains f ?s) = mset (matching_domains f s)"
    unfolding matching_domains_def fields by (simp add: assms(2))
  then have "sortDomainSlice (df_Sort f) (matching_domains f s) = sortDomainSlice (df_Sort f) (matching_domains f ?s)"
    unfolding sortDomainSlice_def
    by (intro keyed_order.sort_by_unique[OF keyed_domain_less] matching_domains_inj assms(1)) simp
  then show ?thesis by (simp add: ListDomains_def)
qed

lemma count_level_total:
  "ts_OK (count_level d su) + ts_Notice (count_level d su) + ts_Warning (count_level d su) + ts_Error (count_level d su) +
     ts_Critical (count_level d su) = ts_OK su + ts_Notice su + ts_Warning su + ts_Error su + ts_Critical su + 1"
  by (simp add: count_level_def Let_def)

lemma count_grade_levels:
  "ts_OK (count_grade s d su) = ts_OK su" "ts_Notice (count_grade s d su) = ts_Notice su"
  "ts_Warning (count_grade s d su) = ts_Warning su" "ts_Error (count_grade s d su) = ts_Error su"
  "ts_Critical (count_grade s d su) = ts_Critical su" "ts_DomainCount (count_grade s d su) = ts_DomainCount su"
  by (simp_all add: count_grade_def split: option.splits)

lemma summarize_total:
  fixes s su0 ids
  defines "su \<equiv> fold (summarize_one s) ids su0"
  shows "ts_OK su + ts_Notice su + ts_Warning su + ts_Error su + ts_Critical su =
    ts_OK su0 + ts_Notice su0 + ts_Warning su0 + ts_Error su0 + ts_Critical su0 +
    int (length (filter (gm_has (domainsByID s)) ids))"
  unfolding su_def
proof (induction ids arbitrary: su0)
  case (Cons i ids)
  show ?case
  proof (cases "gm_get (domainsByID s) i")
    case None
    then show ?thesis using Cons by (simp add: summarize_one_def gm_has_def)
  next
    case (Some a)
    then show ?thesis
      using Cons[of "summarize_one s i su0"] count_level_total[of "deref s a" su0]
      by (simp add: summarize_one_def gm_has_def count_grade_levels)
  qed
qed simp

section \<open>Properties\<close>

text \<open>
  The two registries name the same domains. In a consistent store a domain is found by name exactly
  when the domain found under its id carries that name, so an update made through one registry is seen
  through the other.
\<close>

theorem registries_agree:
  assumes "registry_ok s"
  shows "GetDomainByName n s = Some d \<longleftrightarrow> d_Name d = n \<and> GetDomain (d_ID d) s = Some d"
proof
  assume "GetDomainByName n s = Some d"
  then obtain a where a: "gm_get (domains s) n = Some a" "d = with_tags s (deref s a)"
    by (auto simp: GetDomainByName_def split: option.splits)
  then show "d_Name d = n \<and> GetDomain (d_ID d) s = Some d"
    using registry_by_name[OF assms a(1)] by (simp add: GetDomain_def with_tags_def)
next
  assume "d_Name d = n \<and> GetDomain (d_ID d) s = Some d"
  then obtain i a where i: "gm_get (domainsByID s) i = Some a" "d = with_tags s (deref s a)" "d_Name d = n"
    by (auto simp: GetDomain_def split: option.splits)
  then show "GetDomainByName n s = Some d"
    using registry_by_id[OF assms i(1)] by (auto simp: GetDomainByName_def with_tags_def)
qed

definition two_domains :: store where
  "two_domains = snd (getOrCreateDomainLocked 5 ''nu'' (snd (getOrCreateDomainLocked 5 ''se'' NewInMemoryJobStore)))"

lemma two_domains_ok: "registry_ok two_domains"
  by (simp add: two_domains_def getOrCreate_ok registry_ok_new)

theorem registries_agree_witness:
  "GetDomainByName ''se'' two_domains = Some (new_domain 1 ''se'' 5)"
proof -
  have "GetDomain 1 two_domains = Some (new_domain 1 ''se'' 5)" by code_simp
  then show ?thesis using registries_agree[OF two_domains_ok, of "''se''" "new_domain 1 ''se'' 5"]
    by (simp add: new_domain_def)
qed

text \<open>
  C35. Tagging keeps one relation in two indexes. From a consistent store, tagging, untagging and
  deleting a tag change the relation between tags and domains exactly as their names say, for every tag and
  domain, and leave the two indexes consistent; deleting an unknown tag is refused.
\<close>

theorem tag_operations:
  assumes "tag_index_ok s"
  shows "(\<forall>u i. tagged (TagDomains now t ids s) u i \<longleftrightarrow> tagged s u i \<or> (u = t \<and> i \<in> set ids)) \<and>
    (\<forall>u i. tagged (UntagDomains t ids s) u i \<longleftrightarrow> tagged s u i \<and> \<not> (u = t \<and> i \<in> set ids)) \<and>
    tag_index_ok (TagDomains now t ids s) \<and> tag_index_ok (UntagDomains t ids s) \<and>
    (case DeleteTag t s of
       Inl e \<Rightarrow> e = TagNotFound \<and> \<not> gm_has (tags s) t
     | Inr s' \<Rightarrow> tag_index_ok s' \<and> \<not> gm_has (tags s') t \<and> (\<forall>u i. tagged s' u i \<longleftrightarrow> tagged s u i \<and> u \<noteq> t))"
proof -
  have "case DeleteTag t s of
       Inl e \<Rightarrow> e = TagNotFound \<and> \<not> gm_has (tags s) t
     | Inr s' \<Rightarrow> tag_index_ok s' \<and> \<not> gm_has (tags s') t \<and> (\<forall>u i. tagged s' u i \<longleftrightarrow> tagged s u i \<and> u \<noteq> t)"
  proof (cases "DeleteTag t s")
    case (Inl e)
    then show ?thesis by (auto simp: DeleteTag_def Let_def split: if_splits)
  next
    case (Inr s')
    then show ?thesis using DeleteTag_effect[OF assms Inr] by simp
  qed
  then show ?thesis using TagDomains_effect[OF assms] UntagDomains_effect[OF assms] by simp
qed

theorem tag_operations_witness:
  "tagged (TagDomains 1 ''tld'' [1, 2] NewInMemoryJobStore) ''tld'' 2"
  using tag_operations[OF tag_index_ok_new, of 1 "''tld''" "[1, 2]"] by simp

text \<open>
  A domain listing is the same for every iteration order of the registry: whichever order the map
  yields its entries in, the page, its total and its order are the same, under every sort order and
  filter.
\<close>

theorem list_domains_deterministic:
  assumes "registry_ok s" "mset ds = mset (domains s)"
  shows "ListDomains f (s\<lparr>domains := ds\<rparr>) = ListDomains f s"
  using assms by (rule ListDomains_order)

definition by_score :: domain_filter where
  "by_score = \<lparr>df_Tag = [], df_Name = [], df_LatestLevel = [], df_MinLevel = [], df_Limit = 10, df_Offset = 0,
     df_Sort = DomainSortScoreDesc\<rparr>"

theorem list_domains_deterministic_witness:
  "ListDomains by_score (two_domains\<lparr>domains := rev (domains two_domains)\<rparr>) = ListDomains by_score two_domains"
  by (rule list_domains_deterministic[OF two_domains_ok mset_rev])

text \<open>
  A tag summary counts every registered domain of the tag once: the five severity counters add up to
  the number of domains of the tag that the registry knows.
\<close>

theorem tag_summary_partition:
  assumes "GetTagSummary t s = Some su"
  shows "ts_OK su + ts_Notice su + ts_Warning su + ts_Error su + ts_Critical su =
      int (length (filter (gm_has (domainsByID s)) (domains_of s t)))"
proof -
  obtain ids where ids: "gm_get (tagDomains s) t = Some ids" "su = fold (summarize_one s) ids
       \<lparr>ts_Tag = t, ts_DomainCount = int (length ids), ts_OK = 0, ts_Notice = 0, ts_Warning = 0, ts_Error = 0,
        ts_Critical = 0, ts_Grades = []\<rparr>"
    using assms by (auto simp: GetTagSummary_def split: option.splits)
  then show ?thesis by (simp add: summarize_total domains_of_def gm_get_or_def)
qed

theorem tag_summary_partition_witness:
  "map_option ts_OK (GetTagSummary ''tld'' (TagDomains 6 ''tld'' [1, 7] two_domains)) = Some 1 \<and>
   length (filter (gm_has (domainsByID (TagDomains 6 ''tld'' [1, 7] two_domains)))
     (domains_of (TagDomains 6 ''tld'' [1, 7] two_domains) ''tld'')) = 1"
proof -
  have "map_option (\<lambda>su. [ts_OK su, ts_Notice su, ts_Warning su, ts_Error su, ts_Critical su])
      (GetTagSummary ''tld'' (TagDomains 6 ''tld'' [1, 7] two_domains)) = Some [1, 0, 0, 0, 0]" by code_simp
  then obtain su where su: "GetTagSummary ''tld'' (TagDomains 6 ''tld'' [1, 7] two_domains) = Some su"
    "ts_OK su = 1" "ts_Notice su = 0" "ts_Warning su = 0" "ts_Error su = 0" "ts_Critical su = 0" by auto
  from tag_summary_partition[OF su(1)] show ?thesis by (simp add: su)
qed

end
