(* ===== verification/StoreRuns.thy ===== *)
theory StoreRuns
  imports StoreDomains
begin

text \<open>
  In-flight jobs, graduation to runs, and the queries over runs and log entries of
  \<open>InMemoryJobStore\<close> (\<open>server/store.go\<close>). The lemmas show what graduation moves where, that a graduated job is still
  found under its ids, that severity counters and the worst level agree with the entries, and that the sorted
  and filtered listings do not depend on map iteration order and enumerate every match once.
\<close>

section \<open>Jobs\<close>

definition jobFromRun :: "run \<Rightarrow> job" where
  "jobFromRun r = zero_job\<lparr>
     j_ID := r_ID r, j_PublicID := r_PublicID r, j_BatchID := r_BatchID r, j_DomainID := r_DomainID r,
     j_Domain := r_Domain r, j_Status := r_Status r, j_FinishedAt := r_FinishedAt r,
     j_SeverityTotals := [(''NOTICE'', r_SevNotice r), (''WARNING'', r_SevWarning r), (''ERROR'', r_SevError r),
                          (''CRITICAL'', r_SevCritical r)],
     j_CreatedAt := r_CreatedAt r, j_StartedAt := r_StartedAt r, j_Progress := 100, j_Priority := r_Priority r,
     j_Profile := r_Profile r, j_ProfileID := r_ProfileID r, j_ProfileName := r_ProfileName r,
     j_EffectiveProfile := r_EffectiveProfile r, j_Score := r_Score r, j_Grade := r_Grade r,
     j_NameserverTimings := r_NameserverTimings r, j_Error := r_Error r, j_ClientIP := r_ClientIP r,
     j_ClientUserAgent := r_ClientUserAgent r, j_ClientVia := r_ClientVia r\<rparr>"

text \<open>\<open>fresh\<close> is the value \<open>GeneratePublicID\<close> returns.\<close>

definition Create :: "string \<Rightarrow> job \<Rightarrow> store \<Rightarrow> store_error + job \<times> store" where
  "Create fresh j0 s =
     (if gm_has (jobs s) (j_ID j0) then Inl JobExists
      else let j = (if j_PublicID j0 = [] then j0\<lparr>j_PublicID := fresh\<rparr> else j0) in
        Inr (j, s\<lparr>jobs := gm_set (j_ID j) j (jobs s), publicIDs := gm_set (j_PublicID j) (j_ID j) (publicIDs s)\<rparr>))"

definition Get :: "string \<Rightarrow> store \<Rightarrow> job option" where
  "Get i s = (case gm_get (jobs s) i of
     Some j \<Rightarrow> Some j
   | None \<Rightarrow> map_option jobFromRun (gm_get (runs s) i))"

definition GetByPublicID :: "string \<Rightarrow> store \<Rightarrow> job option" where
  "GetByPublicID p s =
     (case Option.bind (gm_get (publicIDs s) p) (gm_get (jobs s)) of
        Some j \<Rightarrow> Some j
      | None \<Rightarrow> map_option jobFromRun (Option.bind (gm_get (runPublicIDs s) p) (gm_get (runs s))))"

definition Update :: "job \<Rightarrow> store \<Rightarrow> store_error + store" where
  "Update j s = (if \<not> gm_has (jobs s) (j_ID j) then Inl JobNotFound
     else Inr (s\<lparr>jobs := gm_set (j_ID j) j (jobs s)\<rparr>))"

subsection \<open>Listing jobs\<close>

definition isValidJobSort :: "string \<Rightarrow> bool" where
  "isValidJobSort v \<longleftrightarrow> v \<in> {JobSortCreatedAtDesc, JobSortCreatedAtAsc, JobSortStartedAtDesc, JobSortStartedAtAsc,
     JobSortDomainAsc, JobSortDomainDesc, JobSortBatchIDAsc, JobSortBatchIDDesc, JobSortErrorDesc, JobSortCriticalDesc}"

definition normalizeJobSort :: "string \<Rightarrow> string" where
  "normalizeJobSort v =
     (if v \<in> {JobSortCreatedAtDesc, JobSortCreatedAtAsc, JobSortStartedAtDesc, JobSortStartedAtAsc,
        JobSortDomainAsc, JobSortDomainDesc, JobSortBatchIDAsc, JobSortBatchIDDesc, JobSortErrorDesc, JobSortCriticalDesc}
      then v else JobSortStartedAtDesc)"

definition isValidJobSeverityFilter :: "string \<Rightarrow> bool" where
  "isValidJobSeverityFilter v \<longleftrightarrow> v \<in> {JobSeverityWarningsPlus, JobSeverityErrorsOnly}"

definition jobErrorCount :: "job \<Rightarrow> int" where
  "jobErrorCount j = gm_get_or 0 (j_SeverityTotals j) ''ERROR'' + gm_get_or 0 (j_SeverityTotals j) ''CRITICAL''"

definition effectiveStartTime :: "job \<Rightarrow> gotime" where
  "effectiveStartTime j = (if \<not> is_zero_time (j_StartedAt j) then j_StartedAt j else j_CreatedAt j)"

definition job_tail :: "job \<Rightarrow> job \<Rightarrow> bool" where
  "job_tail = cmp_desc j_CreatedAt (cmp_key j_ID)"

definition job_less :: "string \<Rightarrow> job \<Rightarrow> job \<Rightarrow> bool" where
  "job_less so =
     (let critical = (\<lambda>j. gm_get_or 0 (j_SeverityTotals j) ''CRITICAL'') in
      if so = JobSortCreatedAtAsc then cmp_asc j_CreatedAt job_tail
      else if so = JobSortCreatedAtDesc then cmp_desc j_CreatedAt job_tail
      else if so = JobSortStartedAtDesc then cmp_desc effectiveStartTime job_tail
      else if so = JobSortStartedAtAsc then cmp_asc effectiveStartTime job_tail
      else if so = JobSortDomainAsc then cmp_asc (to_lower \<circ> j_Domain) job_tail
      else if so = JobSortDomainDesc then cmp_desc (to_lower \<circ> j_Domain) job_tail
      else if so = JobSortBatchIDAsc then cmp_asc (to_lower \<circ> j_BatchID) job_tail
      else if so = JobSortBatchIDDesc then cmp_desc (to_lower \<circ> j_BatchID) job_tail
      else if so = JobSortErrorDesc then cmp_desc jobErrorCount (cmp_desc critical job_tail)
      else if so = JobSortCriticalDesc then cmp_desc critical (cmp_desc jobErrorCount job_tail)
      else job_tail)"

definition sortJobSlice :: "string \<Rightarrow> job list \<Rightarrow> job list" where
  "sortJobSlice so items = sort_by (job_less (normalizeJobSort so)) items"

definition job_matches :: "job_filter \<Rightarrow> job \<Rightarrow> bool" where
  "job_matches f j \<longleftrightarrow>
     (jf_Status f = [] \<or> j_Status j = jf_Status f) \<and>
     (jf_BatchID f = [] \<or> j_BatchID j = jf_BatchID f) \<and>
     (jf_Domain f = [] \<or> contains (to_lower (j_Domain j)) (to_lower (jf_Domain f))) \<and>
     (jf_ClientIP f = [] \<or> j_ClientIP j = jf_ClientIP f) \<and>
     (is_zero_time (jf_CreatedAfter f) \<or> jf_CreatedAfter f \<le> j_CreatedAt j) \<and>
     (is_zero_time (jf_CreatedBefore f) \<or> j_CreatedAt j \<le> jf_CreatedBefore f)"

definition matching_jobs :: "job_filter \<Rightarrow> store \<Rightarrow> job list" where
  "matching_jobs f s = sortJobSlice (jf_Sort f) (filter (job_matches f) (map snd (jobs s)))"

definition ListJobs :: "job_filter \<Rightarrow> store \<Rightarrow> job_list" where
  "ListJobs f s = paged.extend (paginate True (jf_Limit f) (jf_Offset f) (matching_jobs f s))
     \<lparr>Sort = normalizeJobSort (jf_Sort f)\<rparr>"

section \<open>Graduation\<close>

text \<open>\<open>Level\<close> is compared trimmed and in upper case.\<close>

definition level_count :: "string \<Rightarrow> log_entry list \<Rightarrow> int" where
  "level_count l es = int (length (filter (\<lambda>e. to_upper (trim_space (le_Level e)) = l) es))"

definition scoring_entries :: "log_entry list \<Rightarrow> scoring_entry list" where
  "scoring_entries es = map (\<lambda>e. \<lparr>e_module = le_Module e, e_tag = le_Tag e, e_level = le_Level e\<rparr>) es"

definition durationMs :: "job \<Rightarrow> int" where
  "durationMs j = (if \<not> is_zero_time (j_StartedAt j) \<and> \<not> is_zero_time (j_FinishedAt j)
     then trunc_div (time_sub (j_FinishedAt j) (j_StartedAt j)) 1000000 else 0)"

text \<open>The outer option is the panic of \<open>scoring.Compute\<close>; the inner pair is the score and the grade.\<close>

definition graduation_score :: "job \<Rightarrow> log_entry list \<Rightarrow> scoring_config \<Rightarrow> (int \<times> string) option option" where
  "graduation_score j es cfg =
     (if j_Status j = JobSucceeded
      then map_option (\<lambda>r. Some (Score r, Grade r)) (Compute (j_Domain j) (scoring_entries es) cfg)
      else Some None)"

definition graduated_run :: "job \<Rightarrow> log_entry list \<Rightarrow> int \<Rightarrow> (int \<times> string) option \<Rightarrow> run" where
  "graduated_run j es domainID sc = (let
      notice = level_count ''NOTICE'' es; warning = level_count ''WARNING'' es;
      err = level_count ''ERROR'' es; critical = level_count ''CRITICAL'' es
    in \<lparr>r_ID = j_ID j, r_DomainID = domainID, r_Domain = j_Domain j, r_BatchID = j_BatchID j,
        r_Status = j_Status j, r_CreatedAt = j_CreatedAt j, r_StartedAt = j_StartedAt j,
        r_FinishedAt = j_FinishedAt j, r_DurationMs = durationMs j, r_SevNotice = notice,
        r_SevWarning = warning, r_SevError = err, r_SevCritical = critical,
        r_WorstLevel = computeWorstLevel notice warning err critical, r_EntryCount = int (length es),
        r_Priority = j_Priority j, r_Profile = j_Profile j, r_ProfileID = j_ProfileID j,
        r_ProfileName = j_ProfileName j, r_EffectiveProfile = j_EffectiveProfile j, r_PublicID = j_PublicID j,
        r_SeverityTotals = [(''NOTICE'', notice), (''WARNING'', warning), (''ERROR'', err), (''CRITICAL'', critical)],
        r_Score = map_option fst sc, r_Grade = map_option snd sc, r_NameserverTimings = j_NameserverTimings j,
        r_Error = j_Error j, r_ClientIP = j_ClientIP j, r_ClientUserAgent = j_ClientUserAgent j,
        r_ClientVia = j_ClientVia j\<rparr>)"

fun store_entries :: "int \<Rightarrow> string \<Rightarrow> int \<Rightarrow> log_entry list \<Rightarrow> entry list" where
  "store_entries c runID domainID [] = []"
| "store_entries c runID domainID (e # es) =
     \<lparr>en_ID = c + 1, en_RunID = runID, en_DomainID = domainID, en_Domain = [], en_Timestamp = le_Timestamp e,
      en_Module = le_Module e, en_Testcase = le_Testcase e, en_Tag = le_Tag e, en_Level = le_Level e,
      en_Args = le_Args e\<rparr> # store_entries (c + 1) runID domainID es"

definition latest_of :: "run \<Rightarrow> domain \<Rightarrow> domain" where
  "latest_of r d = d\<lparr>d_LatestRunID := r_ID r, d_LatestRunAt := r_FinishedAt r, d_LatestStatus := r_Status r,
     d_LatestLevel := r_WorstLevel r, d_LatestScore := r_Score r, d_LatestGrade := r_Grade r\<rparr>"

definition GraduateJob :: "gotime \<Rightarrow> job \<Rightarrow> log_entry list \<Rightarrow> store \<Rightarrow> store_error + store" where
  "GraduateJob now j es s =
     (if \<not> gm_has (jobs s) (j_ID j) then Inl JobNotFound
      else case getOrCreateDomainLocked now (j_Domain j) s of (a, s1) \<Rightarrow>
        (case graduation_score j es (scoringCfg s1) of
           None \<Rightarrow> Inl StorePanic
         | Some sc \<Rightarrow> (let
             d = deref s1 a;
             r = graduated_run j es (d_ID d) sc;
             stored = store_entries (entryCounter s1) (r_ID r) (d_ID d) es;
             s2 = assign a ((latest_of r d)\<lparr>d_RunCount := d_RunCount d + 1\<rparr>) s1
           in Inr (s2\<lparr>
             entryCounter := entryCounter s1 + int (length es),
             runs := gm_set (r_ID r) r (runs s2),
             runPublicIDs := (if r_PublicID r \<noteq> [] then gm_set (r_PublicID r) (r_ID r) (runPublicIDs s2)
                              else runPublicIDs s2),
             entries := gm_set (r_ID r) stored (entries s2),
             dnssecChains := (if j_DNSSECChainJSON j \<noteq> [] then gm_set (r_ID r) (j_DNSSECChainJSON j) (dnssecChains s2)
                              else dnssecChains s2),
             publicIDs := gm_del (j_PublicID j) (publicIDs s2),
             jobs := gm_del (j_ID j) (jobs s2)\<rparr>))))"

section \<open>Results\<close>

definition GetRunDNSSECChain :: "string \<Rightarrow> store \<Rightarrow> string option" where
  "GetRunDNSSECChain runID s = gm_get (dnssecChains s) runID"

definition scoreSucceededRun :: "run \<Rightarrow> entry list \<Rightarrow> scoring_config \<Rightarrow> scoring_result option option" where
  "scoreSucceededRun r es cfg =
     (if r_Status r \<noteq> JobSucceeded then Some None
      else map_option Some (Compute (r_Domain r)
             (map (\<lambda>e. \<lparr>e_module = en_Module e, e_tag = en_Tag e, e_level = en_Level e\<rparr>) es) cfg))"

definition buildJobResult :: "run \<Rightarrow> entry list \<Rightarrow> scoring_result option \<Rightarrow> job_result" where
  "buildJobResult r es sc = \<lparr>jr_JobID = r_ID r, jr_BatchID = r_BatchID r, jr_Status = r_Status r,
     jr_SummaryTotal = r_EntryCount r,
     jr_SummaryLevels = [(''NOTICE'', r_SevNotice r), (''WARNING'', r_SevWarning r), (''ERROR'', r_SevError r),
                         (''CRITICAL'', r_SevCritical r)],
     jr_NameserverTimings = r_NameserverTimings r,
     jr_Raw = (if es \<noteq> [] then Some (map (\<lambda>e. \<lparr>jre_Timestamp = en_Timestamp e, jre_Module = en_Module e,
        jre_Testcase = en_Testcase e, jre_Tag = en_Tag e, jre_Level = en_Level e, jre_Args = en_Args e\<rparr>) es) else None),
     jr_Score = sc, jr_HasDNSSECChain = False\<rparr>"

text \<open>\<open>None\<close> is no such run; an \<open>Inl\<close> is the panic of the scoring.\<close>

definition GetResult :: "string \<Rightarrow> store \<Rightarrow> (store_error + job_result) option" where
  "GetResult jobID s = (case gm_get (runs s) jobID of
     None \<Rightarrow> None
   | Some r \<Rightarrow> (let es = gm_get_or [] (entries s) jobID in
       Some (case scoreSucceededRun r es (scoringCfg s) of
          None \<Rightarrow> Inl StorePanic
        | Some sc \<Rightarrow> Inr ((buildJobResult r es sc)\<lparr>jr_HasDNSSECChain := gm_has (dnssecChains s) jobID\<rparr>))))"

section \<open>Runs\<close>

definition GetRun :: "string \<Rightarrow> store \<Rightarrow> run option" where
  "GetRun i s = gm_get (runs s) i"

definition GetRunByPublicID :: "string \<Rightarrow> store \<Rightarrow> run option" where
  "GetRunByPublicID p s = Option.bind (gm_get (runPublicIDs s) p) (gm_get (runs s))"

definition runStartTime :: "run \<Rightarrow> gotime" where
  "runStartTime r = (if \<not> is_zero_time (r_StartedAt r) then r_StartedAt r else r_CreatedAt r)"

definition matchDomain :: "string \<Rightarrow> string \<Rightarrow> bool \<Rightarrow> bool" where
  "matchDomain domain want exact =
     (if exact then to_lower domain = to_lower want else contains (to_lower domain) (to_lower want))"

definition runMatchesSeverity :: "string \<Rightarrow> run \<Rightarrow> bool" where
  "runMatchesSeverity sev r =
     (if sev = JobSeverityWarningsPlus then 0 < r_SevWarning r \<or> 0 < r_SevError r \<or> 0 < r_SevCritical r
      else if sev = JobSeverityErrorsOnly then 0 < r_SevError r \<or> 0 < r_SevCritical r
      else True)"

definition run_tail :: "run \<Rightarrow> run \<Rightarrow> bool" where
  "run_tail = cmp_desc r_FinishedAt (cmp_key r_ID)"

definition run_less :: "string \<Rightarrow> run \<Rightarrow> run \<Rightarrow> bool" where
  "run_less so =
     (if so = JobSortCreatedAtAsc then cmp_asc r_CreatedAt run_tail
      else if so = JobSortCreatedAtDesc then cmp_desc r_CreatedAt run_tail
      else if so = JobSortStartedAtDesc then cmp_desc runStartTime run_tail
      else if so = JobSortStartedAtAsc then cmp_asc runStartTime run_tail
      else if so = JobSortDomainAsc then cmp_asc r_Domain run_tail
      else if so = JobSortDomainDesc then cmp_desc r_Domain run_tail
      else if so = JobSortBatchIDAsc then cmp_asc r_BatchID run_tail
      else if so = JobSortBatchIDDesc then cmp_desc r_BatchID run_tail
      else if so = JobSortErrorDesc then cmp_desc (\<lambda>r. r_SevError r + r_SevCritical r) run_tail
      else if so = JobSortCriticalDesc then cmp_desc r_SevCritical run_tail
      else if so = JobSortFinishedAtDesc then cmp_desc r_FinishedAt run_tail
      else if so = JobSortFinishedAtAsc then cmp_asc r_FinishedAt run_tail
      else if so = JobSortWorstLevelDesc then cmp_desc (severityRank \<circ> r_WorstLevel) run_tail
      else if so = JobSortWorstLevelAsc then cmp_asc (severityRank \<circ> r_WorstLevel) run_tail
      else if so = JobSortScoreDesc then cmp_desc (\<lambda>r. derefIntOr (r_Score r) (-1)) run_tail
      else if so = JobSortScoreAsc then cmp_asc (\<lambda>r. derefIntOr (r_Score r) 9999) run_tail
      else if so = JobSortDurationDesc then cmp_desc r_DurationMs run_tail
      else if so = JobSortDurationAsc then cmp_asc r_DurationMs run_tail
      else if so = JobSortEntryCountDesc then cmp_desc r_EntryCount run_tail
      else if so = JobSortEntryCountAsc then cmp_asc r_EntryCount run_tail
      else run_tail)"

text \<open>\<open>in_tag\<close> and \<open>with_entry\<close> are the two id sets the operation builds before it filters.\<close>

definition run_matches :: "run_filter \<Rightarrow> (int \<Rightarrow> bool) \<Rightarrow> (string \<Rightarrow> bool) \<Rightarrow> run \<Rightarrow> bool" where
  "run_matches f in_tag with_entry r \<longleftrightarrow>
     (rf_DomainID f = 0 \<or> r_DomainID r = rf_DomainID f) \<and>
     (rf_Tag f = [] \<or> in_tag (r_DomainID r)) \<and>
     (rf_EntryTag f = [] \<or> with_entry (r_ID r)) \<and>
     (rf_Domain f = [] \<or> matchDomain (r_Domain r) (rf_Domain f) (rf_DomainExact f)) \<and>
     (rf_BatchID f = [] \<or> r_BatchID r = rf_BatchID f) \<and>
     (rf_ClientIP f = [] \<or> r_ClientIP r = rf_ClientIP f) \<and>
     (rf_Status f = [] \<or> r_Status r = rf_Status f) \<and>
     (rf_WorstLevel f = [] \<or> r_WorstLevel r = rf_WorstLevel f) \<and>
     runMatchesSeverity (rf_Severity f) r \<and>
     (rf_Grade f = [] \<or> r_Grade r = Some (rf_Grade f)) \<and>
     (is_zero_time (rf_FinishedAfter f) \<or> rf_FinishedAfter f \<le> r_FinishedAt r) \<and>
     (is_zero_time (rf_FinishedBefore f) \<or> r_FinishedAt r \<le> rf_FinishedBefore f)"

definition entry_tag_runs :: "string \<Rightarrow> store \<Rightarrow> string list" where
  "entry_tag_runs t s = [i. (i, es) \<leftarrow> entries s, \<exists>e \<in> set es. en_Tag e = t]"

definition matching_runs :: "run_filter \<Rightarrow> store \<Rightarrow> run list" where
  "matching_runs f s = sort_by (run_less (rf_Sort f))
     (filter (run_matches f (\<lambda>i. i \<in> set (domains_of s (rf_Tag f))) (\<lambda>i. i \<in> set (entry_tag_runs (rf_EntryTag f) s)))
        (map snd (runs s)))"

definition ListRuns :: "run_filter \<Rightarrow> store \<Rightarrow> run paged" where
  "ListRuns f s = paginate True (rf_Limit f) (rf_Offset f) (matching_runs f s)"

definition ListRunsByDomain :: "int \<Rightarrow> int \<Rightarrow> int \<Rightarrow> store \<Rightarrow> run paged" where
  "ListRunsByDomain domainID limit offset s =
     ListRuns (zero_run_filter\<lparr>rf_DomainID := domainID, rf_Limit := limit, rf_Offset := offset\<rparr>) s"

section \<open>Entries\<close>

definition latest_run_ids :: "store \<Rightarrow> string list" where
  "latest_run_ids s = [d_LatestRunID d. d \<leftarrow> map (deref s \<circ> snd) (domainsByID s), d_LatestRunID d \<noteq> []]"

definition batch_run_ids :: "string \<Rightarrow> store \<Rightarrow> string list" where
  "batch_run_ids b s = [r_ID r. r \<leftarrow> map snd (runs s), r_BatchID r = b]"

definition run_selected :: "entry_filter \<Rightarrow> store \<Rightarrow> string \<Rightarrow> bool" where
  "run_selected f s runID \<longleftrightarrow>
     (ef_RunID f = [] \<or> runID = ef_RunID f) \<and>
     (\<not> ef_LatestOnly f \<or> runID \<in> set (latest_run_ids s)) \<and>
     (ef_BatchID f = [] \<or> runID \<in> set (batch_run_ids (ef_BatchID f) s))"

definition entry_matches :: "entry_filter \<Rightarrow> store \<Rightarrow> entry \<Rightarrow> bool" where
  "entry_matches f s e \<longleftrightarrow>
     (ef_DomainID f = 0 \<or> en_DomainID e = ef_DomainID f) \<and>
     (ef_Tag f = [] \<or> en_DomainID e \<in> set (domains_of s (ef_Tag f))) \<and>
     (ef_Module f = [] \<or> equal_fold (en_Module e) (ef_Module f)) \<and>
     (ef_Testcase f = [] \<or> equal_fold (en_Testcase e) (ef_Testcase f)) \<and>
     (ef_EntryTag f = [] \<or> en_Tag e = ef_EntryTag f) \<and>
     (ef_Level f = [] \<or> en_Level e = ef_Level f)"

definition matching_entries :: "entry_filter \<Rightarrow> store \<Rightarrow> entry list" where
  "matching_entries f s = sort_by (cmp_asc en_RunID (cmp_key en_ID))
     (concat [filter (entry_matches f s) es. (i, es) \<leftarrow> entries s, run_selected f s i])"

definition QueryEntries :: "entry_filter \<Rightarrow> store \<Rightarrow> entry paged" where
  "QueryEntries f s = paginate True (ef_Limit f) (ef_Offset f) (matching_entries f s)"

section \<open>Stored entries and severity counters\<close>

lemma length_store_entries [simp]: "length (store_entries c i d es) = length es"
  by (induction es arbitrary: c) auto

lemma store_entries_mem:
  assumes "e \<in> set (store_entries c i d es)"
  shows "en_RunID e = i" "en_DomainID e = d" "c < en_ID e" "en_ID e \<le> c + int (length es)"
  using assms by (induction es arbitrary: c) force+

lemma store_entries_distinct: "distinct (map en_ID (store_entries c i d es))"
proof (induction es arbitrary: c)
  case (Cons e es)
  then show ?case using store_entries_mem(3)[of _ "c + 1" i d es] by fastforce
qed simp

definition entry_level_count :: "string \<Rightarrow> entry list \<Rightarrow> int" where
  "entry_level_count l es = int (length (filter (\<lambda>e. to_upper (trim_space (en_Level e)) = l) es))"

lemma entry_level_count_store [simp]: "entry_level_count l (store_entries c i d es) = level_count l es"
  unfolding entry_level_count_def level_count_def by (induction es arbitrary: c) auto

text \<open>What the counters of a run say of its entries.\<close>

definition counters_agree :: "run \<Rightarrow> entry list \<Rightarrow> bool" where
  "counters_agree r es \<longleftrightarrow> r_EntryCount r = int (length es) \<and>
     r_SevNotice r = entry_level_count ''NOTICE'' es \<and> r_SevWarning r = entry_level_count ''WARNING'' es \<and>
     r_SevError r = entry_level_count ''ERROR'' es \<and> r_SevCritical r = entry_level_count ''CRITICAL'' es \<and>
     r_WorstLevel r = computeWorstLevel (r_SevNotice r) (r_SevWarning r) (r_SevError r) (r_SevCritical r)"

lemma graduated_counters: "counters_agree (graduated_run j es d sc) (store_entries c i d es)"
  by (simp add: counters_agree_def graduated_run_def Let_def)

lemma graduated_fields [simp]:
  "r_ID (graduated_run j es d sc) = j_ID j" "r_DomainID (graduated_run j es d sc) = d"
  "r_Domain (graduated_run j es d sc) = j_Domain j" "r_BatchID (graduated_run j es d sc) = j_BatchID j"
  "r_Status (graduated_run j es d sc) = j_Status j" "r_PublicID (graduated_run j es d sc) = j_PublicID j"
  "r_FinishedAt (graduated_run j es d sc) = j_FinishedAt j" "r_ProfileID (graduated_run j es d sc) = j_ProfileID j"
  "r_Score (graduated_run j es d sc) = map_option fst sc" "r_Grade (graduated_run j es d sc) = map_option snd sc"
  by (simp_all add: graduated_run_def Let_def)

text \<open>The worst level has the rank of the most severe entry.\<close>

lemma worst_level_rank:
  assumes "counters_agree r es"
  shows "severityRank (r_WorstLevel r) = Max (insert 0 ((\<lambda>e. severityRank (trim_space (en_Level e))) ` set es))"
proof -
  let ?f = "\<lambda>e. severityRank (trim_space (en_Level e))"
  have pos: "0 < entry_level_count l es \<longleftrightarrow> (\<exists>e \<in> set es. to_upper (trim_space (en_Level e)) = l)" for l
    by (auto simp: entry_level_count_def filter_empty_conv)
  have up: "to_upper ''CRITICAL'' = ''CRITICAL''" "to_upper ''ERROR'' = ''ERROR''"
    "to_upper ''WARNING'' = ''WARNING''" "to_upper ''NOTICE'' = ''NOTICE''" "to_upper [] = []" by code_simp+
  have rank: "severityRank ''CRITICAL'' = 4" "severityRank ''ERROR'' = 3" "severityRank ''WARNING'' = 2"
    "severityRank ''NOTICE'' = 1" "severityRank [] = 0" by (simp_all add: severityRank_def Let_def up)
  have w: "r_WorstLevel r = computeWorstLevel (entry_level_count ''NOTICE'' es) (entry_level_count ''WARNING'' es)
      (entry_level_count ''ERROR'' es) (entry_level_count ''CRITICAL'' es)"
    using assms by (simp add: counters_agree_def)
  show ?thesis
  proof (rule Max_eqI[symmetric])
    show "y \<le> severityRank (r_WorstLevel r)" if "y \<in> insert 0 (?f ` set es)" for y
      using that unfolding w computeWorstLevel_def pos
      by (auto simp: rank) (auto simp: severityRank_def Let_def)
    show "severityRank (r_WorstLevel r) \<in> insert 0 (?f ` set es)"
    proof -
      have mem: "severityRank l \<in> insert 0 (?f ` set es)"
        if hit: "\<exists>e \<in> set es. to_upper (trim_space (en_Level e)) = l" and l: "to_upper l = l" for l
      proof -
        obtain e where "e \<in> set es" "to_upper (trim_space (en_Level e)) = l" using hit by blast
        then have "severityRank l = ?f e" "e \<in> set es" using l by (simp_all add: severityRank_def)
        then show ?thesis by blast
      qed
      have zero: "severityRank [] \<in> insert 0 (?f ` set es)" by (simp add: rank)
      show ?thesis unfolding w computeWorstLevel_def pos
        using mem[OF _ up(1)] mem[OF _ up(2)] mem[OF _ up(3)] mem[OF _ up(4)] zero by presburger
    qed
  qed simp
qed

section \<open>The invariant of jobs, runs and entries\<close>

definition runs_ok :: "store \<Rightarrow> bool" where
  "runs_ok s \<longleftrightarrow> gm_wf (jobs s) \<and> gm_wf (publicIDs s) \<and> gm_wf (runs s) \<and> gm_wf (runPublicIDs s) \<and>
     gm_wf (entries s) \<and> gm_wf (dnssecChains s) \<and>
     (\<forall>i j. gm_get (jobs s) i = Some j \<longrightarrow> j_ID j = i) \<and>
     (\<forall>i r. gm_get (runs s) i = Some r \<longrightarrow>
        r_ID r = i \<and> gm_get (domains s) (r_Domain r) = Some (r_DomainID r) \<and>
        (\<exists>es. gm_get (entries s) i = Some es \<and> counters_agree r es \<and> (\<forall>e \<in> set es. en_DomainID e = r_DomainID r))) \<and>
     (\<forall>i es. gm_get (entries s) i = Some es \<longrightarrow> gm_has (runs s) i \<and> distinct (map en_ID es) \<and>
        (\<forall>e \<in> set es. en_RunID e = i \<and> en_ID e \<le> entryCounter s)) \<and>
     (\<forall>i i' es es' e e'. gm_get (entries s) i = Some es \<longrightarrow> gm_get (entries s) i' = Some es' \<longrightarrow>
        e \<in> set es \<longrightarrow> e' \<in> set es' \<longrightarrow> en_ID e = en_ID e' \<longrightarrow> i = i') \<and>
     (\<forall>i. gm_has (dnssecChains s) i \<longrightarrow> gm_has (runs s) i)"

lemma runs_ok_frame [simp]:
  "runs_ok (s\<lparr>scoringCfg := x1\<rparr>) = runs_ok s" "runs_ok (s\<lparr>domainsByID := x2\<rparr>) = runs_ok s"
  "runs_ok (s\<lparr>domain_heap := x3\<rparr>) = runs_ok s" "runs_ok (s\<lparr>domainCounter := x4\<rparr>) = runs_ok s"
  "runs_ok (s\<lparr>tags := x5\<rparr>) = runs_ok s" "runs_ok (s\<lparr>domainTags := x6\<rparr>) = runs_ok s"
  "runs_ok (s\<lparr>tagDomains := x7\<rparr>) = runs_ok s" "runs_ok (s\<lparr>batches := x8\<rparr>) = runs_ok s"
  "runs_ok (s\<lparr>analysisCohorts := x9\<rparr>) = runs_ok s" "runs_ok (s\<lparr>analysisCohortCounter := x10\<rparr>) = runs_ok s"
  "runs_ok (s\<lparr>analysisSchedules := x11\<rparr>) = runs_ok s" "runs_ok (s\<lparr>profiles := x12\<rparr>) = runs_ok s"
  "runs_ok (s\<lparr>profileCounter := x13\<rparr>) = runs_ok s" "runs_ok (s\<lparr>settings := x14\<rparr>) = runs_ok s"
  "runs_ok (assign a d s) = runs_ok s"
  by (simp_all add: runs_ok_def assign_def)

lemma runs_ok_new: "runs_ok NewInMemoryJobStore"
  by (simp add: runs_ok_def NewInMemoryJobStore_def gm_has_def)

lemma runs_okD:
  assumes "runs_ok s"
  shows "gm_wf (jobs s)" "gm_wf (runs s)" "gm_wf (entries s)" "gm_wf (publicIDs s)" "gm_wf (runPublicIDs s)"
    "gm_wf (dnssecChains s)"
    "gm_get (jobs s) i = Some j \<Longrightarrow> j_ID j = i"
    "gm_get (runs s) i = Some r \<Longrightarrow> r_ID r = i"
    "gm_get (runs s) i = Some r \<Longrightarrow> gm_get (domains s) (r_Domain r) = Some (r_DomainID r)"
    "gm_get (runs s) i = Some r \<Longrightarrow> \<exists>es. gm_get (entries s) i = Some es \<and> counters_agree r es"
    "gm_get (entries s) i = Some es \<Longrightarrow> gm_has (runs s) i"
    "gm_get (entries s) i = Some es \<Longrightarrow> e \<in> set es \<Longrightarrow> en_RunID e = i \<and> en_ID e \<le> entryCounter s"
  using assms unfolding runs_ok_def by blast+

lemma Create_runs_ok: "runs_ok s \<Longrightarrow> Create fresh j s = Inr (j', s') \<Longrightarrow> runs_ok s'"
  by (auto simp: Create_def Let_def runs_ok_def gm.get_put split: if_splits)

lemma Create_registry_ok: "registry_ok s \<Longrightarrow> Create fresh j s = Inr (j', s') \<Longrightarrow> registry_ok s'"
  by (auto simp: Create_def Let_def split: if_splits)

lemma Update_runs_ok: "runs_ok s \<Longrightarrow> Update j s = Inr s' \<Longrightarrow> runs_ok s'"
  by (auto simp: Update_def runs_ok_def gm.get_put split: if_splits)

lemma getOrCreate_runs_ok:
  assumes "runs_ok s" "getOrCreateDomainLocked now n s = (a, s1)"
  shows "runs_ok s1"
proof -
  have "gm_get (domains s) m = Some b \<Longrightarrow> gm_get (domains s1) m = Some b" for m b
    using dom.intern_stable[of s m b now n] assms(2) by simp
  then show ?thesis using assms(1) unfolding runs_ok_def getOrCreate_fields[OF assms(2)] by blast
qed

subsection \<open>Graduation\<close>

text \<open>The fields of the store after a successful graduation.\<close>

lemma GraduateJob_cases:
  assumes "GraduateJob now j es s = Inr s'"
  obtains a s1 sc d r where "gm_has (jobs s) (j_ID j)" "getOrCreateDomainLocked now (j_Domain j) s = (a, s1)"
    "graduation_score j es (scoringCfg s) = Some sc" "d = deref s1 a" "r = graduated_run j es (d_ID d) sc"
    "jobs s' = gm_del (j_ID j) (jobs s)" "publicIDs s' = gm_del (j_PublicID j) (publicIDs s)"
    "runs s' = gm_set (j_ID j) r (runs s)"
    "runPublicIDs s' = (if j_PublicID j \<noteq> [] then gm_set (j_PublicID j) (j_ID j) (runPublicIDs s) else runPublicIDs s)"
    "entries s' = gm_set (j_ID j) (store_entries (entryCounter s) (j_ID j) (d_ID d) es) (entries s)"
    "dnssecChains s' = (if j_DNSSECChainJSON j \<noteq> [] then gm_set (j_ID j) (j_DNSSECChainJSON j) (dnssecChains s)
       else dnssecChains s)"
    "entryCounter s' = entryCounter s + int (length es)"
    "domain_heap s' = gm_set a ((latest_of r d)\<lparr>d_RunCount := d_RunCount d + 1\<rparr>) (domain_heap s1)"
    "domains s' = domains s1" "domainsByID s' = domainsByID s1" "domainCounter s' = domainCounter s1"
    "tags s' = tags s" "domainTags s' = domainTags s" "tagDomains s' = tagDomains s" "batches s' = batches s"
    "analysisCohorts s' = analysisCohorts s" "analysisCohortCounter s' = analysisCohortCounter s"
    "analysisSchedules s' = analysisSchedules s" "profiles s' = profiles s" "profileCounter s' = profileCounter s"
    "settings s' = settings s" "scoringCfg s' = scoringCfg s"
proof -
  obtain a s1 where g: "getOrCreateDomainLocked now (j_Domain j) s = (a, s1)" by fastforce
  note f = getOrCreate_fields[OF g]
  obtain sc where sc: "graduation_score j es (scoringCfg s) = Some sc" "gm_has (jobs s) (j_ID j)"
    using assms g f by (auto simp: GraduateJob_def split: if_splits option.splits)
  show thesis
    by (rule that[OF sc(2) g sc(1) refl refl])
      (use assms g f sc in \<open>auto simp: GraduateJob_def Let_def assign_def\<close>)
qed

lemma GraduateJob_runs_ok:
  assumes "runs_ok s" "registry_ok s" "GraduateJob now j es s = Inr s'"
  shows "runs_ok s'"
  using assms(3)
proof (rule GraduateJob_cases)
  fix a s1 sc d r
  assume g: "getOrCreateDomainLocked now (j_Domain j) s = (a, s1)" and d: "d = deref s1 a"
    and r: "r = graduated_run j es (d_ID d) sc"
    and f: "jobs s' = gm_del (j_ID j) (jobs s)" "publicIDs s' = gm_del (j_PublicID j) (publicIDs s)"
    "runs s' = gm_set (j_ID j) r (runs s)"
    "runPublicIDs s' = (if j_PublicID j \<noteq> [] then gm_set (j_PublicID j) (j_ID j) (runPublicIDs s) else runPublicIDs s)"
    "entries s' = gm_set (j_ID j) (store_entries (entryCounter s) (j_ID j) (d_ID d) es) (entries s)"
    "dnssecChains s' = (if j_DNSSECChainJSON j \<noteq> [] then gm_set (j_ID j) (j_DNSSECChainJSON j) (dnssecChains s)
       else dnssecChains s)"
    "entryCounter s' = entryCounter s + int (length es)" "domains s' = domains s1"
  let ?new = "store_entries (entryCounter s) (j_ID j) (d_ID d) es"
  have s1: "runs_ok s1" "registry_ok s1"
    using getOrCreate_runs_ok[OF assms(1) g] dom.intern_ok[OF assms(2), of now "j_Domain j"] g by auto
  note f1 = getOrCreate_fields[OF g]
  have addr: "gm_get (domains s1) (j_Domain j) = Some a"
    using dom.addr_intern[of now "j_Domain j" s "j_Domain j"] g by simp
  then have da: "d_ID d = a" using registry_by_name[OF s1(2)] d by blast
  have new: "e \<in> set ?new \<Longrightarrow> entryCounter s < en_ID e" for e using store_entries_mem(3) by blast
  have old: "gm_get (entries s) i = Some xs \<Longrightarrow> e \<in> set xs \<Longrightarrow> en_ID e \<le> entryCounter s" for i xs e
    using runs_okD(12)[OF assms(1)] by blast
  have cross: "i = i'" if "gm_get (entries s') i = Some xs" "gm_get (entries s') i' = Some xs'" "e \<in> set xs" "e' \<in> set xs'"
    "en_ID e = en_ID e'" for i i' xs xs' e e'
  proof -
    have o: "\<forall>i i' es es' e e'. gm_get (entries s) i = Some es \<longrightarrow> gm_get (entries s) i' = Some es' \<longrightarrow>
        e \<in> set es \<longrightarrow> e' \<in> set es' \<longrightarrow> en_ID e = en_ID e' \<longrightarrow> i = i'"
      using assms(1) unfolding runs_ok_def by blast
    consider "i = j_ID j" "i' = j_ID j" | "i = j_ID j" "i' \<noteq> j_ID j" | "i \<noteq> j_ID j" "i' = j_ID j"
      | "i \<noteq> j_ID j" "i' \<noteq> j_ID j" by blast
    then show ?thesis
      by cases (use that f(5) o new old in \<open>fastforce simp: gm.get_put\<close>)+
  qed
  have runs: "r_ID x = i \<and> gm_get (domains s') (r_Domain x) = Some (r_DomainID x) \<and>
      (\<exists>es. gm_get (entries s') i = Some es \<and> counters_agree x es \<and> (\<forall>e \<in> set es. en_DomainID e = r_DomainID x))"
    if "gm_get (runs s') i = Some x" for i x
  proof (cases "i = j_ID j")
    case True
    then show ?thesis using that addr da r f graduated_counters store_entries_mem(2) by (auto simp: gm.get_put)
  next
    case False
    then have "gm_get (runs s1) i = Some x" using that f f1 by (simp add: gm.get_put)
    then show ?thesis using s1(1) False f f1 unfolding runs_ok_def by (simp add: gm.get_put)
  qed
  have ents: "gm_has (runs s') i \<and> distinct (map en_ID xs) \<and> (\<forall>e \<in> set xs. en_RunID e = i \<and> en_ID e \<le> entryCounter s')"
    if "gm_get (entries s') i = Some xs" for i xs
  proof (cases "i = j_ID j")
    case True
    then show ?thesis using that f store_entries_distinct store_entries_mem by (auto simp: gm.get_put)
  next
    case False
    then have "gm_get (entries s) i = Some xs" using that f by (simp add: gm.get_put)
    then have "gm_has (runs s) i \<and> distinct (map en_ID xs) \<and> (\<forall>e \<in> set xs. en_RunID e = i \<and> en_ID e \<le> entryCounter s)"
      using assms(1) unfolding runs_ok_def by blast
    then show ?thesis using f by fastforce
  qed
  show ?thesis unfolding runs_ok_def
  proof (intro conjI allI impI)
    show "gm_wf (jobs s')" "gm_wf (publicIDs s')" "gm_wf (runs s')" "gm_wf (runPublicIDs s')" "gm_wf (entries s')"
      "gm_wf (dnssecChains s')" using assms(1) f by (simp_all add: runs_ok_def)
    show "gm_get (jobs s') i = Some x \<Longrightarrow> j_ID x = i" for i x
      using runs_okD(7)[OF assms(1)] f by (simp add: gm.get_del split: if_splits)
    show "gm_has (dnssecChains s') i \<Longrightarrow> gm_has (runs s') i" for i
      using assms(1) f unfolding runs_ok_def by (auto split: if_splits)
  qed (use runs ents cross in blast)+
qed

lemma GraduateJob_registry_ok:
  assumes "registry_ok s" "GraduateJob now j es s = Inr s'"
  shows "registry_ok s'"
  using assms(2)
proof (rule GraduateJob_cases)
  fix a s1 sc d r
  assume g: "getOrCreateDomainLocked now (j_Domain j) s = (a, s1)" and d: "d = deref s1 a"
    and f: "domain_heap s' = gm_set a ((latest_of r d)\<lparr>d_RunCount := d_RunCount d + 1\<rparr>) (domain_heap s1)"
    "domains s' = domains s1" "domainsByID s' = domainsByID s1" "domainCounter s' = domainCounter s1"
  have s1: "registry_ok s1" using dom.intern_ok[OF assms(1), of now "j_Domain j"] g by simp
  have "gm_get (domains s1) (j_Domain j) = Some a"
    using dom.addr_intern[of now "j_Domain j" s "j_Domain j"] g by simp
  then obtain d0 where "gm_get (domain_heap s1) a = Some d0" using s1 unfolding registry_ok_def by blast
  then have "registry_ok (assign a ((latest_of r d)\<lparr>d_RunCount := d_RunCount d + 1\<rparr>) s1)"
    by (intro registry_ok_assign[OF s1]) (auto simp: d deref_def gm_get_or_def latest_of_def)
  then show ?thesis by (simp add: registry_ok_def assign_def f)
qed

lemma GraduateJob_error:
  "GraduateJob now j es s = Inl e \<longleftrightarrow>
     (\<not> gm_has (jobs s) (j_ID j) \<and> e = JobNotFound) \<or>
     (gm_has (jobs s) (j_ID j) \<and> e = StorePanic \<and> j_Status j = JobSucceeded \<and>
        Compute (j_Domain j) (scoring_entries es) (scoringCfg s) = None)"
proof -
  obtain a s1 where g: "getOrCreateDomainLocked now (j_Domain j) s = (a, s1)" by fastforce
  show ?thesis using g getOrCreate_fields(18)[OF g]
    by (auto simp: GraduateJob_def graduation_score_def Let_def split: option.splits if_splits)
qed

lemma GraduateJob_domain:
  assumes "registry_ok s" "GraduateJob now j es s = Inr s'" "GetRun (j_ID j) s' = Some r"
  shows "\<exists>d. GetDomainByName (j_Domain j) s' = Some d \<and> d_ID d = r_DomainID r \<and> d_LatestRunID d = j_ID j \<and>
    d_LatestRunAt d = j_FinishedAt j \<and> d_LatestStatus d = j_Status j \<and> d_LatestLevel d = r_WorstLevel r \<and>
    d_LatestScore d = r_Score r \<and> d_LatestGrade d = r_Grade r \<and>
    d_RunCount d = (case GetDomainByName (j_Domain j) s of None \<Rightarrow> 0 | Some d0 \<Rightarrow> d_RunCount d0) + 1"
  using assms(2)
proof (rule GraduateJob_cases)
  fix a s1 sc d r'
  assume g: "getOrCreateDomainLocked now (j_Domain j) s = (a, s1)" and d: "d = deref s1 a"
    and r': "r' = graduated_run j es (d_ID d) sc"
    and f: "runs s' = gm_set (j_ID j) r' (runs s)"
    "domain_heap s' = gm_set a ((latest_of r' d)\<lparr>d_RunCount := d_RunCount d + 1\<rparr>) (domain_heap s1)"
    "domains s' = domains s1"
  have r: "r = r'" using assms(3) f by (simp add: GetRun_def gm.get_put)
  have "gm_get (domains s1) (j_Domain j) = Some a"
    using dom.addr_intern[of now "j_Domain j" s "j_Domain j"] g by simp
  then have n: "GetDomainByName (j_Domain j) s' = Some (with_tags s' ((latest_of r d)\<lparr>d_RunCount := d_RunCount d + 1\<rparr>))"
    using f by (simp add: GetDomainByName_def deref_def r)
  have "d_RunCount d = (case GetDomainByName (j_Domain j) s of None \<Rightarrow> 0 | Some d0 \<Rightarrow> d_RunCount d0)"
    using g unfolding d by (auto simp: getOrCreateDomainLocked_def GetDomainByName_def with_tags_def deref_def
        new_domain_def Let_def gm_get_or_def gm.get_put split: option.splits)
  then show ?thesis unfolding n using r r' by (auto simp: with_tags_def latest_of_def)
qed

section \<open>Listings\<close>

lemma keyed_job_less: "keyed_order (job_less so) j_ID"
  by (simp add: job_less_def job_tail_def Let_def keyed_orders)

lemma keyed_run_less: "keyed_order (run_less so) r_ID"
  by (simp add: run_less_def run_tail_def keyed_orders)

lemma keyed_entry_less: "keyed_order (cmp_asc en_RunID (cmp_key en_ID)) en_ID"
  by (simp add: keyed_orders)

lemma gm_values_inj:
  assumes "gm_wf m" "\<And>i x. gm_get m i = Some x \<Longrightarrow> key x = i"
  shows "inj_on key (snd ` set m)"
proof (rule inj_onI, clarsimp)
  fix i x i' x'
  assume "(i, x) \<in> set m" "(i', x') \<in> set m" and eq: "key x = key x'"
  then have g: "gm_get m i = Some x" "gm_get m i' = Some x'" using gm_in_get[OF assms(1)] by auto
  then have "i = i'" using assms(2) eq by metis
  then show "x = x'" using g by simp
qed

lemma matching_jobs_order:
  assumes "runs_ok s" "mset js = mset (jobs s)"
  shows "matching_jobs f (s\<lparr>jobs := js\<rparr>) = matching_jobs f s"
proof -
  have "inj_on j_ID (snd ` set (jobs s))" by (rule gm_values_inj) (use runs_okD[OF assms(1)] in auto)
  then have "inj_on j_ID (set (filter (job_matches f) (map snd (jobs s))))" by (rule inj_on_subset) auto
  then show ?thesis unfolding matching_jobs_def sortJobSlice_def
    by (intro keyed_order.sort_by_unique[OF keyed_job_less, symmetric]) (simp_all add: assms(2))
qed

lemma entry_tag_runs_cong: "set es = set (entries s) \<Longrightarrow>
    set (entry_tag_runs t (s\<lparr>entries := es, runs := rs\<rparr>)) = set (entry_tag_runs t s)"
  by (auto simp: entry_tag_runs_def)

lemma matching_runs_order:
  assumes "runs_ok s" "mset rs = mset (runs s)" "mset es = mset (entries s)"
  shows "matching_runs f (s\<lparr>entries := es, runs := rs\<rparr>) = matching_runs f s"
proof -
  have "inj_on r_ID (snd ` set (runs s))" by (rule gm_values_inj) (use runs_okD[OF assms(1)] in auto)
  then have inj: "inj_on r_ID (set (filter P (map snd (runs s))))" for P by (rule inj_on_subset) auto
  have "set es = set (entries s)" using assms(3) by (metis set_mset_mset)
  from entry_tag_runs_cong[OF this] show ?thesis unfolding matching_runs_def
    by (intro keyed_order.sort_by_unique[OF keyed_run_less, symmetric] inj) (simp_all add: assms(2) domains_of_def)
qed

lemma set_matching_runs:
  "set (matching_runs f s) = {r \<in> snd ` set (runs s). run_matches f (\<lambda>i. i \<in> set (domains_of s (rf_Tag f)))
     (\<lambda>i. i \<in> set (entry_tag_runs (rf_EntryTag f) s)) r}"
  by (auto simp: matching_runs_def)

lemma distinct_matching_runs:
  assumes "runs_ok s"
  shows "distinct (matching_runs f s)"
proof -
  have "distinct (map r_ID (map snd (runs s)))"
  proof -
    have "map (r_ID \<circ> snd) (runs s) = map fst (runs s)"
      using runs_okD(8)[OF assms] gm_in_get[OF runs_okD(2)[OF assms]] by fastforce
    then show ?thesis using runs_okD(2)[OF assms] unfolding gm_wf_def by (metis map_map)
  qed
  then have "distinct (filter P (map snd (runs s)))" for P by (metis distinct_filter distinct_map)
  then show ?thesis unfolding matching_runs_def by (metis mset_sort_by mset_eq_imp_distinct_iff)
qed

lemma entries_id_inj:
  assumes "runs_ok s" "gm_get (entries s) i = Some es" "gm_get (entries s) i' = Some es'" "e \<in> set es" "e' \<in> set es'"
    "en_ID e = en_ID e'"
  shows "e = e'"
proof -
  have "i = i'" using assms unfolding runs_ok_def by blast
  moreover have "distinct (map en_ID es)" using assms(1,2) unfolding runs_ok_def by blast
  ultimately show ?thesis using assms by (auto simp: distinct_map inj_on_def)
qed

lemma mset_concat_map_filter: "mset xs = mset ys \<Longrightarrow> mset (concat (map g xs)) = mset (concat (map g ys))"
  by (metis mset_concat mset_map sum_mset_sum_list)

lemma matching_entries_order:
  assumes "runs_ok s" "mset rs = mset (runs s)" "mset es = mset (entries s)" "mset ds = mset (domainsByID s)"
  shows "matching_entries f (s\<lparr>entries := es, runs := rs, domainsByID := ds\<rparr>) = matching_entries f s"
proof -
  let ?s = "s\<lparr>entries := es, runs := rs, domainsByID := ds\<rparr>"
  have sets: "set rs = set (runs s)" "set ds = set (domainsByID s)" using assms by (metis set_mset_mset)+
  have "set (latest_run_ids ?s) = set (latest_run_ids s)" "set (batch_run_ids b ?s) = set (batch_run_ids b s)" for b
    by (auto simp: latest_run_ids_def batch_run_ids_def deref_def sets)
  then have sel: "run_selected f ?s = run_selected f s" "entry_matches f ?s = entry_matches f s"
    by (auto simp: run_selected_def entry_matches_def domains_of_def fun_eq_iff)
  let ?g = "\<lambda>(i, es). if run_selected f s i then [filter (entry_matches f s) es] else []"
  let ?l = "\<lambda>xs. concat (concat (map ?g xs))"
  have l: "matching_entries f s' = sort_by (cmp_asc en_RunID (cmp_key en_ID))
      (concat (concat (map (\<lambda>(i, es). if run_selected f s' i then [filter (entry_matches f s') es] else []) (entries s'))))" for s'
    unfolding matching_entries_def by (simp add: case_prod_unfold)
  have "inj_on en_ID (set (?l (entries s)))"
  proof (rule inj_onI)
    fix e e'
    assume e: "e \<in> set (?l (entries s))" "e' \<in> set (?l (entries s))" "en_ID e = en_ID e'"
    have "\<exists>i xs. gm_get (entries s) i = Some xs \<and> x \<in> set xs" if "x \<in> set (?l (entries s))" for x
      using that gm_in_get[OF runs_okD(3)[OF assms(1)]] by (fastforce split: if_splits)
    then show "e = e'" using e entries_id_inj[OF assms(1)] by meson
  qed
  moreover have "mset (?l (entries s)) = mset (?l es)"
    using mset_concat_map_filter[OF mset_concat_map_filter[OF assms(3), of ?g], of "\<lambda>x. x"]
    unfolding list.map_ident by (rule sym)
  ultimately have "sort_by (cmp_asc en_RunID (cmp_key en_ID)) (?l (entries s)) = sort_by (cmp_asc en_RunID (cmp_key en_ID)) (?l es)"
    by (intro keyed_order.sort_by_unique[OF keyed_entry_less])
  then show ?thesis unfolding l sel by simp
qed

lemma matching_runs_page [simp]:
  "matching_runs (f\<lparr>rf_Limit := l, rf_Offset := k\<rparr>) s = matching_runs f s"
  unfolding matching_runs_def by (intro arg_cong2[where f = sort_by] filter_cong) (simp_all add: run_matches_def)

section \<open>Properties\<close>

text \<open>
  C9. Graduation turns a job into a run and loses nothing. From a consistent store, a successful graduation
  removes the job from the queue, files a run under its id that is found by job id and by public id, keeps its domain,
  batch and status, counts its entries by severity, leaves every other job and run alone, and makes the run the
  latest one of its domain, whose run count grows by one.
\<close>

theorem graduation_moves_job:
  assumes "runs_ok s" "registry_ok s" "GraduateJob now j es s = Inr s'"
  shows "gm_get (jobs s') (j_ID j) = None \<and>
    (\<exists>r. GetRun (j_ID j) s' = Some r \<and> Get (j_ID j) s' = Some (jobFromRun r) \<and>
       (j_PublicID j \<noteq> [] \<longrightarrow> GetByPublicID (j_PublicID j) s' = Some (jobFromRun r)) \<and>
       r_Domain r = j_Domain j \<and> r_BatchID r = j_BatchID j \<and> r_Status r = j_Status j \<and>
       r_SevCritical r = level_count ''CRITICAL'' es \<and> r_SevError r = level_count ''ERROR'' es \<and>
       r_EntryCount r = int (length es) \<and>
       (\<exists>d. GetDomainByName (j_Domain j) s' = Some d \<and> d_ID d = r_DomainID r \<and> d_LatestRunID d = j_ID j \<and>
          d_LatestLevel d = r_WorstLevel r \<and>
          d_RunCount d = (case GetDomainByName (j_Domain j) s of None \<Rightarrow> 0 | Some d0 \<Rightarrow> d_RunCount d0) + 1)) \<and>
    (\<forall>i. i \<noteq> j_ID j \<longrightarrow> Get i s' = Get i s)"
  using assms(3)
proof (rule GraduateJob_cases)
  fix a s1 sc d r
  assume r: "r = graduated_run j es (d_ID d) sc"
    and f: "jobs s' = gm_del (j_ID j) (jobs s)" "publicIDs s' = gm_del (j_PublicID j) (publicIDs s)"
    "runs s' = gm_set (j_ID j) r (runs s)"
    "runPublicIDs s' = (if j_PublicID j \<noteq> [] then gm_set (j_PublicID j) (j_ID j) (runPublicIDs s) else runPublicIDs s)"
  have run: "GetRun (j_ID j) s' = Some r" by (simp add: GetRun_def f gm.get_put)
  have get: "Get (j_ID j) s' = Some (jobFromRun r)" "Get i s' = Get i s" if "i \<noteq> j_ID j" for i
    using that by (simp_all add: Get_def f gm.get_put gm.get_del split: option.splits)
  have pub: "j_PublicID j \<noteq> [] \<Longrightarrow> GetByPublicID (j_PublicID j) s' = Some (jobFromRun r)"
    by (simp add: GetByPublicID_def f gm.get_put gm.get_del)
  have counts: "r_SevCritical r = level_count ''CRITICAL'' es" "r_SevError r = level_count ''ERROR'' es"
    "r_EntryCount r = int (length es)" by (simp_all add: r graduated_run_def Let_def)
  have "Get (j_ID j) s' = Some (jobFromRun r)" by (simp add: Get_def f gm.get_put gm.get_del)
  then show ?thesis
    using run get(2) pub counts GraduateJob_domain[OF assms(2,3) run] r
    by (intro conjI exI[of _ r]) (auto simp: f gm.get_del)
qed

definition sample_job :: job where
  "sample_job = zero_job\<lparr>j_ID := ''j1'', j_Domain := ''se'', j_Status := JobFailed, j_BatchID := ''b1'',
     j_FinishedAt := 5\<rparr>"

definition sample_log :: "log_entry list" where
  "sample_log = [\<lparr>le_Timestamp = 0, le_Module = ''Basic'', le_Testcase = ''Basic01'', le_Tag = ''X'',
     le_Level = '' error'', le_Args = []\<rparr>]"

definition sample_queued :: store where
  "sample_queued = (case Create ''pub'' sample_job NewInMemoryJobStore of Inr (_, s) \<Rightarrow> s | Inl _ \<Rightarrow> NewInMemoryJobStore)"

definition sample_graduated :: store where
  "sample_graduated = (case GraduateJob 9 sample_job sample_log sample_queued of Inr s \<Rightarrow> s | Inl _ \<Rightarrow> NewInMemoryJobStore)"

lemma sample_ok: "runs_ok sample_queued" "registry_ok sample_queued"
    "GraduateJob 9 sample_job sample_log sample_queued = Inr sample_graduated"
    "runs_ok sample_graduated" "registry_ok sample_graduated"
proof -
  have c: "\<exists>j. Create ''pub'' sample_job NewInMemoryJobStore = Inr (j, sample_queued)"
    by (simp add: sample_queued_def Create_def NewInMemoryJobStore_def gm_has_def Let_def)
  then show q: "runs_ok sample_queued" using Create_runs_ok[OF runs_ok_new] by blast
  show ro: "registry_ok sample_queued" using c Create_registry_ok[OF registry_ok_new] by blast
  have "gm_has (jobs sample_queued) (j_ID sample_job)" by code_simp
  moreover have "j_Status sample_job \<noteq> JobSucceeded" by (simp add: sample_job_def)
  ultimately have "GraduateJob 9 sample_job sample_log sample_queued \<noteq> Inl e" for e
    by (auto simp: GraduateJob_error)
  then show g: "GraduateJob 9 sample_job sample_log sample_queued = Inr sample_graduated"
    unfolding sample_graduated_def by (cases "GraduateJob 9 sample_job sample_log sample_queued") auto
  show "runs_ok sample_graduated" by (rule GraduateJob_runs_ok[OF q ro g])
  show "registry_ok sample_graduated" by (rule GraduateJob_registry_ok[OF ro g])
qed

theorem graduation_moves_job_witness:
  "\<exists>r. GetRun ''j1'' sample_graduated = Some r \<and> r_EntryCount r = 1 \<and> r_Domain r = ''se''"
  using graduation_moves_job[OF sample_ok(1-3)] by (auto simp: sample_job_def sample_log_def zero_job_def)


text \<open>
  The worst level of a run is that of its most severe entry. In a consistent store the rank of a run's worst
  level is the maximum rank over its stored entries, zero when there is none above informational.
\<close>

theorem worst_level_is_max:
  assumes "runs_ok s" "GetRun i s = Some r"
  shows "\<exists>es. gm_get (entries s) i = Some es \<and>
    severityRank (r_WorstLevel r) = Max (insert 0 ((\<lambda>e. severityRank (trim_space (en_Level e))) ` set es))"
  using runs_okD(10)[OF assms(1)] assms(2) worst_level_rank unfolding GetRun_def by blast

theorem worst_level_is_max_witness:
  "\<exists>r es. GetRun ''j1'' sample_graduated = Some r \<and> gm_get (entries sample_graduated) ''j1'' = Some es \<and>
     severityRank (r_WorstLevel r) = Max (insert 0 ((\<lambda>e. severityRank (trim_space (en_Level e))) ` set es))"
proof -
  have "GetRun ''j1'' sample_graduated \<noteq> None" by code_simp
  then obtain r where "GetRun ''j1'' sample_graduated = Some r" by blast
  from worst_level_is_max[OF sample_ok(4) this] this show ?thesis by blast
qed

text \<open>
  C26. Job, run and entry listings do not depend on map iteration order. For a consistent store and any
  order in which Go yields the entries of the maps, every page of every query is the same.
\<close>

theorem listings_deterministic:
  assumes "runs_ok s" "mset js = mset (jobs s)" "mset rs = mset (runs s)" "mset es = mset (entries s)"
    "mset ds = mset (domainsByID s)"
  shows "ListJobs jf (s\<lparr>jobs := js\<rparr>) = ListJobs jf s \<and>
    ListRuns rf (s\<lparr>entries := es, runs := rs\<rparr>) = ListRuns rf s \<and>
    QueryEntries ef (s\<lparr>entries := es, runs := rs, domainsByID := ds\<rparr>) = QueryEntries ef s"
  unfolding ListJobs_def ListRuns_def QueryEntries_def
  using matching_jobs_order[OF assms(1,2)] matching_runs_order[OF assms(1,3,4)]
    matching_entries_order[OF assms(1,3,4,5)] by simp

theorem listings_deterministic_witness:
  "ListRuns zero_run_filter (sample_graduated\<lparr>entries := rev (entries sample_graduated), runs := rev (runs sample_graduated)\<rparr>)
     = ListRuns zero_run_filter sample_graduated"
  using listings_deterministic[OF sample_ok(4), of "jobs sample_graduated" "rev (runs sample_graduated)"
      "rev (entries sample_graduated)" "domainsByID sample_graduated" _ zero_run_filter] by simp

text \<open>
  Paging through runs visits every match once. Reading pages of a positive limit from offset 0 until they
  cover the total yields the matching runs in order, without a gap or a repetition, and a run is among them exactly
  when the store holds it and the filter accepts it.
\<close>

theorem run_pages_complete:
  assumes "runs_ok s" "0 < limit" "Total (ListRuns f s) \<le> int n * limit"
  shows "concat (map (\<lambda>k. Items (ListRuns (f\<lparr>rf_Limit := limit, rf_Offset := int k * limit\<rparr>) s)) [0..<n]) = matching_runs f s \<and>
    distinct (matching_runs f s) \<and>
    (r \<in> set (matching_runs f s) \<longleftrightarrow> GetRun (r_ID r) s = Some r \<and>
       run_matches f (\<lambda>i. i \<in> set (domains_of s (rf_Tag f))) (\<lambda>i. i \<in> set (entry_tag_runs (rf_EntryTag f) s)) r)"
proof -
  have "int (length (matching_runs f s)) \<le> int (n * nat limit)"
    using assms(2,3) by (simp add: ListRuns_def paginate_def Let_def)
  then have "length (matching_runs f s) \<le> n * nat limit" by (simp only: of_nat_le_iff)
  then have "take (n * nat limit) (matching_runs f s) = matching_runs f s" by simp
  moreover have "r \<in> snd ` set (runs s) \<longleftrightarrow> GetRun (r_ID r) s = Some r"
  proof
    assume "r \<in> snd ` set (runs s)"
    then obtain i where "(i, r) \<in> set (runs s)" by auto
    then have "gm_get (runs s) i = Some r" by (rule gm_in_get[OF runs_okD(2)[OF assms(1)]])
    then show "GetRun (r_ID r) s = Some r" using runs_okD(8)[OF assms(1)] by (simp add: GetRun_def)
  next
    assume "GetRun (r_ID r) s = Some r"
    then show "r \<in> snd ` set (runs s)" using gm_get_in unfolding GetRun_def by force
  qed
  ultimately show ?thesis
    using pages_cover[OF assms(2), of True "matching_runs f s" n] distinct_matching_runs[OF assms(1)]
    by (simp add: ListRuns_def set_matching_runs)
qed

theorem run_pages_complete_witness:
  "concat (map (\<lambda>k. Items (ListRuns (zero_run_filter\<lparr>rf_Limit := 1, rf_Offset := int k * 1\<rparr>) sample_graduated)) [0..<2])
     = matching_runs zero_run_filter sample_graduated"
proof -
  have "Total (ListRuns zero_run_filter sample_graduated) \<le> int 2 * 1" by code_simp
  from run_pages_complete[OF sample_ok(4) _ this] show ?thesis by simp
qed

end
