(* ===== verification/StoreAdmin.thy ===== *)
theory StoreAdmin
  imports StoreRuns
begin

text \<open>
  Batches and their deletion, the analysis cohort catalog, cohort schedules, stored profiles, settings
  and the purges of \<open>InMemoryJobStore\<close> (\<open>server/store.go\<close>). The lemmas show that deleting a batch removes
  exactly its rows and repairs the latest-run fields, which runs a purge removes, that a due schedule is
  claimed once, that profile names stay unique and that tags only refer to stored profiles.
\<close>

section \<open>Batches\<close>

definition CreateBatch :: "batch \<Rightarrow> store \<Rightarrow> store" where
  "CreateBatch b s = s\<lparr>batches := gm_set (b_ID b) b (batches s)\<rparr>"

definition GetBatch :: "string \<Rightarrow> store \<Rightarrow> batch option" where
  "GetBatch i s = gm_get (batches s) i"

definition SetBatchSnapshotIntent :: "string \<Rightarrow> bool \<Rightarrow> store \<Rightarrow> store_error + store" where
  "SetBatchSnapshotIntent batchID intent s = (case gm_get (batches s) batchID of
     None \<Rightarrow> Inl BatchNotFound
   | Some b \<Rightarrow> Inr (s\<lparr>batches := gm_set batchID (b\<lparr>b_SnapshotIntent := intent\<rparr>) (batches s)\<rparr>))"

definition batch_less :: "batch \<Rightarrow> batch \<Rightarrow> bool" where
  "batch_less = cmp_desc b_CreatedAt (cmp_key_desc b_ID)"

definition ListBatchesByTag :: "string \<Rightarrow> int \<Rightarrow> int \<Rightarrow> store \<Rightarrow> batch paged" where
  "ListBatchesByTag t limit offset s =
     paginate False limit offset (sort_by batch_less (filter (\<lambda>b. b_Tag b = t) (map snd (batches s))))"

definition ListBatches :: "string \<Rightarrow> int \<Rightarrow> int \<Rightarrow> store \<Rightarrow> batch paged" where
  "ListBatches tagLike limit offset s = (let needle = to_lower tagLike in
     paginate False limit offset (sort_by batch_less
       (filter (\<lambda>b. needle = [] \<or> contains (to_lower (b_Tag b)) needle) (map snd (batches s)))))"

definition preview_job :: "job \<Rightarrow> batch_delete_preview \<Rightarrow> batch_delete_preview" where
  "preview_job j out = (let out = out\<lparr>bp_Exists := True\<rparr> in
     if j_Status j = JobQueued then out\<lparr>bp_QueuedJobs := bp_QueuedJobs out + 1\<rparr>
     else if j_Status j = JobRunning then out\<lparr>bp_RunningJobs := bp_RunningJobs out + 1\<rparr>
     else out)"

definition preview_run :: "store \<Rightarrow> run \<Rightarrow> batch_delete_preview \<Rightarrow> batch_delete_preview" where
  "preview_run s r out = out\<lparr>bp_Exists := True, bp_CompletedRuns := bp_CompletedRuns out + 1,
     bp_Entries := bp_Entries out + int (length (gm_get_or [] (entries s) (r_ID r)))\<rparr>"

definition BatchDeletePreviewStats :: "string \<Rightarrow> store \<Rightarrow> batch_delete_preview" where
  "BatchDeletePreviewStats batchID s = (let
      out0 = \<lparr>bp_BatchID = batchID, bp_Tag = [], bp_CreatedAt = 0, bp_SnapshotIntent = False, bp_Exists = False,
              bp_QueuedJobs = 0, bp_RunningJobs = 0, bp_CompletedRuns = 0, bp_Entries = 0\<rparr>;
      out1 = (case gm_get (batches s) batchID of None \<Rightarrow> out0
              | Some b \<Rightarrow> out0\<lparr>bp_Exists := True, bp_Tag := b_Tag b, bp_CreatedAt := b_CreatedAt b,
                              bp_SnapshotIntent := b_SnapshotIntent b\<rparr>);
      out2 = fold preview_job (filter (\<lambda>j. j_BatchID j = batchID) (map snd (jobs s))) out1
    in fold (preview_run s) (filter (\<lambda>r. r_BatchID r = batchID) (map snd (runs s))) out2)"

definition BatchHasRuns :: "string \<Rightarrow> store \<Rightarrow> bool" where
  "BatchHasRuns batchID s \<longleftrightarrow> batchID \<noteq> [] \<and> (\<exists>(i, r) \<in> set (runs s). r_BatchID r = batchID)"

subsection \<open>Deleting a batch\<close>

text \<open>
  One pass of the loop over the runs of the batch, and one over its jobs. The loop over the affected
  domains clears the latest-run fields of a domain whose latest run is gone, and then
  takes the fields of the remaining run of the domain that finished last; among runs that finished at the same
  instant the first one visited is taken.
\<close>

definition drop_run :: "string \<times> run \<Rightarrow> store \<Rightarrow> store" where
  "drop_run ir s = (case ir of (i, r) \<Rightarrow> s\<lparr>
     runPublicIDs := (if r_PublicID r \<noteq> [] then gm_del (r_PublicID r) (runPublicIDs s) else runPublicIDs s),
     entries := gm_del i (entries s),
     dnssecChains := gm_del i (dnssecChains s),
     runs := gm_del i (runs s)\<rparr>)"

definition drop_job :: "string \<times> job \<Rightarrow> store \<Rightarrow> store" where
  "drop_job ij s = (case ij of (i, j) \<Rightarrow> s\<lparr>
     publicIDs := (if j_PublicID j \<noteq> [] then gm_del (j_PublicID j) (publicIDs s) else publicIDs s),
     jobs := gm_del i (jobs s)\<rparr>)"

definition best_run :: "run list \<Rightarrow> run option" where
  "best_run rs = fold (\<lambda>r best. case best of None \<Rightarrow> Some r
                        | Some b \<Rightarrow> if r_FinishedAt b < r_FinishedAt r then Some r else best) rs None"

definition clear_latest :: "domain \<Rightarrow> domain" where
  "clear_latest d = d\<lparr>d_LatestRunID := [], d_LatestRunAt := 0, d_LatestStatus := [], d_LatestLevel := [],
     d_LatestScore := None, d_LatestGrade := None\<rparr>"

definition repair_domain :: "string list \<Rightarrow> int \<Rightarrow> store \<Rightarrow> store" where
  "repair_domain deleted domainID s = (case gm_get (domainsByID s) domainID of
     None \<Rightarrow> s
   | Some a \<Rightarrow> (let d = deref s a; rs = filter (\<lambda>r. r_DomainID r = domainID) (map snd (runs s)) in
       if d_LatestRunID d \<notin> set deleted then s
       else assign a ((case best_run rs of None \<Rightarrow> clear_latest d | Some r \<Rightarrow> latest_of r (clear_latest d))
                        \<lparr>d_RunCount := int (length rs)\<rparr>) s))"

definition DeleteBatch :: "string \<Rightarrow> store \<Rightarrow> store_error + store" where
  "DeleteBatch batchID s =
     (if batchID = [] then Inl BatchIDRequired
      else let
        doomed = filter (\<lambda>(i, r). r_BatchID r = batchID) (runs s);
        s1 = fold drop_run doomed s;
        s2 = fold drop_job (filter (\<lambda>(i, j). j_BatchID j = batchID) (jobs s1)) s1;
        s3 = s2\<lparr>batches := gm_del batchID (batches s2)\<rparr>;
        affected = remdups (filter (\<lambda>i. i \<noteq> 0) (map (r_DomainID \<circ> snd) doomed))
      in Inr (fold (repair_domain (map fst doomed)) affected s3))"

section \<open>Purges\<close>

definition purge_run :: "string \<times> run \<Rightarrow> store \<Rightarrow> store" where
  "purge_run ir s = (case ir of (i, r) \<Rightarrow> s\<lparr>
     runPublicIDs := gm_del (r_PublicID r) (runPublicIDs s),
     entries := gm_del i (entries s),
     dnssecChains := gm_del i (dnssecChains s),
     runs := gm_del i (runs s)\<rparr>)"

definition PurgeOlderThan :: "gotime \<Rightarrow> store \<Rightarrow> int \<times> store" where
  "PurgeOlderThan cutoff s = (let
      doomed = filter (\<lambda>(i, r). isTerminalStatus (r_Status r) \<and> \<not> is_zero_time (r_FinishedAt r) \<and>
                                r_FinishedAt r < cutoff) (runs s)
    in (int (length doomed), fold purge_run doomed s))"

definition PurgeByTag :: "string \<Rightarrow> store \<Rightarrow> int \<times> store" where
  "PurgeByTag t s = (if domains_of s t = [] then (0, s)
     else let doomed = filter (\<lambda>(i, r). isTerminalStatus (r_Status r) \<and> r_DomainID r \<in> set (domains_of s t)) (runs s)
       in (int (length doomed), fold purge_run doomed s))"

section \<open>Analysis cohorts\<close>

definition ListAnalysisCohorts :: "store \<Rightarrow> analysis_cohort list" where
  "ListAnalysisCohorts s =
     sort_by (cmp_asc c_SortOrder (cmp_asc c_Label (cmp_key c_SourceTag))) (map snd (analysisCohorts s))"

definition GetAnalysisCohort :: "int \<Rightarrow> store \<Rightarrow> analysis_cohort option" where
  "GetAnalysisCohort i s = gm_get (analysisCohorts s) i"

definition cohort_source :: "analysis_cohort \<Rightarrow> string \<times> string" where
  "cohort_source c = (c_SourceType c, c_SourceTag c)"

definition GetAnalysisCohortBySource :: "string \<Rightarrow> string \<Rightarrow> store \<Rightarrow> analysis_cohort option" where
  "GetAnalysisCohortBySource sourceType sourceTag s =
     find (\<lambda>c. c_SourceType c = sourceType \<and> c_SourceTag c = sourceTag) (map snd (analysisCohorts s))"

definition cohort_defaults :: "analysis_cohort \<Rightarrow> analysis_cohort" where
  "cohort_defaults c = c\<lparr>
     c_Label := (if c_Label c = [] then c_SourceTag c else c_Label c),
     c_MaterializationStatus := (if c_MaterializationStatus c = [] then AnalysisMaterializationPending
                                 else c_MaterializationStatus c),
     c_DefaultSnapshotPolicy := (if c_DefaultSnapshotPolicy c = [] then DefaultSnapshotPolicyAutoLatest
                                 else c_DefaultSnapshotPolicy c)\<rparr>"

definition updated_cohort :: "gotime \<Rightarrow> int \<Rightarrow> analysis_cohort \<Rightarrow> analysis_cohort \<Rightarrow> analysis_cohort" where
  "updated_cohort now i existing c = c\<lparr>c_ID := i,
     c_CreatedAt := (if is_zero_time (c_CreatedAt c) then c_CreatedAt existing else c_CreatedAt c),
     c_UpdatedAt := (if is_zero_time (c_UpdatedAt c) then now else c_UpdatedAt c)\<rparr>"

definition inserted_cohort :: "gotime \<Rightarrow> int \<Rightarrow> analysis_cohort \<Rightarrow> analysis_cohort" where
  "inserted_cohort now counter c = (let created = (if is_zero_time (c_CreatedAt c) then now else c_CreatedAt c) in
     c\<lparr>c_ID := (if c_ID c = 0 then counter else c_ID c), c_CreatedAt := created,
       c_UpdatedAt := (if is_zero_time (c_UpdatedAt c) then created else c_UpdatedAt c)\<rparr>)"

definition UpsertAnalysisCohort :: "gotime \<Rightarrow> analysis_cohort \<Rightarrow> store \<Rightarrow> store_error + analysis_cohort \<times> store" where
  "UpsertAnalysisCohort now c0 s =
     (if c_SourceType c0 = [] then Inl SourceTypeRequired
      else if c_SourceTag c0 = [] then Inl SourceTagRequired
      else let c = cohort_defaults c0 in
        case find (\<lambda>(i, e). c_SourceType e = c_SourceType c \<and> c_SourceTag e = c_SourceTag c) (analysisCohorts s) of
          Some (i, e) \<Rightarrow> (let c' = updated_cohort now i e c
            in Inr (c', s\<lparr>analysisCohorts := gm_set i c' (analysisCohorts s)\<rparr>))
        | None \<Rightarrow> (let
              counter = (if c_ID c = 0 then analysisCohortCounter s + 1 else analysisCohortCounter s);
              c' = inserted_cohort now counter c
            in Inr (c', s\<lparr>analysisCohortCounter := counter, analysisCohorts := gm_set (c_ID c') c' (analysisCohorts s)\<rparr>)))"

definition DeleteAnalysisCohort :: "int \<Rightarrow> store \<Rightarrow> store" where
  "DeleteAnalysisCohort i s = s\<lparr>analysisCohorts := gm_del i (analysisCohorts s),
     analysisSchedules := gm_del i (analysisSchedules s)\<rparr>"

section \<open>Cohort schedules\<close>

definition GetAnalysisCohortSchedule :: "int \<Rightarrow> store \<Rightarrow> cohort_schedule option" where
  "GetAnalysisCohortSchedule cohortID s = gm_get (analysisSchedules s) cohortID"

definition PutAnalysisCohortSchedule :: "gotime \<Rightarrow> cohort_schedule \<Rightarrow> store \<Rightarrow> store_error + cohort_schedule \<times> store" where
  "PutAnalysisCohortSchedule now x s =
     (if s_CohortID x \<le> 0 \<or> is_zero_time (s_NextRunAt x) then Inl ScheduleFieldsRequired
      else let
        last = (case gm_get (analysisSchedules s) (s_CohortID x) of
                  Some e \<Rightarrow> (s_LastRunAt e, s_LastBatchID e, s_LastOutcome e, s_LastError e, s_CreatedAt e)
                | None \<Rightarrow> (0, [], [], [], now));
        x' = (case last of (lastRun, bat, outcome, err, created) \<Rightarrow>
          x\<lparr>s_SourceTag := [], s_Label := [], s_Rule := Canonical (s_Rule x), s_LastRunAt := lastRun,
            s_LastBatchID := bat, s_LastOutcome := outcome, s_LastError := err,
            s_CreatedAt := created, s_UpdatedAt := now\<rparr>)
      in Inr (x', s\<lparr>analysisSchedules := gm_set (s_CohortID x) x' (analysisSchedules s)\<rparr>))"

definition DeleteAnalysisCohortSchedule :: "int \<Rightarrow> store \<Rightarrow> store" where
  "DeleteAnalysisCohortSchedule cohortID s = s\<lparr>analysisSchedules := gm_del cohortID (analysisSchedules s)\<rparr>"

definition ListAnalysisCohortSchedules :: "store \<Rightarrow> cohort_schedule list" where
  "ListAnalysisCohortSchedules s = sort_by (cmp_key s_CohortID) (map snd (analysisSchedules s))"

definition ListDueAnalysisCohortSchedules :: "gotime \<Rightarrow> store \<Rightarrow> cohort_schedule list" where
  "ListDueAnalysisCohortSchedules now s = sort_by (cmp_asc s_NextRunAt (cmp_key s_CohortID))
     (filter (\<lambda>x. s_Enabled x \<and> s_NextRunAt x \<le> now) (map snd (analysisSchedules s)))"

definition ClaimAnalysisCohortSchedule :: "int \<Rightarrow> gotime \<Rightarrow> gotime \<Rightarrow> store \<Rightarrow> bool \<times> store" where
  "ClaimAnalysisCohortSchedule cohortID expected next s = (case gm_get (analysisSchedules s) cohortID of
     None \<Rightarrow> (False, s)
   | Some x \<Rightarrow> if \<not> s_Enabled x \<or> s_NextRunAt x \<noteq> expected then (False, s)
       else (True, s\<lparr>analysisSchedules := gm_set cohortID (x\<lparr>s_NextRunAt := next\<rparr>) (analysisSchedules s)\<rparr>))"

definition RecordAnalysisCohortScheduleOutcome ::
  "int \<Rightarrow> gotime \<Rightarrow> string \<Rightarrow> string \<Rightarrow> string \<Rightarrow> store \<Rightarrow> store" where
  "RecordAnalysisCohortScheduleOutcome cohortID ranAt batchID outcome errText s =
     (case gm_get (analysisSchedules s) cohortID of
        None \<Rightarrow> s
      | Some x \<Rightarrow> s\<lparr>analysisSchedules := gm_set cohortID
          (x\<lparr>s_LastRunAt := ranAt, s_LastOutcome := outcome, s_LastError := errText,
             s_LastBatchID := (if batchID \<noteq> [] then batchID else s_LastBatchID x)\<rparr>) (analysisSchedules s)\<rparr>)"

definition CountOutstandingJobsForBatch :: "string \<Rightarrow> store \<Rightarrow> int" where
  "CountOutstandingJobsForBatch batchID s = int (length (filter
     (\<lambda>j. j_BatchID j = batchID \<and> (j_Status j = JobQueued \<or> j_Status j = JobRunning \<or> j_Status j = JobPaused))
     (map snd (jobs s))))"

section \<open>Profiles\<close>

definition CreateProfile :: "gotime \<Rightarrow> stored_profile \<Rightarrow> store \<Rightarrow> store_error + stored_profile \<times> store" where
  "CreateProfile now p s =
     (if \<exists>(i, e) \<in> set (profiles s). p_Name e = p_Name p then Inl (ProfileNameExists (p_Name p))
      else let
        p' = p\<lparr>p_ID := profileCounter s + 1,
               p_CreatedAt := (if is_zero_time (p_CreatedAt p) then now else p_CreatedAt p),
               p_UpdatedAt := (if is_zero_time (p_UpdatedAt p) then now else p_UpdatedAt p)\<rparr>
      in Inr (p', s\<lparr>profileCounter := profileCounter s + 1, profiles := gm_set (p_ID p') p' (profiles s)\<rparr>))"

definition GetProfile :: "int \<Rightarrow> store \<Rightarrow> stored_profile option" where
  "GetProfile i s = gm_get (profiles s) i"

definition GetProfileByName :: "string \<Rightarrow> store \<Rightarrow> stored_profile option" where
  "GetProfileByName name s = find (\<lambda>p. p_Name p = name) (map snd (profiles s))"

definition UpdateProfile :: "gotime \<Rightarrow> stored_profile \<Rightarrow> store \<Rightarrow> store_error + store" where
  "UpdateProfile now p s =
     (if \<not> gm_has (profiles s) (p_ID p) then Inl (ProfileNotFound (p_ID p))
      else if \<exists>(i, e) \<in> set (profiles s). p_Name e = p_Name p \<and> p_ID e \<noteq> p_ID p then Inl (ProfileNameExists (p_Name p))
      else Inr (s\<lparr>profiles := gm_set (p_ID p) (p\<lparr>p_UpdatedAt := now\<rparr>) (profiles s)\<rparr>))"

definition DeleteProfile :: "int \<Rightarrow> store \<Rightarrow> store_error + store" where
  "DeleteProfile i s =
     (if \<not> gm_has (profiles s) i then Inl (ProfileNotFound i)
      else Inr (s\<lparr>profiles := gm_del i (profiles s),
        tags := gm_map (\<lambda>_ t. if t_DefaultProfileID t = Some i then t\<lparr>t_DefaultProfileID := None\<rparr> else t) (tags s),
        jobs := gm_map (\<lambda>_ j. if j_ProfileID j = Some i then j\<lparr>j_ProfileID := None\<rparr> else j) (jobs s),
        runs := gm_map (\<lambda>_ r. if r_ProfileID r = Some i then r\<lparr>r_ProfileID := None\<rparr> else r) (runs s)\<rparr>))"

definition ListProfiles :: "store \<Rightarrow> stored_profile list" where
  "ListProfiles s = sort_by (cmp_key p_Name) (map snd (profiles s))"

section \<open>Settings\<close>

definition GetSetting :: "string \<Rightarrow> store \<Rightarrow> string option" where
  "GetSetting key s = gm_get (settings s) key"

definition SetSetting :: "string \<Rightarrow> string \<Rightarrow> store \<Rightarrow> store" where
  "SetSetting key v s = s\<lparr>settings := gm_set key v (settings s)\<rparr>"

definition DeleteSetting :: "string \<Rightarrow> store \<Rightarrow> store_error + store" where
  "DeleteSetting key s = (if \<not> gm_has (settings s) key then Inl SettingNotFound
     else Inr (s\<lparr>settings := gm_del key (settings s)\<rparr>))"

definition ListSettings :: "store \<Rightarrow> (string, string) gomap" where
  "ListSettings s = settings s"

section \<open>Removing rows\<close>

lemma fold_drop_run:
  "fold drop_run ds s = s\<lparr>
     runPublicIDs := gm_del_all (filter (\<lambda>p. p \<noteq> []) (map (r_PublicID \<circ> snd) ds)) (runPublicIDs s),
     entries := gm_del_all (map fst ds) (entries s), dnssecChains := gm_del_all (map fst ds) (dnssecChains s),
     runs := gm_del_all (map fst ds) (runs s)\<rparr>"
  by (induction ds arbitrary: s) (simp_all add: drop_run_def gm_del_all_def case_prod_unfold)

lemma fold_purge_run:
  "fold purge_run ds s = s\<lparr>
     runPublicIDs := gm_del_all (map (r_PublicID \<circ> snd) ds) (runPublicIDs s),
     entries := gm_del_all (map fst ds) (entries s), dnssecChains := gm_del_all (map fst ds) (dnssecChains s),
     runs := gm_del_all (map fst ds) (runs s)\<rparr>"
  by (induction ds arbitrary: s) (simp_all add: purge_run_def gm_del_all_def case_prod_unfold)

lemma fold_drop_job:
  "fold drop_job js s = s\<lparr>
     publicIDs := gm_del_all (filter (\<lambda>p. p \<noteq> []) (map (j_PublicID \<circ> snd) js)) (publicIDs s),
     jobs := gm_del_all (map fst js) (jobs s)\<rparr>"
  by (induction js arbitrary: s) (simp_all add: drop_job_def gm_del_all_def case_prod_unfold)

lemma gm_del_matching:
  assumes "gm_wf m"
  shows "gm_get (gm_del_all (map fst (filter (\<lambda>(k, v). P v) m)) m) k =
    (case gm_get m k of None \<Rightarrow> None | Some v \<Rightarrow> if P v then None else Some v)"
proof -
  have "k \<in> set (map fst (filter (\<lambda>(k, v). P v) m)) \<longleftrightarrow> (\<exists>v. gm_get m k = Some v \<and> P v)"
    using assms by (auto simp: gm_get_iff image_iff)
  then show ?thesis by (auto simp: gm_get_del_all split: option.splits)
qed

text \<open>Removing the same ids from runs, entries and chains keeps the invariant.\<close>

lemma remove_runs_ok:
  assumes "runs_ok s"
  shows "runs_ok (s\<lparr>runPublicIDs := gm_del_all ps (runPublicIDs s), entries := gm_del_all is (entries s),
     dnssecChains := gm_del_all is (dnssecChains s), runs := gm_del_all is (runs s)\<rparr>)"
  using assms unfolding runs_ok_def by (simp add: gm_get_del_all gm_has_def)

lemma remove_jobs_ok:
  "runs_ok s \<Longrightarrow> runs_ok (s\<lparr>publicIDs := gm_del_all ps (publicIDs s), jobs := gm_del_all is (jobs s)\<rparr>)"
  unfolding runs_ok_def by (simp add: gm_get_del_all)

subsection \<open>The newest remaining run\<close>

lemma best_run_fold:
  "fold (\<lambda>r best. case best of None \<Rightarrow> Some r | Some b \<Rightarrow> if r_FinishedAt b < r_FinishedAt r then Some r else best) rs (Some b0) = Some b \<Longrightarrow>
     b \<in> insert b0 (set rs) \<and> (\<forall>r \<in> insert b0 (set rs). r_FinishedAt r \<le> r_FinishedAt b)"
proof (induction rs arbitrary: b0)
  case (Cons r rs)
  show ?case
  proof (cases "r_FinishedAt b0 < r_FinishedAt r")
    case True
    then have "b \<in> insert r (set rs) \<and> (\<forall>x \<in> insert r (set rs). r_FinishedAt x \<le> r_FinishedAt b)"
      using Cons by simp
    then show ?thesis using True by force
  next
    case False
    then have "b \<in> insert b0 (set rs) \<and> (\<forall>x \<in> insert b0 (set rs). r_FinishedAt x \<le> r_FinishedAt b)"
      using Cons by simp
    then show ?thesis using False by force
  qed
qed simp

lemma best_run_Some:
  "best_run rs = Some b \<Longrightarrow> b \<in> set rs \<and> (\<forall>r \<in> set rs. r_FinishedAt r \<le> r_FinishedAt b)"
  by (cases rs) (auto simp: best_run_def dest!: best_run_fold)

lemma best_run_None: "best_run rs = None \<longleftrightarrow> rs = []"
proof (cases rs)
  case (Cons r rs')
  have "fold (\<lambda>r best. case best of None \<Rightarrow> Some r | Some b \<Rightarrow> if r_FinishedAt b < r_FinishedAt r then Some r else best) rs' (Some r) \<noteq> None"
    for rs' r by (induction rs' arbitrary: r) auto
  then show ?thesis using Cons by (simp add: best_run_def)
qed (simp add: best_run_def)

subsection \<open>Repairing the latest-run fields\<close>

definition runs_of_domain :: "store \<Rightarrow> int \<Rightarrow> run list" where
  "runs_of_domain s i = filter (\<lambda>r. r_DomainID r = i) (map snd (runs s))"

definition repaired :: "store \<Rightarrow> int \<Rightarrow> domain \<Rightarrow> domain" where
  "repaired s i d = (case best_run (runs_of_domain s i) of None \<Rightarrow> clear_latest d | Some r \<Rightarrow> latest_of r (clear_latest d))
     \<lparr>d_RunCount := int (length (runs_of_domain s i))\<rparr>"

lemma repaired_ids [simp]: "d_ID (repaired s i d) = d_ID d" "d_Name (repaired s i d) = d_Name d"
  by (simp_all add: repaired_def clear_latest_def latest_of_def split: option.splits)

lemma repair_domain_eq:
  assumes "registry_ok s"
  shows "repair_domain del i s =
    (if gm_has (domainsByID s) i \<and> d_LatestRunID (deref s i) \<in> set del then assign i (repaired s i (deref s i)) s else s)"
proof (cases "gm_get (domainsByID s) i")
  case (Some a)
  then show ?thesis using registry_by_id[OF assms Some]
    by (simp add: repair_domain_def gm_has_def Let_def repaired_def runs_of_domain_def)
qed (simp add: repair_domain_def gm_has_def)

lemma repair_registry_ok:
  assumes "registry_ok s"
  shows "registry_ok (repair_domain del i s)"
proof (cases "gm_get (domainsByID s) i")
  case (Some a)
  then obtain d where "gm_get (domain_heap s) i = Some d" using assms unfolding registry_ok_def by blast
  moreover have "deref s i = d" using calculation by (simp add: deref_def gm_get_or_def)
  ultimately show ?thesis using registry_ok_assign[OF assms, of i d "repaired s i d"]
    by (simp add: repair_domain_eq[OF assms] assms)
qed (simp add: repair_domain_def assms)

lemma deref_assign [simp]: "deref (assign a d s) b = (if b = a then d else deref s b)"
  by (simp add: deref_def assign_def)

lemma assign_fields [simp]:
  "runs (assign a d s) = runs s" "jobs (assign a d s) = jobs s" "entries (assign a d s) = entries s"
  "batches (assign a d s) = batches s" "domainsByID (assign a d s) = domainsByID s" "domains (assign a d s) = domains s"
  by (simp_all add: assign_def)

lemma fold_repair:
  assumes "registry_ok s" "distinct ids"
  shows "registry_ok (fold (repair_domain del) ids s) \<and>
    (\<exists>h. fold (repair_domain del) ids s = s\<lparr>domain_heap := h\<rparr>) \<and>
    (\<forall>i. deref (fold (repair_domain del) ids s) i =
      (if i \<in> set ids \<and> gm_has (domainsByID s) i \<and> d_LatestRunID (deref s i) \<in> set del then repaired s i (deref s i)
       else deref s i))"
  using assms
proof (induction ids arbitrary: s)
  case Nil
  have "s = s\<lparr>domain_heap := domain_heap s\<rparr>" by simp
  then have "\<exists>h. s = s\<lparr>domain_heap := h\<rparr>" by blast
  then show ?case using Nil by simp
next
  case (Cons i ids)
  let ?s = "repair_domain del i s"
  have eq: "?s = (if gm_has (domainsByID s) i \<and> d_LatestRunID (deref s i) \<in> set del then assign i (repaired s i (deref s i)) s else s)"
    by (rule repair_domain_eq[OF Cons.prems(1)])
  have same: "domainsByID ?s = domainsByID s" "repaired ?s = repaired s"
    by (simp_all add: eq repaired_def runs_of_domain_def fun_eq_iff)
  have der: "deref ?s k = (if k = i \<and> gm_has (domainsByID s) i \<and> d_LatestRunID (deref s i) \<in> set del then repaired s i (deref s i)
      else deref s k)" for k by (simp add: eq)
  have heap: "\<exists>h. ?s = s\<lparr>domain_heap := h\<rparr>"
  proof (cases "gm_has (domainsByID s) i \<and> d_LatestRunID (deref s i) \<in> set del")
    case True
    then show ?thesis unfolding eq assign_def by auto
  next
    case False
    have "s = s\<lparr>domain_heap := domain_heap s\<rparr>" by simp
    then show ?thesis unfolding eq using False by metis
  qed
  note IH = Cons.IH[OF repair_registry_ok[OF Cons.prems(1), of del i]]
  have i: "i \<notin> set ids" "distinct ids" using Cons.prems(2) by auto
  have "\<exists>h. fold (repair_domain del) ids ?s = s\<lparr>domain_heap := h\<rparr>" using IH[OF i(2)] heap by auto
  then show ?case using IH[OF i(2)] i unfolding same der by auto
qed

section \<open>Deleting a batch\<close>

lemma DeleteBatch_cases:
  assumes "DeleteBatch b s = Inr s'" "registry_ok s"
  obtains s3 doomed affected where "b \<noteq> []" "doomed = filter (\<lambda>(i, r). r_BatchID r = b) (runs s)"
    "set affected = r_DomainID ` snd ` set doomed - {0}" "distinct affected"
    "s' = fold (repair_domain (map fst doomed)) affected s3" "registry_ok s3"
    "runs s3 = gm_del_all (map fst doomed) (runs s)" "entries s3 = gm_del_all (map fst doomed) (entries s)"
    "jobs s3 = gm_del_all (map fst (filter (\<lambda>(i, j). j_BatchID j = b) (jobs s))) (jobs s)"
    "batches s3 = gm_del b (batches s)" "domainsByID s3 = domainsByID s" "domain_heap s3 = domain_heap s"
    "runs_ok s \<Longrightarrow> runs_ok s3"
    "\<exists>f1 f2 f3 f4 f5 f6 f7. s3 = s\<lparr>runPublicIDs := f1, entries := f2, dnssecChains := f3, runs := f4, publicIDs := f5,
       jobs := f6, batches := f7\<rparr>"
proof -
  let ?d = "filter (\<lambda>(i, r). r_BatchID r = b) (runs s)"
  let ?s1 = "fold drop_run ?d s"
  let ?s2 = "fold drop_job (filter (\<lambda>(i, j). j_BatchID j = b) (jobs ?s1)) ?s1"
  let ?s3 = "?s2\<lparr>batches := gm_del b (batches ?s2)\<rparr>"
  let ?a = "remdups (filter (\<lambda>i. i \<noteq> 0) (map (r_DomainID \<circ> snd) ?d))"
  have b: "b \<noteq> []" and s': "s' = fold (repair_domain (map fst ?d)) ?a ?s3"
    using assms(1) by (auto simp: DeleteBatch_def Let_def split: if_splits)
  have s2: "runs_ok s \<Longrightarrow> runs_ok ?s2"
    unfolding fold_drop_job by (intro remove_jobs_ok) (simp add: fold_drop_run remove_runs_ok)
  have ex: "\<exists>f1 f2 f3 f4 f5 f6 f7. ?s3 = s\<lparr>runPublicIDs := f1, entries := f2, dnssecChains := f3, runs := f4,
       publicIDs := f5, jobs := f6, batches := f7\<rparr>"
    unfolding fold_drop_job fold_drop_run by (intro exI) (rule refl)
  show thesis
    by (rule that[OF b refl _ _ s' _ _ _ _ _ _ _ _ ex]) (use assms(2) s2 in \<open>auto simp: fold_drop_run fold_drop_job\<close>)
qed

text \<open>
  The latest-run fields of every registered domain describe a stored run of that domain, or are empty.
\<close>

definition latest_describes :: "store \<Rightarrow> int \<Rightarrow> domain \<Rightarrow> bool" where
  "latest_describes s i d \<longleftrightarrow> (case GetRun (d_LatestRunID d) s of
     None \<Rightarrow> False
   | Some r \<Rightarrow> r_DomainID r = i \<and> d_LatestRunAt d = r_FinishedAt r \<and> d_LatestStatus d = r_Status r \<and>
       d_LatestLevel d = r_WorstLevel r \<and> d_LatestScore d = r_Score r \<and> d_LatestGrade d = r_Grade r)"

definition latest_valid :: "store \<Rightarrow> bool" where
  "latest_valid s \<longleftrightarrow> (\<forall>i. gm_has (domainsByID s) i \<longrightarrow>
     d_LatestRunID (deref s i) = [] \<or> latest_describes s i (deref s i))"

lemma repaired_latest:
  assumes "runs_ok s"
  shows "d_LatestRunID (repaired s i d) = [] \<or> latest_describes s i (repaired s i d)"
    "r \<in> set (runs_of_domain s i) \<Longrightarrow> r_FinishedAt r \<le> d_LatestRunAt (repaired s i d)"
    "d_RunCount (repaired s i d) = int (length (runs_of_domain s i))"
proof -
  show "d_LatestRunID (repaired s i d) = [] \<or> latest_describes s i (repaired s i d)"
  proof (cases "best_run (runs_of_domain s i)")
    case (Some r)
    then have "r \<in> set (runs_of_domain s i)" using best_run_Some by blast
    then obtain k where "(k, r) \<in> set (runs s)" and di: "r_DomainID r = i" by (auto simp: runs_of_domain_def)
    then have "gm_get (runs s) (r_ID r) = Some r" using gm_in_get runs_okD(2,8)[OF assms] by metis
    then show ?thesis using Some di by (simp add: repaired_def latest_describes_def GetRun_def latest_of_def)
  qed (simp add: repaired_def clear_latest_def)
  show "r \<in> set (runs_of_domain s i) \<Longrightarrow> r_FinishedAt r \<le> d_LatestRunAt (repaired s i d)"
    using best_run_Some[of "runs_of_domain s i"] best_run_None[of "runs_of_domain s i"]
    by (cases "best_run (runs_of_domain s i)") (auto simp: repaired_def latest_of_def)
qed (simp add: repaired_def)

lemma DeleteBatch_latest:
  assumes "runs_ok s" "registry_ok s" "latest_valid s" "DeleteBatch b s = Inr s'"
  shows "latest_valid s'"
  using assms(4,2)
proof (rule DeleteBatch_cases)
  fix s3 doomed affected
  assume d: "doomed = filter (\<lambda>(i, r). r_BatchID r = b) (runs s)"
    and a: "set affected = r_DomainID ` snd ` set doomed - {0}" "distinct affected"
    and s': "s' = fold (repair_domain (map fst doomed)) affected s3" and s3: "registry_ok s3"
    and f: "runs s3 = gm_del_all (map fst doomed) (runs s)" "domainsByID s3 = domainsByID s" "domain_heap s3 = domain_heap s"
    and ok3: "runs_ok s \<Longrightarrow> runs_ok s3"
  let ?R = "fold (repair_domain (map fst doomed)) affected s3"
  obtain h where h: "?R = s3\<lparr>domain_heap := h\<rparr>" using fold_repair[OF s3 a(2)] by blast
  have der: "deref ?R i = (if i \<in> set affected \<and> gm_has (domainsByID s3) i \<and> d_LatestRunID (deref s3 i) \<in> set (map fst doomed)
      then repaired s3 i (deref s3 i) else deref s3 i)" for i using fold_repair[OF s3 a(2)] by blast
  have get: "GetRun k ?R = (case gm_get (runs s) k of None \<Rightarrow> None | Some r \<Rightarrow> if r_BatchID r = b then None else Some r)" for k
    unfolding h GetRun_def using f(1) d gm_del_matching[OF runs_okD(2)[OF assms(1)]] by simp
  have getR: "GetRun k ?R = GetRun k s3" "latest_describes ?R = latest_describes s3" for k
    by (simp_all add: h GetRun_def latest_describes_def fun_eq_iff)
  have "d_LatestRunID (deref ?R i) = [] \<or> latest_describes ?R i (deref ?R i)" if i: "gm_has (domainsByID s) i" for i
  proof (cases "i \<in> set affected \<and> d_LatestRunID (deref s i) \<in> set (map fst doomed)")
    case True
    then have "deref ?R i = repaired s3 i (deref s3 i)" using der i f by (simp add: deref_def)
    then show ?thesis using repaired_latest(1)[OF ok3[OF assms(1)]] getR by simp
  next
    case False
    have eq: "deref ?R i = deref s i" using False der f by (auto simp: deref_def)
    show ?thesis
    proof (cases "d_LatestRunID (deref s i) = []")
      case nonempty: False
      then have ld: "latest_describes s i (deref s i)" using assms(3) i unfolding latest_valid_def by blast
      then obtain r where r: "gm_get (runs s) (d_LatestRunID (deref s i)) = Some r" "r_DomainID r = i"
        by (auto simp: latest_describes_def GetRun_def split: option.splits)
      have "r_BatchID r \<noteq> b"
      proof
        assume "r_BatchID r = b"
        then have "(d_LatestRunID (deref s i), r) \<in> set doomed" using gm_get_in[OF r(1)] d by simp
        moreover have "i \<noteq> 0" using registry_by_id[OF assms(2)] i by (force simp: gm_has_def)
        ultimately show False using False a(1) r(2) by force
      qed
      then show ?thesis using ld get r eq unfolding latest_describes_def by (simp add: GetRun_def)
    qed (simp add: eq)
  qed
  then show ?thesis unfolding latest_valid_def s' by (simp add: h f)
qed

lemma DeleteBatch_ok:
  assumes "runs_ok s" "registry_ok s" "DeleteBatch b s = Inr s'"
  shows "runs_ok s' \<and> registry_ok s' \<and> (tag_index_ok s \<longrightarrow> tag_index_ok s')"
  using assms(3,2)
proof (rule DeleteBatch_cases)
  fix s3 doomed affected
  assume a: "distinct affected" "s' = fold (repair_domain (map fst doomed)) affected s3" "registry_ok s3"
    and ok3: "runs_ok s \<Longrightarrow> runs_ok s3"
    and eq: "\<exists>f1 f2 f3 f4 f5 f6 f7. s3 = s\<lparr>runPublicIDs := f1, entries := f2, dnssecChains := f3, runs := f4,
       publicIDs := f5, jobs := f6, batches := f7\<rparr>"
  obtain h where h: "s' = s3\<lparr>domain_heap := h\<rparr>" using fold_repair[OF a(3,1)] a(2) by blast
  have "registry_ok s'" using fold_repair[OF a(3,1)] a(2) by blast
  moreover have "tag_index_ok s \<longrightarrow> tag_index_ok s'" using eq h by auto
  ultimately show ?thesis using ok3[OF assms(1)] h by simp
qed

section \<open>The invariant of the catalogs\<close>

definition catalog_ok :: "store \<Rightarrow> bool" where
  "catalog_ok s \<longleftrightarrow> gm_wf (batches s) \<and> gm_wf (analysisCohorts s) \<and> gm_wf (analysisSchedules s) \<and> gm_wf (profiles s) \<and>
     gm_wf (settings s) \<and>
     (\<forall>i b. gm_get (batches s) i = Some b \<longrightarrow> b_ID b = i) \<and>
     (\<forall>i c. gm_get (analysisCohorts s) i = Some c \<longrightarrow> c_ID c = i) \<and>
     (\<forall>i i' c c'. gm_get (analysisCohorts s) i = Some c \<longrightarrow> gm_get (analysisCohorts s) i' = Some c' \<longrightarrow>
        cohort_source c = cohort_source c' \<longrightarrow> i = i') \<and>
     (\<forall>i x. gm_get (analysisSchedules s) i = Some x \<longrightarrow> s_CohortID x = i \<and> 0 < i) \<and>
     (\<forall>i p. gm_get (profiles s) i = Some p \<longrightarrow> p_ID p = i \<and> i \<le> profileCounter s) \<and>
     (\<forall>i i' p p'. gm_get (profiles s) i = Some p \<longrightarrow> gm_get (profiles s) i' = Some p' \<longrightarrow> p_Name p = p_Name p' \<longrightarrow> i = i')"

definition profile_refs_ok :: "store \<Rightarrow> bool" where
  "profile_refs_ok s \<longleftrightarrow> (\<forall>n t p. gm_get (tags s) n = Some t \<longrightarrow> t_DefaultProfileID t = Some p \<longrightarrow> gm_has (profiles s) p)"

lemma catalog_ok_frame [simp]:
  "catalog_ok (s\<lparr>scoringCfg := x1\<rparr>) = catalog_ok s" "catalog_ok (s\<lparr>jobs := x2\<rparr>) = catalog_ok s"
  "catalog_ok (s\<lparr>publicIDs := x3\<rparr>) = catalog_ok s" "catalog_ok (s\<lparr>runs := x4\<rparr>) = catalog_ok s"
  "catalog_ok (s\<lparr>runPublicIDs := x5\<rparr>) = catalog_ok s" "catalog_ok (s\<lparr>entries := x6\<rparr>) = catalog_ok s"
  "catalog_ok (s\<lparr>dnssecChains := x7\<rparr>) = catalog_ok s" "catalog_ok (s\<lparr>entryCounter := x8\<rparr>) = catalog_ok s"
  "catalog_ok (s\<lparr>domains := x9\<rparr>) = catalog_ok s" "catalog_ok (s\<lparr>domainsByID := x10\<rparr>) = catalog_ok s"
  "catalog_ok (s\<lparr>domain_heap := x11\<rparr>) = catalog_ok s" "catalog_ok (s\<lparr>domainCounter := x12\<rparr>) = catalog_ok s"
  "catalog_ok (s\<lparr>tags := x13\<rparr>) = catalog_ok s" "catalog_ok (s\<lparr>domainTags := x14\<rparr>) = catalog_ok s"
  "catalog_ok (s\<lparr>tagDomains := x15\<rparr>) = catalog_ok s"
  "catalog_ok (s\<lparr>analysisCohortCounter := x16\<rparr>) = catalog_ok s" "catalog_ok (assign a d s) = catalog_ok s"
  by (simp_all add: catalog_ok_def assign_def)

lemma catalog_ok_new: "catalog_ok NewInMemoryJobStore" "profile_refs_ok NewInMemoryJobStore"
  by (simp_all add: catalog_ok_def profile_refs_ok_def NewInMemoryJobStore_def)

lemma catalog_okD:
  assumes "catalog_ok s"
  shows "gm_wf (batches s)" "gm_wf (analysisCohorts s)" "gm_wf (analysisSchedules s)" "gm_wf (profiles s)" "gm_wf (settings s)"
    "gm_get (analysisCohorts s) i = Some c \<Longrightarrow> c_ID c = i"
    "gm_get (analysisCohorts s) i = Some c \<Longrightarrow> gm_get (analysisCohorts s) i' = Some c' \<Longrightarrow>
       cohort_source c = cohort_source c' \<Longrightarrow> i = i'"
    "gm_get (analysisSchedules s) i = Some x \<Longrightarrow> s_CohortID x = i \<and> 0 < i"
    "gm_get (profiles s) i = Some p \<Longrightarrow> p_ID p = i \<and> i \<le> profileCounter s"
    "gm_get (profiles s) i = Some p \<Longrightarrow> gm_get (profiles s) i' = Some p' \<Longrightarrow> p_Name p = p_Name p' \<Longrightarrow> i = i'"
    "gm_get (batches s) k = Some b \<Longrightarrow> b_ID b = k"
  using assms unfolding catalog_ok_def by blast+

subsection \<open>Catalog operations keep the invariant\<close>

lemma CreateBatch_ok: "catalog_ok s \<Longrightarrow> catalog_ok (CreateBatch b s)"
  unfolding CreateBatch_def catalog_ok_def by (simp add: gm.get_put)

lemma SetBatchSnapshotIntent_ok: "catalog_ok s \<Longrightarrow> SetBatchSnapshotIntent b x s = Inr s' \<Longrightarrow> catalog_ok s'"
  unfolding SetBatchSnapshotIntent_def catalog_ok_def by (auto simp: gm.get_put split: option.splits if_splits)

lemma batch_delete_catalog_ok: "catalog_ok s \<Longrightarrow> catalog_ok (s\<lparr>batches := gm_del b (batches s)\<rparr>)"
  unfolding catalog_ok_def by (simp add: gm.get_del)

lemma find_source:
  "find (\<lambda>(i, e). c_SourceType e = c_SourceType c \<and> c_SourceTag e = c_SourceTag c) m = Some (i, e) \<Longrightarrow>
     (i, e) \<in> set m \<and> cohort_source e = cohort_source c"
  "find (\<lambda>(i, e). c_SourceType e = c_SourceType c \<and> c_SourceTag e = c_SourceTag c) m = None \<Longrightarrow>
     (j, f) \<in> set m \<Longrightarrow> cohort_source f \<noteq> cohort_source c"
  by (auto simp: find_Some_iff find_None_iff cohort_source_def in_set_conv_nth)

lemma cohort_set_ok:
  assumes "catalog_ok s" "c_ID c = i"
    "\<And>j f. gm_get (analysisCohorts s) j = Some f \<Longrightarrow> cohort_source f = cohort_source c \<Longrightarrow> j = i"
  shows "catalog_ok (s\<lparr>analysisCohorts := gm_set i c (analysisCohorts s)\<rparr>)"
  using assms unfolding catalog_ok_def by (simp add: gm.get_put)

lemma UpsertAnalysisCohort_ok:
  assumes "catalog_ok s" "UpsertAnalysisCohort now c0 s = Inr (c', s')"
  shows "catalog_ok s' \<and> gm_get (analysisCohorts s') (c_ID c') = Some c' \<and> cohort_source c' = cohort_source c0"
proof -
  let ?c = "cohort_defaults c0"
  have src: "cohort_source ?c = cohort_source c0" by (simp add: cohort_defaults_def cohort_source_def)
  show ?thesis
  proof (cases "find (\<lambda>(i, e). c_SourceType e = c_SourceType ?c \<and> c_SourceTag e = c_SourceTag ?c) (analysisCohorts s)")
    case None
    have fresh: "gm_get (analysisCohorts s) j = Some f \<Longrightarrow> cohort_source f \<noteq> cohort_source ?c" for j f
      using find_source(2)[OF None] gm_get_in by fastforce
    define n where "n = (if c_ID ?c = 0 then analysisCohortCounter s + 1 else analysisCohortCounter s)"
    have e: "c' = inserted_cohort now n ?c"
      and s': "s' = s\<lparr>analysisCohortCounter := n, analysisCohorts := gm_set (c_ID c') c' (analysisCohorts s)\<rparr>"
      using assms(2) None unfolding UpsertAnalysisCohort_def Let_def n_def[symmetric] by (auto split: if_split_asm)
    have c': "cohort_source c' = cohort_source ?c" unfolding e by (simp add: inserted_cohort_def cohort_source_def Let_def)
    have "catalog_ok (s\<lparr>analysisCohortCounter := n\<rparr>)" using assms(1) by simp
    from cohort_set_ok[OF this refl, of c'] fresh show ?thesis using s' c' src by (simp add: gm.get_put)
  next
    case (Some x)
    obtain i e where x: "x = (i, e)" by fastforce
    have e: "gm_get (analysisCohorts s) i = Some e" "cohort_source e = cohort_source ?c"
      using find_source(1)[OF Some[unfolded x]] gm_in_get[OF catalog_okD(2)[OF assms(1)]] by auto
    have u: "c' = updated_cohort now i e ?c" and s': "s' = s\<lparr>analysisCohorts := gm_set i c' (analysisCohorts s)\<rparr>"
      using assms(2) Some x unfolding UpsertAnalysisCohort_def Let_def by (auto split: if_split_asm)
    have c': "cohort_source c' = cohort_source ?c" "c_ID c' = i" unfolding u by (simp_all add: updated_cohort_def cohort_source_def)
    have "gm_get (analysisCohorts s) j = Some f \<Longrightarrow> cohort_source f = cohort_source c' \<Longrightarrow> j = i" for j f
      using catalog_okD(7)[OF assms(1) _ e(1)] e(2) c' by metis
    from cohort_set_ok[OF assms(1) c'(2) this] show ?thesis using s' c' src by (simp add: gm.get_put)
  qed
qed

lemma DeleteAnalysisCohort_ok: "catalog_ok s \<Longrightarrow> catalog_ok (DeleteAnalysisCohort i s)"
  unfolding DeleteAnalysisCohort_def catalog_ok_def by (simp add: gm.get_del)

lemma schedule_set_ok:
  "catalog_ok s \<Longrightarrow> s_CohortID x = i \<Longrightarrow> 0 < i \<Longrightarrow> catalog_ok (s\<lparr>analysisSchedules := gm_set i x (analysisSchedules s)\<rparr>)"
  unfolding catalog_ok_def by (simp add: gm.get_put)

lemma PutAnalysisCohortSchedule_ok:
  "catalog_ok s \<Longrightarrow> PutAnalysisCohortSchedule now x s = Inr (x', s') \<Longrightarrow> catalog_ok s'"
  by (auto simp: PutAnalysisCohortSchedule_def Let_def split: if_splits option.splits intro!: schedule_set_ok)

lemma DeleteAnalysisCohortSchedule_ok: "catalog_ok s \<Longrightarrow> catalog_ok (DeleteAnalysisCohortSchedule i s)"
  unfolding DeleteAnalysisCohortSchedule_def catalog_ok_def by (simp add: gm.get_del)

lemma ClaimAnalysisCohortSchedule_ok:
  "catalog_ok s \<Longrightarrow> ClaimAnalysisCohortSchedule i e n s = (b, s') \<Longrightarrow> catalog_ok s'"
  by (auto simp: ClaimAnalysisCohortSchedule_def split: option.splits if_splits dest: catalog_okD(8) intro!: schedule_set_ok)

lemma RecordAnalysisCohortScheduleOutcome_ok:
  "catalog_ok s \<Longrightarrow> catalog_ok (RecordAnalysisCohortScheduleOutcome i t b x e s)"
  by (auto simp: RecordAnalysisCohortScheduleOutcome_def split: option.splits dest: catalog_okD(8) intro!: schedule_set_ok)

lemma profile_set_ok:
  assumes "catalog_ok s" "p_ID p = i" "i \<le> profileCounter s"
    "\<And>j q. gm_get (profiles s) j = Some q \<Longrightarrow> p_Name q = p_Name p \<Longrightarrow> j = i"
  shows "catalog_ok (s\<lparr>profiles := gm_set i p (profiles s)\<rparr>)"
  using assms unfolding catalog_ok_def by (simp add: gm.get_put)

lemma CreateProfile_ok:
  assumes "catalog_ok s" "CreateProfile now p s = Inr (p', s')"
  shows "catalog_ok s' \<and> (profile_refs_ok s \<longrightarrow> profile_refs_ok s') \<and> gm_get (profiles s') (p_ID p') = Some p' \<and>
    gm_get (profiles s) (p_ID p') = None \<and> p_Name p' = p_Name p"
proof -
  let ?s = "s\<lparr>profileCounter := profileCounter s + 1\<rparr>"
  have none: "\<not> (\<exists>(i, e) \<in> set (profiles s). p_Name e = p_Name p)" and p': "p_ID p' = profileCounter s + 1" "p_Name p' = p_Name p"
    and s': "s' = s\<lparr>profileCounter := profileCounter s + 1, profiles := gm_set (p_ID p') p' (profiles s)\<rparr>"
    using assms(2) by (auto simp: CreateProfile_def Let_def split: if_splits)
  have "catalog_ok ?s" using assms(1) unfolding catalog_ok_def by fastforce
  moreover have "gm_get (profiles s) j = Some q \<Longrightarrow> p_Name q = p_Name p' \<Longrightarrow> j = p_ID p'" for j q
    using none gm_get_in p'(2) by fastforce
  ultimately have "catalog_ok (?s\<lparr>profiles := gm_set (p_ID p') p' (profiles ?s)\<rparr>)"
    by (intro profile_set_ok) (use p' in auto)
  moreover have "gm_get (profiles s) (p_ID p') = None"
    using catalog_okD(9)[OF assms(1), of "p_ID p'"] p'(1) by (cases "gm_get (profiles s) (p_ID p')") auto
  ultimately show ?thesis using s' p' by (simp add: gm.get_put profile_refs_ok_def)
qed

lemma UpdateProfile_ok:
  assumes "catalog_ok s" "UpdateProfile now p s = Inr s'"
  shows "catalog_ok s' \<and> (profile_refs_ok s \<longrightarrow> profile_refs_ok s')"
proof -
  have h: "gm_has (profiles s) (p_ID p)" and none: "\<not> (\<exists>(i, e) \<in> set (profiles s). p_Name e = p_Name p \<and> p_ID e \<noteq> p_ID p)"
    and s': "s' = s\<lparr>profiles := gm_set (p_ID p) (p\<lparr>p_UpdatedAt := now\<rparr>) (profiles s)\<rparr>"
    using assms(2) by (auto simp: UpdateProfile_def split: if_splits)
  have "gm_get (profiles s) j = Some q \<Longrightarrow> p_Name q = p_Name p \<Longrightarrow> j = p_ID p" for j q
    using none gm_get_in catalog_okD(9)[OF assms(1)] by fastforce
  moreover have "p_ID p \<le> profileCounter s" using h catalog_okD(9)[OF assms(1)] by (auto simp: gm_has_def)
  ultimately show ?thesis using profile_set_ok[OF assms(1), of "p\<lparr>p_UpdatedAt := now\<rparr>" "p_ID p"] s'
    by (simp add: profile_refs_ok_def)
qed

lemma runs_ok_map:
  assumes "runs_ok s" "\<And>r. r_ID (fr r) = r_ID r" "\<And>r. r_Domain (fr r) = r_Domain r" "\<And>r. r_DomainID (fr r) = r_DomainID r"
    "\<And>r es. counters_agree (fr r) es = counters_agree r es" "\<And>j. j_ID (fj j) = j_ID j"
  shows "runs_ok (s\<lparr>jobs := gm_map (\<lambda>_. fj) (jobs s), runs := gm_map (\<lambda>_. fr) (runs s)\<rparr>)"
  using assms(1) unfolding runs_ok_def gm_has_def by (auto simp: assms(2-))

lemma gm_map_all: "(\<And>x. Q (f x)) \<Longrightarrow> \<forall>k y. gm_get (gm_map (\<lambda>_. f) m) k = Some y \<longrightarrow> Q y"
  by auto

lemma DeleteProfile_eq:
  assumes "DeleteProfile i s = Inr s'"
  shows "s' = s\<lparr>profiles := gm_del i (profiles s),
    tags := gm_map (\<lambda>_ t. if t_DefaultProfileID t = Some i then t\<lparr>t_DefaultProfileID := None\<rparr> else t) (tags s),
    jobs := gm_map (\<lambda>_ j. if j_ProfileID j = Some i then j\<lparr>j_ProfileID := None\<rparr> else j) (jobs s),
    runs := gm_map (\<lambda>_ r. if r_ProfileID r = Some i then r\<lparr>r_ProfileID := None\<rparr> else r) (runs s)\<rparr>"
  using assms by (simp add: DeleteProfile_def split: if_split_asm)

lemma DeleteProfile_ok:
  assumes "DeleteProfile i s = Inr s'"
  shows "catalog_ok s \<Longrightarrow> catalog_ok s'" "profile_refs_ok s \<Longrightarrow> profile_refs_ok s'" "registry_ok s \<Longrightarrow> registry_ok s'"
    "tag_index_ok s \<Longrightarrow> tag_index_ok s'" "runs_ok s \<Longrightarrow> runs_ok s'"
proof -
  let ?t = "\<lambda>t. if t_DefaultProfileID t = Some i then t\<lparr>t_DefaultProfileID := None\<rparr> else t"
  let ?j = "\<lambda>j. if j_ProfileID j = Some i then j\<lparr>j_ProfileID := None\<rparr> else j"
  let ?r = "\<lambda>r. if r_ProfileID r = Some i then r\<lparr>r_ProfileID := None\<rparr> else r"
  note s' = DeleteProfile_eq[OF assms]
  show "catalog_ok s \<Longrightarrow> catalog_ok s'" unfolding s' catalog_ok_def by (simp add: gm.get_del)
  show "profile_refs_ok s \<Longrightarrow> profile_refs_ok s'"
  proof -
    assume h: "profile_refs_ok s"
    have "gm_has (profiles s') p" if get: "gm_get (tags s') n = Some t" "t_DefaultProfileID t = Some p" for n t p
    proof -
      obtain t0 where t0: "gm_get (tags s) n = Some t0" "t = ?t t0" using get(1) by (auto simp: s')
      then have "t_DefaultProfileID t0 = Some p" "p \<noteq> i" using get(2) by (auto split: if_split_asm)
      then have "gm_has (profiles s) p" "p \<noteq> i" using h t0(1) unfolding profile_refs_ok_def by blast+
      then show ?thesis by (simp add: s' gm_has_def gm.get_del)
    qed
    then show ?thesis unfolding profile_refs_ok_def by blast
  qed
  show "registry_ok s \<Longrightarrow> registry_ok s'" by (simp add: s')
  show "tag_index_ok s \<Longrightarrow> tag_index_ok s'" unfolding s' tag_index_ok_def tags_of_def domains_of_def
    by (auto simp: gm_has_def)
  have cnt: "counters_agree (?r r) es = counters_agree r es" "r_ID (?r r) = r_ID r" "r_Domain (?r r) = r_Domain r"
    "r_DomainID (?r r) = r_DomainID r" "j_ID (?j j) = j_ID j" for r es j by (simp_all add: counters_agree_def)
  show "runs_ok s \<Longrightarrow> runs_ok s'"
  proof -
    assume "runs_ok s"
    then have "runs_ok (s\<lparr>profiles := gm_del i (profiles s), tags := gm_map (\<lambda>_. ?t) (tags s)\<rparr>)" by simp
    from runs_ok_map[OF this, of ?r ?j, OF cnt(2,3,4,1,5)] show ?thesis unfolding s' by simp
  qed
qed

section \<open>Purging\<close>

lemma purge_get:
  assumes "runs_ok s" "ds = filter (\<lambda>(i, r). P r) (runs s)"
  shows "GetRun i (fold purge_run ds s) = (case GetRun i s of None \<Rightarrow> None | Some r \<Rightarrow> if P r then None else Some r)"
    "gm_has (entries (fold purge_run ds s)) i \<longleftrightarrow> gm_has (runs (fold purge_run ds s)) i"
    "runs_ok (fold purge_run ds s)"
proof -
  show "GetRun i (fold purge_run ds s) = (case GetRun i s of None \<Rightarrow> None | Some r \<Rightarrow> if P r then None else Some r)"
    unfolding GetRun_def fold_purge_run using gm_del_matching[OF runs_okD(2)[OF assms(1)], of P i] assms(2) by simp
  show ok: "runs_ok (fold purge_run ds s)" unfolding fold_purge_run by (rule remove_runs_ok[OF assms(1)])
  show "gm_has (entries (fold purge_run ds s)) i \<longleftrightarrow> gm_has (runs (fold purge_run ds s)) i"
    using runs_okD(10,11)[OF ok] unfolding gm_has_def by force
qed

lemma length_filter_runs:
  assumes "gm_wf m"
  shows "length (filter (\<lambda>(i, r). P r) m) = card {i. \<exists>r. gm_get m i = Some r \<and> P r}"
proof -
  have "distinct (map fst (filter (\<lambda>(i, r). P r) m))" using assms by (simp add: gm_wf_def distinct_map_filter)
  then have "card (set (map fst (filter (\<lambda>(i, r). P r) m))) = length (filter (\<lambda>(i, r). P r) m)"
    using distinct_card by fastforce
  moreover have "set (map fst (filter (\<lambda>(i, r). P r) m)) = {i. \<exists>r. gm_get m i = Some r \<and> P r}"
    using gm_get_iff[OF assms] by force
  ultimately show ?thesis by simp
qed

section \<open>Claims on due schedules\<close>

text \<open>
  Several schedulers that saw the same due time try to claim the schedule, one after the other; each has
  computed its own next time.
\<close>

fun claims :: "int \<Rightarrow> gotime \<Rightarrow> gotime list \<Rightarrow> store \<Rightarrow> bool list" where
  "claims c expected [] s = []"
| "claims c expected (n # ns) s = (case ClaimAnalysisCohortSchedule c expected n s of (b, s') \<Rightarrow> b # claims c expected ns s')"

lemma claim_refused:
  "(\<And>x. gm_get (analysisSchedules s) c = Some x \<Longrightarrow> s_Enabled x \<Longrightarrow> s_NextRunAt x \<noteq> expected) \<Longrightarrow>
     claims c expected ns s = replicate (length ns) False"
  by (induction ns) (auto simp: ClaimAnalysisCohortSchedule_def split: option.splits)

lemma claims_once:
  assumes "expected \<notin> set ns"
  shows "claims c expected ns s =
    (case gm_get (analysisSchedules s) c of
       None \<Rightarrow> replicate (length ns) False
     | Some x \<Rightarrow> if ns \<noteq> [] \<and> s_Enabled x \<and> s_NextRunAt x = expected then True # replicate (length ns - 1) False
               else replicate (length ns) False)"
proof (cases ns)
  case (Cons n ns')
  show ?thesis
  proof (cases "\<exists>x. gm_get (analysisSchedules s) c = Some x \<and> s_Enabled x \<and> s_NextRunAt x = expected")
    case True
    then obtain x where x: "gm_get (analysisSchedules s) c = Some x" "s_Enabled x" "s_NextRunAt x = expected" by blast
    let ?s = "s\<lparr>analysisSchedules := gm_set c (x\<lparr>s_NextRunAt := n\<rparr>) (analysisSchedules s)\<rparr>"
    have "claims c expected ns' ?s = replicate (length ns') False"
      using assms Cons by (intro claim_refused) (auto simp: gm.get_put)
    then show ?thesis using x Cons by (simp add: ClaimAnalysisCohortSchedule_def)
  next
    case False
    then show ?thesis using claim_refused[of s c expected ns] by (auto split: option.splits)
  qed
qed (simp split: option.splits)

section \<open>Properties\<close>

text \<open>
  C13. Deleting a batch removes exactly its rows. From a consistent store, deleting a batch removes every run, every
  job and the entries of that batch and the batch itself, keeps all others, leaves the store consistent, and
  keeps every domain's latest-run fields describing a stored run of that domain.
\<close>

theorem delete_batch_complete:
  assumes "runs_ok s" "registry_ok s" "DeleteBatch b s = Inr s'"
  shows "(\<forall>i. GetRun i s' = (case GetRun i s of None \<Rightarrow> None | Some r \<Rightarrow> if r_BatchID r = b then None else Some r)) \<and>
    (\<forall>i. gm_get (jobs s') i = (case gm_get (jobs s) i of None \<Rightarrow> None | Some j \<Rightarrow> if j_BatchID j = b then None else Some j)) \<and>
    (\<forall>i. gm_has (entries s') i \<longleftrightarrow> GetRun i s' \<noteq> None) \<and> GetBatch b s' = None \<and> \<not> BatchHasRuns b s' \<and>
    runs_ok s' \<and> registry_ok s' \<and> (latest_valid s \<longrightarrow> latest_valid s')"
proof -
  have ok: "runs_ok s'" "registry_ok s'" using DeleteBatch_ok[OF assms] by auto
  have runs: "GetRun i s' = (case GetRun i s of None \<Rightarrow> None | Some r \<Rightarrow> if r_BatchID r = b then None else Some r)"
    and jobs: "gm_get (jobs s') i = (case gm_get (jobs s) i of None \<Rightarrow> None | Some j \<Rightarrow> if j_BatchID j = b then None else Some j)"
    and bat: "GetBatch b s' = None" for i
    using assms(3,2)
  proof (atomize (full), rule DeleteBatch_cases)
    fix s3 doomed affected
    assume a: "distinct affected" "s' = fold (repair_domain (map fst doomed)) affected s3" "registry_ok s3"
      and d: "doomed = filter (\<lambda>(i, r). r_BatchID r = b) (runs s)"
      and f: "runs s3 = gm_del_all (map fst doomed) (runs s)"
      "jobs s3 = gm_del_all (map fst (filter (\<lambda>(i, j). j_BatchID j = b) (jobs s))) (jobs s)" "batches s3 = gm_del b (batches s)"
    obtain h where "s' = s3\<lparr>domain_heap := h\<rparr>" using fold_repair[OF a(3,1)] a(2) by blast
    then have g: "runs s' = runs s3" "jobs s' = jobs s3" "batches s' = batches s3" by auto
    show "GetRun i s' = (case GetRun i s of None \<Rightarrow> None | Some r \<Rightarrow> if r_BatchID r = b then None else Some r) \<and>
      gm_get (jobs s') i = (case gm_get (jobs s) i of None \<Rightarrow> None | Some j \<Rightarrow> if j_BatchID j = b then None else Some j) \<and>
      GetBatch b s' = None" for i
      unfolding GetRun_def GetBatch_def g f d
      by (simp add: gm_del_matching[OF runs_okD(2)[OF assms(1)]] gm_del_matching[OF runs_okD(1)[OF assms(1)]] gm.get_del)
  qed
  have "\<not> BatchHasRuns b s'"
  proof
    assume "BatchHasRuns b s'"
    then obtain i r where "gm_get (runs s') i = Some r" "r_BatchID r = b"
      using gm_in_get[OF runs_okD(2)[OF ok(1)]] by (auto simp: BatchHasRuns_def)
    then show False using runs[of i] by (auto simp: GetRun_def split: option.splits if_splits)
  qed
  moreover have "gm_has (entries s') i \<longleftrightarrow> GetRun i s' \<noteq> None" for i
    using runs_okD(10,11)[OF ok(1)] unfolding GetRun_def gm_has_def by force
  moreover have "latest_valid s \<longrightarrow> latest_valid s'" using DeleteBatch_latest[OF assms(1,2) _ assms(3)] by blast
  ultimately show ?thesis using runs jobs bat ok by blast
qed

theorem delete_batch_complete_witness:
  "map_option (\<lambda>s. (GetRun ''j1'' s, BatchHasRuns ''b1'' s)) (case DeleteBatch ''b1'' sample_graduated of Inl e \<Rightarrow> None | Inr s \<Rightarrow> Some s)
     = Some (None, False)"
proof -
  obtain s' where s': "DeleteBatch ''b1'' sample_graduated = Inr s'" by (auto simp: DeleteBatch_def Let_def)
  have "map_option r_BatchID (GetRun ''j1'' sample_graduated) = Some ''b1''" by code_simp
  then obtain r where "GetRun ''j1'' sample_graduated = Some r" "r_BatchID r = ''b1''" by auto
  then show ?thesis using delete_batch_complete[OF sample_ok(4,5) s'] s' by simp
qed

text \<open>
  A purge removes exactly the finished runs older than the cutoff: it keeps every other run, removes the entries with the
  runs, reports how many runs it removed, and leaves the store consistent.
\<close>

theorem purge_removes_old_runs:
  assumes "runs_ok s" "PurgeOlderThan cutoff s = (n, s')"
  defines "old \<equiv> \<lambda>r. isTerminalStatus (r_Status r) \<and> r_FinishedAt r \<noteq> 0 \<and> r_FinishedAt r < cutoff"
  shows "(\<forall>i. GetRun i s' = (case GetRun i s of None \<Rightarrow> None | Some r \<Rightarrow> if old r then None else Some r)) \<and>
    n = int (card {i. \<exists>r. GetRun i s = Some r \<and> old r}) \<and>
    (\<forall>i. gm_has (entries s') i \<longleftrightarrow> GetRun i s' \<noteq> None) \<and> runs_ok s'"
proof -
  let ?ds = "filter (\<lambda>(i, r). old r) (runs s)"
  have s': "s' = fold purge_run ?ds s" "n = int (length ?ds)" using assms(2) by (auto simp: PurgeOlderThan_def Let_def old_def)
  show ?thesis unfolding s'
    using purge_get[OF assms(1), of ?ds old] length_filter_runs[OF runs_okD(2)[OF assms(1)], of old]
    by (simp add: GetRun_def gm_has_def)
qed

theorem purge_removes_old_runs_witness:
  "GetRun ''j1'' (snd (PurgeOlderThan 7 sample_graduated)) = None"
proof -
  have "map_option (\<lambda>r. isTerminalStatus (r_Status r) \<and> r_FinishedAt r \<noteq> 0 \<and> r_FinishedAt r < 7) (GetRun ''j1'' sample_graduated) = Some True"
    by code_simp
  then obtain r where "GetRun ''j1'' sample_graduated = Some r" "isTerminalStatus (r_Status r) \<and> r_FinishedAt r \<noteq> 0 \<and> r_FinishedAt r < 7"
    by auto
  then show ?thesis
    using purge_removes_old_runs[OF sample_ok(4), of 7 "fst (PurgeOlderThan 7 sample_graduated)" "snd (PurgeOlderThan 7 sample_graduated)"]
    by simp
qed

text \<open>
  A purge does not repair the latest-run fields. When a purge removes the latest run of a domain, the domain still
  names that run as its latest one, although it can no longer be found; deleting a batch repairs the fields.
\<close>

theorem purge_leaves_dangling_latest:
  assumes "runs_ok s" "GetDomain i s = Some d" "GetRun (d_LatestRunID d) s = Some r"
    "isTerminalStatus (r_Status r)" "r_FinishedAt r \<noteq> 0" "r_FinishedAt r < cutoff"
  shows "map_option d_LatestRunID (GetDomain i (snd (PurgeOlderThan cutoff s))) = Some (d_LatestRunID d) \<and>
    GetRun (d_LatestRunID d) (snd (PurgeOlderThan cutoff s)) = None"
proof -
  let ?old = "\<lambda>r. isTerminalStatus (r_Status r) \<and> r_FinishedAt r \<noteq> 0 \<and> r_FinishedAt r < cutoff"
  have s': "snd (PurgeOlderThan cutoff s) = fold purge_run (filter (\<lambda>(i, r). ?old r) (runs s)) s"
    by (simp add: PurgeOlderThan_def Let_def)
  have "GetDomain i (fold purge_run ds s) = GetDomain i s" for ds
    by (simp add: fold_purge_run GetDomain_def with_tags_def tags_of_def deref_def split: option.splits)
  then show ?thesis unfolding s' using purge_get(1)[OF assms(1) refl, where P = ?old] assms(2-) by simp
qed

theorem purge_leaves_dangling_latest_witness:
  "map_option d_LatestRunID (GetDomain 1 (snd (PurgeOlderThan 7 sample_graduated))) = Some ''j1''"
proof -
  have "map_option d_LatestRunID (GetDomain 1 sample_graduated) = Some ''j1''" by code_simp
  then obtain d where d: "GetDomain 1 sample_graduated = Some d" "d_LatestRunID d = ''j1''" by auto
  have "map_option (\<lambda>r. isTerminalStatus (r_Status r) \<and> r_FinishedAt r \<noteq> 0 \<and> r_FinishedAt r < 7) (GetRun ''j1'' sample_graduated) = Some True"
    by code_simp
  then obtain r where "GetRun ''j1'' sample_graduated = Some r" "isTerminalStatus (r_Status r)" "r_FinishedAt r \<noteq> 0"
    "r_FinishedAt r < 7" by auto
  then show ?thesis using purge_leaves_dangling_latest[OF sample_ok(4) d(1), of r 7] d(2) by simp
qed

text \<open>
  C17. A due schedule is claimed by one scheduler. The list of due schedules holds exactly the enabled schedules
  whose time has come, oldest first; when any number of schedulers claim one of them with the time they saw and
  later next times of their own, the first succeeds and all others fail.
\<close>

theorem due_schedule_claimed_once:
  assumes "catalog_ok s" "x \<in> set (ListDueAnalysisCohortSchedules now s)" "ns \<noteq> []" "\<forall>n \<in> set ns. now < n"
  shows "GetAnalysisCohortSchedule (s_CohortID x) s = Some x \<and> s_Enabled x \<and> s_NextRunAt x \<le> now \<and>
    claims (s_CohortID x) (s_NextRunAt x) ns s = True # replicate (length ns - 1) False \<and>
    sorted_wrt (\<lambda>a b. s_NextRunAt a \<le> s_NextRunAt b) (ListDueAnalysisCohortSchedules now s)"
proof -
  have x: "x \<in> snd ` set (analysisSchedules s)" "s_Enabled x" "s_NextRunAt x \<le> now"
    using assms(2) by (auto simp: ListDueAnalysisCohortSchedules_def)
  then obtain i where "gm_get (analysisSchedules s) i = Some x"
    using gm_in_get[OF catalog_okD(3)[OF assms(1)]] by (metis imageE prod.collapse)
  then have g: "gm_get (analysisSchedules s) (s_CohortID x) = Some x" using catalog_okD(8)[OF assms(1)] by auto
  have "s_NextRunAt x \<notin> set ns" using assms(4) x(3) by force
  from claims_once[OF this, of "s_CohortID x" s] have "claims (s_CohortID x) (s_NextRunAt x) ns s = True # replicate (length ns - 1) False"
    using g x assms(3) by simp
  moreover have "keyed_order (cmp_asc s_NextRunAt (cmp_key s_CohortID) :: cohort_schedule \<Rightarrow> _) s_CohortID"
    by (simp add: keyed_orders)
  note wo = keyed_order.axioms(1)[OF this]
  have "sorted_wrt (\<lambda>a b. s_NextRunAt a \<le> s_NextRunAt b) (ListDueAnalysisCohortSchedules now s)"
    unfolding ListDueAnalysisCohortSchedules_def
    by (rule sorted_wrt_mono_rel[OF _ weak_order.sort_by_sorted[OF wo]]) (auto simp: cmp_asc_def split: if_splits)
  ultimately show ?thesis using g x by (simp add: GetAnalysisCohortSchedule_def)
qed

definition due_sample :: cohort_schedule where
  "due_sample = \<lparr>s_CohortID = 1, s_SourceTag = [], s_Label = [], s_Enabled = True, s_Rule = daily_rule, s_ProfileID = Some 4,
     s_PromoteDefault = False, s_CatchUp = False, s_NextRunAt = 10, s_LastRunAt = 0, s_LastBatchID = [],
     s_LastOutcome = [], s_LastError = [], s_CreatedAt = 0, s_UpdatedAt = 0\<rparr>"

definition due_store :: store where
  "due_store = (case PutAnalysisCohortSchedule 3 due_sample NewInMemoryJobStore of Inr (_, s) \<Rightarrow> s | Inl _ \<Rightarrow> NewInMemoryJobStore)"

lemma due_store_ok: "catalog_ok due_store"
proof -
  have "\<exists>x. PutAnalysisCohortSchedule 3 due_sample NewInMemoryJobStore = Inr (x, due_store)"
    by (simp add: due_store_def PutAnalysisCohortSchedule_def due_sample_def Let_def)
  then show ?thesis using PutAnalysisCohortSchedule_ok[OF catalog_ok_new(1)] by blast
qed

theorem due_schedule_claimed_once_witness:
  "claims 1 10 [20, 30] due_store = [True, False]"
proof -
  have "map s_CohortID (ListDueAnalysisCohortSchedules 12 due_store) = [1] \<and>
      map s_NextRunAt (ListDueAnalysisCohortSchedules 12 due_store) = [10]" by code_simp
  then obtain x where "x \<in> set (ListDueAnalysisCohortSchedules 12 due_store)" "s_CohortID x = 1" "s_NextRunAt x = 10"
    by (auto simp: map_eq_Cons_conv)
  then show ?thesis using due_schedule_claimed_once[OF due_store_ok, of x 12 "[20, 30]"] by simp
qed

lemma GetProfileByName_mem: "GetProfileByName m z = Some x \<Longrightarrow> x \<in> snd ` set (profiles z) \<and> p_Name x = m"
  by (auto simp: GetProfileByName_def find_Some_iff)

lemma GetProfileByName_None: "GetProfileByName m s = None \<longleftrightarrow> \<not> (\<exists>(i, e) \<in> set (profiles s). p_Name e = m)"
  by (auto simp: GetProfileByName_def find_None_iff)

lemma GetProfileByName_iff:
  assumes "catalog_ok z"
  shows "GetProfileByName m z = Some x \<longleftrightarrow> GetProfile (p_ID x) z = Some x \<and> p_Name x = m"
proof
  assume "GetProfileByName m z = Some x"
  then show "GetProfile (p_ID x) z = Some x \<and> p_Name x = m"
    using GetProfileByName_mem gm_in_get[OF catalog_okD(4)[OF assms]] catalog_okD(9)[OF assms] unfolding GetProfile_def by fastforce
next
  assume x: "GetProfile (p_ID x) z = Some x \<and> p_Name x = m"
  then have "GetProfileByName m z \<noteq> None"
    using gm_get_in[of "profiles z"] unfolding GetProfile_def GetProfileByName_None by fastforce
  then obtain y where y: "GetProfileByName m z = Some y" by blast
  then show "GetProfileByName m z = Some x"
    using GetProfileByName_mem[OF y] x gm_in_get[OF catalog_okD(4)[OF assms]] catalog_okD(10)[OF assms]
    unfolding GetProfile_def by fastforce
qed

lemma CreateProfile_result:
  assumes "catalog_ok s"
  shows "case CreateProfile now q s of
       Inl e \<Rightarrow> e = ProfileNameExists (p_Name q) \<and> GetProfileByName (p_Name q) s \<noteq> None
     | Inr (q', s') \<Rightarrow> catalog_ok s' \<and> GetProfileByName (p_Name q) s = None \<and> GetProfile (p_ID q') s = None \<and>
         GetProfileByName (p_Name q) s' = Some q'"
proof (cases "CreateProfile now q s")
  case (Inl e)
  then show ?thesis using GetProfileByName_None[of "p_Name q" s] by (auto simp: CreateProfile_def Let_def split: if_split_asm)
next
  case (Inr x)
  obtain q' s' where x: "x = (q', s')" by fastforce
  have "GetProfileByName (p_Name q) s = None"
    using Inr GetProfileByName_None[of "p_Name q" s] by (auto simp: CreateProfile_def split: if_split_asm)
  then show ?thesis
    using CreateProfile_ok[OF assms Inr[unfolded x]] Inr x GetProfileByName_iff[of s' "p_Name q" q'] by (simp add: GetProfile_def)
qed

text \<open>
  Profiles are known by id and by name. In a consistent store both lookups find the same profiles; creating a profile
  under a name in use is refused and otherwise gives a new id; deleting a profile removes it and every reference to
  it from tags, jobs and runs.
\<close>

theorem profile_lookups:
  assumes "catalog_ok s"
  shows "(GetProfileByName n s = Some p \<longleftrightarrow> GetProfile (p_ID p) s = Some p \<and> p_Name p = n) \<and>
    (case CreateProfile now q s of
       Inl e \<Rightarrow> e = ProfileNameExists (p_Name q) \<and> GetProfileByName (p_Name q) s \<noteq> None
     | Inr (q', s') \<Rightarrow> catalog_ok s' \<and> GetProfileByName (p_Name q) s = None \<and> GetProfile (p_ID q') s = None \<and>
         GetProfileByName (p_Name q) s' = Some q') \<and>
    (\<forall>s'. DeleteProfile i s = Inr s' \<longrightarrow> GetProfile i s' = None \<and>
       (\<forall>k t. gm_get (tags s') k = Some t \<longrightarrow> t_DefaultProfileID t \<noteq> Some i) \<and>
       (\<forall>k j. gm_get (jobs s') k = Some j \<longrightarrow> j_ProfileID j \<noteq> Some i) \<and>
       (\<forall>k r. gm_get (runs s') k = Some r \<longrightarrow> r_ProfileID r \<noteq> Some i))"
proof -
  have "GetProfile i s' = None \<and> (\<forall>k t. gm_get (tags s') k = Some t \<longrightarrow> t_DefaultProfileID t \<noteq> Some i) \<and>
      (\<forall>k j. gm_get (jobs s') k = Some j \<longrightarrow> j_ProfileID j \<noteq> Some i) \<and>
      (\<forall>k r. gm_get (runs s') k = Some r \<longrightarrow> r_ProfileID r \<noteq> Some i)" if "DeleteProfile i s = Inr s'" for s'
    unfolding DeleteProfile_eq[OF that]
    by (simp add: GetProfile_def gm.get_del del: gm_get_map) (intro conjI gm_map_all; simp)
  then show ?thesis
    by (intro conjI[OF GetProfileByName_iff[OF assms]] conjI[OF CreateProfile_result[OF assms]] allI impI)
qed

theorem profile_lookups_witness:
  "GetProfileByName ''x'' NewInMemoryJobStore = None"
  using profile_lookups[OF catalog_ok_new(1), of "''x''"]
  by (cases "GetProfileByName ''x'' NewInMemoryJobStore")
    (auto simp: GetProfile_def NewInMemoryJobStore_def)

text \<open>
  Deleting a profile leaves the schedules that name it alone: a schedule can refer to a profile that is gone.
\<close>

theorem delete_profile_keeps_schedule:
  assumes "DeleteProfile i s = Inr s'" "GetAnalysisCohortSchedule c s = Some x" "s_ProfileID x = Some i"
  shows "GetProfile i s' = None \<and> map_option s_ProfileID (GetAnalysisCohortSchedule c s') = Some (Some i)"
  using assms by (auto simp: DeleteProfile_def GetProfile_def GetAnalysisCohortSchedule_def gm.get_del split: if_split_asm)

end
