(* ===== verification/Store.thy ===== *)
theory Store
  imports StoreAdmin
begin

text \<open>
  The in-memory store as a state machine: every operation of \<open>InMemoryJobStore\<close> that changes state is a step, in any order
  and with any arguments, each one atomic under the store's mutex. The invariant of the store joins the
  invariants of its parts and holds in every reachable state.
\<close>

section \<open>Systems with an invariant\<close>

locale invariant_system =
  fixes init :: "'s \<Rightarrow> bool"
    and step :: "'s \<Rightarrow> 's \<Rightarrow> bool"
    and inv :: "'s \<Rightarrow> bool"
  assumes inv_init: "init s \<Longrightarrow> inv s"
    and inv_step: "inv s \<Longrightarrow> step s s' \<Longrightarrow> inv s'"
begin

lemma inv_reachable: "step\<^sup>*\<^sup>* s s' \<Longrightarrow> init s \<Longrightarrow> inv s'"
  by (induction rule: rtranclp_induct) (auto intro: inv_init inv_step)

end

section \<open>The steps of the store\<close>

inductive store_step :: "(string \<Rightarrow> string option) \<Rightarrow> (string \<Rightarrow> 'a option) \<Rightarrow> ('a \<Rightarrow> string) \<Rightarrow> store \<Rightarrow> store \<Rightarrow> bool"
  for to_ascii parse_unzoned reverse_addr where
  SetScoringConfig: "store_step to_ascii parse_unzoned reverse_addr s (SetScoringConfig cfg s)"
| Create: "Create fresh j s = Inr (j', s') \<Longrightarrow> store_step to_ascii parse_unzoned reverse_addr s s'"
| Update: "Update j s = Inr s' \<Longrightarrow> store_step to_ascii parse_unzoned reverse_addr s s'"
| GraduateJob: "GraduateJob now j es s = Inr s' \<Longrightarrow> store_step to_ascii parse_unzoned reverse_addr s s'"
| GetOrCreateDomain: "GetOrCreateDomain to_ascii parse_unzoned reverse_addr now n s = Inr (d, s') \<Longrightarrow>
    store_step to_ascii parse_unzoned reverse_addr s s'"
| UpdateDomainLatest: "UpdateDomainLatest i r t st l s = Inr s' \<Longrightarrow> store_step to_ascii parse_unzoned reverse_addr s s'"
| CreateTag: "CreateTag now n d s = Inr s' \<Longrightarrow> store_step to_ascii parse_unzoned reverse_addr s s'"
| UpdateTag: "UpdateTag n d s = Inr s' \<Longrightarrow> store_step to_ascii parse_unzoned reverse_addr s s'"
| SetTagDefaultProfile: "SetTagDefaultProfile n p s = Inr s' \<Longrightarrow> store_step to_ascii parse_unzoned reverse_addr s s'"
| DeleteTag: "DeleteTag n s = Inr s' \<Longrightarrow> store_step to_ascii parse_unzoned reverse_addr s s'"
| TagDomains: "store_step to_ascii parse_unzoned reverse_addr s (TagDomains now t ids s)"
| UntagDomains: "store_step to_ascii parse_unzoned reverse_addr s (UntagDomains t ids s)"
| CreateBatch: "store_step to_ascii parse_unzoned reverse_addr s (CreateBatch b s)"
| SetBatchSnapshotIntent: "SetBatchSnapshotIntent i x s = Inr s' \<Longrightarrow> store_step to_ascii parse_unzoned reverse_addr s s'"
| DeleteBatch: "DeleteBatch i s = Inr s' \<Longrightarrow> store_step to_ascii parse_unzoned reverse_addr s s'"
| UpsertAnalysisCohort: "UpsertAnalysisCohort now c s = Inr (c', s') \<Longrightarrow> store_step to_ascii parse_unzoned reverse_addr s s'"
| DeleteAnalysisCohort: "store_step to_ascii parse_unzoned reverse_addr s (DeleteAnalysisCohort i s)"
| PutAnalysisCohortSchedule: "PutAnalysisCohortSchedule now x s = Inr (x', s') \<Longrightarrow> store_step to_ascii parse_unzoned reverse_addr s s'"
| DeleteAnalysisCohortSchedule: "store_step to_ascii parse_unzoned reverse_addr s (DeleteAnalysisCohortSchedule i s)"
| ClaimAnalysisCohortSchedule: "ClaimAnalysisCohortSchedule i e n s = (b, s') \<Longrightarrow> store_step to_ascii parse_unzoned reverse_addr s s'"
| RecordAnalysisCohortScheduleOutcome:
    "store_step to_ascii parse_unzoned reverse_addr s (RecordAnalysisCohortScheduleOutcome i t b x e s)"
| CreateProfile: "CreateProfile now p s = Inr (p', s') \<Longrightarrow> store_step to_ascii parse_unzoned reverse_addr s s'"
| UpdateProfile: "UpdateProfile now p s = Inr s' \<Longrightarrow> store_step to_ascii parse_unzoned reverse_addr s s'"
| DeleteProfile: "DeleteProfile i s = Inr s' \<Longrightarrow> store_step to_ascii parse_unzoned reverse_addr s s'"
| SetSetting: "store_step to_ascii parse_unzoned reverse_addr s (SetSetting k v s)"
| DeleteSetting: "DeleteSetting k s = Inr s' \<Longrightarrow> store_step to_ascii parse_unzoned reverse_addr s s'"
| PurgeOlderThan: "PurgeOlderThan cutoff s = (n, s') \<Longrightarrow> store_step to_ascii parse_unzoned reverse_addr s s'"
| PurgeByTag: "PurgeByTag t s = (n, s') \<Longrightarrow> store_step to_ascii parse_unzoned reverse_addr s s'"

definition store_inv :: "store \<Rightarrow> bool" where
  "store_inv s \<longleftrightarrow> registry_ok s \<and> runs_ok s \<and> tag_index_ok s \<and> catalog_ok s \<and> profile_refs_ok s"

section \<open>Every step keeps the invariant\<close>

lemma profile_refs_ok_frame:
  "profile_refs_ok s \<Longrightarrow> tags s' = tags s \<Longrightarrow> profiles s' = profiles s \<Longrightarrow> profile_refs_ok s'"
  by (simp add: profile_refs_ok_def)

lemma catalog_ok_cong:
  "catalog_ok s \<Longrightarrow> batches s' = batches s \<Longrightarrow> analysisCohorts s' = analysisCohorts s \<Longrightarrow>
     analysisSchedules s' = analysisSchedules s \<Longrightarrow> profiles s' = profiles s \<Longrightarrow> settings s' = settings s \<Longrightarrow>
     profileCounter s' = profileCounter s \<Longrightarrow> catalog_ok s'"
  by (simp add: catalog_ok_def)

lemma tag_index_ok_cong:
  "tag_index_ok s \<Longrightarrow> tags s' = tags s \<Longrightarrow> domainTags s' = domainTags s \<Longrightarrow> tagDomains s' = tagDomains s \<Longrightarrow> tag_index_ok s'"
  by (simp add: tag_index_ok_def tags_of_def domains_of_def)

lemma getOrCreate_inv:
  assumes "store_inv s" "getOrCreateDomainLocked now n s = (a, s')"
  shows "store_inv s'"
proof -
  note f = getOrCreate_fields[OF assms(2)]
  have "registry_ok s'" using dom.intern_ok[of s now n] assms by (simp add: store_inv_def)
  moreover have "runs_ok s'" using getOrCreate_runs_ok assms by (auto simp: store_inv_def)
  moreover have "tag_index_ok s'" "catalog_ok s'" "profile_refs_ok s'"
    using assms(1) tag_index_ok_cong[of s s'] catalog_ok_cong[of s s'] profile_refs_ok_frame[of s s'] f
    by (auto simp: store_inv_def)
  ultimately show ?thesis by (simp add: store_inv_def)
qed

lemma GraduateJob_inv:
  assumes "store_inv s" "GraduateJob now j es s = Inr s'"
  shows "store_inv s'"
proof -
  have "registry_ok s'" "runs_ok s'"
    using GraduateJob_registry_ok GraduateJob_runs_ok assms by (auto simp: store_inv_def)
  moreover have "tag_index_ok s'" "catalog_ok s'" "profile_refs_ok s'"
    by (rule GraduateJob_cases[OF assms(2)],
        use assms(1) tag_index_ok_cong[of s s'] catalog_ok_cong[of s s'] profile_refs_ok_frame[of s s'] in \<open>auto simp: store_inv_def\<close>)+
  ultimately show ?thesis by (simp add: store_inv_def)
qed

lemma tag_ops_frame:
  "registry_ok (fold (tag_one t) ids s) = registry_ok s" "runs_ok (fold (tag_one t) ids s) = runs_ok s"
  "catalog_ok (fold (tag_one t) ids s) = catalog_ok s" "profiles (fold (tag_one t) ids s) = profiles s"
  "registry_ok (fold (untag_one t) ids s) = registry_ok s" "runs_ok (fold (untag_one t) ids s) = runs_ok s"
  "catalog_ok (fold (untag_one t) ids s) = catalog_ok s" "profiles (fold (untag_one t) ids s) = profiles s"
  "tags (fold (tag_one t) ids s) = tags s"
  by (induction ids arbitrary: s) (simp_all add: tag_one_def untag_one_def)

lemma tag_refs:
  "profile_refs_ok s \<Longrightarrow> (\<And>p. t_DefaultProfileID t = Some p \<Longrightarrow> gm_has (profiles s) p) \<Longrightarrow>
     profile_refs_ok (s\<lparr>tags := gm_set n t (tags s)\<rparr>)"
  by (simp add: profile_refs_ok_def gm.get_put)

lemma TagDomains_inv: "store_inv s \<Longrightarrow> store_inv (TagDomains now t ids s)"
  using TagDomains_effect[of s now t ids] unfolding store_inv_def TagDomains_def
  by (auto simp: tag_ops_frame profile_refs_ok_def gm.get_put)

lemma UntagDomains_inv: "store_inv s \<Longrightarrow> store_inv (UntagDomains t ids s)"
  using UntagDomains_effect[of s t ids] fold_untag_one[of t ids] unfolding store_inv_def UntagDomains_def
  by (auto simp: tag_ops_frame profile_refs_ok_def)

lemma DeleteTag_inv:
  assumes "store_inv s" "DeleteTag n s = Inr s'"
  shows "store_inv s'"
proof -
  let ?r = "fold (untag_one n) (domains_of s n) s"
  have s': "s' = ?r\<lparr>tagDomains := gm_del n (tagDomains ?r), tags := gm_del n (tags ?r)\<rparr>"
    using assms(2) by (simp add: DeleteTag_def Let_def split: if_splits)
  have "tag_index_ok s'" using DeleteTag_effect[OF _ assms(2)] assms(1) by (simp add: store_inv_def)
  moreover have "tags ?r = tags s" using fold_untag_one[of n "domains_of s n" s 0] by simp
  then have "profile_refs_ok s'" using assms(1) unfolding s' store_inv_def profile_refs_ok_def
    by (auto simp: tag_ops_frame gm.get_del)
  ultimately show ?thesis using assms(1) by (simp add: store_inv_def s' tag_ops_frame)
qed

lemma DeleteBatch_inv:
  assumes "store_inv s" "DeleteBatch b s = Inr s'"
  shows "store_inv s'"
proof -
  have "runs_ok s'" "registry_ok s'" "tag_index_ok s'" using DeleteBatch_ok[OF _ _ assms(2)] assms(1) by (auto simp: store_inv_def)
  moreover have "catalog_ok s' \<and> profile_refs_ok s'"
    using assms(2)
  proof (rule DeleteBatch_cases)
    show "registry_ok s" using assms(1) by (simp add: store_inv_def)
    fix s3 doomed affected
    assume a: "distinct affected" "s' = fold (repair_domain (map fst doomed)) affected s3" "registry_ok s3"
      and b: "batches s3 = gm_del b (batches s)"
      and eq: "\<exists>f1 f2 f3 f4 f5 f6 f7. s3 = s\<lparr>runPublicIDs := f1, entries := f2, dnssecChains := f3, runs := f4,
         publicIDs := f5, jobs := f6, batches := f7\<rparr>"
    obtain h where h: "s' = s3\<lparr>domain_heap := h\<rparr>" using fold_repair[OF a(3,1)] a(2) by blast
    have "catalog_ok (s\<lparr>batches := gm_del b (batches s)\<rparr>)"
      using batch_delete_catalog_ok[of s b] assms(1) by (simp add: store_inv_def)
    then have "catalog_ok s3" by (rule catalog_ok_cong) (use eq b in auto)
    moreover have "profile_refs_ok s3" by (rule profile_refs_ok_frame[of s]) (use assms(1) eq in \<open>auto simp: store_inv_def\<close>)
    ultimately show "catalog_ok s' \<and> profile_refs_ok s'" unfolding h by (simp add: profile_refs_ok_def)
  qed
  ultimately show ?thesis by (simp add: store_inv_def)
qed

lemma purge_inv: "store_inv s \<Longrightarrow> store_inv (fold purge_run ds s)"
  unfolding fold_purge_run store_inv_def by (simp add: remove_runs_ok profile_refs_ok_def)

lemma assign_latest_inv:
  assumes "store_inv s" "UpdateDomainLatest i r t st l s = Inr s'"
  shows "store_inv s'"
proof -
  obtain a where a: "gm_get (domainsByID s) i = Some a" using assms(2) by (auto simp: UpdateDomainLatest_def split: option.splits)
  obtain d where d: "gm_get (domain_heap s) a = Some d" using a assms(1) unfolding store_inv_def registry_ok_def by blast
  have s': "s' = assign a (d\<lparr>d_LatestRunID := r, d_LatestRunAt := t, d_LatestStatus := st, d_LatestLevel := l,
      d_RunCount := d_RunCount d + 1\<rparr>) s"
    using assms(2) a d by (simp add: UpdateDomainLatest_def Let_def deref_def gm_get_or_def)
  have "registry_ok s'" unfolding s' by (rule registry_ok_assign[OF _ d]) (use assms(1) in \<open>auto simp: store_inv_def\<close>)
  then show ?thesis using assms(1) unfolding s' by (simp add: store_inv_def profile_refs_ok_def assign_def[of a])
qed

text \<open>Operations that only touch the job queue, the tags or the catalogs.\<close>

lemma queue_step_inv:
  "store_inv s \<Longrightarrow> runs_ok s' \<Longrightarrow> s' = s\<lparr>jobs := x, publicIDs := y\<rparr> \<Longrightarrow> store_inv s'"
  by (simp add: store_inv_def profile_refs_ok_def)

lemma tag_step_inv:
  "store_inv s \<Longrightarrow> tag_index_ok s' \<Longrightarrow> s' = s\<lparr>tags := gm_set n t (tags s)\<rparr> \<Longrightarrow>
     (\<And>p. t_DefaultProfileID t = Some p \<Longrightarrow> gm_has (profiles s) p) \<Longrightarrow> store_inv s'"
  by (auto simp: store_inv_def intro!: tag_refs)

lemma Create_inv: "store_inv s \<Longrightarrow> Create fresh j s = Inr (j', s') \<Longrightarrow> store_inv s'"
proof -
  assume a: "store_inv s" "Create fresh j s = Inr (j', s')"
  have "runs_ok s'" using Create_runs_ok a by (auto simp: store_inv_def)
  moreover have "\<exists>x y. s' = s\<lparr>jobs := x, publicIDs := y\<rparr>" using a(2) by (auto simp: Create_def Let_def split: if_split_asm)
  ultimately show ?thesis using queue_step_inv[OF a(1)] by blast
qed

lemma Update_inv: "store_inv s \<Longrightarrow> Update j s = Inr s' \<Longrightarrow> store_inv s'"
proof -
  assume a: "store_inv s" "Update j s = Inr s'"
  have "runs_ok s'" using Update_runs_ok a by (auto simp: store_inv_def)
  moreover have "s' = s\<lparr>jobs := gm_set (j_ID j) j (jobs s), publicIDs := publicIDs s\<rparr>"
    using a(2) by (auto simp: Update_def split: if_split_asm)
  ultimately show ?thesis using queue_step_inv[OF a(1)] by blast
qed

lemma CreateTag_inv: "store_inv s \<Longrightarrow> CreateTag now n d s = Inr s' \<Longrightarrow> store_inv s'"
  by (rule tag_step_inv[OF _ CreateTag_ok]) (auto simp: store_inv_def CreateTag_def split: if_split_asm)

lemma UpdateTag_inv: "store_inv s \<Longrightarrow> UpdateTag n d s = Inr s' \<Longrightarrow> store_inv s'"
proof -
  assume a: "store_inv s" "UpdateTag n d s = Inr s'"
  obtain t where t: "gm_get (tags s) n = Some t" "s' = s\<lparr>tags := gm_set n (t\<lparr>t_Description := d\<rparr>) (tags s)\<rparr>"
    using a(2) by (auto simp: UpdateTag_def split: option.splits)
  have "tag_index_ok s'" using UpdateTag_ok a by (auto simp: store_inv_def)
  then show ?thesis by (rule tag_step_inv[OF a(1) _ t(2)]) (use a(1) t(1) in \<open>auto simp: store_inv_def profile_refs_ok_def\<close>)
qed

lemma SetTagDefaultProfile_inv: "store_inv s \<Longrightarrow> SetTagDefaultProfile n p s = Inr s' \<Longrightarrow> store_inv s'"
proof -
  assume a: "store_inv s" "SetTagDefaultProfile n p s = Inr s'"
  obtain t where t: "s' = s\<lparr>tags := gm_set n (t\<lparr>t_DefaultProfileID := p\<rparr>) (tags s)\<rparr>" "\<And>q. p = Some q \<Longrightarrow> gm_has (profiles s) q"
    using a(2) by (auto simp: SetTagDefaultProfile_def split: option.splits if_split_asm)
  have "tag_index_ok s'" using SetTagDefaultProfile_ok a by (auto simp: store_inv_def)
  then show ?thesis by (rule tag_step_inv[OF a(1) _ t(1)]) (use t(2) in auto)
qed

lemma CreateBatch_inv: "store_inv s \<Longrightarrow> store_inv (CreateBatch b s)"
  using CreateBatch_ok[of s b] by (auto simp: store_inv_def CreateBatch_def profile_refs_ok_def)

lemma SetBatchSnapshotIntent_inv: "store_inv s \<Longrightarrow> SetBatchSnapshotIntent b x s = Inr s' \<Longrightarrow> store_inv s'"
  using SetBatchSnapshotIntent_ok[of s b x s']
  by (auto simp: store_inv_def SetBatchSnapshotIntent_def profile_refs_ok_def split: option.splits)

lemma UpsertAnalysisCohort_inv: "store_inv s \<Longrightarrow> UpsertAnalysisCohort now c s = Inr (c', s') \<Longrightarrow> store_inv s'"
proof -
  assume a: "store_inv s" "UpsertAnalysisCohort now c s = Inr (c', s')"
  have "(\<exists>x. s' = s\<lparr>analysisCohorts := x\<rparr>) \<or> (\<exists>n x. s' = s\<lparr>analysisCohortCounter := n, analysisCohorts := x\<rparr>)"
    using a(2) unfolding UpsertAnalysisCohort_def Let_def by (auto split: if_split_asm option.splits)
  moreover have "catalog_ok s'" using UpsertAnalysisCohort_ok a by (auto simp: store_inv_def)
  ultimately show ?thesis using a(1) by (auto simp: store_inv_def profile_refs_ok_def)
qed

lemma schedule_step_inv:
  "store_inv s \<Longrightarrow> catalog_ok s' \<Longrightarrow> s' = s\<lparr>analysisSchedules := x\<rparr> \<Longrightarrow> store_inv s'"
  by (simp add: store_inv_def profile_refs_ok_def)

lemma PutAnalysisCohortSchedule_inv: "store_inv s \<Longrightarrow> PutAnalysisCohortSchedule now x s = Inr (x', s') \<Longrightarrow> store_inv s'"
  by (rule schedule_step_inv[OF _ PutAnalysisCohortSchedule_ok])
    (auto simp: store_inv_def PutAnalysisCohortSchedule_def Let_def split: if_split_asm)

lemma ClaimAnalysisCohortSchedule_inv: "store_inv s \<Longrightarrow> ClaimAnalysisCohortSchedule i e n s = (b, s') \<Longrightarrow> store_inv s'"
  using ClaimAnalysisCohortSchedule_ok[of s i e n b s']
  by (auto simp: store_inv_def ClaimAnalysisCohortSchedule_def profile_refs_ok_def split: option.splits if_split_asm)

lemma RecordAnalysisCohortScheduleOutcome_inv:
  "store_inv s \<Longrightarrow> store_inv (RecordAnalysisCohortScheduleOutcome i t b x e s)"
  using RecordAnalysisCohortScheduleOutcome_ok[of s i t b x e]
  by (auto simp: store_inv_def RecordAnalysisCohortScheduleOutcome_def profile_refs_ok_def split: option.splits)

lemma delete_catalog_inv:
  "store_inv s \<Longrightarrow> store_inv (DeleteAnalysisCohort i s)" "store_inv s \<Longrightarrow> store_inv (DeleteAnalysisCohortSchedule i s)"
  using DeleteAnalysisCohort_ok[of s i] DeleteAnalysisCohortSchedule_ok[of s i]
  by (auto simp: store_inv_def DeleteAnalysisCohort_def DeleteAnalysisCohortSchedule_def profile_refs_ok_def)

lemma CreateProfile_inv: "store_inv s \<Longrightarrow> CreateProfile now p s = Inr (p', s') \<Longrightarrow> store_inv s'"
  using CreateProfile_ok[of s now p p' s'] by (auto simp: store_inv_def CreateProfile_def Let_def split: if_split_asm)

lemma UpdateProfile_inv: "store_inv s \<Longrightarrow> UpdateProfile now p s = Inr s' \<Longrightarrow> store_inv s'"
  using UpdateProfile_ok[of s now p s'] by (auto simp: store_inv_def UpdateProfile_def split: if_split_asm)

lemma DeleteProfile_inv: "store_inv s \<Longrightarrow> DeleteProfile i s = Inr s' \<Longrightarrow> store_inv s'"
  using DeleteProfile_ok[of i s s'] by (simp add: store_inv_def)

lemma settings_inv: "store_inv s \<Longrightarrow> store_inv (SetSetting k v s)" "store_inv s \<Longrightarrow> DeleteSetting k s = Inr s' \<Longrightarrow> store_inv s'"
  by (auto simp: store_inv_def SetSetting_def DeleteSetting_def catalog_ok_def profile_refs_ok_def split: if_split_asm)

lemma GetOrCreateDomain_inv:
  assumes "store_inv s" "GetOrCreateDomain to_ascii parse_unzoned reverse_addr now n s = Inr (d, s')"
  shows "store_inv s'"
proof -
  obtain m a where "getOrCreateDomainLocked now m s = (a, s')"
    using assms(2) by (auto simp: GetOrCreateDomain_def split: prod.splits list.splits)
  then show ?thesis by (rule getOrCreate_inv[OF assms(1)])
qed

lemma purges_inv:
  "store_inv s \<Longrightarrow> PurgeOlderThan cutoff s = (n, s') \<Longrightarrow> store_inv s'"
  "store_inv s \<Longrightarrow> PurgeByTag t s = (n, s') \<Longrightarrow> store_inv s'"
  by (auto simp: PurgeOlderThan_def PurgeByTag_def Let_def purge_inv split: if_split_asm)

lemma SetScoringConfig_inv: "store_inv s \<Longrightarrow> store_inv (SetScoringConfig cfg s)"
  by (simp add: store_inv_def SetScoringConfig_def profile_refs_ok_def)

lemmas op_invs = SetScoringConfig_inv Create_inv Update_inv GraduateJob_inv GetOrCreateDomain_inv assign_latest_inv CreateTag_inv
  UpdateTag_inv SetTagDefaultProfile_inv DeleteTag_inv TagDomains_inv UntagDomains_inv CreateBatch_inv
  SetBatchSnapshotIntent_inv DeleteBatch_inv UpsertAnalysisCohort_inv PutAnalysisCohortSchedule_inv
  ClaimAnalysisCohortSchedule_inv RecordAnalysisCohortScheduleOutcome_inv delete_catalog_inv CreateProfile_inv
  UpdateProfile_inv DeleteProfile_inv settings_inv purges_inv

lemma store_step_inv: "store_step to_ascii parse_unzoned reverse_addr s s' \<Longrightarrow> store_inv s \<Longrightarrow> store_inv s'"
  by (induction rule: store_step.induct) (rule op_invs; assumption)+

lemma store_inv_new: "store_inv NewInMemoryJobStore"
  by (simp add: store_inv_def registry_ok_new runs_ok_new tag_index_ok_new catalog_ok_new)

interpretation store_sys: invariant_system "\<lambda>s. s = NewInMemoryJobStore" "store_step to_ascii parse_unzoned reverse_addr" store_inv
  for to_ascii parse_unzoned reverse_addr
  by unfold_locales (auto intro: store_inv_new store_step_inv)

section \<open>Properties\<close>



end
