(* ===== verification/Profile.thy ===== *)
theory Profile
  imports Prelude "HOL-Library.Sublist"
begin

text \<open>
  Engine profiles (\<open>engine/profile/profile.go\<close>, \<open>engine/profile/properties.go\<close>): the table of
  properties with their types, bounds and validators, setting, merging, and the conversion to and
  from decoded JSON documents.

  \<^item> A Go \<open>any\<close> is a \<open>goval\<close>. The integer types other than \<open>int\<close> never reach the setters: documents are
    decoded with \<open>UseNumber\<close> and the engine passes \<open>bool\<close>, \<open>int\<close>, \<open>string\<close> and slices.
  \<^item> A \<open>Profile\<close> is the map from property paths to field values whose domain is its \<open>set\<close> map:
    \<open>setWithSource\<close> is the only writer of both and writes them together.
  \<^item> The library calls that are not modelled are the fields of \<open>profile_lib\<close>: the address checks of
    \<open>net/netip\<close> behind \<open>ValidateIPv4\<close> and \<open>ValidateIPv6\<close>, \<open>encoding/json\<close> reading a value into the
    type of \<open>logfilter\<close>, and the text \<open>encoding/json\<close> writes for a \<open>float64\<close>.
\<close>

section \<open>Values and properties\<close>

datatype goval =
    VNil
  | VBool bool
  | VNumber string
  | VInt int
  | VFloat rat
  | VStr string
  | VList "goval list"
  | VMap "(string \<times> goval) list"

datatype property_type = propBool | propNum | propStr | propArray | propMap

datatype value_source = sourceDirect | sourceJSON

datatype validator =
    NoCheck
  | CheckCache
  | CheckSource4
  | CheckSource6
  | CheckASNStyle
  | CheckASNSources
  | CheckLogFilter
  | CheckTestLevels

record property_def =
  pd_type :: property_type
  pd_min :: "int option"
  pd_max :: "int option"
  pd_default :: "goval option"
  pd_validate :: validator

abbreviation plain_prop :: "property_type \<Rightarrow> property_def" where
  "plain_prop t \<equiv> \<lparr>pd_type = t, pd_min = None, pd_max = None, pd_default = None, pd_validate = NoCheck\<rparr>"

abbreviation number_prop :: "int \<Rightarrow> int \<Rightarrow> property_def" where
  "number_prop lo hi \<equiv> (plain_prop propNum)\<lparr>pd_min := Some lo, pd_max := Some hi\<rparr>"

abbreviation tunable :: "int \<Rightarrow> property_def" where
  "tunable d \<equiv> (plain_prop propNum)\<lparr>pd_min := Some 1, pd_default := Some (VInt d)\<rparr>"

definition propertyDefs :: "(string, property_def) gomap" where
  "propertyDefs = [
     (''asn_db.sources'', (plain_prop propMap)\<lparr>pd_default := Some (VMap [(''cymru'', VList [VStr ''asnlookup.zonemaster.net''])]),
        pd_validate := CheckASNSources\<rparr>),
     (''asn_db.style'', (plain_prop propStr)\<lparr>pd_default := Some (VStr ''cymru''), pd_validate := CheckASNStyle\<rparr>),
     (''badkeys.path'', (plain_prop propStr)\<lparr>pd_default := Some (VStr [])\<rparr>),
     (''cache'', (plain_prop propMap)\<lparr>pd_default := Some (VMap []), pd_validate := CheckCache\<rparr>),
     (''logfilter'', (plain_prop propMap)\<lparr>pd_default := Some (VMap []), pd_validate := CheckLogFilter\<rparr>),
     (''net.allow_non_global_targets'', plain_prop propBool),
     (''net.ipv4'', plain_prop propBool),
     (''net.ipv6'', plain_prop propBool),
     (''no_network'', plain_prop propBool),
     (''resolver.defaults.error_cache_ttl'', number_prop 0 86400),
     (''resolver.defaults.fallback'', plain_prop propBool),
     (''resolver.defaults.fast_fail_timeout_count'', number_prop 0 100),
     (''resolver.defaults.nameserver_concurrency'', number_prop 0 256),
     (''resolver.defaults.nameserver_max_total_ms'', number_prop 0 600000),
     (''resolver.defaults.negative_cache_ttl'', number_prop 0 86400),
     (''resolver.defaults.parallel'', number_prop 1 255),
     (''resolver.defaults.positive_cache_ttl'', number_prop 0 86400),
     (''resolver.defaults.retrans'', number_prop 1 255),
     (''resolver.defaults.retry'', number_prop 1 255),
     (''resolver.defaults.timeout'', plain_prop propNum),
     (''resolver.defaults.unordered'', plain_prop propBool),
     (''resolver.source4'', (plain_prop propStr)\<lparr>pd_default := Some (VStr []), pd_validate := CheckSource4\<rparr>),
     (''resolver.source6'', (plain_prop propStr)\<lparr>pd_default := Some (VStr []), pd_validate := CheckSource6\<rparr>),
     (''test_cases'', plain_prop propArray),
     (''test_cases_vars.dnssec04.DURATION_LONG'', tunable 15552000),
     (''test_cases_vars.dnssec04.REMAINING_LONG'', tunable 15552000),
     (''test_cases_vars.dnssec04.REMAINING_SHORT'', tunable 43200),
     (''test_cases_vars.zone02.SOA_REFRESH_MINIMUM_VALUE'', tunable 14400),
     (''test_cases_vars.zone04.SOA_RETRY_MINIMUM_VALUE'', tunable 3600),
     (''test_cases_vars.zone05.SOA_EXPIRE_MINIMUM_VALUE'', tunable 604800),
     (''test_cases_vars.zone06.SOA_DEFAULT_TTL_MAXIMUM_VALUE'', tunable 86400),
     (''test_cases_vars.zone06.SOA_DEFAULT_TTL_MINIMUM_VALUE'', tunable 300),
     (''test_cases_vars.zone13.SPF_LOOKUP_LIMIT'', tunable 10),
     (''test_levels'', (plain_prop propMap)\<lparr>pd_validate := CheckTestLevels\<rparr>)]"

definition deprecatedProperties :: "string list" where
  "deprecatedProperties = [''resolver.defaults.debug'', ''resolver.defaults.igntc'', ''resolver.defaults.recurse'',
     ''resolver.defaults.usevc'']"

definition propertyNames :: "string list" where
  "propertyNames = map fst propertyDefs"

definition propertyExists :: "string \<Rightarrow> bool" where
  "propertyExists path \<longleftrightarrow> gm_has propertyDefs path"

record profile_lib =
  valid_ipv4 :: "string \<Rightarrow> bool"
  valid_ipv6 :: "string \<Rightarrow> bool"
  read_logfilter :: "goval \<Rightarrow> goval option"
  float_text :: "rat \<Rightarrow> string"

datatype profile_error =
    UnknownProperty string
  | NilValue
  | ExpectsBoolean
  | ExpectsInteger
  | ValueSmaller
  | ValueBigger
  | ExpectsString
  | NotArray
  | NotMap
  | InvalidSource4
  | InvalidSource6
  | InvalidASNStyle
  | InvalidASNSources
  | InvalidLogFilter
  | InvalidTestLevels
  | InvalidCache
  | SetterPanic

section \<open>Normalizing a value to the type of its property\<close>

definition normalizeBool :: "goval \<Rightarrow> value_source \<Rightarrow> profile_error + goval" where
  "normalizeBool v src = (case src of
     sourceJSON \<Rightarrow> (case v of VBool b \<Rightarrow> Inr (VBool b) | _ \<Rightarrow> Inl ExpectsBoolean)
   | sourceDirect \<Rightarrow> (case v of
       VBool b \<Rightarrow> Inr (VBool b)
     | VNumber s \<Rightarrow> (case Atoi s of None \<Rightarrow> Inl ExpectsBoolean | Some n \<Rightarrow> Inr (VBool (n \<noteq> 0)))
     | VInt n \<Rightarrow> Inr (VBool (n \<noteq> 0))
     | VFloat r \<Rightarrow> Inr (VBool (r \<noteq> 0))
     | VStr s \<Rightarrow> Inr (VBool (\<not> (s = [] \<or> s = ''0'')))
     | _ \<Rightarrow> Inl ExpectsBoolean))"

text \<open>\<open>int(v)\<close> of an integral \<open>float64\<close>; out of range the conversion gives the least \<open>int\<close> on amd64.\<close>

definition float_int :: "rat \<Rightarrow> int" where
  "float_int r = (if r < 2 ^ 63 then \<lfloor>r\<rfloor> else - (2 ^ 63))"

definition nonnegative :: "int option \<Rightarrow> int option" where
  "nonnegative n = (case n of Some i \<Rightarrow> if i < 0 then None else Some i | None \<Rightarrow> None)"

definition parseIntValue :: "goval \<Rightarrow> bool \<Rightarrow> int option" where
  "parseIntValue v allowString = (case v of
     VNumber s \<Rightarrow> if CHR ''.'' \<in> set s then None else nonnegative (Atoi s)
   | VFloat r \<Rightarrow> if of_int \<lfloor>r\<rfloor> \<noteq> r \<or> r < 0 then None else Some (float_int r)
   | VInt n \<Rightarrow> nonnegative (Some n)
   | VStr s \<Rightarrow> if \<not> allowString \<or> s = [] \<or> set s \<inter> {CHR ''+'', CHR ''-'', CHR ''.''} \<noteq> {} then None
       else nonnegative (Atoi s)
   | _ \<Rightarrow> None)"

definition normalizeNum :: "goval \<Rightarrow> value_source \<Rightarrow> int option \<Rightarrow> int option \<Rightarrow> profile_error + goval" where
  "normalizeNum v src lo hi = (case parseIntValue v (src = sourceDirect) of
     None \<Rightarrow> Inl ExpectsInteger
   | Some n \<Rightarrow> if (case lo of Some l \<Rightarrow> n < l | None \<Rightarrow> False) then Inl ValueSmaller
       else if (case hi of Some h \<Rightarrow> h < n | None \<Rightarrow> False) then Inl ValueBigger
       else Inr (VInt n))"

definition normalizeString :: "goval \<Rightarrow> profile_error + goval" where
  "normalizeString v = (case v of VStr s \<Rightarrow> Inr (VStr s) | _ \<Rightarrow> Inl ExpectsString)"

definition normalizeArray :: "goval \<Rightarrow> profile_error + goval" where
  "normalizeArray v = (case v of VList xs \<Rightarrow> Inr (VList xs) | _ \<Rightarrow> Inl NotArray)"

definition normalizeMap :: "goval \<Rightarrow> profile_error + goval" where
  "normalizeMap v = (case v of VMap m \<Rightarrow> Inr (VMap m) | _ \<Rightarrow> Inl NotMap)"

definition normalizeValue :: "property_def \<Rightarrow> goval \<Rightarrow> value_source \<Rightarrow> profile_error + goval" where
  "normalizeValue def v src = (case pd_type def of
     propBool \<Rightarrow> normalizeBool v src
   | propNum \<Rightarrow> normalizeNum v src (pd_min def) (pd_max def)
   | propStr \<Rightarrow> normalizeString v
   | propArray \<Rightarrow> normalizeArray v
   | propMap \<Rightarrow> normalizeMap v)"

section \<open>Validators\<close>

definition label_char :: "char \<Rightarrow> bool" where
  "label_char c = (let n = (of_char c :: nat) in (97 \<le> n \<and> n \<le> 122) \<or> (48 \<le> n \<and> n \<le> 57))"

text \<open>The regular expression of a domain label: at most 63 bytes, no hyphen at either end.\<close>

definition domainLabelRe :: "string \<Rightarrow> bool" where
  "domainLabelRe l \<longleftrightarrow> l \<noteq> [] \<and> length l \<le> 63 \<and> label_char (hd l) \<and> label_char (last l) \<and>
     list_all (\<lambda>c. label_char c \<or> c = CHR ''-'') l"

definition isValidDomain :: "string \<Rightarrow> bool" where
  "isValidDomain name \<longleftrightarrow> list_all domainLabelRe (split_on (CHR ''.'') name)"

fun string_items :: "goval list \<Rightarrow> string list option" where
  "string_items [] = Some []"
| "string_items (v # vs) = (case (v, string_items vs) of
     (VStr s, Some ss) \<Rightarrow> Some (s # ss)
   | (VNumber s, Some ss) \<Rightarrow> Some (s # ss)
   | _ \<Rightarrow> None)"

definition toStringSlice :: "goval \<Rightarrow> string list option" where
  "toStringSlice v = (case v of VList xs \<Rightarrow> string_items xs | _ \<Rightarrow> None)"

definition asn_source_ok :: "string list \<Rightarrow> bool" where
  "asn_source_ok items \<longleftrightarrow> items \<noteq> [] \<and> list_all (\<lambda>i. i \<noteq> [] \<and> length i \<le> 255 \<and> isValidDomain i) items"

text \<open>
  The loops of the validators build a new map entry by entry; \<open>f\<close> is the loop body, which refuses an
  entry or says what is stored for it.
\<close>

fun rebuild :: "(string \<times> goval \<Rightarrow> (string \<times> goval) option) \<Rightarrow> (string \<times> goval) list \<Rightarrow> (string, goval) gomap
    \<Rightarrow> (string, goval) gomap option" where
  "rebuild f [] out = Some out"
| "rebuild f (kv # m) out = (case f kv of None \<Rightarrow> None | Some (k, v) \<Rightarrow> rebuild f m (gm_set k v out))"

definition asn_source :: "string \<times> goval \<Rightarrow> (string \<times> goval) option" where
  "asn_source kv = (let lower = to_lower (fst kv) in
     if lower \<noteq> ''cymru'' \<and> lower \<noteq> ''ripe'' then None
     else case toStringSlice (snd kv) of
       None \<Rightarrow> None
     | Some items \<Rightarrow> if asn_source_ok items then Some (lower, VList (map VStr items)) else None)"

text \<open>\<open>json.Unmarshal\<close> into a \<open>map[string]string\<close>: null gives the nil map, a null value the empty string.\<close>

definition level_value :: "string \<times> goval \<Rightarrow> (string \<times> goval) option" where
  "level_value kv = (case snd kv of VStr s \<Rightarrow> Some (fst kv, VStr s) | VNil \<Rightarrow> Some (fst kv, VStr []) | _ \<Rightarrow> None)"

definition level_module :: "string \<times> goval \<Rightarrow> (string \<times> goval) option" where
  "level_module kv = (case snd kv of
     VNil \<Rightarrow> Some (fst kv, VNil)
   | VMap tags \<Rightarrow> map_option (\<lambda>t. (fst kv, VMap t)) (rebuild level_value tags [])
   | _ \<Rightarrow> None)"

definition isEmptyValue :: "goval \<Rightarrow> bool" where
  "isEmptyValue v = (case v of VNil \<Rightarrow> True | VStr s \<Rightarrow> s = [] \<or> s = ''0'' | VNumber s \<Rightarrow> s = ''0''
     | VInt n \<Rightarrow> n = 0 | VFloat r \<Rightarrow> r = 0 | _ \<Rightarrow> False)"

definition isNegativeNumber :: "goval \<Rightarrow> bool" where
  "isNegativeNumber v = (case v of
     VNumber s \<Rightarrow> (case Atoi s of Some n \<Rightarrow> n < 0 | None \<Rightarrow> False)
   | VInt n \<Rightarrow> n < 0 | VFloat r \<Rightarrow> r < 0 | _ \<Rightarrow> False)"

definition cache_item :: "string \<times> goval \<Rightarrow> (string \<times> goval) option" where
  "cache_item kv = (if fst kv \<noteq> ''server'' \<and> fst kv \<noteq> ''expire'' \<or> isEmptyValue (snd kv) \<or> isNegativeNumber (snd kv)
     then None else Some kv)"

definition cache_area :: "string \<times> goval \<Rightarrow> (string \<times> goval) option" where
  "cache_area kv = (if fst kv \<noteq> ''redis'' then None
     else case snd kv of
       VMap sub \<Rightarrow> if sub = [] then None else map_option (\<lambda>s. (fst kv, VMap s)) (rebuild cache_item sub [])
     | _ \<Rightarrow> None)"

definition checked :: "profile_error \<Rightarrow> goval option \<Rightarrow> profile_error + goval" where
  "checked e v = (case v of None \<Rightarrow> Inl e | Some w \<Rightarrow> Inr w)"

definition map_entries :: "goval \<Rightarrow> (string \<times> goval) list" where
  "map_entries v = (case v of VMap m \<Rightarrow> m | _ \<Rightarrow> [])"

definition string_of :: "goval \<Rightarrow> string" where
  "string_of v = (case v of VStr s \<Rightarrow> s | _ \<Rightarrow> [])"

definition validate :: "profile_lib \<Rightarrow> validator \<Rightarrow> goval \<Rightarrow> profile_error + goval" where
  "validate lib c v = (case c of
     NoCheck \<Rightarrow> Inr v
   | CheckSource4 \<Rightarrow> if string_of v = [] \<or> valid_ipv4 lib (string_of v) then Inr v else Inl InvalidSource4
   | CheckSource6 \<Rightarrow> if string_of v = [] \<or> valid_ipv6 lib (string_of v) then Inr v else Inl InvalidSource6
   | CheckASNStyle \<Rightarrow> (let style = to_lower (string_of v) in
       if style \<noteq> ''cymru'' \<and> style \<noteq> ''ripe'' then Inl InvalidASNStyle else Inr (VStr style))
   | CheckASNSources \<Rightarrow> checked InvalidASNSources (map_option VMap (rebuild asn_source (map_entries v) []))
   | CheckLogFilter \<Rightarrow> checked InvalidLogFilter (read_logfilter lib v)
   | CheckTestLevels \<Rightarrow> checked InvalidTestLevels (map_option VMap (rebuild level_module (map_entries v) []))
   | CheckCache \<Rightarrow> checked InvalidCache (map_option VMap (rebuild cache_area (map_entries v) [])))"

section \<open>Setting, merging and defaults\<close>

type_synonym profile = "(string, goval) gomap"

definition profile_New :: profile where "profile_New = []"

definition isSet :: "profile \<Rightarrow> string \<Rightarrow> bool" where
  "isSet p path = gm_has p path"

text \<open>The type assertion of the setter: the Go type of the field it writes.\<close>

definition is_str :: "goval \<Rightarrow> bool" where "is_str v = (case v of VStr _ \<Rightarrow> True | _ \<Rightarrow> False)"

definition setter_accepts :: "property_def \<Rightarrow> goval \<Rightarrow> bool" where
  "setter_accepts def v = (case (pd_type def, v) of
     (propBool, VBool _) \<Rightarrow> True
   | (propNum, VInt _) \<Rightarrow> True
   | (propStr, VStr _) \<Rightarrow> True
   | (propArray, VList _) \<Rightarrow> True
   | (propMap, VMap m) \<Rightarrow> (case pd_validate def of
       CheckCache \<Rightarrow> list_all (\<lambda>(k, x). case x of VMap _ \<Rightarrow> True | _ \<Rightarrow> False) m
     | CheckASNSources \<Rightarrow> list_all (\<lambda>(k, x). case x of VList xs \<Rightarrow> list_all is_str xs | _ \<Rightarrow> False) m
     | CheckTestLevels \<Rightarrow> list_all (\<lambda>(k, x). case x of VNil \<Rightarrow> True | VMap t \<Rightarrow> list_all (is_str \<circ> snd) t | _ \<Rightarrow> False) m
     | _ \<Rightarrow> True)
   | _ \<Rightarrow> False)"

definition setWithSource :: "profile_lib \<Rightarrow> string \<Rightarrow> goval \<Rightarrow> value_source \<Rightarrow> profile \<Rightarrow> profile_error + profile" where
  "setWithSource lib path v src p = (case gm_get propertyDefs path of
     None \<Rightarrow> Inl (UnknownProperty path)
   | Some def \<Rightarrow> if v = VNil then Inl NilValue
       else case normalizeValue def v src of
         Inl e \<Rightarrow> Inl e
       | Inr normalized \<Rightarrow> (case validate lib (pd_validate def) normalized of
           Inl e \<Rightarrow> Inl e
         | Inr w \<Rightarrow> if setter_accepts def w then Inr (gm_set path w p) else Inl SetterPanic))"

definition profile_Set :: "profile_lib \<Rightarrow> string \<Rightarrow> goval \<Rightarrow> profile \<Rightarrow> profile_error + profile" where
  "profile_Set lib path v p = setWithSource lib path v sourceDirect p"

definition profile_Get :: "string \<Rightarrow> profile \<Rightarrow> profile_error + goval option" where
  "profile_Get path p = (if \<not> propertyExists path then Inl (UnknownProperty path) else Inr (gm_get p path))"

fun merge_props :: "profile_lib \<Rightarrow> string list \<Rightarrow> profile \<Rightarrow> profile \<Rightarrow> profile_error + profile" where
  "merge_props lib [] other p = Inr p"
| "merge_props lib (n # ns) other p = (case gm_get other n of
     None \<Rightarrow> merge_props lib ns other p
   | Some v \<Rightarrow> (case setWithSource lib n v sourceJSON p of
       Inl e \<Rightarrow> Inl e
     | Inr p' \<Rightarrow> merge_props lib ns other p'))"

definition profile_Merge :: "profile_lib \<Rightarrow> profile \<Rightarrow> profile \<Rightarrow> profile_error + profile" where
  "profile_Merge lib other p = merge_props lib propertyNames other p"

section \<open>Decoded documents\<close>

fun get_nested :: "goval \<Rightarrow> string list \<Rightarrow> goval option" where
  "get_nested v [] = Some v"
| "get_nested v (k # ks) = (case v of
     VMap m \<Rightarrow> (case gm_get m k of None \<Rightarrow> None | Some w \<Rightarrow> if w = VNil then None else get_nested w ks)
   | _ \<Rightarrow> None)"

definition getNestedValue :: "(string, goval) gomap \<Rightarrow> string \<Rightarrow> goval option" where
  "getNestedValue data path = get_nested (VMap data) (split_on (CHR ''.'') path)"

fun set_nested :: "string list \<Rightarrow> goval \<Rightarrow> (string, goval) gomap \<Rightarrow> (string, goval) gomap" where
  "set_nested [] v m = m"
| "set_nested [k] v m = gm_set k v m"
| "set_nested (k # ks) v m =
     gm_set k (VMap (set_nested ks v (case gm_get m k of Some (VMap n) \<Rightarrow> n | _ \<Rightarrow> []))) m"

definition setNestedValue :: "string \<Rightarrow> goval \<Rightarrow> (string, goval) gomap \<Rightarrow> (string, goval) gomap" where
  "setNestedValue path v m = set_nested (split_on (CHR ''.'') path) v m"

fun collectPaths :: "string list \<Rightarrow> (string \<times> goval) list \<Rightarrow> string list" where
  "collectPaths pre [] = []"
| "collectPaths pre ((k, v) # data) = (let path = pre @ [k]; joined = join ''.'' path in
     (case v of
        VMap nested \<Rightarrow> if propertyExists joined then [joined] else collectPaths path nested
      | _ \<Rightarrow> [joined])) @ collectPaths pre data"

definition toMap :: "profile \<Rightarrow> (string, goval) gomap" where
  "toMap p = fold (\<lambda>n m. case gm_get p n of None \<Rightarrow> m | Some v \<Rightarrow> setNestedValue n v m) propertyNames []"

fun from_paths :: "profile_lib \<Rightarrow> (string, goval) gomap \<Rightarrow> string list \<Rightarrow> profile \<Rightarrow> profile_error + profile" where
  "from_paths lib data [] p = Inr p"
| "from_paths lib data (path # paths) p =
     (if \<not> propertyExists path then
        if path \<in> set deprecatedProperties then from_paths lib data paths p else Inl (UnknownProperty path)
      else case getNestedValue data path of
        None \<Rightarrow> from_paths lib data paths p
      | Some v \<Rightarrow> (case setWithSource lib path v sourceJSON p of
          Inl e \<Rightarrow> Inl e
        | Inr p' \<Rightarrow> from_paths lib data paths p'))"

text \<open>The collected paths are the keys of a map: each is visited once, in an order that is not specified.\<close>

definition fromDataMap :: "profile_lib \<Rightarrow> (string, goval) gomap \<Rightarrow> profile_error + profile" where
  "fromDataMap lib data = from_paths lib data (remdups (collectPaths [] data)) profile_New"

fun defaults_loop :: "profile_lib \<Rightarrow> (string, goval) gomap \<Rightarrow> string list \<Rightarrow> profile \<Rightarrow> profile_error + profile" where
  "defaults_loop lib defaults [] p = Inr p"
| "defaults_loop lib defaults (n # ns) p = (case getNestedValue defaults n of
     None \<Rightarrow> defaults_loop lib defaults ns p
   | Some v \<Rightarrow> (case setWithSource lib n v sourceJSON p of
       Inl e \<Rightarrow> Inl e
     | Inr p' \<Rightarrow> defaults_loop lib defaults ns p'))"

fun table_loop :: "profile_lib \<Rightarrow> (string \<times> property_def) list \<Rightarrow> profile \<Rightarrow> profile_error + profile" where
  "table_loop lib [] p = Inr p"
| "table_loop lib ((n, def) # ds) p = (case pd_default def of
     None \<Rightarrow> table_loop lib ds p
   | Some v \<Rightarrow> if isSet p n then table_loop lib ds p
       else (case setWithSource lib n v sourceDirect p of
         Inl e \<Rightarrow> Inl e
       | Inr p' \<Rightarrow> table_loop lib ds p'))"

definition applyDefaults :: "profile_lib \<Rightarrow> (string, goval) gomap \<Rightarrow> profile \<Rightarrow> profile_error + profile" where
  "applyDefaults lib defaults p = (case defaults_loop lib defaults propertyNames p of
     Inl e \<Rightarrow> Inl e
   | Inr p' \<Rightarrow> table_loop lib propertyDefs p')"

text \<open>The default profile; \<open>defaults\<close> is the decoded document embedded in the program.\<close>

definition profile_Default :: "profile_lib \<Rightarrow> (string, goval) gomap \<Rightarrow> profile_error + profile" where
  "profile_Default lib defaults = applyDefaults lib defaults profile_New"

text \<open>What \<open>ToJSON\<close> writes and the decoder of \<open>FromJSON\<close> reads back: every number becomes a \<open>json.Number\<close>.\<close>

fun wire :: "profile_lib \<Rightarrow> goval \<Rightarrow> goval" where
  "wire lib (VInt n) = VNumber (itoa n)"
| "wire lib (VFloat r) = VNumber (float_text lib r)"
| "wire lib (VList vs) = VList (map (wire lib) vs)"
| "wire lib (VMap m) = VMap (map (\<lambda>(k, v). (k, wire lib v)) m)"
| "wire lib v = v"

definition profile_renamedTags :: "(string, string) gomap" where
  "profile_renamedTags = [
     (''IN_BAILIWICK_ADDR_MISMATCH'', ''IN_DOMAIN_ADDR_MISMATCH''),
     (''OUT_OF_BAILIWICK_ADDR_MISMATCH'', ''NOT_IN_DOMAIN_ADDR_MISMATCH''),
     (''IN_BAILIWICK_GLUE_MISSING'', ''IN_DOMAIN_GLUE_MISSING'')]"

definition rename_tag :: "string \<times> string \<Rightarrow> (string, goval) gomap \<Rightarrow> (string, goval) gomap" where
  "rename_tag oc tags = (case gm_get tags (fst oc) of
     None \<Rightarrow> tags
   | Some level \<Rightarrow> (let rest = gm_del (fst oc) tags in if gm_has rest (snd oc) then rest else gm_set (snd oc) level rest))"

definition rename_module :: "goval \<Rightarrow> goval" where
  "rename_module raw = (case raw of VMap tags \<Rightarrow> VMap (fold rename_tag profile_renamedTags tags) | _ \<Rightarrow> raw)"

definition profile_migrate :: "(string, goval) gomap \<Rightarrow> (string, goval) gomap" where
  "profile_migrate data = (case gm_get data ''test_levels'' of
     Some (VMap levels) \<Rightarrow> gm_set ''test_levels'' (VMap (map (\<lambda>(m, raw). (m, rename_module raw)) levels)) data
   | _ \<Rightarrow> data)"

text \<open>\<open>FromJSON\<close> on a decoded document, and \<open>FromJSON\<close> of what \<open>ToJSON\<close> writes.\<close>

definition FromJSON :: "profile_lib \<Rightarrow> (string, goval) gomap \<Rightarrow> profile_error + profile" where
  "FromJSON lib data = fromDataMap lib (profile_migrate data)"

definition ToJSON :: "profile_lib \<Rightarrow> profile \<Rightarrow> (string, goval) gomap" where
  "ToJSON lib p = map_entries (wire lib (VMap (toMap p)))"

section \<open>Well-typed profiles\<close>

definition def_ok :: "property_def \<Rightarrow> bool" where
  "def_ok def \<longleftrightarrow> (case pd_validate def of
     NoCheck \<Rightarrow> True
   | CheckSource4 \<Rightarrow> pd_type def = propStr | CheckSource6 \<Rightarrow> pd_type def = propStr | CheckASNStyle \<Rightarrow> pd_type def = propStr
   | _ \<Rightarrow> pd_type def = propMap)"

lemma propertyDefs_ok: "gm_get propertyDefs path = Some def \<Longrightarrow> def_ok def"
proof -
  have "list_all (def_ok \<circ> snd) propertyDefs" by (simp add: propertyDefs_def def_ok_def)
  moreover assume "gm_get propertyDefs path = Some def"
  ultimately show ?thesis by (auto simp: gm_get_def list_all_iff dest!: map_of_SomeD)
qed

definition in_bounds :: "property_def \<Rightarrow> int \<Rightarrow> bool" where
  "in_bounds def n \<longleftrightarrow> 0 \<le> n \<and> n < 2 ^ 63 \<and> (case pd_min def of None \<Rightarrow> True | Some l \<Rightarrow> l \<le> n) \<and>
     (case pd_max def of None \<Rightarrow> True | Some h \<Rightarrow> n \<le> h)"

definition base_shape :: "property_def \<Rightarrow> goval \<Rightarrow> bool" where
  "base_shape def v \<longleftrightarrow> (case pd_type def of
     propBool \<Rightarrow> v \<in> {VBool True, VBool False}
   | propNum \<Rightarrow> \<exists>n. v = VInt n \<and> in_bounds def n
   | propStr \<Rightarrow> \<exists>s. v = VStr s
   | propArray \<Rightarrow> \<exists>xs. v = VList xs
   | propMap \<Rightarrow> \<exists>m. v = VMap m)"

definition has_type :: "profile_lib \<Rightarrow> property_def \<Rightarrow> goval \<Rightarrow> bool" where
  "has_type lib def v \<longleftrightarrow> base_shape def v \<and> validate lib (pd_validate def) v = Inr v \<and> setter_accepts def v"

definition well_typed :: "profile_lib \<Rightarrow> profile \<Rightarrow> bool" where
  "well_typed lib p \<longleftrightarrow> gm_wf p \<and> (\<forall>path v. gm_get p path = Some v \<longrightarrow>
     (\<exists>def. gm_get propertyDefs path = Some def \<and> has_type lib def v))"

definition lib_ok :: "profile_lib \<Rightarrow> bool" where
  "lib_ok lib \<longleftrightarrow> (\<forall>v w. read_logfilter lib v = Some w \<longrightarrow> (\<exists>m. w = VMap m) \<and>
     read_logfilter lib w = Some w \<and> read_logfilter lib (wire lib w) = Some w)"

text \<open>A Go \<open>int\<close> is in range, and no \<open>float64\<close> is set.\<close>

definition go_value :: "goval \<Rightarrow> bool" where
  "go_value v \<longleftrightarrow> (case v of VInt n \<Rightarrow> - (2 ^ 63) \<le> n \<and> n < 2 ^ 63 | VFloat _ \<Rightarrow> False | _ \<Rightarrow> True)"

lemma gm_set_append: "k \<notin> fst ` set m \<Longrightarrow> gm_set k v m = m @ [(k, v)]"
  unfolding gm_set_def by (induction m) auto

lemma gm_set_triv: "gm_get m k = Some v \<Longrightarrow> gm_set k v m = m"
  by (simp add: gm_set_def gm_get_def AList.update_triv)

lemma set_gm_set: "set (gm_set k v m) \<subseteq> insert (k, v) (set m)"
  unfolding gm_set_def by (induction m) auto

definition stable_body :: "(string \<times> goval \<Rightarrow> (string \<times> goval) option) \<Rightarrow> bool" where
  "stable_body f \<longleftrightarrow> (\<forall>x y. f x = Some y \<longrightarrow> f y = Some y)"

lemma rebuild_Some:
  assumes "stable_body f" "rebuild f m out = Some out'" "gm_wf out" "\<forall>y \<in> set out. f y = Some y"
  shows "gm_wf out' \<and> (\<forall>y \<in> set out'. f y = Some y) \<and> (out \<noteq> [] \<or> m \<noteq> [] \<longrightarrow> out' \<noteq> [])"
  using assms(2-)
proof (induction m arbitrary: out)
  case (Cons kv m)
  obtain k v where f: "f kv = Some (k, v)" "rebuild f m (gm_set k v out) = Some out'"
    using Cons.prems(1) by (auto split: option.splits)
  have "\<forall>y \<in> set (gm_set k v out). f y = Some y"
    using set_gm_set[of k v out] Cons.prems(3) assms(1) f(1) unfolding stable_body_def by blast
  moreover have "gm_set k v out \<noteq> []" by (simp add: gm_set_def)
  ultimately show ?case using Cons.IH[OF f(2)] Cons.prems(2) by simp
qed simp

lemma rebuild_id: "\<forall>y \<in> set m. f y = Some y \<Longrightarrow> gm_wf (out @ m) \<Longrightarrow> rebuild f m out = Some (out @ m)"
proof (induction m arbitrary: out)
  case (Cons kv m)
  obtain k v where kv: "kv = (k, v)" by force
  have "k \<notin> fst ` set out" using Cons.prems(2) kv by (auto simp: gm_wf_def)
  then show ?case using Cons.IH[of "out @ [(k, v)]"] Cons.prems kv by (simp add: gm_set_append)
qed simp

lemma rebuild_idem:
  assumes "stable_body f" "rebuild f m [] = Some out"
  shows "rebuild f out [] = Some out"
  using rebuild_Some[OF assms] rebuild_id[of out f "[]"] by (simp add: gm_wf_def)

lemma string_items_VStr [simp]: "string_items (map VStr ss) = Some ss"
  by (induction ss) auto

lemma stable_bodies:
  "stable_body asn_source" "stable_body level_value" "stable_body level_module" "stable_body cache_item" "stable_body cache_area"
proof -
  show asn: "stable_body asn_source"
  proof (unfold stable_body_def, intro allI impI)
    fix x y
    assume "asn_source x = Some y"
    then obtain items where "y = (to_lower (fst x), VList (map VStr items))" "asn_source_ok items"
        "to_lower (fst x) = ''cymru'' \<or> to_lower (fst x) = ''ripe''"
      by (auto simp: asn_source_def Let_def split: if_splits option.splits)
    then show "asn_source y = Some y"
      using to_lower_idem[of "fst x"] by (auto simp: asn_source_def Let_def toStringSlice_def)
  qed
  show lv: "stable_body level_value" and ci: "stable_body cache_item"
    by (auto simp: stable_body_def level_value_def cache_item_def split: goval.splits if_splits)
  show "stable_body level_module"
    using rebuild_idem[OF lv] by (auto simp: stable_body_def level_module_def split: goval.splits)
  show "stable_body cache_area"
    using rebuild_idem[OF ci] rebuild_Some[OF ci]
    by (fastforce simp: stable_body_def cache_area_def gm_wf_def split: goval.splits if_splits)
qed


lemma Atoi_range: "Atoi s = Some n \<Longrightarrow> n < 2 ^ 63"
  by (auto simp: Atoi_def split: option.splits if_splits)

lemma parseIntValue_range:
  assumes "parseIntValue v b = Some n" "go_value v"
  shows "0 \<le> n \<and> n < 2 ^ 63"
  using assms
  by (auto simp: parseIntValue_def go_value_def nonnegative_def dest: Atoi_range split: goval.splits option.splits if_splits)

lemma normalizeNum_bounds:
  assumes "normalizeNum v src (pd_min def) (pd_max def) = Inr w" "go_value v"
  shows "\<exists>n. w = VInt n \<and> in_bounds def n"
  using assms parseIntValue_range[OF _ assms(2)]
  by (auto simp: normalizeNum_def in_bounds_def split: option.splits if_splits)

lemma normalize_shape:
  assumes "normalizeValue def v src = Inr w" "go_value v"
  shows "base_shape def w"
proof (cases "pd_type def")
  case propNum
  then show ?thesis using assms normalizeNum_bounds[of v src def w] by (simp add: normalizeValue_def base_shape_def)
next
  case propBool
  then show ?thesis using assms(1)
    by (auto simp: normalizeValue_def base_shape_def normalizeBool_def split: value_source.splits goval.splits option.splits)
qed (use assms(1) in \<open>auto simp: normalizeValue_def base_shape_def normalizeString_def normalizeArray_def normalizeMap_def
  split: goval.splits\<close>)

lemma map_setters:
  "\<forall>y \<in> set m. asn_source y = Some y \<Longrightarrow> list_all (\<lambda>(k, x). case x of VList xs \<Rightarrow> list_all is_str xs | _ \<Rightarrow> False) m"
  "\<forall>y \<in> set m. level_module y = Some y \<Longrightarrow>
     list_all (\<lambda>(k, x). case x of VNil \<Rightarrow> True | VMap t \<Rightarrow> list_all (is_str \<circ> snd) t | _ \<Rightarrow> False) m"
  "\<forall>y \<in> set m. cache_area y = Some y \<Longrightarrow> list_all (\<lambda>(k, x). case x of VMap _ \<Rightarrow> True | _ \<Rightarrow> False) m"
proof -
  assume "\<forall>y \<in> set m. asn_source y = Some y"
  then show "list_all (\<lambda>(k, x). case x of VList xs \<Rightarrow> list_all is_str xs | _ \<Rightarrow> False) m"
    by (fastforce simp: list_all_iff asn_source_def Let_def is_str_def split: if_splits option.splits)
next
  have lv: "list_all (is_str \<circ> snd) t" if "rebuild level_value t [] = Some t" for t
    using rebuild_Some[OF stable_bodies(2) that]
    by (fastforce simp: gm_wf_def list_all_iff level_value_def is_str_def split: goval.splits)
  assume "\<forall>y \<in> set m. level_module y = Some y"
  then show "list_all (\<lambda>(k, x). case x of VNil \<Rightarrow> True | VMap t \<Rightarrow> list_all (is_str \<circ> snd) t | _ \<Rightarrow> False) m"
    using lv by (fastforce simp: list_all_iff level_module_def split: goval.splits)
next
  assume "\<forall>y \<in> set m. cache_area y = Some y"
  then show "list_all (\<lambda>(k, x). case x of VMap _ \<Rightarrow> True | _ \<Rightarrow> False) m"
    by (fastforce simp: list_all_iff cache_area_def split: goval.splits if_splits)
qed

lemma validate_typed:
  assumes "def_ok def" "lib_ok lib" "base_shape def w" "validate lib (pd_validate def) w = Inr u"
  shows "has_type lib def u"
proof -
  have reb: "\<exists>m'. u = VMap m' \<and> rebuild f m' [] = Some m' \<and> (\<forall>y \<in> set m'. f y = Some y)"
    if st: "stable_body f" and ch: "checked e (map_option VMap (rebuild f m [])) = Inr u" for f m e
  proof -
    obtain m' where m': "rebuild f m [] = Some m'" "u = VMap m'"
      using ch by (auto simp: checked_def split: option.splits)
    then show ?thesis using rebuild_idem[OF st m'(1)] rebuild_Some[OF st m'(1)] by (simp add: gm_wf_def)
  qed
  show ?thesis
  proof (cases "pd_validate def")
    case NoCheck
    then show ?thesis using assms by (auto simp: has_type_def base_shape_def validate_def setter_accepts_def split: property_type.splits)
  next
    case CheckSource4
    then show ?thesis using assms by (auto simp: has_type_def base_shape_def validate_def def_ok_def setter_accepts_def split: if_splits)
  next
    case CheckSource6
    then show ?thesis using assms by (auto simp: has_type_def base_shape_def validate_def def_ok_def setter_accepts_def split: if_splits)
  next
    case CheckASNStyle
    then have "u = VStr (to_lower (string_of w))" "to_lower (string_of w) = ''cymru'' \<or> to_lower (string_of w) = ''ripe''"
        "pd_type def = propStr"
      using assms by (auto simp: validate_def def_ok_def Let_def split: if_splits)
    then show ?thesis using CheckASNStyle to_lower_idem[of "string_of w"]
      by (simp add: has_type_def base_shape_def validate_def Let_def setter_accepts_def string_of_def)
  next
    case CheckASNSources
    then show ?thesis using assms reb[OF stable_bodies(1)] map_setters(1)
      by (fastforce simp: has_type_def base_shape_def validate_def def_ok_def setter_accepts_def map_entries_def checked_def)
  next
    case CheckTestLevels
    then show ?thesis using assms reb[OF stable_bodies(3)] map_setters(2)
      by (fastforce simp: has_type_def base_shape_def validate_def def_ok_def setter_accepts_def map_entries_def checked_def)
  next
    case CheckCache
    then show ?thesis using assms reb[OF stable_bodies(5)] map_setters(3)
      by (fastforce simp: has_type_def base_shape_def validate_def def_ok_def setter_accepts_def map_entries_def checked_def)
  next
    case CheckLogFilter
    then have "read_logfilter lib w = Some u" using assms(4) by (auto simp: validate_def checked_def split: option.splits)
    then have "read_logfilter lib u = Some u" "\<exists>m. u = VMap m" using assms(2) by (auto simp: lib_ok_def)
    then show ?thesis using CheckLogFilter assms(1)
      by (auto simp: has_type_def base_shape_def validate_def def_ok_def setter_accepts_def checked_def)
  qed
qed


lemma has_type_stored:
  assumes "has_type lib def v"
  shows "v \<noteq> VNil \<and> go_value v \<and> normalizeValue def v sourceJSON = Inr v"
proof (cases "pd_type def")
  case propNum
  then obtain n where n: "v = VInt n" "in_bounds def n" using assms by (auto simp: has_type_def base_shape_def)
  have "normalizeNum (VInt n) sourceJSON (pd_min def) (pd_max def) = Inr (VInt n)"
    using n(2) by (auto simp: normalizeNum_def parseIntValue_def nonnegative_def in_bounds_def split: option.splits)
  then show ?thesis using propNum n by (simp add: normalizeValue_def go_value_def in_bounds_def)
qed (use assms in \<open>auto simp: has_type_def base_shape_def go_value_def normalizeValue_def normalizeBool_def normalizeString_def
  normalizeArray_def normalizeMap_def\<close>)

lemma setWithSource_same:
  assumes "gm_get propertyDefs path = Some def" "has_type lib def v"
  shows "setWithSource lib path v sourceJSON p = Inr (gm_set path v p)"
  using assms has_type_stored[OF assms(2)] by (simp add: setWithSource_def has_type_def)

lemma setWithSource_Inr:
  assumes "lib_ok lib" "go_value v" "setWithSource lib path v src p = Inr p'"
  obtains def u where "gm_get propertyDefs path = Some def" "has_type lib def u" "p' = gm_set path u p"
proof -
  obtain def w u where d: "gm_get propertyDefs path = Some def" "normalizeValue def v src = Inr w"
      "validate lib (pd_validate def) w = Inr u" "p' = gm_set path u p"
    using assms(3) by (auto simp: setWithSource_def split: option.splits if_splits sum.splits)
  show ?thesis
    using that[OF d(1) _ d(4)] validate_typed[OF propertyDefs_ok[OF d(1)] assms(1) normalize_shape[OF d(2) assms(2)] d(3)] by blast
qed

lemma setWithSource_no_panic:
  assumes "lib_ok lib" "go_value v"
  shows "setWithSource lib path v src p \<noteq> Inl SetterPanic"
proof -
  have "normalizeValue def v src \<noteq> Inl SetterPanic" for def
    by (auto simp: normalizeValue_def normalizeBool_def normalizeNum_def normalizeString_def normalizeArray_def normalizeMap_def
      split: property_type.splits value_source.splits goval.splits option.splits)
  moreover have "validate lib c w \<noteq> Inl SetterPanic" for c w
    by (auto simp: validate_def checked_def Let_def split: validator.splits option.splits)
  moreover have "setter_accepts def u" if "gm_get propertyDefs path = Some def" "normalizeValue def v src = Inr w"
      "validate lib (pd_validate def) w = Inr u" for def w u
    using validate_typed[OF propertyDefs_ok[OF that(1)] assms(1) normalize_shape[OF that(2) assms(2)] that(3)]
    by (simp add: has_type_def)
  ultimately show ?thesis unfolding setWithSource_def
    by (auto split: option.splits sum.splits simp: Let_def)
qed

lemma well_typed_set:
  assumes "well_typed lib p" "gm_get propertyDefs path = Some def" "has_type lib def u"
  shows "well_typed lib (gm_set path u p)"
  using assms by (auto simp: well_typed_def gm.get_put)

lemma well_typed_New [simp]: "well_typed lib profile_New"
  by (simp add: well_typed_def profile_New_def)

lemma well_typedD:
  assumes "well_typed lib p" "gm_get p path = Some v"
  obtains def where "gm_get propertyDefs path = Some def" "has_type lib def v"
  using assms unfolding well_typed_def by blast

section \<open>Merging\<close>

lemma merge_props_typed:
  assumes "well_typed lib other" "well_typed lib p"
  shows "\<exists>q. merge_props lib ns other p = Inr q \<and> well_typed lib q \<and>
    (\<forall>path. gm_get q path = (if path \<in> set ns \<and> gm_get other path \<noteq> None then gm_get other path else gm_get p path))"
  using assms(2)
proof (induction ns arbitrary: p)
  case (Cons n ns)
  show ?case
  proof (cases "gm_get other n")
    case None
    then show ?thesis using Cons.IH[OF Cons.prems] by auto
  next
    case (Some v)
    obtain def where d: "gm_get propertyDefs n = Some def" "has_type lib def v"
      using well_typedD[OF assms(1) Some] .
    obtain q where "merge_props lib ns other (gm_set n v p) = Inr q" "well_typed lib q"
        "\<forall>path. gm_get q path = (if path \<in> set ns \<and> gm_get other path \<noteq> None then gm_get other path else gm_get (gm_set n v p) path)"
      using Cons.IH[OF well_typed_set[OF Cons.prems d]] by blast
    then show ?thesis using Some setWithSource_same[OF d] by (auto simp: gm.get_put)
  qed
qed simp

lemma set_propertyNames: "path \<in> set propertyNames \<longleftrightarrow> propertyExists path"
  by (auto simp: propertyNames_def propertyExists_def gm_has_def gm_get_def map_of_eq_None_iff)

lemma Merge_typed:
  assumes "well_typed lib other" "well_typed lib p"
  shows "\<exists>q. profile_Merge lib other p = Inr q \<and> well_typed lib q \<and>
    (\<forall>path. gm_get q path = (if isSet other path then gm_get other path else gm_get p path))"
proof -
  have "path \<in> set propertyNames" if "gm_get other path \<noteq> None" for path
    using that assms(1) by (fastforce simp: well_typed_def set_propertyNames propertyExists_def gm_has_def)
  then show ?thesis
    using merge_props_typed[OF assms, of propertyNames] by (auto simp: profile_Merge_def isSet_def gm_has_def)
qed

section \<open>Documents\<close>

fun decoded :: "goval \<Rightarrow> bool" where
  "decoded (VInt _) = False"
| "decoded (VFloat _) = False"
| "decoded (VList vs) = (\<forall>v \<in> set vs. decoded v)"
| "decoded (VMap m) = (\<forall>kv \<in> set m. decoded (snd kv))"
| "decoded _ = True"

lemma decoded_wire: "decoded (wire lib v)"
  by (induction v rule: wire.induct) auto

lemma gm_get_set_mem: "gm_get m k = Some v \<Longrightarrow> (k, v) \<in> set m"
  by (simp add: gm_get_def map_of_SomeD)

lemma get_nested_decoded: "decoded v \<Longrightarrow> get_nested v ks = Some w \<Longrightarrow> decoded w"
  by (induction v ks rule: get_nested.induct) (fastforce dest: gm_get_set_mem split: goval.splits option.splits if_splits)+

lemma decoded_go_value: "decoded v \<Longrightarrow> go_value v"
  by (cases v) (auto simp: go_value_def)

lemma wire_nil [simp]: "wire lib v = VNil \<longleftrightarrow> v = VNil"
  by (cases v) auto

lemma gm_get_map_snd: "gm_get (map (\<lambda>(k, v). (k, f v)) m) k = map_option f (gm_get m k)"
  by (simp add: gm_get_def map_of_map)

lemma get_nested_wire: "get_nested (wire lib v) ks = map_option (wire lib) (get_nested v ks)"
proof (induction v ks rule: get_nested.induct)
  case (2 v k ks)
  then show ?case by (cases v) (auto simp: gm_get_map_snd split: option.splits)
qed simp

lemma get_set_nested_same: "ks \<noteq> [] \<Longrightarrow> v \<noteq> VNil \<Longrightarrow> get_nested (VMap (set_nested ks v m)) ks = Some v"
  by (induction ks v m rule: set_nested.induct) (auto simp: gm.get_put)

lemma get_set_nested_other:
  "\<not> prefix ks qs \<Longrightarrow> \<not> prefix qs ks \<Longrightarrow> get_nested (VMap (set_nested ks v m)) qs = get_nested (VMap m) qs"
proof (induction ks v m arbitrary: qs rule: set_nested.induct)
  case (2 k v m)
  then show ?case by (cases qs) (auto simp: gm.get_put)
next
  case (3 k k' ks v m)
  obtain q qs' where qs: "qs = q # qs'" using "3.prems" by (cases qs) auto
  let ?n = "case gm_get m k of Some (VMap n) \<Rightarrow> n | _ \<Rightarrow> []"
  show ?case
  proof (cases "q = k")
    case True
    then have "qs' \<noteq> []" using qs "3.prems" by (cases qs') auto
    then obtain r rs where qs': "qs' = r # rs" by (cases qs') auto
    have "get_nested (VMap (set_nested (k' # ks) v ?n)) qs' = get_nested (VMap ?n) qs'"
      using "3.IH"[of qs'] "3.prems" qs True by simp
    then show ?thesis using qs True qs' by (auto simp: gm.get_put split: option.splits goval.splits)
  next
    case False
    then show ?thesis using qs by (simp add: gm.get_put)
  qed
qed simp


abbreviation parts :: "string \<Rightarrow> string list" where
  "parts path \<equiv> split_on (CHR ''.'') path"

text \<open>No property path is a prefix of another one.\<close>

lemma prefix_free_table: "(let ps = map parts propertyNames in list_all (\<lambda>q. list_all (\<lambda>q'. q = q' \<or> \<not> prefix q q') ps) ps)"
  by code_simp

lemma prefix_free:
  assumes "propertyExists n" "propertyExists n'" "prefix (parts n) (parts n')"
  shows "n = n'"
proof -
  have "parts n = parts n'"
    using assms prefix_free_table by (auto simp: Let_def list_all_iff simp flip: set_propertyNames)
  then show ?thesis by (metis join_split_on)
qed

lemma distinct_propertyNames: "distinct propertyNames"
  by code_simp

lemma parts_not_empty [simp]: "parts path \<noteq> []"
  by (cases path) (auto simp: Let_def split: list.splits)

lemma getNested_fold:
  assumes "set ns \<subseteq> set propertyNames" "distinct ns" "\<forall>path v. gm_get p path = Some v \<longrightarrow> v \<noteq> VNil" "propertyExists path"
  shows "getNestedValue (fold (\<lambda>n m. case gm_get p n of None \<Rightarrow> m | Some v \<Rightarrow> setNestedValue n v m) ns m) path =
    (if path \<in> set ns \<and> gm_get p path \<noteq> None then gm_get p path else getNestedValue m path)"
  using assms(1,2)
proof (induction ns arbitrary: m)
  case (Cons n ns)
  show ?case
  proof (cases "gm_get p n")
    case None
    then show ?thesis using Cons by auto
  next
    case (Some v)
    have n: "propertyExists n" using Cons.prems(1) by (simp add: set_propertyNames)
    have "getNestedValue (setNestedValue n v m) path = (if path = n then Some v else getNestedValue m path)"
    proof (cases "path = n")
      case True
      then show ?thesis using get_set_nested_same[of "parts n" v m] assms(3) Some
        by (auto simp: getNestedValue_def setNestedValue_def)
    next
      case False
      then have "\<not> prefix (parts n) (parts path)" "\<not> prefix (parts path) (parts n)"
        using prefix_free[OF n assms(4)] prefix_free[OF assms(4) n] by auto
      then show ?thesis using False get_set_nested_other by (auto simp: getNestedValue_def setNestedValue_def)
    qed
    then show ?thesis using Cons Some by auto
  qed
qed simp

lemma getNested_toMap:
  assumes "well_typed lib p" "propertyExists path"
  shows "getNestedValue (toMap p) path = gm_get p path"
proof -
  have "\<forall>path v. gm_get p path = Some v \<longrightarrow> v \<noteq> VNil"
    using assms(1) has_type_stored unfolding well_typed_def by blast
  moreover have "getNestedValue [] path = None"
    using parts_not_empty[of path] by (cases "parts path") (simp_all add: getNestedValue_def gm_get_def)
  ultimately show ?thesis
    using getNested_fold[OF subset_refl distinct_propertyNames _ assms(2), of p "[]"] assms(2)
    by (simp add: toMap_def set_propertyNames)
qed

text \<open>Every leaf of a document is a property that satisfies \<open>P\<close>.\<close>

inductive tree_ok :: "(string \<Rightarrow> bool) \<Rightarrow> string list \<Rightarrow> (string \<times> goval) list \<Rightarrow> bool" for P where
  "(\<And>k v. (k, v) \<in> set m \<Longrightarrow>
      (if propertyExists (join ''.'' (pre @ [k])) then P (join ''.'' (pre @ [k]))
       else \<exists>n. v = VMap n \<and> tree_ok P (pre @ [k]) n)) \<Longrightarrow> tree_ok P pre m"

inductive_cases tree_okE: "tree_ok P pre m"


lemma tree_ok_entry:
  assumes "tree_ok P pre m" "(k, v) \<in> set m" "\<not> propertyExists (join ''.'' (pre @ [k]))"
  shows "\<exists>n. v = VMap n \<and> tree_ok P (pre @ [k]) n"
  using assms by (auto elim: tree_okE)

lemma tree_ok_gm_set:
  assumes "tree_ok P pre m" "if propertyExists (join ''.'' (pre @ [k])) then P (join ''.'' (pre @ [k]))
       else \<exists>n. v = VMap n \<and> tree_ok P (pre @ [k]) n"
  shows "tree_ok P pre (gm_set k v m)"
proof (rule tree_ok.intros)
  fix k' v'
  assume "(k', v') \<in> set (gm_set k v m)"
  then have "(k', v') = (k, v) \<or> (k', v') \<in> set m" using set_gm_set[of k v m] by blast
  then show "if propertyExists (join ''.'' (pre @ [k'])) then P (join ''.'' (pre @ [k']))
       else \<exists>n. v' = VMap n \<and> tree_ok P (pre @ [k']) n"
    using assms by (auto elim: tree_okE)
qed

lemma tree_ok_set:
  assumes "ks \<noteq> []" "tree_ok P pre m" "propertyExists (join ''.'' (pre @ ks))" "P (join ''.'' (pre @ ks))"
    "\<And>i. 0 < i \<Longrightarrow> i < length ks \<Longrightarrow> \<not> propertyExists (join ''.'' (pre @ take i ks))"
  shows "tree_ok P pre (set_nested ks v m)"
  using assms
proof (induction ks v m arbitrary: pre rule: set_nested.induct)
  case (2 k v m)
  then show ?case by (simp add: tree_ok_gm_set)
next
  case (3 k k' ks v m)
  let ?n = "case gm_get m k of Some (VMap n) \<Rightarrow> n | _ \<Rightarrow> []"
  have k: "\<not> propertyExists (join ''.'' (pre @ [k]))" using "3.prems"(5)[of 1] by simp
  have "tree_ok P (pre @ [k]) ?n"
    using tree_ok_entry[OF "3.prems"(2) gm_get_set_mem k] tree_ok.intros[of "[]" "pre @ [k]" P]
    by (auto split: option.splits goval.splits)
  then have "tree_ok P (pre @ [k]) (set_nested (k' # ks) v ?n)"
    using "3.IH"[of "pre @ [k]"] "3.prems"(3,4) "3.prems"(5)[of "Suc i" for i] by simp
  then show ?case using "3.prems"(2) k by (simp add: tree_ok_gm_set)
qed simp

lemma tree_ok_wire: "tree_ok P pre m \<Longrightarrow> tree_ok P pre (map (\<lambda>(k, v). (k, wire lib v)) m)"
proof (induction rule: tree_ok.induct)
  case (1 m pre)
  show ?case
    by (rule tree_ok.intros) (use "1.IH" in \<open>fastforce split: if_splits\<close>)
qed

lemma set_collectPaths:
  "path \<in> set (collectPaths pre m) \<longleftrightarrow> (\<exists>(k, v) \<in> set m. path \<in> set (case v of
     VMap nested \<Rightarrow> if propertyExists (join ''.'' (pre @ [k])) then [join ''.'' (pre @ [k])] else collectPaths (pre @ [k]) nested
   | _ \<Rightarrow> [join ''.'' (pre @ [k])]))"
  by (induction m) (auto simp: Let_def)

lemma collectPaths_sound: "tree_ok P pre m \<Longrightarrow> path \<in> set (collectPaths pre m) \<Longrightarrow> propertyExists path \<and> P path"
proof (induction arbitrary: path rule: tree_ok.induct)
  case (1 m pre)
  then obtain k v where kv: "(k, v) \<in> set m" and path: "path \<in> set (case v of
     VMap nested \<Rightarrow> if propertyExists (join ''.'' (pre @ [k])) then [join ''.'' (pre @ [k])] else collectPaths (pre @ [k]) nested
   | _ \<Rightarrow> [join ''.'' (pre @ [k])])"
    unfolding set_collectPaths by blast
  then show ?case using "1.IH"[OF kv] by (auto split: if_splits goval.splits)
qed

lemma collectPaths_complete:
  assumes "get_nested (VMap m) ks = Some v" "ks \<noteq> []" "propertyExists (join ''.'' (pre @ ks))"
    "\<And>i. 0 < i \<Longrightarrow> i < length ks \<Longrightarrow> \<not> propertyExists (join ''.'' (pre @ take i ks))"
  shows "join ''.'' (pre @ ks) \<in> set (collectPaths pre m)"
  using assms
proof (induction ks arbitrary: pre m)
  case (Cons k ks)
  obtain w where w: "(k, w) \<in> set m" "get_nested w ks = Some v"
    using Cons.prems(1) by (auto dest: gm_get_set_mem split: option.splits if_splits)
  show ?case
  proof (cases "ks = []")
    case True
    then show ?thesis using Cons.prems(3) w(1) unfolding set_collectPaths
      by (intro bexI[of _ "(k, w)"]) (simp_all split: goval.splits)
  next
    case False
    have k: "\<not> propertyExists (join ''.'' (pre @ [k]))" using Cons.prems(4)[of 1] False by simp
    obtain n where n: "w = VMap n" using w(2) False by (cases ks; cases w) auto
    have "join ''.'' ((pre @ [k]) @ ks) \<in> set (collectPaths (pre @ [k]) n)"
      using Cons.IH[of n "pre @ [k]"] w(2) n False Cons.prems(3) Cons.prems(4)[of "Suc i" for i] by simp
    then show ?thesis using w(1) n k by (subst set_collectPaths) (auto intro!: bexI[of _ "(k, w)"])
  qed
qed simp


lemma parts_prefix_free:
  assumes "propertyExists path" "0 < i" "i < length (parts path)"
  shows "\<not> propertyExists (join ''.'' (take i (parts path)))"
proof
  assume ex: "propertyExists (join ''.'' (take i (parts path)))"
  have "parts (join ''.'' (take i (parts path))) = take i (parts path)"
    using assms split_on_sep_free[of _ "CHR ''.''" path] by (intro split_on_join) (auto dest: in_set_takeD)
  then have "join ''.'' (take i (parts path)) = path"
    using prefix_free[OF ex assms(1)] by (simp add: take_is_prefix)
  then have "take i (parts path) = parts path"
    using \<open>parts (join ''.'' (take i (parts path))) = take i (parts path)\<close> by simp
  then show False using assms(3) by (metis length_take min.absorb4 nat_less_le)
qed

lemma toMap_tree: "tree_ok (\<lambda>path. gm_get p path \<noteq> None) [] (toMap p)"
proof -
  have step: "tree_ok (\<lambda>path. gm_get p path \<noteq> None) [] (fold (\<lambda>n m. case gm_get p n of None \<Rightarrow> m | Some v \<Rightarrow> setNestedValue n v m) ns m)"
    if "set ns \<subseteq> set propertyNames" "tree_ok (\<lambda>path. gm_get p path \<noteq> None) [] m" for ns m
    using that
  proof (induction ns arbitrary: m)
    case (Cons n ns)
    have n: "propertyExists n" using Cons.prems(1) by (simp add: set_propertyNames)
    have "tree_ok (\<lambda>path. gm_get p path \<noteq> None) [] (setNestedValue n v m)" if "gm_get p n = Some v" for v
      unfolding setNestedValue_def using that Cons.prems(2) n parts_prefix_free[OF n]
      by (intro tree_ok_set) auto
    then show ?case using Cons by (auto split: option.splits)
  qed simp
  show ?thesis unfolding toMap_def by (rule step) (auto intro: tree_ok.intros)
qed

lemma ToJSON_paths:
  assumes "well_typed lib p"
  shows "set (collectPaths [] (ToJSON lib p)) = {path. gm_get p path \<noteq> None}"
proof -
  have m: "ToJSON lib p = map (\<lambda>(k, v). (k, wire lib v)) (toMap p)" by (simp add: ToJSON_def map_entries_def)
  have "path \<in> set (collectPaths [] (ToJSON lib p))" if "gm_get p path = Some v" for path v
  proof -
    have ex: "propertyExists path" using well_typedD[OF assms that] by (auto simp: propertyExists_def gm_has_def)
    have "get_nested (VMap (ToJSON lib p)) (parts path) = Some (wire lib v)"
      using getNested_toMap[OF assms ex] that get_nested_wire[of lib "VMap (toMap p)" "parts path"]
      by (simp add: m getNestedValue_def)
    then show ?thesis using collectPaths_complete[of "ToJSON lib p" "parts path" _ "[]"] ex parts_prefix_free[OF ex] by simp
  qed
  then show ?thesis using collectPaths_sound[OF tree_ok_wire[OF toMap_tree]] unfolding m by fastforce
qed

lemma getNested_ToJSON:
  assumes "well_typed lib p" "propertyExists path"
  shows "getNestedValue (ToJSON lib p) path = map_option (wire lib) (gm_get p path)"
  using getNested_toMap[OF assms] get_nested_wire[of lib "VMap (toMap p)" "parts path"]
  by (simp add: ToJSON_def map_entries_def getNestedValue_def)


lemma setWithSource_wire:
  assumes "lib_ok lib" "gm_get propertyDefs path = Some def" "has_type lib def v"
    "pd_type def \<in> {propArray, propMap} \<Longrightarrow> pd_validate def \<noteq> CheckLogFilter \<Longrightarrow> wire lib v = v"
  shows "setWithSource lib path (wire lib v) sourceJSON q = Inr (gm_set path v q)"
proof -
  note same = setWithSource_same[OF assms(2,3), of q]
  show ?thesis
  proof (cases "pd_type def")
    case propNum
    then obtain n where n: "v = VInt n" "in_bounds def n" using assms(3) by (auto simp: has_type_def base_shape_def)
    have "CHR ''.'' \<notin> set (itoa n)" using digits_no_sign(3) by (simp add: itoa_def)
    moreover have "Atoi (itoa n) = Some n" using n(2) by (intro Atoi_itoa) (auto simp: in_bounds_def)
    ultimately have "parseIntValue (VNumber (itoa n)) False = parseIntValue (VInt n) False"
      by (simp add: parseIntValue_def)
    then have "normalizeValue def (VNumber (itoa n)) sourceJSON = normalizeValue def (VInt n) sourceJSON"
      using propNum by (simp add: normalizeValue_def normalizeNum_def)
    then show ?thesis using same n(1) assms(2) by (simp add: setWithSource_def)
  next
    case propMap
    show ?thesis
    proof (cases "pd_validate def = CheckLogFilter")
      case True
      then have "read_logfilter lib v = Some v" using assms(3) by (auto simp: has_type_def validate_def checked_def split: option.splits)
      then obtain m where "read_logfilter lib (wire lib v) = Some v" "v = VMap m"
        using assms(1) unfolding lib_ok_def by blast
      then show ?thesis using True propMap same assms(2,3)
        by (simp add: setWithSource_def normalizeValue_def normalizeMap_def validate_def checked_def has_type_def)
    qed (use propMap assms(4) same in simp)
  next
    case propArray
    then have "pd_validate def \<noteq> CheckLogFilter" using propertyDefs_ok[OF assms(2)] by (auto simp: def_ok_def)
    then show ?thesis using propArray assms(4) same by simp
  qed (use assms(3) same in \<open>auto simp: has_type_def base_shape_def\<close>)
qed

definition json_clean :: "profile_lib \<Rightarrow> profile \<Rightarrow> bool" where
  "json_clean lib p \<longleftrightarrow> (\<forall>path v def. gm_get p path = Some v \<longrightarrow> gm_get propertyDefs path = Some def \<longrightarrow>
     pd_type def \<in> {propArray, propMap} \<longrightarrow> pd_validate def \<noteq> CheckLogFilter \<longrightarrow> wire lib v = v)"

definition retired_free :: "profile \<Rightarrow> bool" where
  "retired_free p \<longleftrightarrow> (\<forall>levels m tags. gm_get p ''test_levels'' = Some (VMap levels) \<longrightarrow> (m, VMap tags) \<in> set levels \<longrightarrow>
     (\<forall>oc \<in> set profile_renamedTags. gm_get tags (fst oc) = None))"

lemma fold_rename_id: "\<forall>oc \<in> set ocs. gm_get tags (fst oc) = None \<Longrightarrow> fold rename_tag ocs tags = tags"
  by (induction ocs arbitrary: tags) (auto simp: rename_tag_def)

lemma getNested_test_levels: "getNestedValue data ''test_levels'' =
    (case gm_get data ''test_levels'' of None \<Rightarrow> None | Some w \<Rightarrow> if w = VNil then None else Some w)"
  by (simp add: getNestedValue_def Let_def cong: option.case_cong if_cong)

lemma migrate_ToJSON:
  assumes "well_typed lib p" "retired_free p"
  shows "profile_migrate (ToJSON lib p) = ToJSON lib p"
proof -
  have ex: "propertyExists ''test_levels''" by code_simp
  have "gm_set ''test_levels'' (VMap (map (\<lambda>(m, raw). (m, rename_module raw)) L)) (ToJSON lib p) = ToJSON lib p"
    if L: "gm_get (ToJSON lib p) ''test_levels'' = Some (VMap L)" for L
  proof -
    obtain w where w: "gm_get p ''test_levels'' = Some w" "wire lib w = VMap L"
      using getNested_ToJSON[OF assms(1) ex] L by (cases "gm_get p ''test_levels''") (simp_all add: getNested_test_levels)
    obtain levels where levels: "w = VMap levels" "L = map (\<lambda>(k, v). (k, wire lib v)) levels"
      using w(2) by (cases w) auto
    have "rename_module (wire lib raw) = wire lib raw" if "(m, raw) \<in> set levels" for m raw
    proof (cases raw)
      case (VMap tags)
      then have "\<forall>oc \<in> set profile_renamedTags. gm_get tags (fst oc) = None"
        using assms(2) w(1) levels(1) that unfolding retired_free_def by blast
      then have "fold rename_tag profile_renamedTags (map (\<lambda>(k, v). (k, wire lib v)) tags) = map (\<lambda>(k, v). (k, wire lib v)) tags"
        by (intro fold_rename_id) (simp add: gm_get_map_snd)
      then show ?thesis using VMap by (simp add: rename_module_def)
    qed (simp_all add: rename_module_def)
    then have "map (\<lambda>(m, raw). (m, rename_module raw)) L = L" unfolding levels(2) by (auto intro!: map_idI)
    then show ?thesis using gm_set_triv[OF L] by simp
  qed
  then show ?thesis by (auto simp: profile_migrate_def split: option.splits goval.splits)
qed

lemma from_paths_restore:
  assumes "lib_ok lib" "well_typed lib p" "json_clean lib p" "\<forall>path \<in> set paths. gm_get p path \<noteq> None"
  shows "\<exists>q'. from_paths lib (ToJSON lib p) paths q = Inr q' \<and>
    (\<forall>path. gm_get q' path = (if path \<in> set paths then gm_get p path else gm_get q path))"
  using assms(4)
proof (induction paths arbitrary: q)
  case (Cons path paths)
  obtain v where v: "gm_get p path = Some v" using Cons.prems by auto
  obtain def where d: "gm_get propertyDefs path = Some def" "has_type lib def v" using well_typedD[OF assms(2) v] .
  have ex: "propertyExists path" using d(1) by (simp add: propertyExists_def gm_has_def)
  have "setWithSource lib path (wire lib v) sourceJSON q = Inr (gm_set path v q)"
    by (rule setWithSource_wire[OF assms(1) d]) (use assms(3) v d(1) in \<open>auto simp: json_clean_def\<close>)
  then show ?case using Cons.IH[of "gm_set path v q"] Cons.prems ex v getNested_ToJSON[OF assms(2) ex]
    by (auto simp: gm.get_put)
qed simp


lemma decoded_gm_set: "decoded (VMap m) \<Longrightarrow> decoded v \<Longrightarrow> decoded (VMap (gm_set k v m))"
  using set_gm_set[of k v m] by auto

lemma decoded_get: "decoded (VMap m) \<Longrightarrow> gm_get m k = Some v \<Longrightarrow> decoded v"
  by (auto dest!: gm_get_set_mem)

lemma decoded_fold_rename: "decoded (VMap tags) \<Longrightarrow> decoded (VMap (fold rename_tag ocs tags))"
proof (induction ocs arbitrary: tags)
  case (Cons oc ocs)
  have del: "decoded (VMap (gm_del k tags))" for k
    using Cons.prems by (auto simp: gm_del_def AList.delete_eq)
  have "decoded (VMap (rename_tag oc tags))"
    using Cons.prems del decoded_gm_set[OF del] decoded_get[OF Cons.prems]
    by (simp add: rename_tag_def Let_def del: decoded.simps split: option.splits)
  then show ?case using Cons.IH by simp
qed simp

lemma decoded_rename_module: "decoded v \<Longrightarrow> decoded (rename_module v)"
  using decoded_fold_rename by (cases v) (auto simp: rename_module_def)

lemma decoded_migrate:
  assumes "decoded (VMap data)"
  shows "decoded (VMap (profile_migrate data))"
proof (cases "\<exists>levels. gm_get data ''test_levels'' = Some (VMap levels)")
  case True
  then obtain levels where l: "gm_get data ''test_levels'' = Some (VMap levels)" by blast
  then have "decoded (VMap levels)" using assms decoded_get by blast
  then have "decoded (VMap (map (\<lambda>(m, raw). (m, rename_module raw)) levels))" using decoded_rename_module by auto
  then show ?thesis using l decoded_gm_set[OF assms] by (simp add: profile_migrate_def del: decoded.simps)
qed (use assms in \<open>auto simp: profile_migrate_def split: option.splits goval.splits\<close>)

lemma from_paths_typed:
  assumes "lib_ok lib" "decoded (VMap data)" "well_typed lib p" "from_paths lib data paths p = Inr q"
  shows "well_typed lib q"
  using assms(3,4)
proof (induction paths arbitrary: p)
  case (Cons path paths)
  show ?case
  proof (cases "propertyExists path \<and> getNestedValue data path \<noteq> None")
    case True
    then obtain v where v: "getNestedValue data path = Some v" by blast
    then obtain p' where p': "setWithSource lib path v sourceJSON p = Inr p'" "from_paths lib data paths p' = Inr q"
      using Cons.prems True by (auto split: sum.splits)
    have "go_value v" using decoded_go_value get_nested_decoded[OF assms(2)] v by (simp add: getNestedValue_def)
    from setWithSource_Inr[OF assms(1) this p'(1)] have "well_typed lib p'" using well_typed_set[OF Cons.prems(1)] by metis
    then show ?thesis using Cons.IH p'(2) by blast
  next
    case False
    then show ?thesis using Cons by (auto split: if_splits option.splits)
  qed
qed simp

lemma FromJSON_typed:
  assumes "lib_ok lib" "decoded (VMap data)" "FromJSON lib data = Inr q"
  shows "well_typed lib q"
  using from_paths_typed[OF assms(1) decoded_migrate[OF assms(2)] well_typed_New] assms(3)
  by (simp add: FromJSON_def fromDataMap_def)

section \<open>Properties\<close>

definition sample_lib :: profile_lib where
  "sample_lib = \<lparr>valid_ipv4 = (\<lambda>s. s = ''192.0.2.1''), valid_ipv6 = (\<lambda>s. False),
     read_logfilter = (\<lambda>v. if v = VMap [] then Some (VMap []) else None), float_text = (\<lambda>r. ''0'')\<rparr>"

lemma sample_lib_ok: "lib_ok sample_lib"
  by (simp add: lib_ok_def sample_lib_def)

text \<open>
  C28. Profiles are well typed, whatever document or value they are built from. No setter panics on its
  type assertion; a value that is accepted leaves every set property with a value of the property's
  type, within its bounds and accepted by its validator; so does reading a decoded JSON document.
\<close>

theorem profile_type_safety:
  assumes "lib_ok lib" "well_typed lib p"
  shows "(go_value v \<longrightarrow> setWithSource lib path v src p \<noteq> Inl SetterPanic) \<and>
    (go_value v \<longrightarrow> setWithSource lib path v src p = Inr p' \<longrightarrow> well_typed lib p' \<and> isSet p' path \<and>
       (\<forall>other. other \<noteq> path \<longrightarrow> gm_get p' other = gm_get p other)) \<and>
    (decoded (VMap data) \<longrightarrow> FromJSON lib data = Inr q \<longrightarrow> well_typed lib q)"
proof (intro conjI impI)
  assume v: "go_value v"
  then show "setWithSource lib path v src p \<noteq> Inl SetterPanic" by (rule setWithSource_no_panic[OF assms(1)])
  assume "setWithSource lib path v src p = Inr p'"
  then obtain def u where "gm_get propertyDefs path = Some def" "has_type lib def u" "p' = gm_set path u p"
    using setWithSource_Inr[OF assms(1) v] by metis
  then show "well_typed lib p'" "isSet p' path" "\<forall>other. other \<noteq> path \<longrightarrow> gm_get p' other = gm_get p other"
    using well_typed_set[OF assms(2)] by (auto simp: isSet_def gm_has_def gm.get_put)
next
  assume "decoded (VMap data)" "FromJSON lib data = Inr q"
  then show "well_typed lib q" by (rule FromJSON_typed[OF assms(1)])
qed

theorem profile_type_safety_witness:
  "well_typed sample_lib [(''resolver.defaults.retry'', VInt 7)] \<and>
   setWithSource sample_lib ''resolver.defaults.retry'' (VNumber ''7'') sourceJSON profile_New =
     Inr [(''resolver.defaults.retry'', VInt 7)]"
proof -
  have "setWithSource sample_lib ''resolver.defaults.retry'' (VNumber ''7'') sourceJSON profile_New =
     Inr [(''resolver.defaults.retry'', VInt 7)]" by code_simp
  then show ?thesis
    using profile_type_safety[OF sample_lib_ok well_typed_New, of "VNumber ''7''" "''resolver.defaults.retry''" sourceJSON]
    by (simp add: go_value_def)
qed

text \<open>
  Merging never fails on well-typed profiles: the result has the override's value for every property
  the override sets and the base's value for every other property, and it is well typed again.
\<close>

theorem profile_merge:
  assumes "well_typed lib other" "well_typed lib p"
  shows "\<exists>q. profile_Merge lib other p = Inr q \<and> well_typed lib q \<and>
    (\<forall>path. gm_get q path = (if isSet other path then gm_get other path else gm_get p path))"
  by (rule Merge_typed[OF assms])


definition sample_profile :: profile where
  "sample_profile = [(''resolver.defaults.retry'', VInt 7), (''test_cases'', VList [VStr ''basic01'']), (''net.ipv6'', VBool False)]"

lemma well_typedI:
  assumes "gm_wf p" "\<And>path v. (path, v) \<in> set p \<Longrightarrow> \<exists>def. gm_get propertyDefs path = Some def \<and> has_type lib def v"
  shows "well_typed lib p"
  using assms gm_get_set_mem unfolding well_typed_def by metis

lemma sample_defs:
  "gm_get propertyDefs ''resolver.defaults.retry'' = Some (number_prop 1 255)"
  "gm_get propertyDefs ''test_cases'' = Some (plain_prop propArray)"
  "gm_get propertyDefs ''net.ipv4'' = Some (plain_prop propBool)" "gm_get propertyDefs ''net.ipv6'' = Some (plain_prop propBool)"
  by (simp_all add: propertyDefs_def gm_get_def)

lemma sample_profile_ok:
  "well_typed sample_lib sample_profile" "well_typed sample_lib [(''net.ipv6'', VBool True), (''net.ipv4'', VBool True)]"
  by (rule well_typedI; auto simp: sample_profile_def gm_wf_def sample_defs has_type_def base_shape_def in_bounds_def
    validate_def setter_accepts_def)+

theorem profile_merge_witness:
  "\<exists>q. profile_Merge sample_lib sample_profile [(''net.ipv6'', VBool True), (''net.ipv4'', VBool True)] = Inr q \<and>
     gm_get q ''net.ipv6'' = Some (VBool False) \<and> gm_get q ''net.ipv4'' = Some (VBool True)"
proof -
  from profile_merge[OF sample_profile_ok] show ?thesis
    by (auto simp: isSet_def gm_has_def sample_profile_def gm_get_def)
qed


end
