(* ===== verification/Plan.thy ===== *)
theory Plan
  imports Profile
begin

text \<open>
  Which test cases a run executes (\<open>engine/plan.go\<close> and the request handling of \<open>engine/engine.go\<close>):
  the tables of modules and test cases, the plan computed for a request, the exclusions, and the
  effective profile the engine builds and runs with.

  \<^item> A table of test functions is used through its keys only and is the list of them.
  \<^item> \<open>rq_Override\<close> is the outcome of reading the profile override of the request (from its inline
    document or from a file), \<open>defaults\<close> the document of the default profile, and \<open>no_ipv6\<close> whether the
    IPv6 probe decided to switch IPv6 off.
  \<^item> Every refusal of a module, a test case or an exclusion wraps \<open>ErrNotImplemented\<close>.
\<close>

section \<open>Tables\<close>

definition basicTests :: "string list" where
  "basicTests = [''basic01'', ''basic02'', ''basic03'']"

definition syntaxTests :: "string list" where
  "syntaxTests = [''syntax01'', ''syntax02'', ''syntax03'', ''syntax04'', ''syntax05'', ''syntax06'', ''syntax07'', ''syntax08'']"

definition addressTests :: "string list" where
  "addressTests = [''address01'', ''address02'', ''address03'']"

definition connectivityTests :: "string list" where
  "connectivityTests = [''connectivity01'', ''connectivity02'', ''connectivity03'', ''connectivity04'', ''connectivity05'']"

definition consistencyTests :: "string list" where
  "consistencyTests = [''consistency01'', ''consistency02'', ''consistency03'', ''consistency04'', ''consistency05'',
     ''consistency06'']"

definition delegationTests :: "string list" where
  "delegationTests = [''delegation01'', ''delegation02'', ''delegation03'', ''delegation04'', ''delegation05'',
     ''delegation06'', ''delegation07'']"

definition dnssecTests :: "string list" where
  "dnssecTests = [''dnssec01'', ''dnssec02'', ''dnssec03'', ''dnssec04'', ''dnssec05'', ''dnssec06'', ''dnssec07'',
     ''dnssec08'', ''dnssec09'', ''dnssec10'', ''dnssec11'', ''dnssec13'', ''dnssec14'', ''dnssec15'', ''dnssec16'',
     ''dnssec17'', ''dnssec18'', ''dnssec19'', ''dnssec20'', ''dnssec21'', ''dnssec22'', ''dnssec23'', ''dnssec24'']"

definition zoneTests :: "string list" where
  "zoneTests = [''zone01'', ''zone02'', ''zone03'', ''zone04'', ''zone05'', ''zone06'', ''zone07'', ''zone08'', ''zone09'',
     ''zone10'', ''zone11'', ''zone12'', ''zone13'', ''zone14'', ''zone15'']"

definition nameserverTests :: "string list" where
  "nameserverTests = [''nameserver01'', ''nameserver02'', ''nameserver03'', ''nameserver04'', ''nameserver05'',
     ''nameserver06'', ''nameserver07'', ''nameserver08'', ''nameserver09'', ''nameserver10'', ''nameserver11'',
     ''nameserver12'', ''nameserver13'', ''nameserver15'', ''nameserver16'', ''nameserver17'', ''nameserver18'']"

definition is_digit :: "char \<Rightarrow> bool" where
  "is_digit c = (let n = (of_char c :: nat) in 48 \<le> n \<and> n \<le> 57)"

definition splitTestcaseNumber :: "string \<Rightarrow> string \<times> int \<times> bool" where
  "splitTestcaseNumber name = (let suffix = rev (takeWhile is_digit (rev name)) in
     if suffix = [] then (name, 0, False)
     else case Atoi suffix of
       None \<Rightarrow> (name, 0, False)
     | Some num \<Rightarrow> (take (length name - length suffix) name, num, True))"

definition testcase_less :: "string \<Rightarrow> string \<Rightarrow> bool" where
  "testcase_less a b = (case (splitTestcaseNumber a, splitTestcaseNumber b) of
     ((prefixI, numI, okI), (prefixJ, numJ, okJ)) \<Rightarrow>
       if prefixI = prefixJ \<and> okI \<and> okJ \<and> numI \<noteq> numJ then numI < numJ else a < b)"

text \<open>The keys of a map in the order of an iteration, sorted.\<close>

definition dnssecTestcaseNames :: "string list \<Rightarrow> string list" where
  "dnssecTestcaseNames keys = sort_by testcase_less keys"

definition moduleTestcases :: "(string, string list) gomap" where
  "moduleTestcases = [
     (''basic'', basicTests),
     (''syntax'', syntaxTests),
     (''address'', addressTests),
     (''connectivity'', connectivityTests),
     (''consistency'', consistencyTests),
     (''dnssec'', dnssecTestcaseNames dnssecTests),
     (''delegation'', delegationTests),
     (''nameserver'', nameserverTests),
     (''zone'', zoneTests)]"

definition moduleOrder :: "string list" where
  "moduleOrder = [''basic'', ''address'', ''connectivity'', ''consistency'', ''delegation'', ''dnssec'', ''nameserver'',
     ''syntax'', ''zone'']"

definition testcaseModule :: "string \<Rightarrow> string" where
  "testcaseModule tc =
     (if tc \<in> set basicTests then ''basic''
      else if tc \<in> set syntaxTests then ''syntax''
      else if tc \<in> set addressTests then ''address''
      else if tc \<in> set connectivityTests then ''connectivity''
      else if tc \<in> set consistencyTests then ''consistency''
      else if tc \<in> set dnssecTests then ''dnssec''
      else if tc \<in> set delegationTests then ''delegation''
      else if tc \<in> set nameserverTests then ''nameserver''
      else if tc \<in> set zoneTests then ''zone''
      else [])"

definition cases_of :: "string \<Rightarrow> string list" where
  "cases_of m = gm_get_or [] moduleTestcases m"

text \<open>The nested loop over modules and their test cases that every selection ends with.\<close>

definition in_plan_order :: "(string \<Rightarrow> bool) \<Rightarrow> string list" where
  "in_plan_order P = concat (map (\<lambda>m. filter P (cases_of m)) moduleOrder)"

definition numericLevels :: "(string, int) gomap" where
  "numericLevels = [(''DEBUG3'', -2), (''DEBUG2'', -1), (''DEBUG'', 0), (''INFO'', 1), (''NOTICE'', 2), (''WARNING'', 3),
     (''ERROR'', 4), (''CRITICAL'', 5)]"

section \<open>Requests\<close>

record run_request =
  rq_Module :: string
  rq_Testcases :: "string list"
  rq_Exclude :: "string list"
  rq_MinLevel :: string
  rq_Override :: "profile_error + profile option"
  rq_IPv4 :: "bool option"
  rq_IPv6 :: "bool option"
  rq_AllowNonGlobalTargets :: "bool option"
  rq_Parallel :: "int option"
  rq_Unordered :: "bool option"
  rq_ErrorCacheTTL :: "int option"
  rq_Timeout :: "int option"
  rq_Retry :: "int option"
  rq_Retrans :: "int option"
  rq_Fallback :: "bool option"
  rq_SourceAddr4 :: "string option"
  rq_SourceAddr6 :: "string option"
  rq_PositiveCacheTTL :: "int option"
  rq_NegativeCacheTTL :: "int option"
  rq_BadkeysPath :: "string option"

datatype plan_error = NotImplemented | UnknownMinLevel string | ProfileFailed profile_error

abbreviation canonical_name :: "string \<Rightarrow> string" where
  "canonical_name raw \<equiv> to_lower (trim_space raw)"

fun select_testcases :: "string \<Rightarrow> string list \<Rightarrow> string list \<Rightarrow> plan_error + string list" where
  "select_testcases modname [] acc = Inr acc"
| "select_testcases modname (raw # raws) acc = (let name = canonical_name raw in
     if name = [] then select_testcases modname raws acc
     else if testcaseModule name = [] then Inl NotImplemented
     else if modname \<noteq> [] \<and> modname \<noteq> testcaseModule name then Inl NotImplemented
     else select_testcases modname raws (if name \<in> set acc then acc else acc @ [name]))"

definition enabled_names :: "goval list \<Rightarrow> string list" where
  "enabled_names items = filter (\<lambda>n. n \<noteq> []) [canonical_name s. VStr s \<leftarrow> items]"

definition test_cases :: "profile \<Rightarrow> goval list" where
  "test_cases p = (case gm_get p ''test_cases'' of Some (VList xs) \<Rightarrow> xs | _ \<Rightarrow> [])"

definition base_profile :: "profile_lib \<Rightarrow> (string, goval) gomap \<Rightarrow> run_request \<Rightarrow> profile_error + profile" where
  "base_profile lib defaults req = (case profile_Default lib defaults of
     Inl e \<Rightarrow> Inl e
   | Inr p \<Rightarrow> (case rq_Override req of
       Inl e \<Rightarrow> Inl e
     | Inr None \<Rightarrow> Inr p
     | Inr (Some override) \<Rightarrow> profile_Merge lib override p))"

definition plannedSelection :: "profile_lib \<Rightarrow> (string, goval) gomap \<Rightarrow> run_request \<Rightarrow> plan_error + string list" where
  "plannedSelection lib defaults req = (let modname = canonical_name (rq_Module req) in
     if modname \<noteq> [] \<and> \<not> gm_has moduleTestcases modname then Inl NotImplemented
     else if rq_Testcases req \<noteq> [] then
       (case select_testcases modname (rq_Testcases req) [] of
          Inl e \<Rightarrow> Inl e
        | Inr ordered \<Rightarrow> (let planned = in_plan_order (\<lambda>n. n \<in> set ordered) in
            Inr (if planned = [] then ordered else planned)))
     else if modname \<noteq> [] then Inr (cases_of modname)
     else case base_profile lib defaults req of
       Inl e \<Rightarrow> Inl (ProfileFailed e)
     | Inr p \<Rightarrow> Inr (in_plan_order (\<lambda>n. n \<in> set (enabled_names (test_cases p)))))"

fun expand_names :: "string list \<Rightarrow> string list \<Rightarrow> plan_error + string list" where
  "expand_names [] acc = Inr acc"
| "expand_names (raw # raws) acc = (let name = canonical_name raw in
     if name = [] then expand_names raws acc
     else case gm_get moduleTestcases name of
       Some tcs \<Rightarrow> expand_names raws (acc @ tcs)
     | None \<Rightarrow> if testcaseModule name = [] then Inl NotImplemented else expand_names raws (acc @ [name]))"

definition ExpandExclusions :: "string list \<Rightarrow> plan_error + string list" where
  "ExpandExclusions values = (case expand_names (concat (map (split_on (CHR '','')) values)) [] of
     Inl e \<Rightarrow> Inl e
   | Inr excluded \<Rightarrow> Inr (in_plan_order (\<lambda>n. n \<in> set excluded)))"

definition exclusionSet :: "run_request \<Rightarrow> string \<Rightarrow> string list \<Rightarrow> plan_error + string list" where
  "exclusionSet req modname testcases = (case ExpandExclusions (rq_Exclude req) of
     Inl e \<Rightarrow> Inl e
   | Inr excluded \<Rightarrow>
       if \<exists>name \<in> set testcases. name \<in> set excluded then Inl NotImplemented
       else if modname \<noteq> [] \<and> testcases = [] \<and> list_all (\<lambda>tc. tc \<in> set excluded) (cases_of modname) then Inl NotImplemented
       else Inr excluded)"

definition PlannedTestcases :: "profile_lib \<Rightarrow> (string, goval) gomap \<Rightarrow> run_request \<Rightarrow> plan_error + string list" where
  "PlannedTestcases lib defaults req = (case plannedSelection lib defaults req of
     Inl e \<Rightarrow> Inl e
   | Inr planned \<Rightarrow> (case exclusionSet req (canonical_name (rq_Module req)) (if rq_Testcases req \<noteq> [] then planned else []) of
       Inl e \<Rightarrow> Inl e
     | Inr excluded \<Rightarrow>
         if excluded = [] then Inr planned
         else let rest = filter (\<lambda>n. n \<notin> set excluded) planned in
           if rest = [] then Inl NotImplemented else Inr rest))"

section \<open>The effective profile\<close>

fun normalize_testcases :: "string \<Rightarrow> string list \<Rightarrow> string list \<Rightarrow> plan_error + string list" where
  "normalize_testcases modname [] acc = Inr acc"
| "normalize_testcases modname (raw # raws) acc = (let name = canonical_name raw in
     if name = [] \<or> name \<in> set acc then normalize_testcases modname raws acc
     else if testcaseModule name = [] then Inl NotImplemented
     else if modname \<noteq> [] \<and> modname \<noteq> testcaseModule name then Inl NotImplemented
     else normalize_testcases modname raws (acc @ [name]))"

definition normalizeRequest :: "run_request \<Rightarrow> plan_error + string \<times> string list" where
  "normalizeRequest req = (let modname = canonical_name (rq_Module req); level = to_upper (trim_space (rq_MinLevel req)) in
     if modname \<noteq> [] \<and> \<not> gm_has moduleTestcases modname then Inl NotImplemented
     else if level \<noteq> [] \<and> \<not> gm_has numericLevels level then Inl (UnknownMinLevel (rq_MinLevel req))
     else case normalize_testcases modname (rq_Testcases req) [] of
       Inl e \<Rightarrow> Inl e
     | Inr testcases \<Rightarrow> Inr (modname, testcases))"

fun set_options :: "profile_lib \<Rightarrow> (string \<times> goval option) list \<Rightarrow> profile \<Rightarrow> profile_error + profile" where
  "set_options lib [] p = Inr p"
| "set_options lib ((path, None) # os) p = set_options lib os p"
| "set_options lib ((path, Some v) # os) p = (case profile_Set lib path v p of Inl e \<Rightarrow> Inl e | Inr p' \<Rightarrow> set_options lib os p')"

definition request_options :: "run_request \<Rightarrow> (string \<times> goval option) list" where
  "request_options req = [
     (''net.ipv4'', map_option VBool (rq_IPv4 req)),
     (''net.ipv6'', map_option VBool (rq_IPv6 req)),
     (''net.allow_non_global_targets'', map_option VBool (rq_AllowNonGlobalTargets req)),
     (''resolver.defaults.parallel'', map_option VInt (rq_Parallel req)),
     (''resolver.defaults.unordered'', map_option VBool (rq_Unordered req)),
     (''resolver.defaults.error_cache_ttl'', map_option VInt (rq_ErrorCacheTTL req)),
     (''resolver.defaults.timeout'', map_option VInt (rq_Timeout req)),
     (''resolver.defaults.retry'', map_option VInt (rq_Retry req)),
     (''resolver.defaults.retrans'', map_option VInt (rq_Retrans req)),
     (''resolver.defaults.fallback'', map_option VBool (rq_Fallback req)),
     (''resolver.source4'', map_option VStr (rq_SourceAddr4 req)),
     (''resolver.source6'', map_option VStr (rq_SourceAddr6 req)),
     (''resolver.defaults.positive_cache_ttl'', map_option VInt (rq_PositiveCacheTTL req)),
     (''resolver.defaults.negative_cache_ttl'', map_option VInt (rq_NegativeCacheTTL req)),
     (''badkeys.path'', map_option VStr (rq_BadkeysPath req))]"

text \<open>\<open>_ = p.Set(\<dots>)\<close>: an error is dropped.\<close>

definition try_set :: "profile_lib \<Rightarrow> string \<Rightarrow> goval \<Rightarrow> profile \<Rightarrow> profile" where
  "try_set lib path v p = (case profile_Set lib path v p of Inl e \<Rightarrow> p | Inr p' \<Rightarrow> p')"

definition item_name :: "goval \<Rightarrow> string" where
  "item_name v = canonical_name (string_of v)"

definition excludeFromProfile :: "profile_lib \<Rightarrow> string list \<Rightarrow> profile \<Rightarrow> plan_error + profile" where
  "excludeFromProfile lib excluded p =
     (if excluded = [] then Inr p
      else let kept = filter (\<lambda>v. item_name v \<notin> set excluded) (test_cases p) in
        if \<not> (\<exists>v \<in> set kept. testcaseModule (item_name v) \<noteq> []) then Inl NotImplemented
        else case profile_Set lib ''test_cases'' (VList kept) p of
          Inl e \<Rightarrow> Inl (ProfileFailed e)
        | Inr p' \<Rightarrow> Inr p')"

definition buildProfile ::
  "profile_lib \<Rightarrow> (string, goval) gomap \<Rightarrow> bool \<Rightarrow> run_request \<Rightarrow> string \<Rightarrow> string list \<Rightarrow> plan_error + profile" where
  "buildProfile lib defaults no_ipv6 req modname testcases = (case base_profile lib defaults req of
     Inl e \<Rightarrow> Inl (ProfileFailed e)
   | Inr p0 \<Rightarrow> (case set_options lib (request_options req @ [(''net.ipv6'', if no_ipv6 then Some (VBool False) else None)]) p0 of
       Inl e \<Rightarrow> Inl (ProfileFailed e)
     | Inr p1 \<Rightarrow> (let p2 = (if testcases \<noteq> [] then try_set lib ''test_cases'' (VList (map VStr testcases)) p1
                    else if modname \<noteq> [] \<and> gm_has moduleTestcases modname
                      then try_set lib ''test_cases'' (VList (map VStr (cases_of modname))) p1
                    else p1) in
         case exclusionSet req modname testcases of
           Inl e \<Rightarrow> Inl e
         | Inr excluded \<Rightarrow> excludeFromProfile lib excluded p2)))"

definition EffectiveProfile :: "profile_lib \<Rightarrow> (string, goval) gomap \<Rightarrow> bool \<Rightarrow> run_request \<Rightarrow> plan_error + profile" where
  "EffectiveProfile lib defaults no_ipv6 req = (case normalizeRequest req of
     Inl e \<Rightarrow> Inl e
   | Inr (modname, testcases) \<Rightarrow> buildProfile lib defaults no_ipv6 req modname testcases)"

section \<open>The tables agree\<close>

definition all_cases :: "string list" where
  "all_cases = concat (map cases_of moduleOrder)"

lemma in_plan_order_filter: "in_plan_order P = filter P all_cases"
  by (simp add: in_plan_order_def all_cases_def filter_concat comp_def)

lemma cases_of_dnssec: "dnssecTestcaseNames dnssecTests = dnssecTests"
  by code_simp

lemma cases_of_modules:
  "cases_of ''basic'' = basicTests" "cases_of ''address'' = addressTests" "cases_of ''connectivity'' = connectivityTests"
  "cases_of ''consistency'' = consistencyTests" "cases_of ''delegation'' = delegationTests" "cases_of ''dnssec'' = dnssecTests"
  "cases_of ''nameserver'' = nameserverTests" "cases_of ''syntax'' = syntaxTests" "cases_of ''zone'' = zoneTests"
  by (simp_all add: cases_of_def moduleTestcases_def gm_get_or_def gm_get_def cases_of_dnssec)

lemma all_cases_eq:
  "all_cases = basicTests @ addressTests @ connectivityTests @ consistencyTests @ delegationTests @ dnssecTests @
     nameserverTests @ syntaxTests @ zoneTests"
  by (simp add: all_cases_def moduleOrder_def cases_of_modules)

lemma all_cases_distinct: "distinct all_cases"
  unfolding all_cases_eq by code_simp


lemma known_iff: "testcaseModule n \<noteq> [] \<longleftrightarrow> n \<in> set all_cases"
  by (auto simp: testcaseModule_def all_cases_eq)

lemma known_module: "testcaseModule n = m \<Longrightarrow> m \<noteq> [] \<Longrightarrow> n \<in> set (cases_of m)"
  by (auto simp: testcaseModule_def cases_of_modules split: if_splits)

lemma known_module_names: "gm_has moduleTestcases m \<longleftrightarrow> m \<in> set moduleOrder"
  by (auto simp: gm_has_def gm_get_def moduleTestcases_def moduleOrder_def)

lemma filter_distinct_concat:
  assumes "distinct (concat (map f ms))" "m \<in> set ms"
  shows "filter (\<lambda>x. x \<in> set (f m)) (concat (map f ms)) = f m"
  using assms
proof (induction ms)
  case (Cons a ms)
  have none: "filter (\<lambda>x. x \<in> set (f m)) xs = []" if "set xs \<inter> set (f m) = {}" for xs
    using that by (auto simp: filter_empty_conv)
  show ?case
  proof (cases "m = a")
    case True
    then have "set (concat (map f ms)) \<inter> set (f m) = {}" using Cons.prems(1) by auto
    then show ?thesis using True none by simp
  next
    case False
    then have m: "m \<in> set ms" using Cons.prems(2) by simp
    then have "set (f a) \<inter> set (f m) = {}" using Cons.prems(1) by auto
    then show ?thesis using Cons m none by simp
  qed
qed simp

lemma cases_of_in_order: "m \<in> set moduleOrder \<Longrightarrow> filter (\<lambda>n. n \<in> set (cases_of m)) all_cases = cases_of m"
  using filter_distinct_concat all_cases_distinct unfolding all_cases_def by metis

lemma cases_of_known: "n \<in> set (cases_of m) \<Longrightarrow> n \<in> set all_cases"
proof -
  assume n: "n \<in> set (cases_of m)"
  then have "gm_has moduleTestcases m" by (cases "gm_get moduleTestcases m") (simp_all add: cases_of_def gm_get_or_def gm_has_def)
  then show ?thesis using n known_module_names by (auto simp: all_cases_def)
qed

lemma canonical_known: "n \<in> set all_cases \<Longrightarrow> canonical_name n = n"
proof -
  have "list_all (\<lambda>n. canonical_name n = n) all_cases" unfolding all_cases_eq by code_simp
  then show "n \<in> set all_cases \<Longrightarrow> canonical_name n = n" by (simp add: list_all_iff)
qed

section \<open>Selections\<close>

text \<open>The names an explicit selection asks for.\<close>

definition requested :: "string list \<Rightarrow> string set" where
  "requested raws = set (filter (\<lambda>n. n \<noteq> []) (map (\<lambda>r. canonical_name r) raws))"

lemma requested_Cons: "requested (raw # raws) =
    (if canonical_name raw = [] then requested raws else insert (canonical_name raw) (requested raws))"
  by (auto simp: requested_def)

lemma select_testcases_set:
  "select_testcases m raws acc = Inr out \<Longrightarrow> set out = set acc \<union> requested raws \<and> requested raws \<subseteq> set all_cases"
proof (induction raws arbitrary: acc)
  case (Cons raw raws)
  then show ?case
    by (cases "canonical_name raw = []") (fastforce simp: Let_def requested_Cons known_iff split: if_splits)+
qed (simp add: requested_def)

lemma normalize_testcases_set:
  "normalize_testcases m raws acc = Inr out \<Longrightarrow> set acc \<subseteq> set all_cases \<Longrightarrow> set out = set acc \<union> requested raws \<and> set out \<subseteq> set all_cases"
proof (induction raws arbitrary: acc)
  case (Cons raw raws)
  let ?n = "canonical_name raw"
  show ?case
  proof (cases "?n = [] \<or> ?n \<in> set acc")
    case True
    then have "normalize_testcases m raws acc = Inr out" using Cons.prems(1) by (simp add: Let_def)
    from Cons.IH[OF this Cons.prems(2)] True show ?thesis unfolding requested_Cons by auto
  next
    case False
    then have out: "normalize_testcases m raws (acc @ [?n]) = Inr out" "testcaseModule ?n \<noteq> []"
      using Cons.prems(1) by (auto simp: Let_def split: if_split_asm)
    have "set (acc @ [?n]) \<subseteq> set all_cases" using Cons.prems(2) out(2) known_iff by simp
    from Cons.IH[OF out(1) this] False show ?thesis unfolding requested_Cons by auto
  qed
qed (simp add: requested_def)

text \<open>The plan and the engine refuse the same selections.\<close>

lemma select_vs_normalize:
  assumes "set acc = set acc'" "\<forall>n \<in> set acc. testcaseModule n \<noteq> [] \<and> (m \<noteq> [] \<longrightarrow> m = testcaseModule n)"
  shows "(\<exists>out. select_testcases m raws acc = Inr out) \<longleftrightarrow> (\<exists>out. normalize_testcases m raws acc' = Inr out)"
  using assms
proof (induction raws arbitrary: acc acc')
  case (Cons raw raws)
  let ?n = "canonical_name raw"
  show ?case
  proof (cases "?n = []")
    case True
    then show ?thesis using Cons by (simp add: Let_def)
  next
    case False
    show ?thesis
    proof (cases "?n \<in> set acc")
      case True
      then show ?thesis using Cons False by (auto simp: Let_def)
    next
      case new: False
      have "(\<exists>out. select_testcases m raws (acc @ [?n]) = Inr out) \<longleftrightarrow> (\<exists>out. normalize_testcases m raws (acc' @ [?n]) = Inr out)"
        if "testcaseModule ?n \<noteq> []" "m \<noteq> [] \<longrightarrow> m = testcaseModule ?n"
        using Cons.IH[of "acc @ [?n]" "acc' @ [?n]"] Cons.prems that by auto
      then show ?thesis using new False Cons.prems(1) by (auto simp: Let_def)
    qed
  qed
qed simp


lemma profile_Set_frame: "profile_Set lib path v p = Inr p' \<Longrightarrow> other \<noteq> path \<Longrightarrow> gm_get p' other = gm_get p other"
  by (auto simp: profile_Set_def setWithSource_def gm.get_put split: option.splits sum.splits if_splits)

lemma set_options_frame:
  "set_options lib os p = Inr p' \<Longrightarrow> path \<notin> fst ` set os \<Longrightarrow> gm_get p' path = gm_get p path"
  by (induction lib os p rule: set_options.induct) (auto split: sum.splits dest: profile_Set_frame)

lemma set_test_cases: "profile_Set lib ''test_cases'' (VList xs) p = Inr (gm_set ''test_cases'' (VList xs) p)"
  by (simp add: profile_Set_def setWithSource_def sample_defs normalizeValue_def normalizeArray_def validate_def setter_accepts_def)

lemma test_cases_set [simp]: "test_cases (gm_set ''test_cases'' (VList xs) p) = xs"
  by (simp add: test_cases_def gm.get_put)

lemma test_cases_try_set [simp]: "test_cases (try_set lib ''test_cases'' (VList xs) p) = xs"
  by (simp add: try_set_def set_test_cases)

lemma enabled_names_known: "set ts \<subseteq> set all_cases \<Longrightarrow> set (enabled_names (map VStr ts)) = set ts"
proof -
  assume ts: "set ts \<subseteq> set all_cases"
  have "t \<noteq> [] \<and> canonical_name t = t" if "t \<in> set ts" for t
    using that ts known_iff[of t] canonical_known[of t] by (auto simp: testcaseModule_def basicTests_def syntaxTests_def
      addressTests_def connectivityTests_def consistencyTests_def dnssecTests_def delegationTests_def nameserverTests_def zoneTests_def)
  then show ?thesis by (auto simp: enabled_names_def image_iff)
qed

lemma enabled_names_mem: "n \<in> set (enabled_names items) \<longleftrightarrow> n \<noteq> [] \<and> (\<exists>s. VStr s \<in> set items \<and> n = canonical_name s)"
  by (force simp: enabled_names_def split: goval.splits)

lemma enabled_names_filter:
  "set (enabled_names (filter (\<lambda>v. item_name v \<notin> set excl) items)) = set (enabled_names items) - set excl"
  by (auto simp: enabled_names_mem item_name_def string_of_def)

lemma known_item:
  assumes "v \<in> set items" "testcaseModule (item_name v) \<noteq> []"
  shows "item_name v \<in> set (enabled_names items) \<and> item_name v \<in> set all_cases"
proof -
  have "testcaseModule [] = []" by code_simp
  then have "item_name v \<noteq> []" using assms(2) by auto
  then have "\<exists>s. v = VStr s" by (cases v) (auto simp: item_name_def string_of_def to_lower_def trim_space_def)
  then show ?thesis using assms \<open>item_name v \<noteq> []\<close> known_iff by (auto simp: enabled_names_mem item_name_def string_of_def)
qed

lemma exclude_effect:
  assumes "excludeFromProfile lib excluded p2 = Inr p"
  shows "set (enabled_names (test_cases p)) = set (enabled_names (test_cases p2)) - set excluded \<and>
    (excluded \<noteq> [] \<longrightarrow> (\<exists>n \<in> set (enabled_names (test_cases p)). n \<in> set all_cases))"
proof (cases "excluded = []")
  case True
  then show ?thesis using assms by (simp add: excludeFromProfile_def)
next
  case False
  let ?kept = "filter (\<lambda>v. item_name v \<notin> set excluded) (test_cases p2)"
  have p: "\<exists>v \<in> set ?kept. testcaseModule (item_name v) \<noteq> []" "p = gm_set ''test_cases'' (VList ?kept) p2"
    using assms False by (auto simp: excludeFromProfile_def Let_def set_test_cases split: if_splits)
  obtain v where "v \<in> set ?kept" "testcaseModule (item_name v) \<noteq> []" using p(1) by blast
  from known_item[OF this] show ?thesis unfolding p(2) test_cases_set using enabled_names_filter by blast
qed

lemma exclusionSet_cong:
  assumes "set a = set b"
  shows "exclusionSet req m a = exclusionSet req m b"
proof -
  have "a = [] \<longleftrightarrow> b = []" using assms by (metis set_empty)
  then show ?thesis by (simp add: exclusionSet_def assms split: sum.split)
qed

lemma options_keep_test_cases:
  assumes "set_options lib (request_options req @ [(''net.ipv6'', o6)]) p0 = Inr p1"
  shows "test_cases p1 = test_cases p0"
proof -
  have "''test_cases'' \<notin> fst ` set (request_options req @ [(''net.ipv6'', o6)])" by (simp add: request_options_def)
  from set_options_frame[OF assms this] show ?thesis by (simp add: test_cases_def)
qed

lemma EffectiveProfile_Inr:
  assumes "EffectiveProfile lib defaults no_ipv6 req = Inr p"
  obtains testcases p0 p1 p2 excluded where
    "normalize_testcases (canonical_name (rq_Module req)) (rq_Testcases req) [] = Inr testcases"
    "canonical_name (rq_Module req) \<noteq> [] \<longrightarrow> gm_has moduleTestcases (canonical_name (rq_Module req))"
    "base_profile lib defaults req = Inr p0" "test_cases p1 = test_cases p0"
    "p2 = (if testcases \<noteq> [] then try_set lib ''test_cases'' (VList (map VStr testcases)) p1
       else if canonical_name (rq_Module req) \<noteq> [] then try_set lib ''test_cases'' (VList (map VStr (cases_of (canonical_name (rq_Module req))))) p1
       else p1)"
    "exclusionSet req (canonical_name (rq_Module req)) testcases = Inr excluded" "excludeFromProfile lib excluded p2 = Inr p"
proof -
  obtain testcases where t: "normalizeRequest req = Inr (canonical_name (rq_Module req), testcases)"
    and b: "buildProfile lib defaults no_ipv6 req (canonical_name (rq_Module req)) testcases = Inr p"
    using assms by (auto simp: EffectiveProfile_def normalizeRequest_def Let_def split: sum.splits if_splits)
  have m: "canonical_name (rq_Module req) \<noteq> [] \<longrightarrow> gm_has moduleTestcases (canonical_name (rq_Module req))"
    and n: "normalize_testcases (canonical_name (rq_Module req)) (rq_Testcases req) [] = Inr testcases"
    using t by (auto simp: normalizeRequest_def Let_def split: sum.splits if_splits)
  obtain p0 p1 excluded where p: "base_profile lib defaults req = Inr p0"
      "set_options lib (request_options req @ [(''net.ipv6'', if no_ipv6 then Some (VBool False) else None)]) p0 = Inr p1"
      "exclusionSet req (canonical_name (rq_Module req)) testcases = Inr excluded"
      "excludeFromProfile lib excluded (if testcases \<noteq> [] then try_set lib ''test_cases'' (VList (map VStr testcases)) p1
         else if canonical_name (rq_Module req) \<noteq> [] \<and> gm_has moduleTestcases (canonical_name (rq_Module req))
           then try_set lib ''test_cases'' (VList (map VStr (cases_of (canonical_name (rq_Module req))))) p1
         else p1) = Inr p"
    using b by (auto simp: buildProfile_def Let_def split: sum.splits)
  have "(canonical_name (rq_Module req) \<noteq> [] \<and> gm_has moduleTestcases (canonical_name (rq_Module req))) =
      (canonical_name (rq_Module req) \<noteq> [])" using m by blast
  from that[OF n m p(1) options_keep_test_cases[OF p(2)] refl p(3) p(4)[unfolded this]] show ?thesis .
qed


lemma plan_selection:
  assumes "normalize_testcases m (rq_Testcases req) [] = Inr testcases" "m = canonical_name (rq_Module req)"
    "m \<noteq> [] \<longrightarrow> gm_has moduleTestcases m" "base_profile lib defaults req = Inr p0" "test_cases p1 = test_cases p0"
    "p2 = (if testcases \<noteq> [] then try_set lib ''test_cases'' (VList (map VStr testcases)) p1
       else if m \<noteq> [] then try_set lib ''test_cases'' (VList (map VStr (cases_of m))) p1 else p1)"
    "rq_Testcases req = [] \<or> requested (rq_Testcases req) \<noteq> {}"
  defines "planned \<equiv> filter (\<lambda>n. n \<in> set (enabled_names (test_cases p2))) all_cases"
  shows "plannedSelection lib defaults req = Inr planned \<and> (rq_Testcases req \<noteq> [] \<longrightarrow> set planned = set testcases) \<and>
    (rq_Testcases req = [] \<longrightarrow> testcases = [])"
proof (cases "rq_Testcases req = []")
  case True
  then have t: "testcases = []" using assms(1) by simp
  show ?thesis
  proof (cases "m = []")
    case False
    then have "set (enabled_names (map VStr (cases_of m))) = set (cases_of m)"
      using cases_of_known by (intro enabled_names_known) blast
    then have "planned = cases_of m"
      using cases_of_in_order[of m] False t assms(3,6) known_module_names by (simp add: planned_def)
    then show ?thesis using True False t assms(2,3) by (simp add: plannedSelection_def Let_def)
  next
    case m: True
    then show ?thesis using True t assms(2,4,5,6)
      by (simp add: plannedSelection_def Let_def in_plan_order_filter planned_def)
  qed
next
  case False
  have names: "set testcases = requested (rq_Testcases req)" "set testcases \<subseteq> set all_cases"
    using normalize_testcases_set[OF assms(1)] by auto
  then have t: "testcases \<noteq> []" using False assms(7) by auto
  then have "set (enabled_names (test_cases p2)) = set testcases"
    using enabled_names_known[OF names(2)] assms(6) by simp
  then have planned: "planned = filter (\<lambda>n. n \<in> set testcases) all_cases" "set planned = set testcases"
    using names(2) by (auto simp: planned_def)
  obtain ordered where o: "select_testcases m (rq_Testcases req) [] = Inr ordered"
    using select_vs_normalize[of "[]" "[]" m "rq_Testcases req"] assms(1) by auto
  have "set ordered = set testcases" using select_testcases_set[OF o] names(1) by simp
  moreover have "planned \<noteq> []" using planned(2) t by auto
  ultimately show ?thesis using False o planned t assms(2,3)
    by (auto simp: plannedSelection_def Let_def in_plan_order_filter)
qed

lemma plan_of_run:
  assumes "EffectiveProfile lib defaults no_ipv6 req = Inr p" "rq_Testcases req = [] \<or> requested (rq_Testcases req) \<noteq> {}"
  shows "PlannedTestcases lib defaults req = Inr (in_plan_order (\<lambda>n. n \<in> set (enabled_names (test_cases p))))"
proof -
  obtain testcases p0 p1 p2 excluded where n: "normalize_testcases (canonical_name (rq_Module req)) (rq_Testcases req) [] = Inr testcases"
    and m: "canonical_name (rq_Module req) \<noteq> [] \<longrightarrow> gm_has moduleTestcases (canonical_name (rq_Module req))"
    and p0: "base_profile lib defaults req = Inr p0" and p1: "test_cases p1 = test_cases p0"
    and p2: "p2 = (if testcases \<noteq> [] then try_set lib ''test_cases'' (VList (map VStr testcases)) p1
       else if canonical_name (rq_Module req) \<noteq> [] then try_set lib ''test_cases'' (VList (map VStr (cases_of (canonical_name (rq_Module req))))) p1
       else p1)"
    and x: "exclusionSet req (canonical_name (rq_Module req)) testcases = Inr excluded" and e: "excludeFromProfile lib excluded p2 = Inr p"
    using EffectiveProfile_Inr[OF assms(1)] by metis
  let ?planned = "filter (\<lambda>n. n \<in> set (enabled_names (test_cases p2))) all_cases"
  have sel: "plannedSelection lib defaults req = Inr ?planned" "rq_Testcases req \<noteq> [] \<Longrightarrow> set ?planned = set testcases"
      "rq_Testcases req = [] \<Longrightarrow> testcases = []"
    using plan_selection[OF n refl m p0 p1 p2 assms(2)] by auto
  have ex: "exclusionSet req (canonical_name (rq_Module req)) (if rq_Testcases req \<noteq> [] then ?planned else []) = Inr excluded"
    using x sel(2,3) exclusionSet_cong[of ?planned testcases] by (cases "rq_Testcases req = []") simp_all
  have final: "filter (\<lambda>n. n \<notin> set excluded) ?planned = in_plan_order (\<lambda>n. n \<in> set (enabled_names (test_cases p)))"
    using exclude_effect[OF e] by (auto simp: in_plan_order_filter intro!: filter_cong)
  moreover have "filter (\<lambda>n. n \<notin> set excluded) ?planned \<noteq> []" if "excluded \<noteq> []"
    using exclude_effect[OF e] that by (auto simp: filter_empty_conv)
  ultimately show ?thesis using sel(1) ex by (auto simp: PlannedTestcases_def Let_def)
qed


lemma selection_known:
  assumes "plannedSelection lib defaults req = Inr planned"
  shows "set planned \<subseteq> set all_cases \<and> (planned = filter (\<lambda>n. n \<in> set planned) all_cases \<or> rq_Testcases req \<noteq> [] \<and> planned = []) \<and>
    (rq_Testcases req \<noteq> [] \<longrightarrow> set planned = requested (rq_Testcases req))"
proof -
  have flt: "filter P all_cases = filter (\<lambda>n. n \<in> set (filter P all_cases)) all_cases" for P
    by (auto intro: filter_cong)
  show ?thesis
  proof (cases "rq_Testcases req = []")
    case True
    then show ?thesis
      using assms flt cases_of_in_order cases_of_known known_module_names
      by (auto simp: plannedSelection_def Let_def in_plan_order_filter split: if_splits sum.splits)
  next
    case False
    then obtain m ordered where o: "select_testcases m (rq_Testcases req) [] = Inr ordered"
        "planned = (let planned = in_plan_order (\<lambda>n. n \<in> set ordered) in if planned = [] then ordered else planned)"
      using assms by (auto simp: plannedSelection_def Let_def split: if_splits sum.splits)
    have set: "set ordered = requested (rq_Testcases req)" "set ordered \<subseteq> set all_cases"
      using select_testcases_set[OF o(1)] by auto
    have "ordered = []" if "filter (\<lambda>n. n \<in> set ordered) all_cases = []"
      using that set(2) by (cases ordered) (auto simp: filter_empty_conv)
    then show ?thesis using False o(2) set flt[of "\<lambda>n. n \<in> set ordered"]
      by (auto simp: Let_def in_plan_order_filter)
  qed
qed

section \<open>Properties\<close>

definition sample_request :: run_request where
  "sample_request = \<lparr>rq_Module = [], rq_Testcases = ['' Zone01'', ''basic02''], rq_Exclude = [''syntax,zone02''],
     rq_MinLevel = ''info'', rq_Override = Inr None, rq_IPv4 = None, rq_IPv6 = Some False, rq_AllowNonGlobalTargets = None,
     rq_Parallel = None, rq_Unordered = None, rq_ErrorCacheTTL = None, rq_Timeout = None, rq_Retry = Some 2,
     rq_Retrans = None, rq_Fallback = None, rq_SourceAddr4 = None, rq_SourceAddr6 = None, rq_PositiveCacheTTL = None,
     rq_NegativeCacheTTL = None, rq_BadkeysPath = None\<rparr>"



text \<open>
  A plan contains only known test cases and no excluded one; an explicit selection is planned exactly
  as requested, up to case, spaces and repetition.
\<close>

theorem plan_respects_request:
  assumes "PlannedTestcases lib defaults req = Inr planned" "ExpandExclusions (rq_Exclude req) = Inr excluded"
  shows "set planned \<subseteq> set all_cases \<and> set planned \<inter> set excluded = {} \<and> distinct planned \<and>
    (rq_Testcases req \<noteq> [] \<longrightarrow> set planned = requested (rq_Testcases req))"
proof -
  obtain sel where sel: "plannedSelection lib defaults req = Inr sel"
      "exclusionSet req (canonical_name (rq_Module req)) (if rq_Testcases req \<noteq> [] then sel else []) = Inr excluded"
      "planned = filter (\<lambda>n. n \<notin> set excluded) sel"
    using assms by (auto simp: PlannedTestcases_def exclusionSet_def Let_def split: sum.splits if_splits)
  note known = selection_known[OF sel(1)]
  have d: "distinct sel" using known all_cases_distinct by (metis distinct.simps(1) distinct_filter)
  have "set sel \<inter> set excluded = {}" if "rq_Testcases req \<noteq> []"
    using sel(2) assms(2) that by (auto simp: exclusionSet_def split: if_splits)
  then show ?thesis using known sel(3) d by (auto simp: distinct_filter)
qed

theorem plan_respects_request_witness:
  "\<exists>planned. PlannedTestcases sample_lib [] sample_request = Inr planned \<and> ''zone01'' \<in> set planned"
proof -
  have "PlannedTestcases sample_lib [] sample_request = Inr [''basic02'', ''zone01'']" by code_simp
  moreover have "\<not> isl (ExpandExclusions (rq_Exclude sample_request))" by code_simp
  then obtain excluded where "ExpandExclusions (rq_Exclude sample_request) = Inr excluded"
    by (cases "ExpandExclusions (rq_Exclude sample_request)") auto
  ultimately have "set [''basic02'', ''zone01''] \<subseteq> set all_cases"
    using plan_respects_request by blast
  then show ?thesis using \<open>PlannedTestcases sample_lib [] sample_request = Inr [''basic02'', ''zone01'']\<close> by simp
qed

text \<open>
  A selection of blank names is planned as no test case at all, but run as if nothing were selected.
\<close>

theorem blank_selection_planned_empty:
  "PlannedTestcases sample_lib [] (sample_request\<lparr>rq_Module := ''basic'', rq_Testcases := ['' ''], rq_Exclude := []\<rparr>) = Inr [] \<and>
   (case EffectiveProfile sample_lib [] True (sample_request\<lparr>rq_Module := ''basic'', rq_Testcases := ['' ''], rq_Exclude := []\<rparr>) of
      Inr p \<Rightarrow> enabled_names (test_cases p) = basicTests | Inl _ \<Rightarrow> False)"
  by code_simp

end
