(* ===== verification/AddressPolicy.thy ===== *)
theory AddressPolicy
  imports Prelude "HOL-Library.Word"
begin

text \<open>
  The address policy of the engine (\<open>engine/constants/special.go\<close>): which IP addresses a query may be sent to.
  An address is declined when the most specific entry of the IANA special-purpose registries that contains it
  is not globally reachable, when it is multicast or in a deprecated IPv6 range, and when an IPv4 address it
  embeds is declined.

  IPv4 and IPv6 addresses are words of 32 and 128 bits; an IPv6 address carries its zone. The registry tables are
  the rows of \<open>share/iana-ipv4-special-registry.csv\<close> and \<open>share/iana-ipv6-special-registry.csv\<close>, which
  \<open>constants.go\<close> loads at start-up: prefix, length, name and the "Globally Reachable" column.
\<close>

unbundle bit_operations_syntax

section \<open>Addresses and prefixes\<close>

datatype ip_addr = V4 "32 word" | V6 "128 word" string

fun addr_is4 :: "ip_addr \<Rightarrow> bool" where
  "addr_is4 (V4 _) = True"
| "addr_is4 (V6 _ _) = False"

fun addr_Unmap :: "ip_addr \<Rightarrow> ip_addr" where
  "addr_Unmap (V4 a) = V4 a"
| "addr_Unmap (V6 a z) = (if drop_bit 32 a = 0xffff then V4 (ucast a) else V6 a z)"

fun addr_WithZone :: "ip_addr \<Rightarrow> string \<Rightarrow> ip_addr" where
  "addr_WithZone (V4 a) z = V4 a"
| "addr_WithZone (V6 a _) z = V6 a z"

fun addr_IsMulticast :: "ip_addr \<Rightarrow> bool" where
  "addr_IsMulticast (V4 a) \<longleftrightarrow> drop_bit 28 a = 0xe"
| "addr_IsMulticast (V6 a _) \<longleftrightarrow> drop_bit 120 a = 0xff"

record special_block =
  sb_Addr :: ip_addr
  sb_Bits :: nat
  sb_Name :: string
  sb_GloballyReachable :: string

fun prefix_Contains :: "ip_addr \<Rightarrow> nat \<Rightarrow> ip_addr \<Rightarrow> bool" where
  "prefix_Contains (V4 p) bits (V4 a) \<longleftrightarrow> drop_bit (32 - bits) (a XOR p) = 0"
| "prefix_Contains (V6 p _) bits (V6 a z) \<longleftrightarrow> z = [] \<and> drop_bit (128 - bits) (a XOR p) = 0"
| "prefix_Contains _ _ _ \<longleftrightarrow> False"

abbreviation block_Contains :: "special_block \<Rightarrow> ip_addr \<Rightarrow> bool" where
  "block_Contains b ip \<equiv> prefix_Contains (sb_Addr b) (sb_Bits b) ip"

definition block :: "ip_addr \<times> nat \<times> string \<times> string \<Rightarrow> special_block" where
  "block r = (case r of (a, n, name, reachable) \<Rightarrow>
     \<lparr>sb_Addr = a, sb_Bits = n, sb_Name = name, sb_GloballyReachable = reachable\<rparr>)"

section \<open>The registries\<close>

definition IPv4SpecialAddresses :: "special_block list" where
  "IPv4SpecialAddresses = map block [
     (V4 0x00000000, 8, ''\"This network\"'', ''False''),
     (V4 0x00000000, 32, ''\"This host on this network\"'', ''False''),
     (V4 0x0a000000, 8, ''Private-Use'', ''False''),
     (V4 0x64400000, 10, ''Shared Address Space'', ''False''),
     (V4 0x7f000000, 8, ''Loopback'', ''False [1]''),
     (V4 0xa9fe0000, 16, ''Link Local'', ''False''),
     (V4 0xac100000, 12, ''Private-Use'', ''False''),
     (V4 0xc0000000, 24, ''IETF Protocol Assignments'', ''False''),
     (V4 0xc0000000, 29, ''IPv4 Service Continuity Prefix'', ''False''),
     (V4 0xc0000008, 32, ''IPv4 dummy address'', ''False''),
     (V4 0xc0000009, 32, ''Port Control Protocol Anycast'', ''True''),
     (V4 0xc000000a, 32, ''Traversal Using Relays around NAT Anycast'', ''True''),
     (V4 0xc00000aa, 32, ''NAT64/DNS64 Discovery'', ''False''),
     (V4 0xc00000ab, 32, ''NAT64/DNS64 Discovery'', ''False''),
     (V4 0xc0000200, 24, ''Documentation (TEST-NET-1)'', ''False''),
     (V4 0xc01fc400, 24, ''AS112-v4'', ''True''),
     (V4 0xc034c100, 24, ''AMT'', ''True''),
     (V4 0xc0586300, 24, ''Deprecated (6to4 Relay Anycast)'', ''''),
     (V4 0xc0586302, 32, ''6a44-relay anycast address'', ''False''),
     (V4 0xc0a80000, 16, ''Private-Use'', ''False''),
     (V4 0xc0af3000, 24, ''Direct Delegation AS112 Service'', ''True''),
     (V4 0xc6120000, 15, ''Benchmarking'', ''False''),
     (V4 0xc6336400, 24, ''Documentation (TEST-NET-2)'', ''False''),
     (V4 0xcb007100, 24, ''Documentation (TEST-NET-3)'', ''False''),
     (V4 0xf0000000, 4, ''Reserved'', ''False''),
     (V4 0xffffffff, 32, ''Limited Broadcast'', ''False'')]"

definition IPv6SpecialAddresses :: "special_block list" where
  "IPv6SpecialAddresses = map block [
     (V6 0x00000000000000000000000000000001 [], 128, ''Loopback Address'', ''False''),
     (V6 0x00000000000000000000000000000000 [], 128, ''Unspecified Address'', ''False''),
     (V6 0x00000000000000000000ffff00000000 [], 96, ''IPv4-mapped Address'', ''False''),
     (V6 0x0064ff9b000000000000000000000000 [], 96, ''IPv4-IPv6 Translat.'', ''True''),
     (V6 0x0064ff9b000100000000000000000000 [], 48, ''IPv4-IPv6 Translat.'', ''False''),
     (V6 0x01000000000000000000000000000000 [], 64, ''Discard-Only Address Block'', ''False''),
     (V6 0x01000000000000010000000000000000 [], 64, ''Dummy IPv6 Prefix'', ''False''),
     (V6 0x20010000000000000000000000000000 [], 23, ''IETF Protocol Assignments'', ''False [1]''),
     (V6 0x20010000000000000000000000000000 [], 32, ''TEREDO'', ''N/A [2]''),
     (V6 0x20010001000000000000000000000001 [], 128, ''Port Control Protocol Anycast'', ''True''),
     (V6 0x20010001000000000000000000000002 [], 128, ''Traversal Using Relays around NAT Anycast'', ''True''),
     (V6 0x20010001000000000000000000000003 [], 128, ''DNS-SD Service Registration Protocol Anycast'', ''True''),
     (V6 0x20010002000000000000000000000000 [], 48, ''Benchmarking'', ''False''),
     (V6 0x20010003000000000000000000000000 [], 32, ''AMT'', ''True''),
     (V6 0x20010004011200000000000000000000 [], 48, ''AS112-v6'', ''True''),
     (V6 0x20010010000000000000000000000000 [], 28, ''Deprecated (previously ORCHID)'', ''''),
     (V6 0x20010020000000000000000000000000 [], 28, ''ORCHIDv2'', ''True''),
     (V6 0x20010030000000000000000000000000 [], 28, ''Drone Remote ID Protocol Entity Tags (DETs) Prefix'', ''True''),
     (V6 0x20010db8000000000000000000000000 [], 32, ''Documentation'', ''False''),
     (V6 0x20020000000000000000000000000000 [], 16, ''6to4'', ''N/A [3]''),
     (V6 0x2620004f800000000000000000000000 [], 48, ''Direct Delegation AS112 Service'', ''True''),
     (V6 0x3fff0000000000000000000000000000 [], 20, ''Documentation'', ''False''),
     (V6 0x5f000000000000000000000000000000 [], 16, ''Segment Routing (SRv6) SIDs'', ''False''),
     (V6 0xfc000000000000000000000000000000 [], 7, ''Unique-Local'', ''False [4]''),
     (V6 0xfe800000000000000000000000000000 [], 10, ''Link-Local Unicast'', ''False'')]"

definition nat64WellKnown :: "ip_addr \<times> nat" where
  "nat64WellKnown = (V6 0x0064ff9b000000000000000000000000 [], 96)"

definition deprecatedIPv6 :: "special_block list" where
  "deprecatedIPv6 = map block [
     (V6 0xfec00000000000000000000000000000 [], 10, ''Site-Local (deprecated)'', ''False''),
     (V6 0 [], 96, ''IPv4-Compatible (deprecated)'', ''False'')]"

section \<open>The policy\<close>

definition more_specific :: "ip_addr \<Rightarrow> special_block \<Rightarrow> special_block option \<Rightarrow> special_block option" where
  "more_specific ip b found =
     (if block_Contains b ip \<and> (case found of None \<Rightarrow> True | Some f \<Rightarrow> sb_Bits f < sb_Bits b) then Some b else found)"

definition FindSpecialAddress :: "ip_addr \<Rightarrow> special_block option" where
  "FindSpecialAddress ip =
     fold (more_specific ip) (if addr_is4 ip then IPv4SpecialAddresses else IPv6SpecialAddresses) None"

definition IsGloballyReachable :: "special_block option \<Rightarrow> bool" where
  "IsGloballyReachable b = (case b of None \<Rightarrow> True | Some b \<Rightarrow> contains (sb_GloballyReachable b) ''True'')"

fun low32 :: "ip_addr \<Rightarrow> 32 word" where
  "low32 (V4 a) = a"
| "low32 (V6 a _) = ucast a"

function NotQueryableReason :: "ip_addr \<Rightarrow> string" where
  "NotQueryableReason ip0 = (let ip = addr_WithZone (addr_Unmap ip0) []; found = FindSpecialAddress ip in
     if \<not> IsGloballyReachable found then (case found of Some b \<Rightarrow> sb_Name b | None \<Rightarrow> [])
     else if addr_IsMulticast ip then ''Multicast''
     else case find (\<lambda>b. block_Contains b ip) deprecatedIPv6 of
       Some b \<Rightarrow> sb_Name b
     | None \<Rightarrow>
         if prefix_Contains (fst nat64WellKnown) (snd nat64WellKnown) ip
         then (let reason = NotQueryableReason (V4 (low32 ip)) in if reason \<noteq> [] then ''embedded '' @ reason else [])
         else [])"
  by auto
termination
proof (relation "measure (\<lambda>ip. if addr_is4 ip then 0 else (1 :: nat))")
  fix ip0 ip :: ip_addr and found
  assume "ip = addr_WithZone (addr_Unmap ip0) []" "prefix_Contains (fst nat64WellKnown) (snd nat64WellKnown) ip"
  then have "\<not> addr_is4 ip0" by (cases ip0) (auto simp: nat64WellKnown_def)
  then show "(V4 (low32 ip), ip0) \<in> measure (\<lambda>ip. if addr_is4 ip then 0 else (1 :: nat))" by simp
qed simp

definition IsQueryable :: "ip_addr \<Rightarrow> bool" where
  "IsQueryable ip \<longleftrightarrow> NotQueryableReason ip = []"

section \<open>Prefixes as ranges\<close>

fun addr_int :: "ip_addr \<Rightarrow> int" where
  "addr_int (V4 a) = uint a"
| "addr_int (V6 a _) = uint a"

fun addr_width :: "ip_addr \<Rightarrow> nat" where
  "addr_width (V4 _) = 32"
| "addr_width (V6 _ _) = 128"

lemma xor_zero: "a XOR b = 0 \<longleftrightarrow> a = (b :: 'a::len word)"
  by (auto simp: bit_eq_iff bit_xor_iff)

lemma uint_drop: "uint (drop_bit k (a :: 'a::len word)) = uint a div 2 ^ k"
proof -
  have "unat (drop_bit k a) = unat a div 2 ^ k" unfolding unat_drop_bit_eq by (rule drop_bit_eq_div)
  then have "int (unat (drop_bit k a)) = int (unat a) div 2 ^ k" by (simp add: zdiv_int)
  then show ?thesis by (simp only: of_nat_unat)
qed

lemma drop_xor: "drop_bit k (a XOR p) = 0 \<longleftrightarrow> uint a div 2 ^ k = uint (p :: 'a::len word) div 2 ^ k"
proof -
  have "drop_bit k (a XOR p) = 0 \<longleftrightarrow> drop_bit k a = drop_bit k p" by (simp add: drop_bit_xor xor_zero)
  also have "\<dots> \<longleftrightarrow> uint (drop_bit k a) = uint (drop_bit k p)" by (simp only: word_uint_eq_iff)
  finally show ?thesis by (simp only: uint_drop)
qed

lemma drop_eq: "drop_bit k a = (c :: 'a::len word) \<longleftrightarrow> uint a div 2 ^ k = uint c"
  by (metis uint_drop word_uint_eq_iff)

lemma div_eq_range: "0 < d \<Longrightarrow> (m :: int) div d = q \<longleftrightarrow> q * d \<le> m \<and> m \<le> q * d + d - 1"
proof -
  assume d: "0 < d"
  have "m mod d = m - m div d * d" by (simp add: minus_div_mult_eq_mod)
  then have "m div d * d \<le> m \<and> m < m div d * d + d" using pos_mod_sign[OF d, of m] pos_mod_bound[OF d, of m] by linarith
  moreover have "m div d = q" if "q * d \<le> m" "m < q * d + d"
    using that by (intro int_div_pos_eq[of _ _ _ "m - q * d"]) (auto simp: mult.commute)
  ultimately show ?thesis by auto
qed

text \<open>A block as a closed range: first and last address, prefix length, globally reachable.\<close>

type_synonym range_row = "int \<times> int \<times> nat \<times> bool"

definition row :: "special_block \<Rightarrow> range_row" where
  "row b = (let k = addr_width (sb_Addr b) - sb_Bits b; q = addr_int (sb_Addr b) div 2 ^ k * 2 ^ k in
     (q, q + 2 ^ k - 1, sb_Bits b, contains (sb_GloballyReachable b) ''True''))"

definition in_row :: "int \<Rightarrow> range_row \<Rightarrow> bool" where
  "in_row n r = (case r of (lo, hi, _) \<Rightarrow> lo \<le> n \<and> n \<le> hi)"

definition best_row :: "range_row \<Rightarrow> (nat \<times> bool) option \<Rightarrow> (nat \<times> bool) option" where
  "best_row r found = (case r of (_, _, bits, ok) \<Rightarrow>
     if (case found of None \<Rightarrow> True | Some (m, _) \<Rightarrow> m < bits) then Some (bits, ok) else found)"

definition v4_rows :: "range_row list" where
  "v4_rows = [
     (0, 0xffffff, 8, False),
     (0, 0, 32, False),
     (0xa000000, 0xaffffff, 8, False),
     (0x64400000, 0x647fffff, 10, False),
     (0x7f000000, 0x7fffffff, 8, False),
     (0xa9fe0000, 0xa9feffff, 16, False),
     (0xac100000, 0xac1fffff, 12, False),
     (0xc0000000, 0xc00000ff, 24, False),
     (0xc0000000, 0xc0000007, 29, False),
     (0xc0000008, 0xc0000008, 32, False),
     (0xc0000009, 0xc0000009, 32, True),
     (0xc000000a, 0xc000000a, 32, True),
     (0xc00000aa, 0xc00000aa, 32, False),
     (0xc00000ab, 0xc00000ab, 32, False),
     (0xc0000200, 0xc00002ff, 24, False),
     (0xc01fc400, 0xc01fc4ff, 24, True),
     (0xc034c100, 0xc034c1ff, 24, True),
     (0xc0586300, 0xc05863ff, 24, False),
     (0xc0586302, 0xc0586302, 32, False),
     (0xc0a80000, 0xc0a8ffff, 16, False),
     (0xc0af3000, 0xc0af30ff, 24, True),
     (0xc6120000, 0xc613ffff, 15, False),
     (0xc6336400, 0xc63364ff, 24, False),
     (0xcb007100, 0xcb0071ff, 24, False),
     (0xf0000000, 0xffffffff, 4, False),
     (0xffffffff, 0xffffffff, 32, False)]"

definition v6_rows :: "range_row list" where
  "v6_rows = [
     (0x1, 0x1, 128, False),
     (0, 0, 128, False),
     (0xffff00000000, 0xffffffffffff, 96, False),
     (0x64ff9b000000000000000000000000, 0x64ff9b0000000000000000ffffffff, 96, True),
     (0x64ff9b000100000000000000000000, 0x64ff9b0001ffffffffffffffffffff, 48, False),
     (0x1000000000000000000000000000000, 0x100000000000000ffffffffffffffff, 64, False),
     (0x1000000000000010000000000000000, 0x100000000000001ffffffffffffffff, 64, False),
     (0x20010000000000000000000000000000, 0x200101ffffffffffffffffffffffffff, 23, False),
     (0x20010000000000000000000000000000, 0x20010000ffffffffffffffffffffffff, 32, False),
     (0x20010001000000000000000000000001, 0x20010001000000000000000000000001, 128, True),
     (0x20010001000000000000000000000002, 0x20010001000000000000000000000002, 128, True),
     (0x20010001000000000000000000000003, 0x20010001000000000000000000000003, 128, True),
     (0x20010002000000000000000000000000, 0x200100020000ffffffffffffffffffff, 48, False),
     (0x20010003000000000000000000000000, 0x20010003ffffffffffffffffffffffff, 32, True),
     (0x20010004011200000000000000000000, 0x200100040112ffffffffffffffffffff, 48, True),
     (0x20010010000000000000000000000000, 0x2001001fffffffffffffffffffffffff, 28, False),
     (0x20010020000000000000000000000000, 0x2001002fffffffffffffffffffffffff, 28, True),
     (0x20010030000000000000000000000000, 0x2001003fffffffffffffffffffffffff, 28, True),
     (0x20010db8000000000000000000000000, 0x20010db8ffffffffffffffffffffffff, 32, False),
     (0x20020000000000000000000000000000, 0x2002ffffffffffffffffffffffffffff, 16, False),
     (0x2620004f800000000000000000000000, 0x2620004f8000ffffffffffffffffffff, 48, True),
     (0x3fff0000000000000000000000000000, 0x3fff0fffffffffffffffffffffffffff, 20, False),
     (0x5f000000000000000000000000000000, 0x5f00ffffffffffffffffffffffffffff, 16, False),
     (0xfc000000000000000000000000000000, 0xfdffffffffffffffffffffffffffffff, 7, False),
     (0xfe800000000000000000000000000000, 0xfebfffffffffffffffffffffffffffff, 10, False)]"

lemmas row_eval = row_def block_def Let_def has_prefix_def

lemma v4_rows: "map row IPv4SpecialAddresses = v4_rows"
  by (simp add: row_eval IPv4SpecialAddresses_def v4_rows_def)

lemma v6_rows: "map row IPv6SpecialAddresses = v6_rows"
  by (simp add: row_eval IPv6SpecialAddresses_def v6_rows_def)

fun same_family :: "ip_addr \<Rightarrow> ip_addr \<Rightarrow> bool" where
  "same_family (V4 _) (V4 _) \<longleftrightarrow> True"
| "same_family (V6 _ _) (V6 _ z) \<longleftrightarrow> z = []"
| "same_family _ _ \<longleftrightarrow> False"

lemma in_row_iff: "same_family (sb_Addr b) ip \<Longrightarrow> in_row (addr_int ip) (row b) \<longleftrightarrow> block_Contains b ip"
  by (cases "sb_Addr b"; cases ip) (simp_all add: row_def Let_def in_row_def drop_xor div_eq_range del: drop_bit_xor)

abbreviation summary :: "special_block \<Rightarrow> nat \<times> bool" where
  "summary b \<equiv> (sb_Bits b, contains (sb_GloballyReachable b) ''True'')"

lemma fold_rows:
  assumes "\<forall>b \<in> set bs. same_family (sb_Addr b) ip"
  shows "map_option summary (fold (more_specific ip) bs f) =
     fold best_row (filter (in_row (addr_int ip)) (map row bs)) (map_option summary f)"
  using assms
proof (induction bs arbitrary: f)
  case (Cons b bs)
  have "map_option summary (more_specific ip b f) =
     (if in_row (addr_int ip) (row b) then best_row (row b) (map_option summary f) else map_option summary f)"
    using Cons.prems in_row_iff[of b ip] by (auto simp: more_specific_def best_row_def row_def Let_def split: option.splits)
  then show ?case using Cons by simp
qed simp

definition reachable_in :: "range_row list \<Rightarrow> int \<Rightarrow> bool" where
  "reachable_in rows n = (case fold best_row (filter (in_row n) rows) None of None \<Rightarrow> True | Some (_, ok) \<Rightarrow> ok)"

lemma reachable_rows:
  "IsGloballyReachable (FindSpecialAddress (V4 a)) \<longleftrightarrow> reachable_in v4_rows (uint a)"
  "IsGloballyReachable (FindSpecialAddress (V6 w [])) \<longleftrightarrow> reachable_in v6_rows (uint w)"
proof -
  have "\<forall>b \<in> set IPv4SpecialAddresses. same_family (sb_Addr b) (V4 a)"
    by (simp add: IPv4SpecialAddresses_def block_def)
  from fold_rows[OF this, of None] have r4: "map_option summary (FindSpecialAddress (V4 a)) =
      fold best_row (filter (in_row (uint a)) v4_rows) None"
    by (simp add: FindSpecialAddress_def v4_rows)
  have "\<forall>b \<in> set IPv6SpecialAddresses. same_family (sb_Addr b) (V6 w [])"
    by (simp add: IPv6SpecialAddresses_def block_def)
  from fold_rows[OF this, of None] have r6: "map_option summary (FindSpecialAddress (V6 w [])) =
      fold best_row (filter (in_row (uint w)) v6_rows) None"
    by (simp add: FindSpecialAddress_def v6_rows)
  show "IsGloballyReachable (FindSpecialAddress (V4 a)) \<longleftrightarrow> reachable_in v4_rows (uint a)"
    unfolding reachable_in_def r4[symmetric] by (cases "FindSpecialAddress (V4 a)") (simp_all add: IsGloballyReachable_def)
  show "IsGloballyReachable (FindSpecialAddress (V6 w [])) \<longleftrightarrow> reachable_in v6_rows (uint w)"
    unfolding reachable_in_def r6[symmetric] by (cases "FindSpecialAddress (V6 w [])") (simp_all add: IsGloballyReachable_def)
qed

section \<open>The declined ranges\<close>

definition declined4 :: "(int \<times> int) list" where
  "declined4 = [
     (0, 0xffffff), (0xa000000, 0xaffffff), (0x64400000, 0x647fffff), (0x7f000000, 0x7fffffff),
     (0xa9fe0000, 0xa9feffff), (0xac100000, 0xac1fffff), (0xc0000000, 0xc0000008),
     (0xc000000b, 0xc00000ff), (0xc0000200, 0xc00002ff), (0xc0586300, 0xc05863ff),
     (0xc0a80000, 0xc0a8ffff), (0xc6120000, 0xc613ffff), (0xc6336400, 0xc63364ff),
     (0xcb007100, 0xcb0071ff), (0xe0000000, 0xffffffff)]"

definition declined6 :: "(int \<times> int) list" where
  "declined6 = [
     (0, 0xffffffff), (0xffff00000000, 0xffffffffffff),
     (0x64ff9b000100000000000000000000, 0x64ff9b0001ffffffffffffffffffff),
     (0x1000000000000000000000000000000, 0x100000000000001ffffffffffffffff),
     (0x20010000000000000000000000000000, 0x20010001000000000000000000000000),
     (0x20010001000000000000000000000004, 0x20010002ffffffffffffffffffffffff),
     (0x20010004000000000000000000000000, 0x200100040111ffffffffffffffffffff),
     (0x20010004011300000000000000000000, 0x2001001fffffffffffffffffffffffff),
     (0x20010040000000000000000000000000, 0x200101ffffffffffffffffffffffffff),
     (0x20010db8000000000000000000000000, 0x20010db8ffffffffffffffffffffffff),
     (0x20020000000000000000000000000000, 0x2002ffffffffffffffffffffffffffff),
     (0x3fff0000000000000000000000000000, 0x3fff0fffffffffffffffffffffffffff),
     (0x5f000000000000000000000000000000, 0x5f00ffffffffffffffffffffffffffff),
     (0xfc000000000000000000000000000000, 0xfdffffffffffffffffffffffffffffff),
     (0xfe800000000000000000000000000000, 0xffffffffffffffffffffffffffffffff)]"

definition in_ranges :: "(int \<times> int) list \<Rightarrow> int \<Rightarrow> bool" where
  "in_ranges rs n = list_ex (\<lambda>(lo, hi). lo \<le> n \<and> n \<le> hi) rs"

lemma multicast_range:
  "addr_IsMulticast (V4 a) \<longleftrightarrow> 0xe0000000 \<le> uint a \<and> uint a \<le> 0xefffffff"
  "addr_IsMulticast (V6 w z) \<longleftrightarrow> 0xff000000000000000000000000000000 \<le> uint w \<and> uint w \<le> 0xffffffffffffffffffffffffffffffff"
  by (simp_all add: drop_eq div_eq_range)

lemma deprecated_range:
  "find (\<lambda>b. block_Contains b (V6 w [])) deprecatedIPv6 = None \<longleftrightarrow>
     \<not> (uint w \<le> 0xffffffff \<or> 0xfec00000000000000000000000000000 \<le> uint w \<and> uint w \<le> 0xfeffffffffffffffffffffffffffffff)"
  proof -
  have "drop_bit 32 w = 0 \<longleftrightarrow> uint w \<le> 0xffffffff" by (simp add: drop_eq div_eq_range)
  then show ?thesis
    by (auto simp: find_None_iff deprecatedIPv6_def block_def drop_xor div_eq_range simp del: drop_bit_xor)
qed

text \<open>
  Whether an address lies in a range only depends on the last range boundary at or below it, so a statement about all
  addresses is checked on the boundaries.
\<close>

definition boundaries :: "range_row list \<Rightarrow> int list" where
  "boundaries rs = concat (map (\<lambda>(lo, hi, _). [lo, hi + 1]) rs)"

definition boundary_below :: "int list \<Rightarrow> int \<Rightarrow> int" where
  "boundary_below bs n = fold (\<lambda>b m. if b \<le> n then max b m else m) bs 0"

lemma boundary_below_fold:
  "m \<le> (n :: int) \<Longrightarrow> (let r = fold (\<lambda>b m. if b \<le> n then max b m else m) bs m in
     r \<in> insert m (set bs) \<and> m \<le> r \<and> r \<le> n \<and> (\<forall>b \<in> set bs. b \<le> n \<longrightarrow> b \<le> r))"
proof (induction bs arbitrary: m)
  case (Cons b bs)
  define k where "k = (if b \<le> n then max b m else m)"
  have "k \<le> n" "m \<le> k" "b \<le> n \<Longrightarrow> b \<le> k" "k \<in> {b, m}" using Cons.prems by (auto simp: k_def)
  then show ?case using Cons.IH[of k] by (auto simp: Let_def k_def[symmetric] dest: order_trans)
qed simp

lemma boundary_below:
  assumes "0 \<le> n"
  shows "boundary_below bs n \<in> insert 0 (set bs)"
    and "b \<in> set bs \<Longrightarrow> b \<le> boundary_below bs n \<longleftrightarrow> b \<le> n"
  using boundary_below_fold[OF assms, of bs] by (auto simp: boundary_below_def Let_def dest: order_trans)

lemma in_row_boundary:
  assumes "0 \<le> n" "r \<in> set rs" "set (boundaries rs) \<subseteq> set bs"
  shows "in_row (boundary_below bs n) r \<longleftrightarrow> in_row n r"
proof -
  obtain lo hi b ok where r: "r = (lo, hi, b, ok)" by (cases r)
  then have "{lo, hi + 1} \<subseteq> set (boundaries rs)" using assms(2) by (force simp: boundaries_def)
  then have "lo \<in> set bs" "hi + 1 \<in> set bs" using assms(3) by auto
  from this[THEN boundary_below(2)[OF assms(1)]] show ?thesis by (auto simp: r in_row_def)
qed

lemma reachable_boundary:
  assumes "0 \<le> n" "set (boundaries rs) \<subseteq> set bs"
  shows "reachable_in rs (boundary_below bs n) \<longleftrightarrow> reachable_in rs n"
proof -
  have "filter (in_row (boundary_below bs n)) rs = filter (in_row n) rs"
    by (rule filter_cong[OF refl in_row_boundary[OF assms(1) _ assms(2)]])
  then show ?thesis by (simp add: reachable_in_def)
qed

definition plain_rows :: "(int \<times> int) list \<Rightarrow> range_row list" where
  "plain_rows = map (\<lambda>(lo, hi). (lo, hi, 0, False))"

lemma in_ranges_rows: "in_ranges rs n \<longleftrightarrow> (\<exists>r \<in> set (plain_rows rs). in_row n r)"
  by (force simp: in_ranges_def plain_rows_def list_ex_iff in_row_def)

lemma in_ranges_boundary:
  "0 \<le> n \<Longrightarrow> set (boundaries (plain_rows rs)) \<subseteq> set bs \<Longrightarrow> in_ranges rs (boundary_below bs n) \<longleftrightarrow> in_ranges rs n"
  using in_row_boundary[of n _ "plain_rows rs" bs] by (auto simp: in_ranges_rows)

text \<open>Two descriptions that agree on all boundaries agree everywhere.\<close>

definition agree_at :: "range_row list \<Rightarrow> (int \<times> int) list \<Rightarrow> (int \<times> int) list \<Rightarrow> int \<Rightarrow> bool" where
  "agree_at rs ds es n = (in_ranges ds n = (\<not> reachable_in rs n \<or> in_ranges es n))"

lemma ranges_agree:
  assumes "list_all (agree_at rs ds es) (0 # boundaries rs @ boundaries (plain_rows ds) @ boundaries (plain_rows es))" "0 \<le> n"
  shows "in_ranges ds n \<longleftrightarrow> \<not> reachable_in rs n \<or> in_ranges es n"
proof -
  define bs where "bs = boundaries rs @ boundaries (plain_rows ds) @ boundaries (plain_rows es)"
  have "set (boundaries rs) \<subseteq> set bs" "set (boundaries (plain_rows ds)) \<subseteq> set bs" "set (boundaries (plain_rows es)) \<subseteq> set bs"
    by (auto simp: bs_def)
  moreover have "\<forall>m \<in> insert 0 (set bs). in_ranges ds m = (\<not> reachable_in rs m \<or> in_ranges es m)"
    using assms(1) by (simp add: bs_def agree_at_def list_all_iff)
  ultimately show ?thesis
    using assms(2) boundary_below(1)[of n bs] in_ranges_boundary[of n ds bs] in_ranges_boundary[of n es bs]
      reachable_boundary[of n rs bs] by blast
qed

lemma ranges4:
  "0 \<le> n \<Longrightarrow> in_ranges declined4 n \<longleftrightarrow> \<not> reachable_in v4_rows n \<or> in_ranges [(0xe0000000, 0xefffffff)] n"
  by (rule ranges_agree) code_simp

lemma ranges6:
  "0 \<le> n \<Longrightarrow> in_ranges declined6 n \<longleftrightarrow> \<not> reachable_in v6_rows n \<or>
     in_ranges [(0xff000000000000000000000000000000, 0xffffffffffffffffffffffffffffffff),
       (0, 0xffffffff), (0xfec00000000000000000000000000000, 0xfeffffffffffffffffffffffffffffff)] n"
  by (rule ranges_agree) code_simp

section \<open>The policy as ranges\<close>

lemma find_in_table: "fold (more_specific ip) bs f = Some b \<Longrightarrow> f = Some b \<or> b \<in> set bs"
proof (induction bs arbitrary: f)
  case (Cons c bs)
  from Cons.IH[of "more_specific ip c f"] Cons.prems show ?case by (auto simp: more_specific_def split: if_splits)
qed simp

lemma found_named: "FindSpecialAddress ip = Some b \<Longrightarrow> sb_Name b \<noteq> []"
proof -
  assume "FindSpecialAddress ip = Some b"
  then have "b \<in> set IPv4SpecialAddresses \<union> set IPv6SpecialAddresses"
    using find_in_table[of ip _ None b] by (auto simp: FindSpecialAddress_def split: if_splits)
  then show ?thesis by (auto simp: IPv4SpecialAddresses_def IPv6SpecialAddresses_def block_def)
qed

lemma declined_name: "\<not> IsGloballyReachable f \<Longrightarrow> f = FindSpecialAddress ip \<Longrightarrow> (case f of Some b \<Rightarrow> sb_Name b | None \<Rightarrow> []) \<noteq> []"
  using found_named by (auto simp: IsGloballyReachable_def split: option.splits)

lemma IsQueryable4: "IsQueryable (V4 a) \<longleftrightarrow> \<not> in_ranges declined4 (uint a)"
proof -
  have "IsQueryable (V4 a) \<longleftrightarrow> IsGloballyReachable (FindSpecialAddress (V4 a)) \<and> \<not> addr_IsMulticast (V4 a)"
    using declined_name[OF _ refl, of "V4 a"]
    by (simp add: IsQueryable_def Let_def deprecatedIPv6_def nat64WellKnown_def block_def)
  then show ?thesis by (simp add: reachable_rows multicast_range ranges4 in_ranges_def[of "[_]"] del: addr_IsMulticast.simps)
qed

lemma deprecated_named: "find P deprecatedIPv6 = Some b \<Longrightarrow> sb_Name b \<noteq> []"
  by (auto simp: deprecatedIPv6_def block_def split: if_splits)

lemma IsQueryable6:
  assumes "drop_bit 32 w \<noteq> (0xffff :: 128 word)"
  shows "IsQueryable (V6 w z) \<longleftrightarrow> \<not> in_ranges declined6 (uint w) \<and>
     (drop_bit 32 w = 0x64ff9b0000000000000000 \<longrightarrow> IsQueryable (V4 (ucast w)))"
proof -
  have nat64: "prefix_Contains (fst nat64WellKnown) (snd nat64WellKnown) (V6 w []) \<longleftrightarrow> drop_bit 32 w = 0x64ff9b0000000000000000"
    by (simp add: nat64WellKnown_def drop_xor del: drop_bit_xor) (simp add: drop_eq)
  have "uint w \<le> 0xffffffffffffffffffffffffffffffff" using uint_lt2p[of w] by simp
  then have "in_ranges declined6 (uint w) \<longleftrightarrow> \<not> IsGloballyReachable (FindSpecialAddress (V6 w [])) \<or>
      addr_IsMulticast (V6 w []) \<or> find (\<lambda>b. block_Contains b (V6 w [])) deprecatedIPv6 \<noteq> None"
    by (simp add: ranges6 reachable_rows multicast_range deprecated_range in_ranges_def[of "_ # _"] del: prefix_Contains.simps addr_IsMulticast.simps)
  then show ?thesis
    using assms declined_name[OF _ refl, of "V6 w []"] deprecated_named[of "\<lambda>b. block_Contains b (V6 w [])"]
    by (subst IsQueryable_def, subst NotQueryableReason.simps)
      (auto simp: Let_def nat64 IsQueryable_def[of "V4 _"] simp del: prefix_Contains.simps NotQueryableReason.simps split: option.splits)
qed

section \<open>Properties\<close>

text \<open>
  C25. The addresses that may be queried are exactly these. An IPv4 address is queryable unless it lies in one of fifteen
  ranges: the special-purpose blocks that are not globally reachable, without the reachable addresses inside them, and
  all of 224.0.0.0 to 255.255.255.255. An IPv4-mapped IPv6 address and a NAT64 address are queryable exactly when the
  IPv4 address they embed is, so that no disguise gets an address past the guard. Any other IPv6 address is queryable
  unless it lies in one of fifteen ranges, 6to4, Teredo, unique-local, link-local, site-local and multicast among them.
\<close>

theorem address_policy_exact:
  "(IsQueryable (V4 a) \<longleftrightarrow> \<not> in_ranges declined4 (uint a)) \<and>
   (IsQueryable (V6 w z) \<longleftrightarrow>
      (if drop_bit 32 w = 0xffff \<or> drop_bit 32 w = 0x64ff9b0000000000000000 then IsQueryable (V4 (ucast w))
       else \<not> in_ranges declined6 (uint w)))"
proof -
  have mapped: "IsQueryable (V6 w z) \<longleftrightarrow> IsQueryable (V4 (ucast w))" if "drop_bit 32 w = 0xffff"
    using that by (simp add: IsQueryable_def)
  have "\<not> in_ranges declined6 (uint w)" if "drop_bit 32 w = 0x64ff9b0000000000000000"
    using that by (simp add: drop_eq div_eq_range in_ranges_def declined6_def)
  then show ?thesis using IsQueryable4[of a] IsQueryable6[of w z] mapped by auto
qed

declare NotQueryableReason.simps [simp del]

end
