(* ===== verification/Submit.thy ===== *)
theory Submit
  imports JobQueue Plan AddressPolicy Store
begin

text \<open>
  Submission and cancellation of jobs: the parts of the HTTP handlers (\<open>server/handlers.go\<close>,
  \<open>server/handlers_public.go\<close>, \<open>server/handlers_profiles.go\<close>, \<open>server/handlers_batches.go\<close>) that decide what a
  request does to the store and the queue, on the decoded request. The server's state is the store, the queue,
  the registered cancel functions of running jobs and the id counter.

  \<^item> A handler returns its error and the state it leaves, because several of them change state before they fail.
  \<^item> \<open>env\<close> holds what a handler takes from outside: IDNA and address parsing, quoting of error messages, the profile
    library and defaults, the test cases the instance excludes, the clock and the public id generator. The
    clock and the generator are indexed by the value of the id counter.
  \<^item> A cancel function is the number of the job context it cancels.
\<close>

section \<open>State\<close>

record server =
  sv_store :: store
  sv_queue :: inmem_queue
  sv_cancels :: "(string, nat) gomap"
  sv_contexts :: nat
  sv_canceled :: "nat list"
  sv_idCounter :: int

record env =
  ev_to_ascii :: "string \<Rightarrow> string option"
  ev_parse_unzoned :: "string \<Rightarrow> ip_addr option"
  ev_reverse_addr :: "ip_addr \<Rightarrow> string"
  ev_parse_addr :: "string \<Rightarrow> ip_addr option"
  ev_addr_string :: "ip_addr \<Rightarrow> string"
  ev_quote :: "string \<Rightarrow> string"
  ev_undelegated_text :: "undelegated_error \<Rightarrow> string"
  ev_store_text :: "store_error \<Rightarrow> string"
  ev_lib :: profile_lib
  ev_defaults :: "(string, goval) gomap"
  ev_excludedTestcases :: "string list"
  ev_allowPrivateUndelegatedIP :: bool
  ev_nano :: "int \<Rightarrow> int"
  ev_now :: "int \<Rightarrow> gotime"
  ev_public :: "int \<Rightarrow> string"

record request_error =
  re_status :: int
  re_code :: string
  re_message :: string

definition badRequest :: "string \<Rightarrow> string \<Rightarrow> request_error" where
  "badRequest code message = \<lparr>re_status = 400, re_code = code, re_message = message\<rparr>"

definition internalError :: "string \<Rightarrow> string \<Rightarrow> request_error" where
  "internalError code message = \<lparr>re_status = 500, re_code = code, re_message = message\<rparr>"

record submitter =
  su_IP :: string
  su_UserAgent :: string
  su_Via :: string

definition stamp :: "submitter \<Rightarrow> job \<Rightarrow> job" where
  "stamp c j = j\<lparr>j_ClientIP := su_IP c, j_ClientUserAgent := su_UserAgent c, j_ClientVia := su_Via c\<rparr>"

definition newID :: "env \<Rightarrow> string \<Rightarrow> server \<Rightarrow> string \<times> server" where
  "newID ev pre sv = (let count = sv_idCounter sv + 1 in
     (pre @ ''_'' @ itoa (ev_nano ev count) @ ''_'' @ itoa count, sv\<lparr>sv_idCounter := count\<rparr>))"

section \<open>Checks\<close>

fun check_tags :: "store \<Rightarrow> string list \<Rightarrow> string list \<Rightarrow> request_error + string list" where
  "check_tags s [] names = Inr names"
| "check_tags s (t0 # ts) names = (let t = trim_space t0 in
     if t = [] then check_tags s ts names
     else case GetTag t s of
       None \<Rightarrow> Inl (badRequest ''tag_not_found'' (''tag not found: '' @ t))
     | Some _ \<Rightarrow> check_tags s ts (names @ [t]))"

definition checkTags :: "store \<Rightarrow> string list \<Rightarrow> request_error + string list" where
  "checkTags s names = check_tags s names []"

definition isExcluded :: "env \<Rightarrow> string \<Rightarrow> bool" where
  "isExcluded ev testcase \<longleftrightarrow> canonical_name testcase \<in> set (ev_excludedTestcases ev)"

definition testcase_request :: "string \<Rightarrow> run_request" where
  "testcase_request name = \<lparr>rq_Module = [], rq_Testcases = [name], rq_Exclude = [], rq_MinLevel = [], rq_Override = Inr None,
     rq_IPv4 = None, rq_IPv6 = None, rq_AllowNonGlobalTargets = None, rq_Parallel = None, rq_Unordered = None,
     rq_ErrorCacheTTL = None, rq_Timeout = None, rq_Retry = None, rq_Retrans = None, rq_Fallback = None,
     rq_SourceAddr4 = None, rq_SourceAddr6 = None, rq_PositiveCacheTTL = None, rq_NegativeCacheTTL = None,
     rq_BadkeysPath = None\<rparr>"

fun check_tests :: "env \<Rightarrow> string list \<Rightarrow> string list \<Rightarrow> request_error + string list" where
  "check_tests ev [] out = Inr out"
| "check_tests ev (raw # raws) out = (let name = canonical_name raw in
     if name = [] \<or> name \<in> set out then check_tests ev raws out
     else case PlannedTestcases (ev_lib ev) (ev_defaults ev) (testcase_request name) of
       Inl _ \<Rightarrow> Inl (badRequest ''unknown_testcase'' (''unknown testcase '' @ ev_quote ev name))
     | Inr _ \<Rightarrow>
         if isExcluded ev name
         then Inl (badRequest ''testcase_excluded'' (''testcase '' @ ev_quote ev name @ '' is excluded on this instance''))
         else check_tests ev raws (out @ [name]))"

definition checkTests :: "env \<Rightarrow> string list \<Rightarrow> request_error + string list" where
  "checkTests ev tests = check_tests ev tests []"

definition level_names :: "string list" where
  "level_names = map fst (sort_by (\<lambda>a b. snd a < snd b) numericLevels)"

definition checkMinLevel :: "env \<Rightarrow> string \<Rightarrow> request_error option" where
  "checkMinLevel ev minLevel =
     (if trim_space minLevel = [] \<or> gm_has numericLevels (to_upper (trim_space minLevel)) then None
      else Some (badRequest ''invalid_min_level''
        (''min_level '' @ ev_quote ev minLevel @ '' is not one of '' @ join '', '' level_names)))"

definition validatePublicMinLevel :: "string \<Rightarrow> request_error option" where
  "validatePublicMinLevel minLevel = (case gm_get numericLevels (to_upper (trim_space minLevel)) of
     None \<Rightarrow> None
   | Some level \<Rightarrow> if gm_get_or 0 numericLevels ''INFO'' \<le> level then None
       else Some (badRequest ''invalid_min_level'' ''public min_level must be INFO or higher''))"

text \<open>A resolved profile is its id, if any, and its name.\<close>

type_synonym resolved_profile = "int option \<times> string"

definition resolveStoredProfile :: "store \<Rightarrow> int option \<Rightarrow> bool \<Rightarrow> request_error + resolved_profile" where
  "resolveStoredProfile s profileID publicOnly = (case profileID of
     None \<Rightarrow> Inr (None, [])
   | Some i \<Rightarrow>
       if i \<le> 0 then Inl (badRequest ''invalid_profile_id'' ''profile_id must be a positive integer'')
       else (case GetProfile i s of
           None \<Rightarrow> Inl (badRequest ''profile_not_found'' ''profile not found'')
         | Some p \<Rightarrow> if publicOnly \<and> \<not> p_Public p then Inl (badRequest ''profile_not_found'' ''profile not found'')
             else Inr (Some (p_ID p), p_Name p)))"

fun default_profile_of :: "store \<Rightarrow> string list \<Rightarrow> int option \<Rightarrow> request_error + int option" where
  "default_profile_of s [] selected = Inr selected"
| "default_profile_of s (t # ts) selected = (case Option.bind (GetTag t s) t_DefaultProfileID of
     None \<Rightarrow> default_profile_of s ts selected
   | Some p \<Rightarrow> (case selected of
       None \<Rightarrow> default_profile_of s ts (Some p)
     | Some q \<Rightarrow> if q \<noteq> p then Inl (badRequest ''ambiguous_profile''
           ''multiple tags define different default profiles; choose profile_id explicitly'')
         else default_profile_of s ts selected))"

definition resolveDefaultProfileFromTags :: "store \<Rightarrow> string list \<Rightarrow> request_error + resolved_profile" where
  "resolveDefaultProfileFromTags s tagNames = (case default_profile_of s tagNames None of
     Inl e \<Rightarrow> Inl e
   | Inr None \<Rightarrow> Inr (None, [])
   | Inr (Some i) \<Rightarrow> resolveStoredProfile s (Some i) False)"

section \<open>Creating jobs\<close>

definition enqueue_ignoring :: "string \<Rightarrow> int \<Rightarrow> inmem_queue \<Rightarrow> inmem_queue" where
  "enqueue_ignoring i priority q = (case Enqueue i priority q of Inl _ \<Rightarrow> q | Inr q' \<Rightarrow> q')"

definition normalize_target :: "env \<Rightarrow> string \<Rightarrow> norm_error list \<times> string" where
  "normalize_target ev name = NormalizeTarget (ev_to_ascii ev) (ev_parse_unzoned ev) (ev_reverse_addr ev) name"

definition create_queued :: "env \<Rightarrow> job \<Rightarrow> int \<Rightarrow> server \<Rightarrow> (store_error + job) \<times> server" where
  "create_queued ev j priority sv = (case Create (ev_public ev (sv_idCounter sv)) j (sv_store sv) of
     Inl e \<Rightarrow> (Inl e, sv)
   | Inr (created, s') \<Rightarrow>
       (Inr created, sv\<lparr>sv_store := s', sv_queue := enqueue_ignoring (j_ID created) priority (sv_queue sv)\<rparr>))"

definition get_or_create_domain :: "env \<Rightarrow> string \<Rightarrow> server \<Rightarrow> (store_error + domain) \<times> server" where
  "get_or_create_domain ev name sv =
     (case GetOrCreateDomain (ev_to_ascii ev) (ev_parse_unzoned ev) (ev_reverse_addr ev)
             (ev_now ev (sv_idCounter sv)) name (sv_store sv) of
        Inl e \<Rightarrow> (Inl e, sv)
      | Inr (d, s') \<Rightarrow> (Inr d, sv\<lparr>sv_store := s'\<rparr>))"

definition tag_domains :: "env \<Rightarrow> string list \<Rightarrow> int list \<Rightarrow> server \<Rightarrow> server" where
  "tag_domains ev names ids sv =
     sv\<lparr>sv_store := fold (\<lambda>t. TagDomains (ev_now ev (sv_idCounter sv)) t ids) names (sv_store sv)\<rparr>"

record job_create_request =
  jc_Domain :: string
  jc_Tests :: "string list"
  jc_ProfileID :: "int option"
  jc_ProfileOverrides :: "(string, json) gomap"
  jc_Nameservers :: "undelegated_ns list"
  jc_DSInfo :: "undelegated_ds list"
  jc_MinLevel :: string
  jc_Tags :: "string list"
  jc_IPv4Disabled :: bool
  jc_IPv6Disabled :: bool

text \<open>What both create handlers check first: the domain and the undelegated rows, then the level and the tests.\<close>

definition check_domain :: "env \<Rightarrow> string \<Rightarrow> request_error + string" where
  "check_domain ev domain = (case normalize_target ev (trim_space domain) of
     (e # _, _) \<Rightarrow> Inl (badRequest ''invalid_domain'' (error_Message e))
   | ([], normalized) \<Rightarrow> Inr normalized)"

definition check_undelegated :: "env \<Rightarrow> job_create_request \<Rightarrow> request_error + undelegated_ns list \<times> undelegated_ds list" where
  "check_undelegated ev req =
     (case server_normalizeUndelegatedInputs (ev_to_ascii ev) (ev_parse_addr ev) (ev_addr_string ev)
             (jc_Nameservers req) (jc_DSInfo req) of
        Inl e \<Rightarrow> Inl (badRequest ''invalid_undelegated'' (ev_undelegated_text ev e))
      | Inr rows \<Rightarrow> Inr rows)"

definition created_job :: "env \<Rightarrow> string \<Rightarrow> job_create_request \<Rightarrow> string \<Rightarrow> string list \<Rightarrow> undelegated_ns list \<times> undelegated_ds list
    \<Rightarrow> resolved_profile \<Rightarrow> string \<Rightarrow> int \<Rightarrow> job" where
  "created_job ev i req domain tests rows profile origin n = zero_job\<lparr>
     j_ID := i, j_Domain := domain, j_Tests := tests, j_UndelegatedNS := fst rows, j_UndelegatedDS := snd rows,
     j_MinLevel := jc_MinLevel req, j_Status := JobQueued, j_CreatedAt := ev_now ev n, j_Progress := 0,
     j_ProfileID := fst profile, j_ProfileName := snd profile, j_IPv4Disabled := jc_IPv4Disabled req,
     j_IPv6Disabled := jc_IPv6Disabled req, j_Origin := origin\<rparr>"

definition handleCreateJob :: "env \<Rightarrow> job_create_request \<Rightarrow> submitter \<Rightarrow> server \<Rightarrow> (request_error + job) \<times> server" where
  "handleCreateJob ev req client sv =
     (if trim_space (jc_Domain req) = [] then (Inl (badRequest ''missing_domain'' ''domain is required''), sv)
      else case check_domain ev (jc_Domain req) of Inl e \<Rightarrow> (Inl e, sv) | Inr domain \<Rightarrow>
        (case check_undelegated ev req of Inl e \<Rightarrow> (Inl e, sv) | Inr rows \<Rightarrow>
        (case checkMinLevel ev (jc_MinLevel req) of Some e \<Rightarrow> (Inl e, sv) | None \<Rightarrow>
        (case checkTests ev (jc_Tests req) of Inl e \<Rightarrow> (Inl e, sv) | Inr tests \<Rightarrow>
        (case checkTags (sv_store sv) (jc_Tags req) of Inl e \<Rightarrow> (Inl e, sv) | Inr tagNames \<Rightarrow>
        (case (if jc_ProfileID req \<noteq> None then resolveStoredProfile (sv_store sv) (jc_ProfileID req) False
               else if jc_ProfileOverrides req = [] then resolveDefaultProfileFromTags (sv_store sv) tagNames
               else Inr (None, [])) of Inl e \<Rightarrow> (Inl e, sv) | Inr profile \<Rightarrow>
        (case newID ev ''job'' sv of (i, sv1) \<Rightarrow>
          (let j = stamp client ((created_job ev i req domain tests rows profile ''admin'' (sv_idCounter sv1))\<lparr>
                     j_Overrides := jc_ProfileOverrides req\<rparr>) in
           case create_queued ev j PriorityNormal sv1 of
             (Inl e, sv2) \<Rightarrow> (Inl (internalError ''store_error'' (ev_store_text ev e)), sv2)
           | (Inr created, sv2) \<Rightarrow>
               if tagNames = [] then (Inr created, sv2)
               else case get_or_create_domain ev domain sv2 of
                 (Inl e, sv3) \<Rightarrow> (Inl (internalError ''store_error'' (ev_store_text ev e)), sv3)
               | (Inr d, sv3) \<Rightarrow> (Inr created, tag_domains ev tagNames [d_ID d] sv3)))))))))"

definition MaxPublicTests :: nat where "MaxPublicTests = 256"

definition isBlockedPublicNameserverIP :: "env \<Rightarrow> string \<Rightarrow> bool \<times> string" where
  "isBlockedPublicNameserverIP ev ip0 = (let ip = trim_space ip0 in
     if ip = [] then (False, [])
     else case ev_parse_addr ev ip of
       None \<Rightarrow> (False, [])
     | Some a \<Rightarrow> (let reason = NotQueryableReason a in (reason \<noteq> [], reason)))"

fun blocked_nameserver :: "env \<Rightarrow> int \<Rightarrow> undelegated_ns list \<Rightarrow> request_error option" where
  "blocked_nameserver ev i [] = None"
| "blocked_nameserver ev i (n # ns) = (case isBlockedPublicNameserverIP ev (un_IP n) of
     (True, reason) \<Rightarrow> Some (badRequest ''private_undelegated_ip'' (''undelegated nameserver['' @ itoa i @ '']: '' @ reason @
        '' IP '' @ ev_quote ev (un_IP n) @ '' is not allowed on the public API''))
   | (False, _) \<Rightarrow> blocked_nameserver ev (i + 1) ns)"

text \<open>The handler after the CSRF check.\<close>

definition handlePublicCreateJob :: "env \<Rightarrow> job_create_request \<Rightarrow> submitter \<Rightarrow> server \<Rightarrow> (request_error + job) \<times> server" where
  "handlePublicCreateJob ev req client sv =
     (if trim_space (jc_Domain req) = [] then (Inl (badRequest ''missing_domain'' ''domain is required''), sv)
      else if MaxPublicTests < length (jc_Tests req) then
        (Inl (badRequest ''too_many_tests'' (''tests list too long: '' @ itoa (int (length (jc_Tests req))) @
           '' (max '' @ itoa (int MaxPublicTests) @ '')'')), sv)
      else case check_domain ev (jc_Domain req) of Inl e \<Rightarrow> (Inl e, sv) | Inr domain \<Rightarrow>
        (case check_undelegated ev req of Inl e \<Rightarrow> (Inl e, sv) | Inr rows \<Rightarrow>
        (case checkMinLevel ev (jc_MinLevel req) of Some e \<Rightarrow> (Inl e, sv) | None \<Rightarrow>
        (case validatePublicMinLevel (jc_MinLevel req) of Some e \<Rightarrow> (Inl e, sv) | None \<Rightarrow>
        (case checkTests ev (jc_Tests req) of Inl e \<Rightarrow> (Inl e, sv) | Inr tests \<Rightarrow>
        (case (if ev_allowPrivateUndelegatedIP ev then None else blocked_nameserver ev 0 (fst rows)) of
           Some e \<Rightarrow> (Inl e, sv) | None \<Rightarrow>
        (if jc_ProfileOverrides req \<noteq> [] then
           (Inl (badRequest ''profile_overrides_not_allowed''
              ''public API requests must use profile_id instead of profile_overrides''), sv)
         else case resolveStoredProfile (sv_store sv) (jc_ProfileID req) True of Inl e \<Rightarrow> (Inl e, sv) | Inr profile \<Rightarrow>
        (case newID ev ''job'' sv of (i, sv1) \<Rightarrow>
          (let j = stamp client (created_job ev i req domain tests rows profile ''public'' (sv_idCounter sv1)) in
           case create_queued ev j PriorityNormal sv1 of
             (Inl e, sv2) \<Rightarrow> (Inl (internalError ''store_error'' ''job submission failed''), sv2)
           | (Inr created, sv2) \<Rightarrow> (Inr created, sv2))))))))))"

section \<open>Batches\<close>

record job_batch_request =
  bq_Domains :: "string list"
  bq_FromTag :: string
  bq_Tests :: "string list"
  bq_ProfileID :: "int option"
  bq_ProfileOverrides :: "(string, json) gomap"
  bq_Nameservers :: "undelegated_ns list option"
  bq_DSInfo :: "undelegated_ds list option"
  bq_MinLevel :: string
  bq_Tags :: "string list"
  bq_Description :: string
  bq_SnapshotIntent :: bool
  bq_PromoteSnapshotDefault :: bool

definition PromoteDefaultSettingKey :: "string \<Rightarrow> string" where
  "PromoteDefaultSettingKey batchID = ''analysis:promote_default:'' @ batchID"

definition batch_domains :: "job_batch_request \<Rightarrow> store \<Rightarrow> request_error + string list" where
  "batch_domains req s =
     (if bq_FromTag req = [] then Inr (bq_Domains req)
      else case GetTag (bq_FromTag req) s of
        None \<Rightarrow> Inl (badRequest ''tag_not_found'' (''tag not found: '' @ bq_FromTag req))
      | Some _ \<Rightarrow> Inr (bq_Domains req @ map d_Name (Items (ListDomainsByTag (bq_FromTag req)
          \<lparr>df_Tag = [], df_Name = [], df_LatestLevel = [], df_MinLevel = [], df_Limit = 10000, df_Offset = 0, df_Sort = []\<rparr> s))))"

definition batch_profile :: "job_batch_request \<Rightarrow> store \<Rightarrow> request_error + resolved_profile" where
  "batch_profile req s =
     (if bq_ProfileID req \<noteq> None then resolveStoredProfile s (bq_ProfileID req) False
      else if bq_ProfileOverrides req = [] \<and> bq_FromTag req \<noteq> [] then resolveDefaultProfileFromTags s [bq_FromTag req]
      else Inr (None, []))"

definition batch_job :: "job_batch_request \<Rightarrow> string list \<Rightarrow> resolved_profile \<Rightarrow> submitter \<Rightarrow> string \<Rightarrow> gotime \<Rightarrow> string \<Rightarrow> string \<Rightarrow> job" where
  "batch_job req tests profile client batchID now i domain = stamp client (zero_job\<lparr>
     j_ID := i, j_BatchID := batchID, j_Domain := domain, j_Tests := tests, j_Overrides := bq_ProfileOverrides req,
     j_MinLevel := bq_MinLevel req, j_Priority := PriorityBatch, j_Status := JobQueued, j_CreatedAt := now, j_Progress := 0,
     j_ProfileID := fst profile, j_ProfileName := snd profile, j_Origin := ''batch''\<rparr>)"

fun submit_domains :: "env \<Rightarrow> (string \<Rightarrow> string \<Rightarrow> job) \<Rightarrow> bool \<Rightarrow> string list \<Rightarrow> string list \<Rightarrow> int list \<Rightarrow> server
    \<Rightarrow> (request_error + string list \<times> int list) \<times> server" where
  "submit_domains ev mk labelled [] jobIDs domainIDs sv = (Inr (jobIDs, domainIDs), sv)"
| "submit_domains ev mk labelled (d # ds) jobIDs domainIDs sv =
     (if trim_space d = [] then (Inl (badRequest ''missing_domain'' ''domains is required''), sv)
      else case check_domain ev d of Inl e \<Rightarrow> (Inl e, sv) | Inr domain \<Rightarrow>
        (case newID ev ''job'' sv of (i, sv1) \<Rightarrow>
        (case create_queued ev (mk i domain) PriorityBatch sv1 of
           (Inl e, sv2) \<Rightarrow> (Inl (internalError ''store_error'' (ev_store_text ev e)), sv2)
         | (Inr created, sv2) \<Rightarrow>
             if \<not> labelled then submit_domains ev mk labelled ds (jobIDs @ [j_ID created]) domainIDs sv2
             else case get_or_create_domain ev domain sv2 of
               (Inl e, sv3) \<Rightarrow> (Inl (internalError ''store_error'' (ev_store_text ev e)), sv3)
             | (Inr d2, sv3) \<Rightarrow>
                 submit_domains ev mk labelled ds (jobIDs @ [j_ID created]) (domainIDs @ [d_ID d2]) sv3)))"

definition finish_batch :: "env \<Rightarrow> job_batch_request \<Rightarrow> string \<Rightarrow> string \<Rightarrow> gotime \<Rightarrow> string list \<Rightarrow> string list \<Rightarrow> int list \<Rightarrow> server \<Rightarrow> server" where
  "finish_batch ev req origin batchID now tagNames jobIDs domainIDs sv = (let
      sv1 = tag_domains ev tagNames domainIDs sv;
      s2 = CreateBatch \<lparr>b_ID = batchID, b_Tag = bq_FromTag req, b_CreatedAt = now, b_DomainCount = int (length jobIDs),
             b_Description = bq_Description req, b_SnapshotIntent = bq_SnapshotIntent req, b_Origin = origin\<rparr> (sv_store sv1);
      s3 = (if bq_SnapshotIntent req \<and> bq_PromoteSnapshotDefault req
            then SetSetting (PromoteDefaultSettingKey batchID) ''1'' s2 else s2)
    in sv1\<lparr>sv_store := s3\<rparr>)"

definition submitBatch :: "env \<Rightarrow> job_batch_request \<Rightarrow> string \<Rightarrow> submitter \<Rightarrow> server \<Rightarrow> (request_error + string \<times> string list) \<times> server" where
  "submitBatch ev req origin client sv =
     (if bq_Nameservers req \<noteq> None \<or> bq_DSInfo req \<noteq> None then
        (Inl (badRequest ''undelegated_not_supported_for_batch'' ''undelegated input is only supported for POST /jobs''), sv)
      else if bq_FromTag req \<noteq> [] \<and> bq_Domains req \<noteq> [] then
        (Inl (badRequest ''ambiguous_domains'' ''from_tag and domains are mutually exclusive''), sv)
      else case batch_domains req (sv_store sv) of Inl e \<Rightarrow> (Inl e, sv) | Inr doms \<Rightarrow>
        (if doms = [] then (Inl (badRequest ''missing_domain'' ''domains is required''), sv)
         else case checkMinLevel ev (bq_MinLevel req) of Some e \<Rightarrow> (Inl e, sv) | None \<Rightarrow>
        (case checkTests ev (bq_Tests req) of Inl e \<Rightarrow> (Inl e, sv) | Inr tests \<Rightarrow>
        (case checkTags (sv_store sv) (bq_Tags req) of Inl e \<Rightarrow> (Inl e, sv) | Inr tagNames \<Rightarrow>
        (case batch_profile req (sv_store sv) of Inl e \<Rightarrow> (Inl e, sv) | Inr profile \<Rightarrow>
        (case newID ev ''batch'' sv of (batchID, sv1) \<Rightarrow>
        (let now = ev_now ev (sv_idCounter sv1) in
         case submit_domains ev (batch_job req tests profile client batchID now) (tagNames \<noteq> []) doms [] [] sv1 of
           (Inl e, sv2) \<Rightarrow> (Inl e, sv2)
         | (Inr (jobIDs, domainIDs), sv2) \<Rightarrow>
             (Inr (batchID, jobIDs), finish_batch ev req origin batchID now tagNames jobIDs domainIDs sv2))))))))"

section \<open>Ids\<close>

definition id_text :: "string \<Rightarrow> int \<Rightarrow> int \<Rightarrow> string" where
  "id_text pre nano n = pre @ ''_'' @ itoa nano @ ''_'' @ itoa n"

lemma digits_no_underscore: "CHR ''_'' \<notin> set (digits n)"
proof
  assume "CHR ''_'' \<in> set (digits n)"
  then obtain d where d: "d < 10" "CHR ''_'' = char_of (48 + d :: nat)" using digits_chars by blast
  have "(of_char (CHR ''_'') :: nat) = 48 + d" unfolding d(2) using d(1) by (simp only: of_char_of) (simp add: take_bit_nat_eq_self)
  then show False using d(1) by simp
qed

lemma itoa_no_underscore: "CHR ''_'' \<notin> set (itoa n)"
  using digits_no_underscore by (auto simp: itoa_def)

lemma last_segment:
  assumes "xs @ c # ds = ys @ c # es" "c \<notin> set ds" "c \<notin> set es"
  shows "ds = es"
proof -
  have tail: "takeWhile (\<lambda>x. x \<noteq> c) (rev (zs @ c # fs)) = rev fs" if "c \<notin> set fs" for zs fs
    using that by (simp add: takeWhile_append takeWhile_eq_all_conv)
  show ?thesis using tail[OF assms(2), of xs] tail[OF assms(3), of ys] assms(1) by (simp add: rev_is_rev_conv)
qed

lemma id_text_inject: "id_text p t n = id_text p' t' n' \<Longrightarrow> n = n'"
proof -
  assume "id_text p t n = id_text p' t' n'"
  then have "(p @ ''_'' @ itoa t) @ CHR ''_'' # itoa n = (p' @ ''_'' @ itoa t') @ CHR ''_'' # itoa n'" by (simp add: id_text_def)
  from last_segment[OF this] have "itoa n = itoa n'" using itoa_no_underscore by blast
  then have "Some n = Some n'" by (metis atoi_itoa)
  then show "n = n'" by simp
qed

definition issued :: "int \<Rightarrow> string \<Rightarrow> bool" where
  "issued n i \<longleftrightarrow> (\<exists>p t m. m \<le> n \<and> i = id_text p t m)"

lemma issued_mono: "issued n i \<Longrightarrow> n \<le> m \<Longrightarrow> issued m i"
  unfolding issued_def by (metis order_trans)

lemma not_issued_next: "n < m \<Longrightarrow> \<not> issued n (id_text p t m)"
  unfolding issued_def using id_text_inject by (metis not_less)

definition known_ids :: "server \<Rightarrow> string set" where
  "known_ids sv = {i. gm_has (jobs (sv_store sv)) i} \<union> {i. gm_has (runs (sv_store sv)) i} \<union>
     set (normal (sv_queue sv)) \<union> set (batch (sv_queue sv))"

definition ids_ok :: "server \<Rightarrow> bool" where
  "ids_ok sv \<longleftrightarrow> (\<forall>i \<in> known_ids sv. issued (sv_idCounter sv) i)"

lemma newID_fresh:
  assumes "newID ev p sv = (i, sv1)" "ids_ok sv"
  shows "i \<notin> known_ids sv" "\<not> issued (sv_idCounter sv) i" "sv1 = sv\<lparr>sv_idCounter := sv_idCounter sv + 1\<rparr>"
    "issued (sv_idCounter sv1) i" "ids_ok sv1"
proof -
  have i: "i = id_text p (ev_nano ev (sv_idCounter sv + 1)) (sv_idCounter sv + 1)"
    and sv1: "sv1 = sv\<lparr>sv_idCounter := sv_idCounter sv + 1\<rparr>"
    using assms(1) by (auto simp: newID_def Let_def id_text_def)
  show "\<not> issued (sv_idCounter sv) i" unfolding i by (rule not_issued_next) simp
  then show "i \<notin> known_ids sv" using assms(2) by (auto simp: ids_ok_def)
  show "issued (sv_idCounter sv1) i" unfolding i sv1 issued_def by auto
  show "ids_ok sv1" using assms(2) unfolding ids_ok_def sv1 by (auto simp: known_ids_def intro: issued_mono)
qed (use assms(1) in \<open>simp_all add: newID_def Let_def prod_eq_iff\<close>)

section \<open>What creating a job does\<close>

lemma enqueue_ignoring_tiers:
  "normal (enqueue_ignoring i p q) = normal q @ (if closed q \<or> p = PriorityBatch then [] else [i])"
  "batch (enqueue_ignoring i p q) = batch q @ (if closed q \<or> p \<noteq> PriorityBatch then [] else [i])"
  "closed (enqueue_ignoring i p q) = closed q" "paused (enqueue_ignoring i p q) = paused q"
  by (simp_all add: enqueue_ignoring_def Enqueue_def Let_def signalOneLocked_def)

lemma create_queued_fresh:
  assumes "\<not> gm_has (jobs (sv_store sv)) (j_ID j)"
  obtains p where "create_queued ev j pr sv = (Inr (j\<lparr>j_PublicID := p\<rparr>), sv\<lparr>sv_store := (sv_store sv)\<lparr>
      jobs := gm_set (j_ID j) (j\<lparr>j_PublicID := p\<rparr>) (jobs (sv_store sv)),
      publicIDs := gm_set p (j_ID j) (publicIDs (sv_store sv))\<rparr>,
      sv_queue := enqueue_ignoring (j_ID j) pr (sv_queue sv)\<rparr>)"
proof -
  define p where "p = (if j_PublicID j = [] then ev_public ev (sv_idCounter sv) else j_PublicID j)"
  have "(if j_PublicID j = [] then j\<lparr>j_PublicID := ev_public ev (sv_idCounter sv)\<rparr> else j) = j\<lparr>j_PublicID := p\<rparr>"
    by (auto simp: p_def)
  then show ?thesis using assms that[of p] by (simp add: create_queued_def Create_def Let_def)
qed

lemma get_or_create_domain_frame:
  assumes "get_or_create_domain ev n sv = (r, sv')"
  shows "jobs (sv_store sv') = jobs (sv_store sv)" "runs (sv_store sv') = runs (sv_store sv)"
    "batches (sv_store sv') = batches (sv_store sv)"
    "sv_queue sv' = sv_queue sv" "sv_cancels sv' = sv_cancels sv" "sv_contexts sv' = sv_contexts sv"
    "sv_canceled sv' = sv_canceled sv" "sv_idCounter sv' = sv_idCounter sv"
proof -
  have "(\<exists>a m now. getOrCreateDomainLocked now m (sv_store sv) = (a, sv_store sv')) \<or> sv' = sv"
    using assms unfolding get_or_create_domain_def GetOrCreateDomain_def
    by (auto split: sum.splits prod.splits list.splits) blast
  then show "jobs (sv_store sv') = jobs (sv_store sv)" "runs (sv_store sv') = runs (sv_store sv)"
    "batches (sv_store sv') = batches (sv_store sv)"
    using getOrCreate_fields by metis+
  show "sv_queue sv' = sv_queue sv" "sv_cancels sv' = sv_cancels sv" "sv_contexts sv' = sv_contexts sv"
    "sv_canceled sv' = sv_canceled sv" "sv_idCounter sv' = sv_idCounter sv"
    using assms by (auto simp: get_or_create_domain_def split: sum.splits prod.splits)
qed

text \<open>Queueing a new job under a new id, as both kinds of handlers do it.\<close>

definition adds_jobs :: "int \<Rightarrow> job list \<Rightarrow> server \<Rightarrow> server \<Rightarrow> bool" where
  "adds_jobs priority js sv sv' \<longleftrightarrow>
     distinct (map j_ID js) \<and> (\<forall>j \<in> set js. j_ID j \<notin> known_ids sv \<and> \<not> issued (sv_idCounter sv) (j_ID j)) \<and>
     (\<forall>j \<in> set js. gm_get (jobs (sv_store sv')) (j_ID j) = Some j) \<and>
     (\<forall>i. i \<notin> set (map j_ID js) \<longrightarrow> gm_get (jobs (sv_store sv')) i = gm_get (jobs (sv_store sv)) i) \<and>
     runs (sv_store sv') = runs (sv_store sv) \<and> batches (sv_store sv') = batches (sv_store sv) \<and>
     closed (sv_queue sv') = closed (sv_queue sv) \<and> paused (sv_queue sv') = paused (sv_queue sv) \<and>
     normal (sv_queue sv') = normal (sv_queue sv) @ (if closed (sv_queue sv) \<or> priority = PriorityBatch then [] else map j_ID js) \<and>
     batch (sv_queue sv') = batch (sv_queue sv) @ (if closed (sv_queue sv) \<or> priority \<noteq> PriorityBatch then [] else map j_ID js) \<and>
     sv_idCounter sv \<le> sv_idCounter sv' \<and> (\<forall>j \<in> set js. issued (sv_idCounter sv') (j_ID j)) \<and>
     sv_cancels sv' = sv_cancels sv \<and> sv_contexts sv' = sv_contexts sv \<and> sv_canceled sv' = sv_canceled sv"

lemma adds_jobs_none: "adds_jobs p [] sv sv"
  by (simp add: adds_jobs_def)

lemma adds_jobs_ids_ok: "adds_jobs p js sv sv' \<Longrightarrow> ids_ok sv \<Longrightarrow> ids_ok sv'"
proof -
  assume a: "adds_jobs p js sv sv'" "ids_ok sv"
  have "issued (sv_idCounter sv') i" if "i \<in> known_ids sv'" for i
  proof (cases "i \<in> set (map j_ID js)")
    case True then show ?thesis using a(1) by (auto simp: adds_jobs_def)
  next
    case False
    then have "i \<in> known_ids sv" using that a(1)
      by (auto simp: known_ids_def adds_jobs_def gm_has_def split: if_splits)
    then show ?thesis using a issued_mono by (auto simp: ids_ok_def adds_jobs_def)
  qed
  then show ?thesis by (simp add: ids_ok_def)
qed

lemma adds_jobs_trans:
  assumes "adds_jobs p js sv sv1" "adds_jobs p ks sv1 sv2" "ids_ok sv"
  shows "adds_jobs p (js @ ks) sv sv2"
proof -
  have new: "j_ID k \<notin> j_ID ` set js" if "k \<in> set ks" for k
  proof
    assume "j_ID k \<in> j_ID ` set js"
    then have "issued (sv_idCounter sv1) (j_ID k)" using assms(1) by (auto simp: adds_jobs_def)
    then show False using that assms(2) by (auto simp: adds_jobs_def)
  qed
  have old: "j_ID k \<notin> known_ids sv \<and> \<not> issued (sv_idCounter sv) (j_ID k)" if "k \<in> set ks" for k
    using that assms issued_mono[of "sv_idCounter sv" "j_ID k" "sv_idCounter sv1"]
    by (auto simp: adds_jobs_def ids_ok_def)
  note a = assms(1)[unfolded adds_jobs_def] and b = assms(2)[unfolded adds_jobs_def]
  have stored: "gm_get (jobs (sv_store sv2)) (j_ID j) = Some j" if "j \<in> set js" for j
  proof -
    have "j_ID j \<notin> set (map j_ID ks)" using new that by (metis imageE imageI set_map)
    then have "gm_get (jobs (sv_store sv2)) (j_ID j) = gm_get (jobs (sv_store sv1)) (j_ID j)" using b by blast
    then show ?thesis using a that by simp
  qed
  have rest: "gm_get (jobs (sv_store sv2)) i = gm_get (jobs (sv_store sv)) i" if "i \<notin> set (map j_ID (js @ ks))" for i
    using that a b by simp
  have iss: "issued (sv_idCounter sv2) (j_ID j)" if "j \<in> set js" for j
    using that a b issued_mono by blast
  have dist: "distinct (map j_ID (js @ ks))" using a b new by auto
  show ?thesis unfolding adds_jobs_def using a b old stored rest iss dist by (simp add: ball_Un)
qed

lemma create_adds_job:
  assumes "ids_ok sv" "newID ev ''job'' sv = (i, sv1)" "j_ID j = i"
  obtains p sv2 where "create_queued ev j pr sv1 = (Inr (j\<lparr>j_PublicID := p\<rparr>), sv2)" "adds_jobs pr [j\<lparr>j_PublicID := p\<rparr>] sv sv2"
proof -
  note n = newID_fresh[OF assms(2,1)]
  have "\<not> gm_has (jobs (sv_store sv1)) (j_ID j)" using n(1,3) assms(3) by (auto simp: known_ids_def)
  then obtain p where c: "create_queued ev j pr sv1 = (Inr (j\<lparr>j_PublicID := p\<rparr>), sv1\<lparr>sv_store := (sv_store sv1)\<lparr>
      jobs := gm_set (j_ID j) (j\<lparr>j_PublicID := p\<rparr>) (jobs (sv_store sv1)),
      publicIDs := gm_set p (j_ID j) (publicIDs (sv_store sv1))\<rparr>,
      sv_queue := enqueue_ignoring (j_ID j) pr (sv_queue sv1)\<rparr>)" (is "_ = (_, ?sv2)")
    by (rule create_queued_fresh)
  have "adds_jobs pr [j\<lparr>j_PublicID := p\<rparr>] sv ?sv2"
    using n assms(3) by (simp add: adds_jobs_def enqueue_ignoring_tiers gm.get_put del: split_paired_All) 
  then show ?thesis using that c by blast
qed

lemma adds_jobs_domain: "adds_jobs p js sv sv1 \<Longrightarrow> get_or_create_domain ev n sv1 = (r, sv2) \<Longrightarrow> adds_jobs p js sv sv2"
  using get_or_create_domain_frame[of ev n sv1 r sv2] by (simp add: adds_jobs_def)

lemma submit_domains_effect:
  assumes "submit_domains ev mk l ds ids dids sv = (Inr (ids', dids'), sv')" "ids_ok sv" "\<And>i d. j_ID (mk i d) = i"
  shows "\<exists>js. ids' = ids @ map j_ID js \<and> adds_jobs PriorityBatch js sv sv' \<and>
    list_all2 (\<lambda>d j. \<exists>name p. check_domain ev d = Inr name \<and> j = (mk (j_ID j) name)\<lparr>j_PublicID := p\<rparr>) ds js"
  using assms(1,2)
proof (induction ds arbitrary: ids dids sv)
  case Nil
  then show ?case using adds_jobs_none by auto
next
  case (Cons d ds)
  obtain name where name: "check_domain ev d = Inr name" "trim_space d \<noteq> []" using Cons.prems(1) by (auto split: if_splits sum.splits)
  obtain i sv1 where i: "newID ev ''job'' sv = (i, sv1)" by (cases "newID ev ''job'' sv")
  obtain p sv2 where c: "create_queued ev (mk i name) PriorityBatch sv1 = (Inr ((mk i name)\<lparr>j_PublicID := p\<rparr>), sv2)"
      and a: "adds_jobs PriorityBatch [(mk i name)\<lparr>j_PublicID := p\<rparr>] sv sv2" (is "adds_jobs _ [?j] _ _")
    using create_adds_job[OF Cons.prems(2) i assms(3)] by metis
  obtain sv3 dids3 where rest: "submit_domains ev mk l ds (ids @ [i]) dids3 sv3 = (Inr (ids', dids'), sv')" "adds_jobs PriorityBatch [?j] sv sv3"
  proof (cases l)
    case False
    then show ?thesis using that[of dids sv2] Cons.prems(1) name i c a by (simp add: assms(3))
  next
    case True
    obtain r sv3 where g: "get_or_create_domain ev name sv2 = (r, sv3)" by (cases "get_or_create_domain ev name sv2")
    then obtain d2 where "r = Inr d2" using Cons.prems(1) True name i c by (auto split: sum.splits)
    then show ?thesis using that[of "dids @ [d_ID d2]" sv3] Cons.prems(1) True name i c g adds_jobs_domain[OF a g] by (simp add: assms(3))
  qed
  from Cons.IH[OF rest(1)] adds_jobs_ids_ok[OF rest(2) Cons.prems(2)] obtain js where js: "ids' = (ids @ [i]) @ map j_ID js"
      "adds_jobs PriorityBatch js sv3 sv'"
      "list_all2 (\<lambda>d j. \<exists>name p. check_domain ev d = Inr name \<and> j = (mk (j_ID j) name)\<lparr>j_PublicID := p\<rparr>) ds js" by blast
  show ?case
    using adds_jobs_trans[OF rest(2) js(2) Cons.prems(2)] js(1,3) name by (intro exI[of _ "?j # js"]) (auto simp: assms(3))
qed

lemma tag_domains_frame:
  "jobs (sv_store (tag_domains ev ts is sv)) = jobs (sv_store sv)" "runs (sv_store (tag_domains ev ts is sv)) = runs (sv_store sv)"
  "batches (sv_store (tag_domains ev ts is sv)) = batches (sv_store sv)"
  "sv_queue (tag_domains ev ts is sv) = sv_queue sv" "sv_cancels (tag_domains ev ts is sv) = sv_cancels sv"
  "sv_contexts (tag_domains ev ts is sv) = sv_contexts sv" "sv_canceled (tag_domains ev ts is sv) = sv_canceled sv"
  "sv_idCounter (tag_domains ev ts is sv) = sv_idCounter sv"
proof -
  have one: "jobs (fold (tag_one t) is s) = jobs s \<and> runs (fold (tag_one t) is s) = runs s \<and> batches (fold (tag_one t) is s) = batches s" for t s
    by (induction "is" arbitrary: s) (simp_all add: tag_one_def)
  have "jobs (fold (\<lambda>t. TagDomains n t is) ts s) = jobs s \<and> runs (fold (\<lambda>t. TagDomains n t is) ts s) = runs s \<and>
      batches (fold (\<lambda>t. TagDomains n t is) ts s) = batches s" for n s
    by (induction ts arbitrary: s) (simp_all add: TagDomains_def one)
  then show "jobs (sv_store (tag_domains ev ts is sv)) = jobs (sv_store sv)" "runs (sv_store (tag_domains ev ts is sv)) = runs (sv_store sv)"
    "batches (sv_store (tag_domains ev ts is sv)) = batches (sv_store sv)" by (simp_all add: tag_domains_def)
qed (simp_all add: tag_domains_def)

lemma finish_batch_frame:
  fixes ev req origin b now ts "is" ds sv
  defines "sv' \<equiv> finish_batch ev req origin b now ts is ds sv"
  shows "jobs (sv_store sv') = jobs (sv_store sv)" "runs (sv_store sv') = runs (sv_store sv)"
    "sv_queue sv' = sv_queue sv" "sv_cancels sv' = sv_cancels sv" "sv_contexts sv' = sv_contexts sv"
    "sv_canceled sv' = sv_canceled sv" "sv_idCounter sv' = sv_idCounter sv"
    "gm_get (batches (sv_store sv')) k = (if k = b then Some \<lparr>b_ID = b, b_Tag = bq_FromTag req, b_CreatedAt = now,
       b_DomainCount = int (length is), b_Description = bq_Description req, b_SnapshotIntent = bq_SnapshotIntent req,
       b_Origin = origin\<rparr> else gm_get (batches (sv_store sv)) k)"
  unfolding sv'_def by (simp_all add: finish_batch_def Let_def tag_domains_frame CreateBatch_def SetSetting_def gm.get_put)

lemma submitBatch_Inr:
  assumes "submitBatch ev req origin client sv = (Inr (batchID, ids), sv')"
  obtains doms tests tagNames profile sv1 sv2 dids where "batch_domains req (sv_store sv) = Inr doms" "doms \<noteq> []"
    "checkTests ev (bq_Tests req) = Inr tests" "checkTags (sv_store sv) (bq_Tags req) = Inr tagNames"
    "batch_profile req (sv_store sv) = Inr profile" "newID ev ''batch'' sv = (batchID, sv1)"
    "submit_domains ev (batch_job req tests profile client batchID (ev_now ev (sv_idCounter sv1))) (tagNames \<noteq> []) doms [] [] sv1 =
       (Inr (ids, dids), sv2)"
    "sv' = finish_batch ev req origin batchID (ev_now ev (sv_idCounter sv1)) tagNames ids dids sv2"
  using assms unfolding submitBatch_def Let_def
  by (auto split: if_split_asm sum.split_asm option.split_asm prod.split_asm)

section \<open>Properties\<close>

definition batch_of :: "job_batch_request \<Rightarrow> string list \<Rightarrow> resolved_profile \<Rightarrow> submitter \<Rightarrow> string \<Rightarrow> job \<Rightarrow> bool" where
  "batch_of req tests profile client batchID j \<longleftrightarrow>
     j_Status j = JobQueued \<and> j_BatchID j = batchID \<and> j_Priority j = PriorityBatch \<and> j_Tests j = tests \<and>
     j_Overrides j = bq_ProfileOverrides req \<and> j_MinLevel j = bq_MinLevel req \<and> j_ProfileID j = fst profile \<and>
     j_ClientIP j = su_IP client \<and> j_Origin j = ''batch''"


definition sample_env :: env where
  "sample_env = \<lparr>ev_to_ascii = (\<lambda>_. None), ev_parse_unzoned = (\<lambda>_. None), ev_reverse_addr = (\<lambda>_. []),
     ev_parse_addr = (\<lambda>s. if s = ''192.0.2.1'' then Some (V4 0xc0000201) else if s = ''8.8.8.8'' then Some (V4 0x08080808) else None),
     ev_addr_string = (\<lambda>_. ''8.8.8.8''), ev_quote = (\<lambda>s. s), ev_undelegated_text = (\<lambda>_. []), ev_store_text = (\<lambda>_. []),
     ev_lib = sample_lib, ev_defaults = [], ev_excludedTestcases = [], ev_allowPrivateUndelegatedIP = False,
     ev_nano = (\<lambda>n. 1000 + n), ev_now = (\<lambda>n. 1000 + n), ev_public = itoa\<rparr>"

definition NewServer :: server where
  "NewServer = \<lparr>sv_store = NewInMemoryJobStore, sv_queue = NewInMemoryQueue, sv_cancels = [], sv_contexts = 0,
     sv_canceled = [], sv_idCounter = 0\<rparr>"

definition sample_batch :: "string list \<Rightarrow> job_batch_request" where
  "sample_batch doms = \<lparr>bq_Domains = doms, bq_FromTag = [], bq_Tests = [], bq_ProfileID = None, bq_ProfileOverrides = [],
     bq_Nameservers = None, bq_DSInfo = None, bq_MinLevel = [], bq_Tags = [], bq_Description = [], bq_SnapshotIntent = False,
     bq_PromoteSnapshotDefault = False\<rparr>"

definition sample_client :: submitter where "sample_client = \<lparr>su_IP = ''192.0.2.9'', su_UserAgent = [], su_Via = ''api''\<rparr>"

lemma ids_ok_new: "ids_ok NewServer"
  by (simp add: ids_ok_def known_ids_def NewServer_def NewInMemoryJobStore_def NewInMemoryQueue_def gm_has_def)


lemma submit_domains_error:
  assumes "submit_domains ev mk l ds ids dids sv = (Inl e, sv')" "ids_ok sv" "\<And>i d. j_ID (mk i d) = i"
  shows "\<exists>js k. adds_jobs PriorityBatch js sv sv' \<and> k < length ds \<and> (\<forall>d \<in> set (take k ds). \<exists>name. check_domain ev d = Inr name) \<and>
    (length js = k \<and> (trim_space (ds ! k) = [] \<and> re_code e = ''missing_domain'' \<or> check_domain ev (ds ! k) = Inl e) \<or>
     length js = Suc k \<and> l \<and> re_code e = ''store_error'')"
  using assms(1,2)
proof (induction ds arbitrary: ids dids sv)
  case (Cons d ds)
  consider (blank) "trim_space d = []" | (bad) "trim_space d \<noteq> []" "\<exists>e. check_domain ev d = Inl e"
    | (ok) name where "trim_space d \<noteq> []" "check_domain ev d = Inr name" by (metis old.sum.exhaust)
  then show ?case
  proof cases
    case blank
    then have "sv' = sv \<and> re_code e = ''missing_domain''" using Cons.prems(1) by (auto simp: badRequest_def)
    then show ?thesis using adds_jobs_none blank by (intro exI[of _ "[]"] exI[of _ 0]) simp
  next
    case bad
    then have "sv' = sv \<and> check_domain ev d = Inl e" using Cons.prems(1) by auto
    then show ?thesis using adds_jobs_none by (intro exI[of _ "[]"] exI[of _ 0]) simp
  next
    case ok
    obtain i sv1 where i: "newID ev ''job'' sv = (i, sv1)" by (cases "newID ev ''job'' sv")
    obtain p sv2 where c: "create_queued ev (mk i name) PriorityBatch sv1 = (Inr ((mk i name)\<lparr>j_PublicID := p\<rparr>), sv2)"
        and a: "adds_jobs PriorityBatch [(mk i name)\<lparr>j_PublicID := p\<rparr>] sv sv2" (is "adds_jobs _ [?j] _ _")
      using create_adds_job[OF Cons.prems(2) i assms(3)] by metis
    obtain r sv3 where g: "get_or_create_domain ev name sv2 = (r, sv3)" by (cases "get_or_create_domain ev name sv2")
    show ?thesis
    proof (cases "l \<and> isl r")
      case True
      then have "sv' = sv3 \<and> re_code e = ''store_error''" using Cons.prems(1) ok i c g by (auto simp: internalError_def isl_def)
      then show ?thesis using adds_jobs_domain[OF a g] ok True by (intro exI[of _ "[?j]"] exI[of _ 0]) auto
    next
      case False
      define sv4 where "sv4 = (if l then sv3 else sv2)"
      obtain dids4 where rest: "submit_domains ev mk l ds (ids @ [i]) dids4 sv4 = (Inl e, sv')"
        using Cons.prems(1) ok i c g False by (cases r) (auto simp: sv4_def assms(3) split: if_splits)
      have a4: "adds_jobs PriorityBatch [?j] sv sv4" using a adds_jobs_domain[OF a g] by (simp add: sv4_def)
      from Cons.IH[OF rest adds_jobs_ids_ok[OF a4 Cons.prems(2)]] obtain js k where
        "adds_jobs PriorityBatch js sv4 sv'" "k < length ds" "\<forall>d \<in> set (take k ds). \<exists>name. check_domain ev d = Inr name"
        "length js = k \<and> (trim_space (ds ! k) = [] \<and> re_code e = ''missing_domain'' \<or> check_domain ev (ds ! k) = Inl e) \<or>
         length js = Suc k \<and> l \<and> re_code e = ''store_error''" by blast
      then show ?thesis using adds_jobs_trans[OF a4 _ Cons.prems(2)] ok
        by (intro exI[of _ "?j # js"] exI[of _ "Suc k"]) auto
    qed
  qed
qed simp


text \<open>A blank name after a good one: the request is refused, and the job of the good one runs all the same.\<close>

theorem refused_batch_leaves_jobs:
  "case submitBatch sample_env (sample_batch [''example.org'', '' '']) [] sample_client NewServer of
     (Inl e, sv') \<Rightarrow> re_status e = 400 \<and> length (batch (sv_queue sv')) = 1 \<and> length (jobs (sv_store sv')) = 1 \<and>
       batches (sv_store sv') = []
   | (Inr _, _) \<Rightarrow> False"
  by code_simp


lemma planned_known:
  assumes "PlannedTestcases lib d (testcase_request n) = Inr out" "canonical_name n \<noteq> []"
  shows "testcaseModule (canonical_name n) \<noteq> []"
proof
  have "canonical_name [] = []" by (simp add: trim_space_def to_lower_def)
  moreover assume "testcaseModule (canonical_name n) = []"
  ultimately show False using assms by (simp add: PlannedTestcases_def plannedSelection_def testcase_request_def)
qed

lemma trim_space_idem: "trim_space (trim_space s) = trim_space s"
proof -
  let ?A = "dropWhile space_byte s"
  let ?B = "rev (dropWhile space_byte (rev ?A))"
  have A: "?A = ?B @ rev (takeWhile space_byte (rev ?A))" by (metis rev_append rev_rev_ident takeWhile_dropWhile_id)
  have "dropWhile space_byte ?B = ?B"
  proof (cases "?B")
    case (Cons c cs)
    then have "?A \<noteq> []" "hd ?A = c" using A by (metis append_Cons list.distinct(1), metis append_Cons list.sel(1))
    then have "\<not> space_byte c" using hd_dropWhile by metis
    then show ?thesis using Cons by simp
  next
    case Nil
    then show ?thesis by (simp only: dropWhile.simps)
  qed
  then show ?thesis by (simp add: trim_space_def dropWhile_idem)
qed

lemma space_lower: "space_byte (lower_byte c) = space_byte c"
  by (auto simp: space_byte_def lower_byte_def Let_def of_char_of take_bit_nat_eq_self)

lemma trim_space_lower: "trim_space (to_lower s) = to_lower (trim_space s)"
  by (simp add: trim_space_def to_lower_def dropWhile_map comp_def space_lower rev_map)

lemma canonical_idem: "canonical_name (canonical_name n) = canonical_name n"
  by (simp add: trim_space_lower trim_space_idem)

lemma check_tests_sound:
  assumes "check_tests ev raws out = Inr res" "\<forall>t \<in> set out. testcaseModule t \<noteq> [] \<and> \<not> isExcluded ev t" "distinct out"
  shows "(\<forall>t \<in> set res. testcaseModule t \<noteq> [] \<and> \<not> isExcluded ev t) \<and> distinct res"
  using assms
proof (induction ev raws out rule: check_tests.induct)
  case (2 ev raw raws out)
  show ?case
  proof (cases "canonical_name raw = [] \<or> canonical_name raw \<in> set out")
    case True
    then show ?thesis using 2 by (simp add: Let_def)
  next
    case False
    then obtain pl where pl: "PlannedTestcases (ev_lib ev) (ev_defaults ev) (testcase_request (canonical_name raw)) = Inr pl"
        "\<not> isExcluded ev (canonical_name raw)" "check_tests ev raws (out @ [canonical_name raw]) = Inr res"
      using 2(3) by (auto simp: Let_def split: sum.splits if_splits)
    have "testcaseModule (canonical_name raw) \<noteq> []"
      using planned_known[OF pl(1)] False canonical_idem by metis
    then show ?thesis using "2.IH"(2)[OF refl _ pl(1,2,3)] 2(4,5) False pl(2) by auto
  qed
qed auto

lemma blocked_nameserver_None:
  "blocked_nameserver ev i ns = None \<Longrightarrow> n \<in> set ns \<Longrightarrow> trim_space (un_IP n) \<noteq> [] \<Longrightarrow>
     ev_parse_addr ev (trim_space (un_IP n)) = Some a \<Longrightarrow> IsQueryable a"
proof (induction ns arbitrary: i)
  case (Cons m ns)
  obtain b reason where b: "isBlockedPublicNameserverIP ev (un_IP m) = (b, reason)" by fastforce
  then have "\<not> b" "blocked_nameserver ev (i + 1) ns = None" using Cons.prems(1) by (auto split: bool.splits)
  moreover have "IsQueryable a" if "n = m" using that b \<open>\<not> b\<close> Cons.prems(3,4)
    by (simp add: isBlockedPublicNameserverIP_def Let_def IsQueryable_def)
  ultimately show ?case using Cons by auto
qed simp

lemma create_queued_result: "create_queued ev j pr sv = (Inr k, sv') \<Longrightarrow> \<exists>p. k = j\<lparr>j_PublicID := p\<rparr>"
proof -
  assume "create_queued ev j pr sv = (Inr k, sv')"
  moreover from this have "\<not> gm_has (jobs (sv_store sv)) (j_ID j)" by (auto simp: create_queued_def Create_def split: if_splits)
  then obtain p x where "create_queued ev j pr sv = (Inr (j\<lparr>j_PublicID := p\<rparr>), x)" by (rule create_queued_fresh)
  ultimately show ?thesis by auto
qed

text \<open>
  C19. What the public API accepts is confined. A job created through it has no profile overrides and at most a public profile;
  its minimum level is at least \<open>INFO\<close>; its test cases are known, distinct and not excluded on the instance; and unless
  the operator allows private targets, every address of an undelegated nameserver may be queried, so that a request
  cannot point the engine at the server's own network.
\<close>

theorem public_submission_confined:
  assumes "handlePublicCreateJob ev req client sv = (Inr j, sv')"
  shows "j_Overrides j = [] \<and> j_Origin j = ''public'' \<and>
    (j_ProfileID j = None \<or> (\<exists>i p. jc_ProfileID req = Some i \<and> GetProfile i (sv_store sv) = Some p \<and> p_Public p \<and> j_ProfileID j = Some (p_ID p))) \<and>
    (trim_space (j_MinLevel j) = [] \<or> (\<exists>l. gm_get numericLevels (to_upper (trim_space (j_MinLevel j))) = Some l \<and> 1 \<le> l)) \<and>
    distinct (j_Tests j) \<and> (\<forall>t \<in> set (j_Tests j). testcaseModule t \<noteq> [] \<and> \<not> isExcluded ev t) \<and>
    (\<not> ev_allowPrivateUndelegatedIP ev \<longrightarrow> (\<forall>n \<in> set (j_UndelegatedNS j). \<forall>a.
       trim_space (un_IP n) \<noteq> [] \<longrightarrow> ev_parse_addr ev (trim_space (un_IP n)) = Some a \<longrightarrow> IsQueryable a))"
proof -
  obtain domain rows tests profile i sv1 where
      lv: "checkMinLevel ev (jc_MinLevel req) = None" "validatePublicMinLevel (jc_MinLevel req) = None" and
      t: "checkTests ev (jc_Tests req) = Inr tests" and
      b: "ev_allowPrivateUndelegatedIP ev \<or> blocked_nameserver ev 0 (fst rows) = None" and
      pr: "resolveStoredProfile (sv_store sv) (jc_ProfileID req) True = Inr profile" and
      c: "create_queued ev (stamp client (created_job ev i req domain tests rows profile ''public'' (sv_idCounter sv1))) PriorityNormal sv1 = (Inr j, sv')"
    using assms unfolding handlePublicCreateJob_def Let_def
    by (auto split: if_split_asm sum.split_asm option.split_asm prod.split_asm simp del: split_paired_All)
  obtain pid where j: "j = (stamp client (created_job ev i req domain tests rows profile ''public'' (sv_idCounter sv1)))\<lparr>j_PublicID := pid\<rparr>"
    using create_queued_result[OF c] by blast
  note f = created_job_def stamp_def zero_job_def
  have "gm_get_or 0 numericLevels ''INFO'' = 1" by code_simp
  then have "trim_space (jc_MinLevel req) = [] \<or> (\<exists>l. gm_get numericLevels (to_upper (trim_space (jc_MinLevel req))) = Some l \<and> 1 \<le> l)"
    using lv by (auto simp: checkMinLevel_def validatePublicMinLevel_def gm_has_def split: if_splits option.splits)
  moreover have "fst profile = None \<or> (\<exists>i p. jc_ProfileID req = Some i \<and> GetProfile i (sv_store sv) = Some p \<and> p_Public p \<and> fst profile = Some (p_ID p))"
    using pr by (auto simp: resolveStoredProfile_def split: option.splits if_splits)
  moreover have "distinct tests \<and> (\<forall>t \<in> set tests. testcaseModule t \<noteq> [] \<and> \<not> isExcluded ev t)"
    using check_tests_sound[of ev "jc_Tests req" "[]" tests] t by (simp add: checkTests_def)
  ultimately show ?thesis using b blocked_nameserver_None[of ev 0 "fst rows"] unfolding j by (auto simp: f)
qed

definition sample_create :: job_create_request where
  "sample_create = \<lparr>jc_Domain = ''example.org'', jc_Tests = [''Basic01''], jc_ProfileID = None, jc_ProfileOverrides = [],
     jc_Nameservers = [\<lparr>un_Name = ''ns.example.org'', un_IP = ''8.8.8.8''\<rparr>], jc_DSInfo = [], jc_MinLevel = ''info'',
     jc_Tags = [], jc_IPv4Disabled = False, jc_IPv6Disabled = False\<rparr>"

theorem public_submission_confined_witness:
  "\<exists>j sv'. handlePublicCreateJob sample_env sample_create sample_client NewServer = (Inr j, sv') \<and>
     j_UndelegatedNS j \<noteq> [] \<and> IsQueryable (V4 0x08080808)"
proof -
  have "case fst (handlePublicCreateJob sample_env sample_create sample_client NewServer) of
     Inr j \<Rightarrow> j_UndelegatedNS j = [\<lparr>un_Name = ''ns.example.org'', un_IP = ''8.8.8.8''\<rparr>] | Inl _ \<Rightarrow> False" by code_simp
  then obtain j sv' where j: "handlePublicCreateJob sample_env sample_create sample_client NewServer = (Inr j, sv')"
      "j_UndelegatedNS j = [\<lparr>un_Name = ''ns.example.org'', un_IP = ''8.8.8.8''\<rparr>]"
    by (auto split: sum.splits simp: prod_eq_iff)
  have "trim_space ''8.8.8.8'' = ''8.8.8.8''" by code_simp
  then show ?thesis using public_submission_confined[OF j(1)] j by (auto simp: sample_env_def)
qed

end
