(* ===== verification/Lifecycle.thy ===== *)
theory Lifecycle
  imports Submit "HOL-Library.Multiset"
begin

text \<open>
  The life of a job in the server: workers take ids from the queue and run them (\<open>server/worker.go\<close>), requests cancel jobs
  (\<open>server/handlers.go\<close>, \<open>server/handlers_batches.go\<close>), and a reaper fails jobs nobody runs (\<open>server/reaper.go\<close>), all
  concurrently, over the store, the queue and the registry of cancel functions (\<open>server/cancel.go\<close>).

  Every operation that runs under one lock is one step. A goroutine between two such operations is a \<open>thread\<close> that
  carries the local variables it goes on with, which may be stale by then; the threads alive are a multiset. What the engine
  returns is arbitrary.
\<close>

section \<open>Cancel functions\<close>

definition registerCancel :: "string \<Rightarrow> nat \<Rightarrow> server \<Rightarrow> server" where
  "registerCancel i ctx sv = (if i = [] then sv else sv\<lparr>sv_cancels := gm_set i ctx (sv_cancels sv)\<rparr>)"

definition unregisterCancel :: "string \<Rightarrow> server \<Rightarrow> server" where
  "unregisterCancel i sv = (if i = [] then sv else sv\<lparr>sv_cancels := gm_del i (sv_cancels sv)\<rparr>)"

definition cancelJob :: "string \<Rightarrow> server \<Rightarrow> bool \<times> server" where
  "cancelJob i sv = (if i = [] then (False, sv)
     else case gm_get (sv_cancels sv) i of
       None \<Rightarrow> (False, sv)
     | Some ctx \<Rightarrow> (True, sv\<lparr>sv_canceled := ctx # sv_canceled sv\<rparr>))"

definition isJobLive :: "string \<Rightarrow> server \<Rightarrow> bool" where
  "isJobLive i sv = gm_has (sv_cancels sv) i"

section \<open>Running a job\<close>

definition start_job :: "gotime \<Rightarrow> job \<Rightarrow> job" where
  "start_job now j = j\<lparr>j_Status := JobRunning, j_StartedAt := now, j_Progress := 0\<rparr>"

text \<open>How the engine came back, and what it produced.\<close>

datatype engine_end = EngineOK | EngineError string

record job_artifacts =
  art_entries :: "log_entry list"
  art_nsTimings :: "nameserver_timing list"
  art_effectiveProfile :: string
  art_dnssecChainJSON :: string

definition finish_job :: "bool \<Rightarrow> bool \<Rightarrow> engine_end \<Rightarrow> job_artifacts \<Rightarrow> gotime \<Rightarrow> job \<Rightarrow> job" where
  "finish_job timed_out canceled end art finishedAt j =
     (case (if timed_out then (JobFailed, ''timed out'')
            else if canceled then (JobCanceled, ''canceled'')
            else case end of EngineError msg \<Rightarrow> (JobFailed, msg) | EngineOK \<Rightarrow> (JobSucceeded, j_Error j)) of
       (status, err) \<Rightarrow> j\<lparr>j_Status := status, j_Error := err, j_Progress := 100, j_FinishedAt := finishedAt,
          j_EffectiveProfile := art_effectiveProfile art, j_NameserverTimings := art_nsTimings art,
          j_DNSSECChainJSON := art_dnssecChainJSON art\<rparr>)"

definition failed_job :: "gotime \<Rightarrow> string \<Rightarrow> job \<Rightarrow> job" where
  "failed_job now reason j = j\<lparr>j_Status := JobFailed, j_Error := reason,
     j_FinishedAt := (if is_zero_time (j_FinishedAt j) then now else j_FinishedAt j)\<rparr>"

definition update_ignoring :: "job \<Rightarrow> server \<Rightarrow> server" where
  "update_ignoring j sv = (case Update j (sv_store sv) of Inl _ \<Rightarrow> sv | Inr s' \<Rightarrow> sv\<lparr>sv_store := s'\<rparr>)"

definition failUngraduatedJob :: "gotime \<Rightarrow> job \<Rightarrow> string \<Rightarrow> server \<Rightarrow> server" where
  "failUngraduatedJob now j reason sv = update_ignoring (failed_job now reason j) sv"

definition clamp_progress :: "int \<Rightarrow> int" where
  "clamp_progress p = (if p < 0 then 0 else if 100 < p then 100 else p)"

text \<open>The job a canceling request files, and the one the reaper files.\<close>

definition canceled_job :: "gotime \<Rightarrow> string \<Rightarrow> job \<Rightarrow> job" where
  "canceled_job now reason j = j\<lparr>j_Status := JobCanceled, j_Error := reason, j_FinishedAt := now, j_Progress := 100\<rparr>"

definition abandoned_job :: "gotime \<Rightarrow> string \<Rightarrow> job \<Rightarrow> job" where
  "abandoned_job now timeout j = j\<lparr>j_Status := JobFailed, j_Error := ''abandoned at running for over '' @ timeout, j_FinishedAt := now\<rparr>"

text \<open>A panic of the scoring leaves the store with the domain it has looked up.\<close>

definition graduation_panicked :: "gotime \<Rightarrow> job \<Rightarrow> store \<Rightarrow> store" where
  "graduation_panicked now j s = snd (getOrCreateDomainLocked now (j_Domain j) s)"

section \<open>Threads\<close>

datatype thread =
    Creating job int              \<comment> \<open>a handler has drawn the id and will store the job\<close>
  | Enqueuing string int          \<comment> \<open>a handler has stored the job and will enqueue its id\<close>
  | Dequeued string               \<comment> \<open>a worker has taken the id\<close>
  | Fetched job                   \<comment> \<open>a worker has read the job and will register its context\<close>
  | Loaded job nat                \<comment> \<open>... and will mark it running\<close>
  | Requeuing job nat             \<comment> \<open>... could not, and will put the id back\<close>
  | Started job nat               \<comment> \<open>the engine runs\<close>
  | Reporting job nat job int     \<comment> \<open>a progress update has read the job and will write it back\<close>
  | Finished job nat "log_entry list"  \<comment> \<open>the engine has returned; the worker will graduate the job\<close>
  | Ungraduated job nat           \<comment> \<open>graduation has failed\<close>
  | Unwinding job nat             \<comment> \<open>graduation has panicked; the deferred calls run\<close>
  | Panicked job                  \<comment> \<open>the context is unregistered; the recover call will mark the job failed\<close>
  | Closing string nat bool       \<comment> \<open>the worker will unregister the context; whether it still owns the id\<close>
  | Canceling job                 \<comment> \<open>a request has read a queued job and will take it off the queue\<close>
  | Removed string                \<comment> \<open>a request has taken the id off the queue and will read the job\<close>
  | Graduating job bool           \<comment> \<open>a request will file the job as canceled; whether it took the id off the queue\<close>
  | CancelingRunning job          \<comment> \<open>a batch deletion has read a running job\<close>
  | Reaping job                   \<comment> \<open>the reaper has read a running job that is past its time\<close>
  | Reaped job                    \<comment> \<open>... and found no worker running it\<close>

type_synonym system = "server \<times> thread multiset"

section \<open>Steps\<close>

text \<open>Operations of the queue that leave its ids alone. A reordering is one without repeated ids.\<close>

inductive queue_admin :: "inmem_queue \<Rightarrow> inmem_queue \<Rightarrow> bool" where
  "Pause q = Inr q' \<Longrightarrow> queue_admin q q'"
| "Resume q = Inr q' \<Longrightarrow> queue_admin q q'"
| "Close q = q' \<Longrightarrow> queue_admin q q'"
| "distinct ids \<Longrightarrow> Reorder ids q = Inr q' \<Longrightarrow> queue_admin q q'"
| "dequeue_attempt q = (AttemptWait, q') \<Longrightarrow> queue_admin q q'"
| "leave_select q = q' \<Longrightarrow> queue_admin q q'"

text \<open>What the store operations outside the life of a job do to it: rows may disappear, statuses stay.\<close>

definition job_status :: "store \<Rightarrow> string \<Rightarrow> string option" where
  "job_status s i = map_option j_Status (gm_get (jobs s) i)"

definition run_status :: "store \<Rightarrow> string \<Rightarrow> string option" where
  "run_status s i = map_option r_Status (gm_get (runs s) i)"

definition keeps_statuses :: "store \<Rightarrow> store \<Rightarrow> bool" where
  "keeps_statuses s s' \<longleftrightarrow> (\<forall>i. job_status s' i \<in> {None, job_status s i} \<and> run_status s' i \<in> {None, run_status s i})"

text \<open>What starts from outside: a request draws an id, queue and store are administered, the engine reports progress, a request wants a job canceled, an id off the queue or the jobs of a batch stopped, the reaper finds a job.\<close>

inductive arrival_step :: "env \<Rightarrow> system \<Rightarrow> system \<Rightarrow> bool" for ev where
  Draw: "newID ev ''job'' sv = (j_ID j, sv') \<Longrightarrow> j_Status j = JobQueued \<Longrightarrow> arrival_step ev (sv, T) (sv', add_mset (Creating j p) T)"
| Draw_batch: "newID ev ''batch'' sv = (b, sv') \<Longrightarrow> arrival_step ev (sv, T) (sv', T)"
| Queue_admin: "queue_admin (sv_queue sv) q' \<Longrightarrow> arrival_step ev (sv, T) (sv\<lparr>sv_queue := q'\<rparr>, T)"
| Store_op: "store_step (ev_to_ascii ev) (ev_parse_unzoned ev) (ev_reverse_addr ev) (sv_store sv) s' \<Longrightarrow> keeps_statuses (sv_store sv) s' \<Longrightarrow>
    arrival_step ev (sv, T) (sv\<lparr>sv_store := s'\<rparr>, T)"
| Report: "Get (j_ID j) (sv_store sv) = Some p \<Longrightarrow> j_Progress p < clamp_progress n \<Longrightarrow>
    arrival_step ev (sv, add_mset (Started j c) T) (sv, add_mset (Reporting j c p (clamp_progress n)) T)"
| Cancel: "Get i (sv_store sv) = Some j \<Longrightarrow> j_Status j = JobQueued \<or> j_Status j = JobPaused \<Longrightarrow>
    arrival_step ev (sv, T) (sv, add_mset (Canceling j) T)"
| Queue_remove: "Remove i (sv_queue sv) = Inr q' \<Longrightarrow> arrival_step ev (sv, T) (sv\<lparr>sv_queue := q'\<rparr>, add_mset (Removed i) T)"
| Cancel_context: "arrival_step ev (sv, T) (snd (cancelJob i sv), T)"
| Batch_cancel: "Get i (sv_store sv) = Some j \<Longrightarrow> j_Status j = JobRunning \<Longrightarrow> arrival_step ev (sv, T) (sv, add_mset (CancelingRunning j) T)"
| Reap: "gm_get (jobs (sv_store sv)) i = Some j \<Longrightarrow> j_Status j = JobRunning \<Longrightarrow> \<not> is_zero_time (j_StartedAt j) \<Longrightarrow> j_StartedAt j \<le> cutoff \<Longrightarrow>
    arrival_step ev (sv, T) (sv, add_mset (Reaping j) T)"

text \<open>A handler that creates a job (\<open>handleCreateJob\<close>, \<open>handlePublicCreateJob\<close>, \<open>submitBatch\<close>) goes on.\<close>

inductive submit_step :: "system \<Rightarrow> system \<Rightarrow> bool" where
  Create: "Create fresh j (sv_store sv) = Inr (j', s') \<Longrightarrow>
    submit_step (sv, add_mset (Creating j p) T) (sv\<lparr>sv_store := s'\<rparr>, add_mset (Enqueuing (j_ID j) p) T)"
| Create_fails: "Create fresh j (sv_store sv) = Inl e \<Longrightarrow> submit_step (sv, add_mset (Creating j p) T) (sv, T)"
| Enqueue: "submit_step (sv, add_mset (Enqueuing i p) T) (sv\<lparr>sv_queue := enqueue_ignoring i p (sv_queue sv)\<rparr>, T)"

text \<open>A worker (\<open>runJob\<close>), from the id it takes off the queue to the context it unregisters.\<close>

inductive worker_step :: "system \<Rightarrow> system \<Rightarrow> bool" where
  Dequeue: "dequeue_attempt (sv_queue sv) = (AttemptJob i, q') \<Longrightarrow>
    worker_step (sv, T) (sv\<lparr>sv_queue := q'\<rparr>, add_mset (Dequeued i) T)"
| Fetch_none: "Get i (sv_store sv) = None \<Longrightarrow> worker_step (sv, add_mset (Dequeued i) T) (sv, T)"
| Fetch_skip: "Get i (sv_store sv) = Some j \<Longrightarrow> j_Status j = JobCanceled \<or> j_Status j = JobPaused \<Longrightarrow>
    worker_step (sv, add_mset (Dequeued i) T) (sv, T)"
| Fetch: "Get i (sv_store sv) = Some j \<Longrightarrow> j_Status j \<noteq> JobCanceled \<Longrightarrow> j_Status j \<noteq> JobPaused \<Longrightarrow>
    worker_step (sv, add_mset (Dequeued i) T) (sv, add_mset (Fetched j) T)"
| Register: "worker_step (sv, add_mset (Fetched j) T)
    (registerCancel (j_ID j) (sv_contexts sv) (sv\<lparr>sv_contexts := Suc (sv_contexts sv)\<rparr>), add_mset (Loaded j (sv_contexts sv)) T)"
| Start: "Update (start_job now j) (sv_store sv) = Inr s' \<Longrightarrow>
    worker_step (sv, add_mset (Loaded j c) T) (sv\<lparr>sv_store := s'\<rparr>, add_mset (Started (start_job now j) c) T)"
| Start_fails: "Update (start_job now j) (sv_store sv) = Inl e \<Longrightarrow>
    worker_step (sv, add_mset (Loaded j c) T) (sv, add_mset (Requeuing (start_job now j) c) T)"
| Requeue: "worker_step (sv, add_mset (Requeuing j c) T)
    (sv\<lparr>sv_queue := enqueue_ignoring (j_ID j) (j_Priority j) (sv_queue sv)\<rparr>, add_mset (Closing (j_ID j) c False) T)"
| Reported: "worker_step (sv, add_mset (Reporting j c p n) T) (update_ignoring (p\<lparr>j_Progress := n\<rparr>) sv, add_mset (Started j c) T)"
| Finish: "j' = finish_job timed_out (timed_out \<or> c \<in> set (sv_canceled sv)) end art finishedAt j \<Longrightarrow>
    worker_step (sv, add_mset (Started j c) T) (sv, add_mset (Finished j' c (art_entries art)) T)"
| Graduate: "GraduateJob now j es (sv_store sv) = Inr s' \<Longrightarrow>
    worker_step (sv, add_mset (Finished j c es) T) (sv\<lparr>sv_store := s'\<rparr>, add_mset (Closing (j_ID j) c True) T)"
| Graduate_fails: "GraduateJob now j es (sv_store sv) = Inl e \<Longrightarrow> e \<noteq> StorePanic \<Longrightarrow>
    worker_step (sv, add_mset (Finished j c es) T) (sv, add_mset (Ungraduated j c) T)"
| Graduate_panics: "GraduateJob now j es (sv_store sv) = Inl StorePanic \<Longrightarrow>
    worker_step (sv, add_mset (Finished j c es) T)
      (sv\<lparr>sv_store := graduation_panicked now j (sv_store sv)\<rparr>, add_mset (Unwinding j c) T)"
| Fail: "worker_step (sv, add_mset (Ungraduated j c) T) (failUngraduatedJob now j reason sv, add_mset (Closing (j_ID j) c True) T)"
| Close_worker: "worker_step (sv, add_mset (Closing i c b) T) (unregisterCancel i sv, T)"
| Unwind: "worker_step (sv, add_mset (Unwinding j c) T) (unregisterCancel (j_ID j) sv, add_mset (Panicked j) T)"
| Recover: "worker_step (sv, add_mset (Panicked j) T) (failUngraduatedJob now j reason sv, T)"

text \<open>A request that cancels a job, has taken an id off the queue, or stops the jobs of a batch goes on.\<close>

inductive request_step :: "system \<Rightarrow> system \<Rightarrow> bool" where
  Cancel_removes: "Remove (j_ID j) (sv_queue sv) = Inr q' \<Longrightarrow>
    request_step (sv, add_mset (Canceling j) T) (sv\<lparr>sv_queue := q'\<rparr>, add_mset (Graduating (canceled_job now reason j) True) T)"
| Cancel_misses: "Remove (j_ID j) (sv_queue sv) = Inl e \<Longrightarrow>
    request_step (sv, add_mset (Canceling j) T) (sv, add_mset (Graduating (canceled_job now reason j) False) T)"
| Removed_queued: "Get i (sv_store sv) = Some j \<Longrightarrow> j_Status j = JobQueued \<Longrightarrow>
    request_step (sv, add_mset (Removed i) T) (sv, add_mset (Graduating (canceled_job now reason j) True) T)"
| Removed_other: "(\<forall>j. Get i (sv_store sv) = Some j \<longrightarrow> j_Status j \<noteq> JobQueued) \<Longrightarrow> request_step (sv, add_mset (Removed i) T) (sv, T)"
| Cancel_graduates: "GraduateJob now j [] (sv_store sv) = Inr s' \<Longrightarrow>
    request_step (sv, add_mset (Graduating j b) T) (sv\<lparr>sv_store := s'\<rparr>, T)"
| Cancel_fails: "GraduateJob now j [] (sv_store sv) = Inl e \<Longrightarrow> request_step (sv, add_mset (Graduating j b) T) (sv, T)"
| Batch_cancel_live: "cancelJob (j_ID j) sv = (True, sv') \<Longrightarrow> request_step (sv, add_mset (CancelingRunning j) T) (sv', T)"
| Batch_cancel_stale: "cancelJob (j_ID j) sv = (False, sv') \<Longrightarrow>
    request_step (sv, add_mset (CancelingRunning j) T) (sv', add_mset (Graduating (canceled_job now reason j) False) T)"

text \<open>The reaper goes on.\<close>

inductive reaper_step :: "system \<Rightarrow> system \<Rightarrow> bool" where
  Reap_live: "isJobLive (j_ID j) sv \<Longrightarrow> reaper_step (sv, add_mset (Reaping j) T) (sv, T)"
| Reap_dead: "\<not> isJobLive (j_ID j) sv \<Longrightarrow> reaper_step (sv, add_mset (Reaping j) T) (sv, add_mset (Reaped j) T)"
| Reap_graduates: "GraduateJob now (abandoned_job now timeout j) [] (sv_store sv) = Inr s' \<Longrightarrow>
    reaper_step (sv, add_mset (Reaped j) T) (sv\<lparr>sv_store := s'\<rparr>, T)"
| Reap_fails: "GraduateJob now (abandoned_job now timeout j) [] (sv_store sv) = Inl e \<Longrightarrow> reaper_step (sv, add_mset (Reaped j) T) (sv, T)"

text \<open>The server goes on with what it has begun, and the server in its environment.\<close>

inductive work_step :: "system \<Rightarrow> system \<Rightarrow> bool" where
  Submitting: "submit_step \<sigma> \<sigma>' \<Longrightarrow> work_step \<sigma> \<sigma>'"
| Working: "worker_step \<sigma> \<sigma>' \<Longrightarrow> work_step \<sigma> \<sigma>'"
| Requesting: "request_step \<sigma> \<sigma>' \<Longrightarrow> work_step \<sigma> \<sigma>'"
| Sweeping: "reaper_step \<sigma> \<sigma>' \<Longrightarrow> work_step \<sigma> \<sigma>'"

inductive sys_step :: "env \<Rightarrow> system \<Rightarrow> system \<Rightarrow> bool" for ev where
  Arrival: "arrival_step ev \<sigma> \<sigma>' \<Longrightarrow> sys_step ev \<sigma> \<sigma>'"
| Work: "work_step \<sigma> \<sigma>' \<Longrightarrow> sys_step ev \<sigma> \<sigma>'"

section \<open>What the operations do to queue and statuses\<close>

definition waiting :: "server \<Rightarrow> string multiset" where
  "waiting sv = mset (normal (sv_queue sv)) + mset (batch (sv_queue sv))"

definition stored :: "server \<Rightarrow> string \<Rightarrow> string option" where
  "stored sv = job_status (sv_store sv)"

definition filed :: "server \<Rightarrow> string \<Rightarrow> string option" where
  "filed sv = run_status (sv_store sv)"

definition contexts :: "server \<Rightarrow> string \<Rightarrow> nat option" where
  "contexts sv = gm_get (sv_cancels sv)"

definition queue_closed :: "server \<Rightarrow> bool" where
  "queue_closed sv \<longleftrightarrow> closed (sv_queue sv)"

lemma frame_views [simp]:
  "waiting (sv\<lparr>sv_store := s\<rparr>) = waiting sv" "queue_closed (sv\<lparr>sv_store := s\<rparr>) = queue_closed sv" "contexts (sv\<lparr>sv_store := s\<rparr>) = contexts sv"
  "stored (sv\<lparr>sv_queue := q\<rparr>) = stored sv" "filed (sv\<lparr>sv_queue := q\<rparr>) = filed sv" "contexts (sv\<lparr>sv_queue := q\<rparr>) = contexts sv"
  "waiting (sv\<lparr>sv_canceled := cs\<rparr>) = waiting sv" "queue_closed (sv\<lparr>sv_canceled := cs\<rparr>) = queue_closed sv" "stored (sv\<lparr>sv_canceled := cs\<rparr>) = stored sv"
  "filed (sv\<lparr>sv_canceled := cs\<rparr>) = filed sv" "contexts (sv\<lparr>sv_canceled := cs\<rparr>) = contexts sv"
  "waiting (sv\<lparr>sv_idCounter := n\<rparr>) = waiting sv" "queue_closed (sv\<lparr>sv_idCounter := n\<rparr>) = queue_closed sv" "stored (sv\<lparr>sv_idCounter := n\<rparr>) = stored sv"
  "filed (sv\<lparr>sv_idCounter := n\<rparr>) = filed sv" "contexts (sv\<lparr>sv_idCounter := n\<rparr>) = contexts sv"
  "waiting (sv\<lparr>sv_contexts := c\<rparr>) = waiting sv" "queue_closed (sv\<lparr>sv_contexts := c\<rparr>) = queue_closed sv" "stored (sv\<lparr>sv_contexts := c\<rparr>) = stored sv"
  "filed (sv\<lparr>sv_contexts := c\<rparr>) = filed sv" "contexts (sv\<lparr>sv_contexts := c\<rparr>) = contexts sv"
  by (simp_all add: waiting_def queue_closed_def stored_def filed_def contexts_def)

lemma registry_views [simp]:
  "waiting (registerCancel i c sv) = waiting sv" "queue_closed (registerCancel i c sv) = queue_closed sv" "stored (registerCancel i c sv) = stored sv"
  "filed (registerCancel i c sv) = filed sv" "sv_store (registerCancel i c sv) = sv_store sv" "sv_idCounter (registerCancel i c sv) = sv_idCounter sv"
  "waiting (unregisterCancel i sv) = waiting sv" "queue_closed (unregisterCancel i sv) = queue_closed sv" "stored (unregisterCancel i sv) = stored sv"
  "filed (unregisterCancel i sv) = filed sv" "sv_store (unregisterCancel i sv) = sv_store sv" "sv_idCounter (unregisterCancel i sv) = sv_idCounter sv"
  by (simp_all add: registerCancel_def unregisterCancel_def waiting_def queue_closed_def stored_def filed_def)

lemma registry_upd:
  "contexts (registerCancel i c sv) = (if i = [] then contexts sv else (contexts sv)(i \<mapsto> c))"
  "contexts (unregisterCancel i sv) = (if i = [] then contexts sv else (contexts sv)(i := None))"
  by (auto simp: contexts_def registerCancel_def unregisterCancel_def gomap_simps fun_eq_iff)

lemma cancelJob_frame:
  assumes "cancelJob i sv = (b, sv')"
  shows "waiting sv' = waiting sv" "queue_closed sv' = queue_closed sv" "stored sv' = stored sv" "filed sv' = filed sv"
    "contexts sv' = contexts sv" "sv_store sv' = sv_store sv" "sv_idCounter sv' = sv_idCounter sv"
  using assms by (auto simp: cancelJob_def split: if_splits option.splits)

lemma status_Create:
  assumes "Create fresh j (sv_store sv) = Inr (j', s')"
  shows "stored sv (j_ID j) = None" "stored (sv\<lparr>sv_store := s'\<rparr>) = (stored sv)(j_ID j \<mapsto> j_Status j)" "filed (sv\<lparr>sv_store := s'\<rparr>) = filed sv"
  using assms by (auto simp: Create_def Let_def stored_def filed_def job_status_def run_status_def gm_has_def gomap_simps fun_eq_iff split: if_splits)

lemma status_Create_fails: "Create fresh j (sv_store sv) = Inl e \<Longrightarrow> stored sv (j_ID j) \<noteq> None"
  by (auto simp: Create_def Let_def stored_def job_status_def gm_has_def split: if_splits)

lemma status_Update:
  assumes "Update j (sv_store sv) = Inr s'"
  shows "stored sv (j_ID j) \<noteq> None" "stored (sv\<lparr>sv_store := s'\<rparr>) = (stored sv)(j_ID j \<mapsto> j_Status j)" "filed (sv\<lparr>sv_store := s'\<rparr>) = filed sv"
  using assms by (auto simp: Update_def stored_def filed_def job_status_def run_status_def gm_has_def gomap_simps fun_eq_iff split: if_splits)

lemma status_Update_fails: "Update j (sv_store sv) = Inl e \<Longrightarrow> stored sv (j_ID j) = None"
  by (auto simp: Update_def stored_def job_status_def gm_has_def split: if_splits)

definition overwrite :: "string \<Rightarrow> string \<Rightarrow> (string \<Rightarrow> string option) \<Rightarrow> string \<Rightarrow> string option" where
  "overwrite i st J = (if J i = None then J else J(i \<mapsto> st))"

lemma status_update_ignoring:
  "stored (update_ignoring j sv) = overwrite (j_ID j) (j_Status j) (stored sv)"
  "filed (update_ignoring j sv) = filed sv" "waiting (update_ignoring j sv) = waiting sv" "contexts (update_ignoring j sv) = contexts sv"
  "queue_closed (update_ignoring j sv) = queue_closed sv" "sv_idCounter (update_ignoring j sv) = sv_idCounter sv"
  by (cases "Update j (sv_store sv)"; simp add: update_ignoring_def overwrite_def status_Update status_Update_fails)+

lemma status_Graduate:
  assumes "GraduateJob now j es (sv_store sv) = Inr s'"
  shows "stored sv (j_ID j) \<noteq> None" "stored (sv\<lparr>sv_store := s'\<rparr>) = (stored sv)(j_ID j := None)"
    "filed (sv\<lparr>sv_store := s'\<rparr>) = (filed sv)(j_ID j \<mapsto> j_Status j)"
proof -
  obtain d sc where f: "gm_has (jobs (sv_store sv)) (j_ID j)" "jobs s' = gm_del (j_ID j) (jobs (sv_store sv))"
    "runs s' = gm_set (j_ID j) (graduated_run j es d sc) (runs (sv_store sv))"
    by (rule GraduateJob_cases[OF assms]) blast
  show "stored sv (j_ID j) \<noteq> None" using f(1) by (simp add: stored_def job_status_def gm_has_def)
  show "stored (sv\<lparr>sv_store := s'\<rparr>) = (stored sv)(j_ID j := None)" by (simp add: stored_def job_status_def f(2) gomap_simps fun_eq_iff)
  show "filed (sv\<lparr>sv_store := s'\<rparr>) = (filed sv)(j_ID j \<mapsto> j_Status j)" by (simp add: filed_def run_status_def f(3) gomap_simps fun_eq_iff)
qed

lemma status_Graduate_fails:
  "GraduateJob now j es (sv_store sv) = Inl e \<Longrightarrow> stored sv (j_ID j) = None \<or> j_Status j = JobSucceeded"
  by (auto simp: GraduateJob_def stored_def job_status_def gm_has_def graduation_score_def Let_def split: if_splits option.splits prod.splits)

lemma status_panicked:
  "stored (sv\<lparr>sv_store := graduation_panicked now j (sv_store sv)\<rparr>) = stored sv"
  "filed (sv\<lparr>sv_store := graduation_panicked now j (sv_store sv)\<rparr>) = filed sv"
proof -
  obtain a s1 where g: "getOrCreateDomainLocked now (j_Domain j) (sv_store sv) = (a, s1)" by fastforce
  have f: "jobs s1 = jobs (sv_store sv)" "runs s1 = runs (sv_store sv)" by (rule getOrCreate_fields[OF g])+
  show "stored (sv\<lparr>sv_store := graduation_panicked now j (sv_store sv)\<rparr>) = stored sv"
    "filed (sv\<lparr>sv_store := graduation_panicked now j (sv_store sv)\<rparr>) = filed sv"
    by (simp_all add: graduation_panicked_def g stored_def filed_def job_status_def run_status_def fun_eq_iff f)
qed

lemma Get_status:
  assumes "Get i (sv_store sv) = Some j" "store_inv (sv_store sv)"
  shows "j_ID j = i" "stored sv i = Some (j_Status j) \<or> stored sv i = None \<and> filed sv i = Some (j_Status j)"
proof -
  have "runs_ok (sv_store sv)" using assms(2) by (simp add: store_inv_def)
  note ids = runs_okD(7,8)[OF this]
  show "j_ID j = i" using assms(1) ids by (auto simp: Get_def jobFromRun_def split: option.splits)
  show "stored sv i = Some (j_Status j) \<or> stored sv i = None \<and> filed sv i = Some (j_Status j)"
    using assms(1) by (auto simp: Get_def stored_def filed_def job_status_def run_status_def jobFromRun_def split: option.splits)
qed

lemma waiting_enqueue:
  "waiting (sv\<lparr>sv_queue := enqueue_ignoring i p (sv_queue sv)\<rparr>) = (if queue_closed sv then waiting sv else add_mset i (waiting sv))"
  "queue_closed (sv\<lparr>sv_queue := enqueue_ignoring i p (sv_queue sv)\<rparr>) = queue_closed sv"
  by (auto simp: waiting_def queue_closed_def enqueue_ignoring_tiers)

lemma waiting_dequeue:
  assumes "dequeue_attempt (sv_queue sv) = (AttemptJob i, q')"
  shows "waiting sv = add_mset i (waiting (sv\<lparr>sv_queue := q'\<rparr>))" "queue_closed (sv\<lparr>sv_queue := q'\<rparr>) = queue_closed sv"
  using assms by (auto simp: dequeue_attempt_def waiting_def queue_closed_def neq_Nil_conv split: if_splits)

lemma waiting_remove:
  assumes "Remove i (sv_queue sv) = Inr q'"
  shows "waiting sv = add_mset i (waiting (sv\<lparr>sv_queue := q'\<rparr>))" "queue_closed (sv\<lparr>sv_queue := q'\<rparr>) = queue_closed sv"
  using assms by (auto simp: Remove_def waiting_def queue_closed_def split: if_splits)

lemma waiting_admin:
  assumes "queue_admin (sv_queue sv) q'"
  shows "waiting (sv\<lparr>sv_queue := q'\<rparr>) = waiting sv" "queue_closed sv \<Longrightarrow> queue_closed (sv\<lparr>sv_queue := q'\<rparr>)"
proof -
  have "mset (normal q') + mset (batch q') = mset (normal (sv_queue sv)) + mset (batch (sv_queue sv)) \<and> (closed (sv_queue sv) \<longrightarrow> closed q')"
    using assms
  proof cases
    case (4 ids)
    note r = Reorder_Inr[OF 4(2)]
    have "mset (JobQueue.jobs q') = mset (JobQueue.jobs (sv_queue sv))" using mset_of_distinct_cover(1)[OF 4(1) r(2,3)] r(1) by simp
    then show ?thesis using r(6) by (simp add: JobQueue.jobs_def)
  qed (auto simp: Pause_def Resume_def Close_def dequeue_attempt_def leave_select_def split: if_splits)
  then show "waiting (sv\<lparr>sv_queue := q'\<rparr>) = waiting sv" "queue_closed sv \<Longrightarrow> queue_closed (sv\<lparr>sv_queue := q'\<rparr>)"
    by (simp_all add: waiting_def queue_closed_def)
qed

end
