(* ===== verification/Protocol.thy ===== *)
theory Protocol
  imports Lifecycle
begin

text \<open>
  The invariants of a job's life. The steps of \<open>Lifecycle\<close> refine a protocol over ids and statuses (\<open>protocol_step\<close>),
  on which the invariants are shown; the theorems at the end read them back for the server.
\<close>

section \<open>The protocol\<close>

text \<open>
  The life of a job abstractly: the ids waiting in the queue, whether the queue is closed, the status of every stored job
  and of every run, the contexts registered, the id counter, and for every thread the id it works on and where it stands.
\<close>

datatype phase =
    AtCreate string | AtEnqueue | AtFetch | AtRegister | AtStart nat | AtRequeue nat | AtEngine nat | AtReport nat string
  | AtGraduate nat string | AtFail nat | AtUnwind nat | AtRecover | AtClose nat bool | AtRemove | AtRemoved
  | AtCancel bool string | AtStop | AtReap | AtReapDead

type_synonym protocol = "string multiset \<times> bool \<times> (string \<Rightarrow> string option) \<times> (string \<Rightarrow> string option) \<times>
  (string \<Rightarrow> nat option) \<times> int \<times> (string \<times> phase) multiset"

definition terminal :: "string \<Rightarrow> bool" where
  "terminal st \<longleftrightarrow> st = JobSucceeded \<or> st = JobFailed \<or> st = JobCanceled"

definition seen :: "(string \<Rightarrow> string option) \<Rightarrow> (string \<Rightarrow> string option) \<Rightarrow> string \<Rightarrow> string \<Rightarrow> bool" where
  "seen J R i st \<longleftrightarrow> J i = Some st \<or> J i = None \<and> R i = Some st"

text \<open>A step carries whether it goes on with something begun.\<close>

inductive protocol_step :: "bool \<Rightarrow> protocol \<Rightarrow> protocol \<Rightarrow> bool" where
  Stutter: "protocol_step False v v"
| Draw: "\<not> issued n i \<Longrightarrow> issued (n + 1) i \<Longrightarrow>
    protocol_step False (W, cl, J, R, K, n, T) (W, cl, J, R, K, n + 1, add_mset (i, AtCreate JobQueued) T)"
| Tick: "protocol_step False (W, cl, J, R, K, n, T) (W, cl, J, R, K, n + 1, T)"
| Create: "J i = None \<Longrightarrow>
    protocol_step True (W, cl, J, R, K, n, add_mset (i, AtCreate st) T) (W, cl, J(i \<mapsto> st), R, K, n, add_mset (i, AtEnqueue) T)"
| Create_fails: "J i \<noteq> None \<Longrightarrow> protocol_step True (W, cl, J, R, K, n, add_mset (i, AtCreate st) T) (W, cl, J, R, K, n, T)"
| Enqueue: "protocol_step True (W, cl, J, R, K, n, add_mset (i, AtEnqueue) T) (if cl then W else add_mset i W, cl, J, R, K, n, T)"
| Admin: "(cl \<longrightarrow> cl') \<Longrightarrow> protocol_step False (W, cl, J, R, K, n, T) (W, cl', J, R, K, n, T)"
| Dequeue: "protocol_step True (add_mset i W, cl, J, R, K, n, T) (W, cl, J, R, K, n, add_mset (i, AtFetch) T)"
| Drop: "J i \<noteq> Some JobQueued \<Longrightarrow> protocol_step True (W, cl, J, R, K, n, add_mset (i, AtFetch) T) (W, cl, J, R, K, n, T)"
| Fetch: "seen J R i st \<Longrightarrow> st \<noteq> JobCanceled \<Longrightarrow>
    protocol_step True (W, cl, J, R, K, n, add_mset (i, AtFetch) T) (W, cl, J, R, K, n, add_mset (i, AtRegister) T)"
| Register: "protocol_step True (W, cl, J, R, K, n, add_mset (i, AtRegister) T)
    (W, cl, J, R, if i = [] then K else K(i \<mapsto> c), n, add_mset (i, AtStart c) T)"
| Start: "J i \<noteq> None \<Longrightarrow>
    protocol_step True (W, cl, J, R, K, n, add_mset (i, AtStart c) T) (W, cl, J(i \<mapsto> JobRunning), R, K, n, add_mset (i, AtEngine c) T)"
| Start_fails: "J i = None \<Longrightarrow>
    protocol_step True (W, cl, J, R, K, n, add_mset (i, AtStart c) T) (W, cl, J, R, K, n, add_mset (i, AtRequeue c) T)"
| Requeue: "protocol_step True (W, cl, J, R, K, n, add_mset (i, AtRequeue c) T)
    (if cl then W else add_mset i W, cl, J, R, K, n, add_mset (i, AtClose c False) T)"
| Report: "seen J R i st \<Longrightarrow>
    protocol_step False (W, cl, J, R, K, n, add_mset (i, AtEngine c) T) (W, cl, J, R, K, n, add_mset (i, AtReport c st) T)"
| Reported: "protocol_step True (W, cl, J, R, K, n, add_mset (i, AtReport c st) T)
    (W, cl, overwrite i st J, R, K, n, add_mset (i, AtEngine c) T)"
| Finish: "terminal st \<Longrightarrow>
    protocol_step True (W, cl, J, R, K, n, add_mset (i, AtEngine c) T) (W, cl, J, R, K, n, add_mset (i, AtGraduate c st) T)"
| Graduate: "J i \<noteq> None \<Longrightarrow> protocol_step True (W, cl, J, R, K, n, add_mset (i, AtGraduate c st) T)
    (W, cl, J(i := None), R(i \<mapsto> st), K, n, add_mset (i, AtClose c True) T)"
| Graduate_fails: "protocol_step True (W, cl, J, R, K, n, add_mset (i, AtGraduate c st) T) (W, cl, J, R, K, n, add_mset (i, AtFail c) T)"
| Graduate_panics: "protocol_step True (W, cl, J, R, K, n, add_mset (i, AtGraduate c st) T) (W, cl, J, R, K, n, add_mset (i, AtUnwind c) T)"
| Fail: "protocol_step True (W, cl, J, R, K, n, add_mset (i, AtFail c) T)
    (W, cl, overwrite i JobFailed J, R, K, n, add_mset (i, AtClose c True) T)"
| Close_worker: "protocol_step True (W, cl, J, R, K, n, add_mset (i, AtClose c b) T)
    (W, cl, J, R, if i = [] then K else K(i := None), n, T)"
| Unwind: "protocol_step True (W, cl, J, R, K, n, add_mset (i, AtUnwind c) T)
    (W, cl, J, R, if i = [] then K else K(i := None), n, add_mset (i, AtRecover) T)"
| Recover: "protocol_step True (W, cl, J, R, K, n, add_mset (i, AtRecover) T) (W, cl, overwrite i JobFailed J, R, K, n, T)"
| Cancel: "seen J R i st \<Longrightarrow> protocol_step False (W, cl, J, R, K, n, T) (W, cl, J, R, K, n, add_mset (i, AtRemove) T)"
| Cancel_removes: "protocol_step True (add_mset i W, cl, J, R, K, n, add_mset (i, AtRemove) T)
    (W, cl, J, R, K, n, add_mset (i, AtCancel True JobCanceled) T)"
| Cancel_misses: "protocol_step True (W, cl, J, R, K, n, add_mset (i, AtRemove) T)
    (W, cl, J, R, K, n, add_mset (i, AtCancel False JobCanceled) T)"
| Queue_remove: "protocol_step False (add_mset i W, cl, J, R, K, n, T) (W, cl, J, R, K, n, add_mset (i, AtRemoved) T)"
| Removed_queued: "protocol_step True (W, cl, J, R, K, n, add_mset (i, AtRemoved) T)
    (W, cl, J, R, K, n, add_mset (i, AtCancel True JobCanceled) T)"
| Removed_other: "J i \<noteq> Some JobQueued \<Longrightarrow> protocol_step True (W, cl, J, R, K, n, add_mset (i, AtRemoved) T) (W, cl, J, R, K, n, T)"
| Cancel_graduates: "J i \<noteq> None \<Longrightarrow>
    protocol_step True (W, cl, J, R, K, n, add_mset (i, AtCancel b st) T) (W, cl, J(i := None), R(i \<mapsto> st), K, n, T)"
| Cancel_fails: "J i = None \<or> st = JobSucceeded \<Longrightarrow>
    protocol_step True (W, cl, J, R, K, n, add_mset (i, AtCancel b st) T) (W, cl, J, R, K, n, T)"
| Batch_cancel: "seen J R i st \<Longrightarrow> protocol_step False (W, cl, J, R, K, n, T) (W, cl, J, R, K, n, add_mset (i, AtStop) T)"
| Stop_live: "protocol_step True (W, cl, J, R, K, n, add_mset (i, AtStop) T) (W, cl, J, R, K, n, T)"
| Stop_stale: "protocol_step True (W, cl, J, R, K, n, add_mset (i, AtStop) T) (W, cl, J, R, K, n, add_mset (i, AtCancel False JobCanceled) T)"
| Reap: "J i = Some JobRunning \<Longrightarrow> protocol_step False (W, cl, J, R, K, n, T) (W, cl, J, R, K, n, add_mset (i, AtReap) T)"
| Reap_live: "protocol_step True (W, cl, J, R, K, n, add_mset (i, AtReap) T) (W, cl, J, R, K, n, T)"
| Reap_dead: "K i = None \<Longrightarrow>
    protocol_step True (W, cl, J, R, K, n, add_mset (i, AtReap) T) (W, cl, J, R, K, n, add_mset (i, AtReapDead) T)"
| Reap_graduates: "J i \<noteq> None \<Longrightarrow>
    protocol_step True (W, cl, J, R, K, n, add_mset (i, AtReapDead) T) (W, cl, J(i := None), R(i \<mapsto> JobFailed), K, n, T)"
| Reap_fails: "protocol_step True (W, cl, J, R, K, n, add_mset (i, AtReapDead) T) (W, cl, J, R, K, n, T)"
| Store_op: "J' \<subseteq>\<^sub>m J \<Longrightarrow> R' \<subseteq>\<^sub>m R \<Longrightarrow> protocol_step False (W, cl, J, R, K, n, T) (W, cl, J', R', K, n, T)"

fun thread_phase :: "thread \<Rightarrow> string \<times> phase" where
  "thread_phase (Creating j p) = (j_ID j, AtCreate (j_Status j))"
| "thread_phase (Enqueuing i p) = (i, AtEnqueue)"
| "thread_phase (Dequeued i) = (i, AtFetch)"
| "thread_phase (Fetched j) = (j_ID j, AtRegister)"
| "thread_phase (Loaded j c) = (j_ID j, AtStart c)"
| "thread_phase (Requeuing j c) = (j_ID j, AtRequeue c)"
| "thread_phase (Started j c) = (j_ID j, AtEngine c)"
| "thread_phase (Reporting j c p n) = (j_ID j, AtReport c (j_Status p))"
| "thread_phase (Finished j c es) = (j_ID j, AtGraduate c (j_Status j))"
| "thread_phase (Ungraduated j c) = (j_ID j, AtFail c)"
| "thread_phase (Unwinding j c) = (j_ID j, AtUnwind c)"
| "thread_phase (Panicked j) = (j_ID j, AtRecover)"
| "thread_phase (Closing i c b) = (i, AtClose c b)"
| "thread_phase (Canceling j) = (j_ID j, AtRemove)"
| "thread_phase (Removed i) = (i, AtRemoved)"
| "thread_phase (Graduating j b) = (j_ID j, AtCancel b (j_Status j))"
| "thread_phase (CancelingRunning j) = (j_ID j, AtStop)"
| "thread_phase (Reaping j) = (j_ID j, AtReap)"
| "thread_phase (Reaped j) = (j_ID j, AtReapDead)"

definition protocol_of :: "system \<Rightarrow> protocol" where
  "protocol_of = (\<lambda>(sv, T). (waiting sv, queue_closed sv, stored sv, filed sv, contexts sv, sv_idCounter sv, image_mset thread_phase T))"

lemma draw_fresh:
  assumes "newID ev p sv = (i, sv')"
  shows "sv' = sv\<lparr>sv_idCounter := sv_idCounter sv + 1\<rparr>" "issued (sv_idCounter sv + 1) i" "\<not> issued (sv_idCounter sv) i"
proof -
  have i: "i = id_text p (ev_nano ev (sv_idCounter sv + 1)) (sv_idCounter sv + 1)"
    using assms by (auto simp: newID_def Let_def id_text_def)
  show "sv' = sv\<lparr>sv_idCounter := sv_idCounter sv + 1\<rparr>" using assms by (auto simp: newID_def Let_def)
  show "\<not> issued (sv_idCounter sv) i" unfolding i by (rule not_issued_next) simp
  show "issued (sv_idCounter sv + 1) i" unfolding i issued_def by auto
qed

lemma keeps_views:
  assumes "keeps_statuses (sv_store sv) s'"
  shows "stored (sv\<lparr>sv_store := s'\<rparr>) \<subseteq>\<^sub>m stored sv" "filed (sv\<lparr>sv_store := s'\<rparr>) \<subseteq>\<^sub>m filed sv"
  using assms by (auto simp: keeps_statuses_def stored_def filed_def map_le_def dom_def; metis option.distinct(1))+

lemma job_IDs [simp]:
  "j_ID (start_job now j) = j_ID j" "j_ID (finish_job a b e art f j) = j_ID j" "j_ID (failed_job now r j) = j_ID j"
  "j_ID (canceled_job now r j) = j_ID j" "j_ID (abandoned_job now r j) = j_ID j"
  by (simp_all add: start_job_def finish_job_def failed_job_def canceled_job_def abandoned_job_def split: prod.splits)

lemma job_statuses [simp]:
  "j_Status (start_job now j) = JobRunning" "j_Status (failed_job now r j) = JobFailed"
  "j_Status (canceled_job now r j) = JobCanceled" "j_Status (abandoned_job now r j) = JobFailed"
  by (simp_all add: start_job_def failed_job_def canceled_job_def abandoned_job_def)

lemma finish_terminal: "terminal (j_Status (finish_job a b e art f j))"
  by (auto simp: finish_job_def terminal_def split: prod.splits engine_end.splits if_splits)

lemma Get_seen:
  assumes "Get i (sv_store sv) = Some j" "store_inv (sv_store sv)"
  shows "j_ID j = i" "seen (stored sv) (filed sv) i (j_Status j)"
  using Get_status[OF assms] by (auto simp: seen_def)

lemma Get_none: "Get i (sv_store sv) = None \<Longrightarrow> stored sv i = None"
  by (auto simp: Get_def stored_def job_status_def split: option.splits)

definition threads_ok :: "system \<Rightarrow> bool" where
  "threads_ok = (\<lambda>(sv, T). store_inv (sv_store sv) \<and> (\<forall>j c p n. Reporting j c p n \<in># T \<longrightarrow> j_ID p = j_ID j))"

lemma arrival_protocol:
  assumes "arrival_step ev \<sigma> \<sigma>'" "threads_ok \<sigma>"
  shows "protocol_step False (protocol_of \<sigma>) (protocol_of \<sigma>')"
  using assms(1)
proof cases
  case (Draw sv j sv' T p)
  note d = draw_fresh[OF Draw(3)]
  show ?thesis using protocol_step.Draw[OF d(3,2)] Draw(4) unfolding Draw(1,2) protocol_of_def d(1) by simp
next
  case (Draw_batch sv b sv' T)
  then show ?thesis using draw_fresh(1)[OF Draw_batch(3)] unfolding protocol_of_def by (simp add: protocol_step.Tick)
next
  case (Queue_admin sv q' T)
  show ?thesis using protocol_step.Admin waiting_admin[OF Queue_admin(3)] unfolding Queue_admin(1,2) protocol_of_def by simp
next
  case (Store_op sv s' T)
  show ?thesis using protocol_step.Store_op[OF keeps_views[OF Store_op(4)]] unfolding Store_op(1,2) protocol_of_def by simp
next
  case (Report j sv p n c T)
  show ?thesis using protocol_step.Report[OF Get_seen(2)[OF Report(3)]] assms(2) unfolding Report(1,2) protocol_of_def threads_ok_def by simp
next
  case (Cancel i sv j T)
  show ?thesis using protocol_step.Cancel[OF Get_seen(2)[OF Cancel(3)]] Get_seen(1)[OF Cancel(3)] assms(2)
    unfolding Cancel(1,2) protocol_of_def threads_ok_def by simp
next
  case (Queue_remove i sv q' T)
  show ?thesis using protocol_step.Queue_remove waiting_remove[OF Queue_remove(3)] unfolding Queue_remove(1,2) protocol_of_def by simp
next
  case (Cancel_context sv T i)
  show ?thesis using protocol_step.Stutter cancelJob_frame[of i sv "fst (cancelJob i sv)" "snd (cancelJob i sv)"]
    unfolding Cancel_context protocol_of_def by simp
next
  case (Batch_cancel i sv j T)
  show ?thesis using protocol_step.Batch_cancel[OF Get_seen(2)[OF Batch_cancel(3)]] Get_seen(1)[OF Batch_cancel(3)] assms(2)
    unfolding Batch_cancel(1,2) protocol_of_def threads_ok_def by simp
next
  case (Reap sv i j cutoff T)
  have "runs_ok (sv_store sv)" using assms(2) Reap(1) by (simp add: threads_ok_def store_inv_def)
  then have "j_ID j = i" using runs_okD(7) Reap(3) by blast
  moreover have "stored sv i = Some JobRunning" using Reap(3,4) by (simp add: stored_def job_status_def)
  ultimately show ?thesis using protocol_step.Reap unfolding Reap(1,2) protocol_of_def by simp
qed

lemma submit_protocol:
  assumes "submit_step \<sigma> \<sigma>'"
  shows "protocol_step True (protocol_of \<sigma>) (protocol_of \<sigma>')"
  using assms(1)
proof cases
  case (Create fresh j sv j' s' p T)
  show ?thesis using protocol_step.Create[where J = "stored sv" and i = "j_ID j"] status_Create[OF Create(3)]
    unfolding Create(1,2) protocol_of_def by simp
next
  case (Create_fails fresh j sv e p T)
  show ?thesis using protocol_step.Create_fails status_Create_fails[OF Create_fails(3)] unfolding Create_fails(1,2) protocol_of_def by simp
next
  case (Enqueue sv i p T)
  show ?thesis using protocol_step.Enqueue unfolding Enqueue protocol_of_def by (simp add: waiting_enqueue split del: if_split)
qed

lemma worker_protocol:
  assumes "worker_step \<sigma> \<sigma>'" "threads_ok \<sigma>"
  shows "protocol_step True (protocol_of \<sigma>) (protocol_of \<sigma>')"
  using assms(1)
proof cases
  case (Dequeue sv i q' T)
  show ?thesis using protocol_step.Dequeue waiting_dequeue[OF Dequeue(3)] unfolding Dequeue(1,2) protocol_of_def by simp
next
  case (Fetch_none i sv T)
  show ?thesis using protocol_step.Drop Get_none[OF Fetch_none(3)] unfolding Fetch_none(1,2) protocol_of_def by simp
next
  case (Fetch_skip i sv j T)
  have "stored sv i \<noteq> Some JobQueued" using Get_seen[OF Fetch_skip(3)] Fetch_skip(1,4) assms(2)
    by (auto simp: threads_ok_def seen_def)
  then show ?thesis using protocol_step.Drop unfolding Fetch_skip(1,2) protocol_of_def by simp
next
  case (Fetch i sv j T)
  show ?thesis using protocol_step.Fetch[OF Get_seen(2)[OF Fetch(3)] Fetch(4)] Get_seen(1)[OF Fetch(3)] assms(2)
    unfolding Fetch(1,2) protocol_of_def threads_ok_def by simp
next
  case (Register sv j T)
  have "contexts (registerCancel (j_ID j) c (sv\<lparr>sv_contexts := n\<rparr>)) = (if j_ID j = [] then contexts sv else (contexts sv)(j_ID j \<mapsto> c))" for c n
    by (simp add: registry_upd)
  then show ?thesis using protocol_step.Register unfolding Register protocol_of_def by (simp split del: if_split)
next
  case (Start now j sv s' c T)
  show ?thesis using protocol_step.Start[where J = "stored sv" and i = "j_ID j"] status_Update[OF Start(3)] unfolding Start(1,2) protocol_of_def by simp
next
  case (Start_fails now j sv e c T)
  show ?thesis using protocol_step.Start_fails status_Update_fails[OF Start_fails(3)] unfolding Start_fails(1,2) protocol_of_def by simp
next
  case (Requeue sv j c T)
  show ?thesis using protocol_step.Requeue unfolding Requeue protocol_of_def by (simp add: waiting_enqueue split del: if_split)
next
  case (Reported sv j c p n T)
  have "Reporting j c p n \<in># snd \<sigma>" unfolding Reported(1) by simp
  then have "j_ID p = j_ID j" using assms(2) unfolding threads_ok_def by (auto simp: case_prod_unfold)
  then show ?thesis using protocol_step.Reported[where J = "stored sv" and i = "j_ID j" and st = "j_Status p"]
    unfolding Reported protocol_of_def by (simp add: status_update_ignoring)
next
  case (Finish j' timed_out c sv "end" art finishedAt j T)
  show ?thesis using protocol_step.Finish finish_terminal unfolding Finish protocol_of_def by simp
next
  case (Graduate now j es sv s' c T)
  show ?thesis using protocol_step.Graduate[where J = "stored sv" and i = "j_ID j"] status_Graduate[OF Graduate(3)] unfolding Graduate(1,2) protocol_of_def by simp
next
  case (Graduate_fails now j es sv e c T)
  show ?thesis using protocol_step.Graduate_fails unfolding Graduate_fails(1,2) protocol_of_def by simp
next
  case (Graduate_panics now j es sv c T)
  show ?thesis using protocol_step.Graduate_panics unfolding Graduate_panics(1,2) protocol_of_def by (simp add: status_panicked)
next
  case (Fail sv j c T now reason)
  show ?thesis using protocol_step.Fail[where J = "stored sv" and i = "j_ID j"]
    unfolding Fail protocol_of_def by (simp add: failUngraduatedJob_def status_update_ignoring)
next
  case (Close_worker sv i c b T)
  show ?thesis using protocol_step.Close_worker unfolding Close_worker protocol_of_def by (simp add: registry_upd split del: if_split)
next
  case (Unwind sv j c T)
  show ?thesis using protocol_step.Unwind unfolding Unwind protocol_of_def by (simp add: registry_upd split del: if_split)
next
  case (Recover sv j T now reason)
  show ?thesis using protocol_step.Recover[where J = "stored sv" and i = "j_ID j"]
    unfolding Recover protocol_of_def by (simp add: failUngraduatedJob_def status_update_ignoring)
qed

lemma request_protocol:
  assumes "request_step \<sigma> \<sigma>'" "threads_ok \<sigma>"
  shows "protocol_step True (protocol_of \<sigma>) (protocol_of \<sigma>')"
  using assms(1)
proof cases
  case (Cancel_removes j sv q' T now reason)
  show ?thesis using protocol_step.Cancel_removes waiting_remove[OF Cancel_removes(3)] unfolding Cancel_removes(1,2) protocol_of_def by simp
next
  case (Cancel_misses j sv e T now reason)
  show ?thesis using protocol_step.Cancel_misses unfolding Cancel_misses(1,2) protocol_of_def by simp
next
  case (Removed_queued i sv j T now reason)
  show ?thesis using protocol_step.Removed_queued Get_seen(1)[OF Removed_queued(3)] assms(2)
    unfolding Removed_queued(1,2) protocol_of_def threads_ok_def by simp
next
  case (Removed_other i sv T)
  have "stored sv i \<noteq> Some JobQueued" using Removed_other(3) by (auto simp: Get_def stored_def job_status_def split: option.splits)
  then show ?thesis using protocol_step.Removed_other unfolding Removed_other(1,2) protocol_of_def by simp
next
  case (Cancel_graduates now j sv s' b T)
  show ?thesis using protocol_step.Cancel_graduates[where J = "stored sv" and i = "j_ID j"] status_Graduate[OF Cancel_graduates(3)]
    unfolding Cancel_graduates(1,2) protocol_of_def by simp
next
  case (Cancel_fails now j sv e b T)
  show ?thesis using protocol_step.Cancel_fails status_Graduate_fails[OF Cancel_fails(3)] unfolding Cancel_fails(1,2) protocol_of_def by simp
next
  case (Batch_cancel_live j sv sv' T)
  show ?thesis using protocol_step.Stop_live cancelJob_frame[OF Batch_cancel_live(3)] unfolding Batch_cancel_live(1,2) protocol_of_def by simp
next
  case (Batch_cancel_stale j sv sv' T now reason)
  show ?thesis using protocol_step.Stop_stale cancelJob_frame[OF Batch_cancel_stale(3)] unfolding Batch_cancel_stale(1,2) protocol_of_def by simp
qed

lemma reaper_protocol:
  assumes "reaper_step \<sigma> \<sigma>'"
  shows "protocol_step True (protocol_of \<sigma>) (protocol_of \<sigma>')"
  using assms(1)
proof cases
  case (Reap_live j sv T)
  show ?thesis using protocol_step.Reap_live unfolding Reap_live(1,2) protocol_of_def by simp
next
  case (Reap_dead j sv T)
  have "contexts sv (j_ID j) = None" using Reap_dead(3) by (simp add: isJobLive_def contexts_def gm_has_def)
  then show ?thesis using protocol_step.Reap_dead unfolding Reap_dead(1,2) protocol_of_def by simp
next
  case (Reap_graduates now timeout j sv s' T)
  show ?thesis using protocol_step.Reap_graduates[where J = "stored sv" and i = "j_ID j"] status_Graduate[OF Reap_graduates(3)]
    unfolding Reap_graduates(1,2) protocol_of_def by simp
next
  case (Reap_fails now timeout j sv e T)
  show ?thesis using protocol_step.Reap_fails unfolding Reap_fails(1,2) protocol_of_def by simp
qed

lemma update_ignoring_inv: "store_inv (sv_store sv) \<Longrightarrow> store_inv (sv_store (update_ignoring j sv))"
  by (auto simp: update_ignoring_def dest: Update_inv split: sum.splits)

lemma panicked_inv: "store_inv s \<Longrightarrow> store_inv (graduation_panicked now j s)"
  unfolding graduation_panicked_def by (metis getOrCreate_inv prod.collapse)

lemma step_store_inv:
  assumes "store_inv (sv_store (fst \<sigma>))"
  shows "arrival_step ev \<sigma> \<sigma>' \<Longrightarrow> store_inv (sv_store (fst \<sigma>'))" "submit_step \<sigma> \<sigma>' \<Longrightarrow> store_inv (sv_store (fst \<sigma>'))" "worker_step \<sigma> \<sigma>' \<Longrightarrow> store_inv (sv_store (fst \<sigma>'))"
    "request_step \<sigma> \<sigma>' \<Longrightarrow> store_inv (sv_store (fst \<sigma>'))" "reaper_step \<sigma> \<sigma>' \<Longrightarrow> store_inv (sv_store (fst \<sigma>'))"
proof -
  assume "arrival_step ev \<sigma> \<sigma>'"
  then show "store_inv (sv_store (fst \<sigma>'))" using assms
    by cases (auto simp: cancelJob_frame(6)[OF prod.collapse[symmetric]] dest: draw_fresh(1) store_step_inv)
next
  assume "submit_step \<sigma> \<sigma>'"
  then show "store_inv (sv_store (fst \<sigma>'))" using assms by cases (auto dest: Create_inv)
next
  assume "worker_step \<sigma> \<sigma>'"
  then show "store_inv (sv_store (fst \<sigma>'))" using assms
    by cases (auto simp: failUngraduatedJob_def intro: panicked_inv update_ignoring_inv dest: Update_inv GraduateJob_inv)
next
  assume "request_step \<sigma> \<sigma>'"
  then show "store_inv (sv_store (fst \<sigma>'))" using assms
    by cases (auto simp: cancelJob_frame(6)[OF prod.collapse[symmetric]] dest: GraduateJob_inv cancelJob_frame(6))
next
  assume "reaper_step \<sigma> \<sigma>'"
  then show "store_inv (sv_store (fst \<sigma>'))" using assms
    by cases (auto dest: GraduateJob_inv)
qed

lemma threads_ok_step:
  assumes "sys_step ev \<sigma> \<sigma>'" "threads_ok \<sigma>"
  shows "threads_ok \<sigma>'"
proof -
  have i: "store_inv (sv_store (fst \<sigma>))" using assms(2) by (auto simp: threads_ok_def)
  have r: "\<And>j c p n. Reporting j c p n \<in># snd \<sigma> \<Longrightarrow> j_ID p = j_ID j" using assms(2) by (cases \<sigma>) (simp add: threads_ok_def, blast)
  have "store_inv (sv_store (fst \<sigma>'))" using assms(1) by (cases; use step_store_inv[OF i] in \<open>blast elim: work_step.cases\<close>)
  moreover have "Reporting j c p n \<in># snd \<sigma> \<or> j_ID p = j_ID j" if "Reporting j c p n \<in># snd \<sigma>'" for j c p n
    using assms(1)
  proof cases
    case Arrival then show ?thesis
    proof cases
      case Report then show ?thesis using that i Get_seen(1) by fastforce
    qed (use that in auto)
  next
    case Work then show ?thesis
    proof cases
      case Submitting then show ?thesis using that by cases auto
    next
      case Working then show ?thesis using that by cases auto
    next
      case Requesting then show ?thesis using that by cases auto
    next
      case Sweeping then show ?thesis using that by cases auto
    qed
  qed
  ultimately show ?thesis using r by (simp add: threads_ok_def case_prod_unfold, blast)
qed

lemma work_protocol: "work_step \<sigma> \<sigma>' \<Longrightarrow> threads_ok \<sigma> \<Longrightarrow> protocol_step True (protocol_of \<sigma>) (protocol_of \<sigma>')"
  by (erule work_step.cases) (auto intro: submit_protocol worker_protocol request_protocol reaper_protocol)

lemma sys_step_protocol: "sys_step ev \<sigma> \<sigma>' \<Longrightarrow> threads_ok \<sigma> \<Longrightarrow> \<exists>b. protocol_step b (protocol_of \<sigma>) (protocol_of \<sigma>')"
  by (erule sys_step.cases) (auto intro: arrival_protocol work_protocol)

section \<open>Invariants of the protocol\<close>

fun early :: "phase \<Rightarrow> bool" where
  "early (AtCreate st) = True"
| "early AtEnqueue = True"
| "early AtFetch = True"
| "early AtRegister = True"
| "early (AtStart c) = True"
| "early (AtRequeue c) = True"
| "early AtRemoved = True"
| "early (AtCancel b st) = b"
| "early _ = False"

fun active :: "phase \<Rightarrow> bool" where
  "active (AtEngine c) = True"
| "active (AtReport c st) = True"
| "active (AtGraduate c st) = True"
| "active (AtFail c) = True"
| "active (AtUnwind c) = True"
| "active AtRecover = True"
| "active _ = False"

fun holds :: "phase \<Rightarrow> bool" where
  "holds (AtClose c b) = b"
| "holds p = (early p \<or> active p)"

fun context_of :: "phase \<Rightarrow> nat option" where
  "context_of (AtStart c) = Some c"
| "context_of (AtRequeue c) = Some c"
| "context_of (AtEngine c) = Some c"
| "context_of (AtReport c st) = Some c"
| "context_of (AtGraduate c st) = Some c"
| "context_of (AtFail c) = Some c"
| "context_of (AtUnwind c) = Some c"
| "context_of (AtClose c b) = (if b then Some c else None)"
| "context_of _ = None"

fun settled :: "phase \<Rightarrow> bool" where
  "settled (AtCreate st) = False"
| "settled AtRegister = False"
| "settled p = (context_of p = None)"

definition held :: "string multiset \<Rightarrow> (string \<times> phase) multiset \<Rightarrow> string multiset" where
  "held W T = W + image_mset fst (filter_mset (\<lambda>t. holds (snd t)) T)"

definition unstarted :: "string multiset \<Rightarrow> (string \<times> phase) multiset \<Rightarrow> string \<Rightarrow> bool" where
  "unstarted W T i \<longleftrightarrow> i \<in># W \<or> (\<exists>p. (i, p) \<in># T \<and> early p)"

definition mentioned :: "string multiset \<Rightarrow> (string \<Rightarrow> string option) \<Rightarrow> (string \<Rightarrow> string option) \<Rightarrow> (string \<times> phase) multiset \<Rightarrow> string set" where
  "mentioned W J R T = set_mset W \<union> dom J \<union> dom R \<union> fst ` set_mset T"

fun ids_issued :: "protocol \<Rightarrow> bool" where
  "ids_issued (W, cl, J, R, K, n, T) \<longleftrightarrow> mentioned W J R T \<subseteq> {i. issued n i}"

fun sole_holder :: "protocol \<Rightarrow> bool" where
  "sole_holder (W, cl, J, R, K, n, T) \<longleftrightarrow> (\<forall>i. count (held W T) i \<le> 1)"

lemma early_holds: "early p \<Longrightarrow> holds p" "active p \<Longrightarrow> holds p"
  by (cases p; simp)+

lemma overwrite_None [simp]: "overwrite i st J k = None \<longleftrightarrow> J k = None"
  by (auto simp: overwrite_def)

lemma dom_overwrite [simp]: "dom (overwrite i st J) = dom J"
  by (auto simp: dom_def)

lemma seen_dom: "seen J R i st \<Longrightarrow> i \<in> dom J \<union> dom R"
  by (auto simp: seen_def)

lemma mentioned_step:
  "protocol_step b (W, cl, J, R, K, n, T) (W', cl', J', R', K', n', T') \<Longrightarrow>
   n \<le> n' \<and> mentioned W' J' R' T' \<subseteq> mentioned W J R T \<union> {i. issued n' i}"
  by (erule protocol_step.cases) (auto simp: mentioned_def dest: seen_dom map_le_implies_dom_le split: if_splits)

lemma ids_step: "protocol_step b v v' \<Longrightarrow> ids_issued v \<Longrightarrow> ids_issued v'"
proof -
  obtain W cl J R K n T W' cl' J' R' K' n' T' where "v = (W, cl, J, R, K, n, T)" "v' = (W', cl', J', R', K', n', T')"
    by (metis prod_cases7)
  then show "protocol_step b v v' \<Longrightarrow> ids_issued v \<Longrightarrow> ids_issued v'"
    using mentioned_step[of b W cl J R K n T W' cl' J' R' K' n' T'] by (auto intro: issued_mono)
qed

lemma held_step:
  "protocol_step b (W, cl, J, R, K, n, T) (W', cl', J', R', K', n', T') \<Longrightarrow>
   held W' T' \<subseteq># held W T \<or> (\<exists>i. \<not> issued n i \<and> held W' T' = add_mset i (held W T))"
  by (erule protocol_step.cases) (auto simp: held_def)

lemma held_mentioned: "i \<in># held W T \<Longrightarrow> i \<in> mentioned W J R T"
  by (auto simp: held_def mentioned_def)

lemma sole_step: "protocol_step b v v' \<Longrightarrow> ids_issued v \<Longrightarrow> sole_holder v \<Longrightarrow> sole_holder v'"
proof -
  obtain W cl J R K n T W' cl' J' R' K' n' T' where v: "v = (W, cl, J, R, K, n, T)" "v' = (W', cl', J', R', K', n', T')"
    by (metis prod_cases7)
  assume a: "protocol_step b v v'" "ids_issued v" "sole_holder v"
  consider "held W' T' \<subseteq># held W T" | i where "\<not> issued n i" "held W' T' = add_mset i (held W T)"
    using held_step a(1) unfolding v by blast
  then show "sole_holder v'"
  proof cases
    case 1 then show ?thesis using a(3) unfolding v by (auto simp: subseteq_mset_def intro: order_trans)
  next
    case 2
    have "i \<notin># held W T" using 2(1) a(2) held_mentioned[of i W T J R] unfolding v by auto
    then show ?thesis using a(3) 2(2) unfolding v by (auto simp: not_in_iff)
  qed
qed

text \<open>What being the only holder means for the others.\<close>

lemma held_count: "count (held W T) i = 0 \<longleftrightarrow> i \<notin># W \<and> (\<forall>p. (i, p) \<in># T \<longrightarrow> \<not> holds p)"
proof -
  have "count (held W T) i = 0 \<longleftrightarrow> i \<notin># held W T" by (simp add: not_in_iff)
  also have "\<dots> \<longleftrightarrow> i \<notin># W \<and> (\<forall>p. (i, p) \<in># T \<longrightarrow> \<not> holds p)" by (force simp: held_def)
  finally show ?thesis .
qed

lemma add_once: "(\<forall>k. count (add_mset i M) k \<le> 1) \<longleftrightarrow> (\<forall>k. count M k \<le> 1) \<and> count M i = 0"
proof -
  have "count (add_mset i M) k \<le> 1 \<longleftrightarrow> count M k \<le> 1 \<and> (k = i \<longrightarrow> count M i = 0)" for k by auto
  then show ?thesis by blast
qed

lemma sole_add [simp]:
  "sole_holder (W, cl, J, R, K, n, add_mset (i, p) T) \<longleftrightarrow> sole_holder (W, cl, J, R, K, n, T) \<and>
     (holds p \<longrightarrow> i \<notin># W \<and> (\<forall>q. (i, q) \<in># T \<longrightarrow> \<not> holds q))"
proof (cases "holds p")
  case True
  have "held W (add_mset (i, p) T) = add_mset i (held W T)" using True by (simp add: held_def)
  then show ?thesis using True by (simp only: sole_holder.simps add_once held_count) simp
qed (simp add: held_def)

lemma sole_waiting [simp]:
  "sole_holder (add_mset i W, cl, J, R, K, n, T) \<longleftrightarrow> sole_holder (W, cl, J, R, K, n, T) \<and>
     i \<notin># W \<and> (\<forall>q. (i, q) \<in># T \<longrightarrow> \<not> holds q)"
proof -
  have "held (add_mset i W) T = add_mset i (held W T)" by (simp add: held_def)
  then show ?thesis by (simp only: sole_holder.simps add_once held_count)
qed


lemma ids_issuedD:
  assumes "ids_issued (W, cl, J, R, K, n, T)"
  shows "i \<in># W \<Longrightarrow> issued n i" "J i = Some st \<Longrightarrow> issued n i" "R i = Some st \<Longrightarrow> issued n i" "(i, p) \<in># T \<Longrightarrow> issued n i"
  using assms by (auto simp: mentioned_def)

declare sole_holder.simps [simp del] ids_issued.simps [simp del]

lemma map_le_cases: "J' \<subseteq>\<^sub>m J \<Longrightarrow> J' i = J i \<or> J' i = None"
  by (cases "J' i") (auto simp: map_le_def dom_def)

lemma map_le_None: "J' \<subseteq>\<^sub>m J \<Longrightarrow> J i = None \<Longrightarrow> J' i = None"
  by (metis domIff map_le_def)

lemma map_le_Some: "J' \<subseteq>\<^sub>m J \<Longrightarrow> J' i = Some x \<Longrightarrow> J i = Some x"
  by (metis domI map_le_def)

lemma fresh_None:
  assumes "ids_issued (W, cl, J, R, K, n, T)" "\<not> issued n i"
  shows "J i = None" "R i = None" "(i, p) \<notin># T" "i \<notin># W"
  using assms(2) ids_issuedD[OF assms(1)] by (cases "J i"; cases "R i"; blast)+

lemma context_holds: "\<not> holds p \<Longrightarrow> context_of p = None"
  by (cases p) (auto split: if_splits)

fun labelled :: "string \<times> phase \<Rightarrow> bool" where
  "labelled (i, AtCreate st) \<longleftrightarrow> st = JobQueued"
| "labelled (i, AtGraduate c st) \<longleftrightarrow> terminal st"
| "labelled (i, AtCancel b st) \<longleftrightarrow> st = JobCanceled"
| "labelled _ \<longleftrightarrow> True"

fun labels_ok :: "protocol \<Rightarrow> bool" where
  "labels_ok (W, cl, J, R, K, n, T) \<longleftrightarrow> (\<forall>t \<in># T. labelled t)"

fun absent_ok :: "protocol \<Rightarrow> bool" where
  "absent_ok (W, cl, J, R, K, n, T) \<longleftrightarrow> (\<forall>i p. (i, p) \<in># T \<longrightarrow> (\<exists>st. p = AtCreate st) \<or> (\<exists>c. p = AtRequeue c) \<longrightarrow> J i = None)"

fun running_ok :: "protocol \<Rightarrow> bool" where
  "running_ok (W, cl, J, R, K, n, T) \<longleftrightarrow>
     (\<forall>i p. (i, p) \<in># T \<longrightarrow> active p \<longrightarrow> J i = None \<or> J i = Some JobRunning) \<and>
     (\<forall>i c st. (i, AtReport c st) \<in># T \<longrightarrow> J i = None \<or> st = JobRunning)"

lemma labels_step:
  assumes "protocol_step b v v'" "labels_ok v" shows "labels_ok v'"
  using assms by (cases rule: protocol_step.cases) auto

lemma absent_step:
  assumes "protocol_step b v v'" "ids_issued v" "sole_holder v" "absent_ok v" shows "absent_ok v'"
  using assms by (cases rule: protocol_step.cases) (auto intro: fresh_None map_le_None)

lemma running_step:
  assumes "protocol_step b v v'" "sole_holder v" "running_ok v" shows "running_ok v'"
  using assms
proof (cases rule: protocol_step.cases)
  case (Store_op J' J R' R W cl K n T)
  have r: "J' i = J i \<or> J' i = None" for i by (rule map_le_cases[OF Store_op(4)])
  have a: "running_ok (W, cl, J, R, K, n, T)" using assms(3) Store_op(2) by simp
  show ?thesis unfolding Store_op(3) running_ok.simps
  proof (intro conjI allI impI)
    show "J' i = None \<or> J' i = Some JobRunning" if "(i, p) \<in># T" "active p" for i p using that a r[of i] unfolding running_ok.simps by fastforce
    show "J' i = None \<or> st = JobRunning" if "(i, AtReport c st) \<in># T" for i c st using that a r[of i] unfolding running_ok.simps by fastforce
  qed
next
  case (Report J R i st W cl K n c T)
  have "J i = None \<or> J i = Some JobRunning" using assms(3) unfolding Report(2) by force
  then show ?thesis using assms(3) Report(4) unfolding Report(2,3) by (auto simp: seen_def)
qed (auto simp: overwrite_def dest: early_holds)

fun served_ok :: "protocol \<Rightarrow> bool" where
  "served_ok (W, cl, J, R, K, n, T) \<longleftrightarrow> (\<forall>i. \<not> cl \<longrightarrow> J i = Some JobQueued \<longrightarrow> unstarted W T i)"

definition worked :: "(string \<times> phase) multiset \<Rightarrow> string \<Rightarrow> bool" where
  "worked T i \<longleftrightarrow> (\<exists>p. (i, p) \<in># T \<and> active p)"

lemma worked_simps [simp]: "worked (add_mset (i, p) T) k \<longleftrightarrow> k = i \<and> active p \<or> worked T k"
  by (auto simp: worked_def)

fun working_ok :: "protocol \<Rightarrow> bool" where
  "working_ok (W, cl, J, R, K, n, T) \<longleftrightarrow> (\<forall>i. J i = Some JobRunning \<longrightarrow> worked T i)"

lemma unstarted_simps [simp]:
  "unstarted W (add_mset (i, p) T) k \<longleftrightarrow> k = i \<and> early p \<or> unstarted W T k"
  "unstarted (add_mset i W) T k \<longleftrightarrow> k = i \<or> unstarted W T k"
  by (auto simp: unstarted_def)

lemma unstarted_holder: "unstarted W T i \<Longrightarrow> i \<notin># W \<Longrightarrow> (\<forall>q. (i, q) \<in># T \<longrightarrow> \<not> holds q) \<Longrightarrow> False"
  by (auto simp: unstarted_def dest: early_holds)

lemma served_step:
  assumes "protocol_step b v v'" "labels_ok v" "absent_ok v" "running_ok v" "served_ok v" shows "served_ok v'"
  using assms(1,5)
proof (cases rule: protocol_step.cases)
  case (Create_fails J i W cl R K n st T)
  then show ?thesis using assms(3) by force
next
  case (Reported W cl J R K n i c st T)
  then have "J i = None \<or> st = JobRunning" using assms(4) by force
  then show ?thesis using assms(5) unfolding Reported by (auto simp: overwrite_def)
next
  case (Cancel_fails J i st W cl R K n b T)
  then have "st = JobCanceled" using assms(2) by auto
  then show ?thesis using assms(5) Cancel_fails by auto
qed (auto simp: overwrite_def dest: map_le_Some split: if_splits)

lemma working_step:
  assumes "protocol_step b v v'" "labels_ok v" "working_ok v" shows "working_ok v'"
  using assms(1,3)
proof (cases rule: protocol_step.cases)
  case (Create J i W cl R K n st T)
  then have "st = JobQueued" using assms(2) by auto
  then show ?thesis using assms(3) unfolding Create by auto
qed (auto simp: overwrite_def dest: map_le_Some split: if_splits)

definition bound :: "(string \<times> phase) multiset \<Rightarrow> string \<Rightarrow> bool" where
  "bound T i \<longleftrightarrow> (\<exists>p. (i, p) \<in># T \<and> context_of p \<noteq> None)"

definition reaping :: "(string \<times> phase) multiset \<Rightarrow> string \<Rightarrow> bool" where
  "reaping T i \<longleftrightarrow> (i, AtReap) \<in># T \<or> (i, AtReapDead) \<in># T"

lemma bound_simps [simp]: "bound (add_mset (i, p) T) k \<longleftrightarrow> k = i \<and> context_of p \<noteq> None \<or> bound T k"
  by (auto simp: bound_def)

lemma reaping_simps [simp]: "reaping (add_mset (i, p) T) k \<longleftrightarrow> k = i \<and> (p = AtReap \<or> p = AtReapDead) \<or> reaping T k"
  by (auto simp: reaping_def)

fun unstarted_jobs :: "protocol \<Rightarrow> bool" where
  "unstarted_jobs (W, cl, J, R, K, n, T) \<longleftrightarrow> (\<forall>i. unstarted W T i \<longrightarrow> J i = None \<or> J i = Some JobQueued)"

fun unstarted_runs :: "protocol \<Rightarrow> bool" where
  "unstarted_runs (W, cl, J, R, K, n, T) \<longleftrightarrow> (\<forall>i. unstarted W T i \<longrightarrow> R i = None \<or> R i = Some JobCanceled)"

fun reaping_ok :: "protocol \<Rightarrow> bool" where
  "reaping_ok (W, cl, J, R, K, n, T) \<longleftrightarrow> (\<forall>i. reaping T i \<longrightarrow> \<not> unstarted W T i)"

fun reaped_ok :: "protocol \<Rightarrow> bool" where
  "reaped_ok (W, cl, J, R, K, n, T) \<longleftrightarrow> (\<forall>i. (i, AtReapDead) \<in># T \<longrightarrow> \<not> bound T i)"

fun contexts_ok :: "protocol \<Rightarrow> bool" where
  "contexts_ok (W, cl, J, R, K, n, T) \<longleftrightarrow> (\<forall>i p c. (i, p) \<in># T \<longrightarrow> context_of p = Some c \<longrightarrow> K i = Some c)"

lemma worked_holder: "sole_holder (W, cl, J, R, K, n, T) \<Longrightarrow> worked T i \<Longrightarrow> \<not> unstarted W T i"
proof
  assume s: "sole_holder (W, cl, J, R, K, n, T)" and "worked T i" "unstarted W T i"
  then obtain p where p: "(i, p) \<in># T" "active p" by (auto simp: worked_def)
  then obtain T' where T: "T = add_mset (i, p) T'" by (metis insert_DiffM)
  have "\<not> early p" using p(2) by (cases p) auto
  then show False using s p(2) \<open>unstarted W T i\<close> unstarted_holder[of W T' i] early_holds(2) unfolding T by auto
qed

lemma reaping_mentioned: "reaping T i \<Longrightarrow> ids_issued (W, cl, J, R, K, n, T) \<Longrightarrow> issued n i"
  by (auto simp: reaping_def dest: ids_issuedD)

lemma unstarted_jobs_step:
  assumes "protocol_step b v v'" "ids_issued v" "labels_ok v" "sole_holder v" "unstarted_jobs v" shows "unstarted_jobs v'"
  using assms(1,4,5)
proof (cases rule: protocol_step.cases)
  case (Draw n i W cl J R K T)
  then show ?thesis using assms(2,5) fresh_None by auto
next
  case (Create J i W cl R K n st T)
  then have "st = JobQueued" using assms(3) by auto
  then show ?thesis using assms(5) unfolding Create by auto
next
  case (Store_op J' J R' R W cl K n T)
  show ?thesis using assms(5) map_le_cases[OF Store_op(4)] unfolding Store_op(2,3) unstarted_jobs.simps by metis
qed (auto simp: overwrite_def dest: unstarted_holder split: if_splits)

lemma unstarted_runs_step:
  assumes "protocol_step b v v'" "ids_issued v" "labels_ok v" "sole_holder v" "reaping_ok v" "unstarted_runs v" shows "unstarted_runs v'"
  using assms(1,4,6)
proof (cases rule: protocol_step.cases)
  case (Draw n i W cl J R K T)
  then show ?thesis using assms(2,6) fresh_None by auto
next
  case (Cancel_graduates J i W cl R K n b st T)
  then have "st = JobCanceled" using assms(3) by auto
  then show ?thesis using assms(6) unfolding Cancel_graduates by auto
next
  case (Reap_graduates J i W cl R K n T)
  then show ?thesis using assms(5,6) by auto
next
  case (Store_op J' J R' R W cl K n T)
  show ?thesis using assms(6) map_le_cases[OF Store_op(5)] unfolding Store_op(2,3) unstarted_runs.simps by metis
qed (auto dest: unstarted_holder split: if_splits)

lemma reaping_step:
  assumes "protocol_step b v v'" "ids_issued v" "sole_holder v" "working_ok v" "reaping_ok v" shows "reaping_ok v'"
  using assms(1,5)
proof (cases rule: protocol_step.cases)
  case (Draw n i W cl J R K T)
  then show ?thesis using assms(2,5) reaping_mentioned by auto
next
  case (Reap J i W cl R K n T)
  then have "\<not> unstarted W T i" using assms(3,4) worked_holder by auto
  then show ?thesis using assms(5) unfolding Reap by auto
qed (auto split: if_splits)

lemma reaped_step:
  assumes "protocol_step b v v'" "reaping_ok v" "contexts_ok v" "reaped_ok v" shows "reaped_ok v'"
  using assms(1,4)
proof (cases rule: protocol_step.cases)
  case (Register W cl J R K n i T c)
  then show ?thesis using assms(2,4) by (auto simp: reaping_def)
next
  case (Reap_dead K i W cl J R n T)
  then have "\<not> bound T i" using assms(3) by (fastforce simp: bound_def)
  then show ?thesis using assms(4) unfolding Reap_dead by auto
qed (auto split: if_splits)

definition leaving :: "(string \<times> phase) multiset \<Rightarrow> string \<Rightarrow> bool" where
  "leaving T i \<longleftrightarrow> (\<exists>c. (i, AtClose c False) \<in># T)"

definition unsettled :: "(string \<times> phase) multiset \<Rightarrow> string \<Rightarrow> bool" where
  "unsettled T i \<longleftrightarrow> (\<exists>p. (i, p) \<in># T \<and> \<not> settled p)"

lemma leaving_simps [simp]: "leaving (add_mset (i, p) T) k \<longleftrightarrow> k = i \<and> (\<exists>c. p = AtClose c False) \<or> leaving T k"
  by (auto simp: leaving_def)

lemma unsettled_simps [simp]: "unsettled (add_mset (i, p) T) k \<longleftrightarrow> k = i \<and> \<not> settled p \<or> unsettled T k"
  by (auto simp: unsettled_def)

lemma unsettled_holds: "\<not> settled p \<Longrightarrow> holds p"
  by (cases p) (auto split: if_splits)

lemma bound_unsettled: "context_of p = Some c \<Longrightarrow> \<not> settled p"
  by (cases p) auto

lemma issued_nonempty: "issued n i \<Longrightarrow> i \<noteq> []"
  by (auto simp: issued_def id_text_def)

fun closing_ok :: "protocol \<Rightarrow> bool" where
  "closing_ok (W, cl, J, R, K, n, T) \<longleftrightarrow> (\<forall>i. leaving T i \<longrightarrow> J i = None \<and> \<not> unsettled T i)"

lemma closing_step:
  assumes "protocol_step b v v'" "ids_issued v" "sole_holder v" "absent_ok v" "unstarted_runs v" "closing_ok v" shows "closing_ok v'"
  using assms(1,6)
proof (cases rule: protocol_step.cases)
  case (Draw n i W cl J R K T)
  have "\<not> leaving T i" using fresh_None(3)[of W cl J R K n T i] assms(2) Draw(2,4) by (auto simp: leaving_def)
  then show ?thesis using assms(6) unfolding Draw by auto
next
  case (Requeue W cl J R K n i c T)
  have "J i = None" using assms(4) unfolding Requeue by force
  moreover have "\<not> unsettled T i" using assms(3) unsettled_holds unfolding Requeue by (auto simp: unsettled_def)
  ultimately show ?thesis using assms(6) unfolding Requeue by auto
next
  case (Fetch J R i st W cl K n T)
  have "R i = None \<or> R i = Some JobCanceled" using assms(5) unfolding Fetch by simp
  then show ?thesis using assms(6) Fetch(4,5) unfolding Fetch(2,3) by (auto simp: seen_def)
next
  case (Store_op J' J R' R W cl K n T)
  then show ?thesis using assms(6) by (auto intro: map_le_None)
qed (auto simp: overwrite_def split: if_splits)

lemma contexts_step:
  assumes "protocol_step b v v'" "ids_issued v" "sole_holder v" "closing_ok v" "contexts_ok v" shows "contexts_ok v'"
  using assms(1,5)
proof (cases rule: protocol_step.cases)
  case (Register W cl J R K n i T c)
  have "i \<noteq> []" using assms(2) issued_nonempty ids_issuedD(4) unfolding Register by (metis union_single_eq_member)
  moreover have "context_of q = None" if "(i, q) \<in># T" for q using that assms(3) context_holds[of q] unfolding Register by auto
  ultimately show ?thesis using assms(5) unfolding Register by auto
next
  case (Close_worker W cl J R K n i c b T)
  have "context_of q = None" if "(i, q) \<in># T" for q
  proof (cases b)
    case True then show ?thesis using that assms(3) context_holds[of q] unfolding Close_worker by auto
  next
    case False then show ?thesis using that assms(4) bound_unsettled unfolding Close_worker by (fastforce simp: unsettled_def)
  qed
  then show ?thesis using assms(5) unfolding Close_worker by auto
next
  case (Unwind W cl J R K n i c T)
  have "context_of q = None" if "(i, q) \<in># T" for q using that assms(3) context_holds[of q] unfolding Unwind by auto
  then show ?thesis using assms(5) unfolding Unwind by auto
qed auto

fun statuses_ok :: "protocol \<Rightarrow> bool" where
  "statuses_ok (W, cl, J, R, K, n, T) \<longleftrightarrow>
     (\<forall>i st. J i = Some st \<longrightarrow> st = JobQueued \<or> st = JobRunning \<or> st = JobFailed) \<and> (\<forall>i st. R i = Some st \<longrightarrow> terminal st)"

lemma statuses_step:
  assumes "protocol_step b v v'" "labels_ok v" "running_ok v" "statuses_ok v" shows "statuses_ok v'"
  using assms(1,4)
proof (cases rule: protocol_step.cases)
  case (Create J i W cl R K n st T)
  then have "st = JobQueued" using assms(2) by auto
  then show ?thesis using assms(4) unfolding Create by auto
next
  case (Reported W cl J R K n i c st T)
  then have "J i = None \<or> st = JobRunning" using assms(3) by force
  then show ?thesis using assms(4) unfolding Reported by (auto simp: overwrite_def)
next
  case (Graduate J i W cl R K n c st T)
  then have "terminal st" using assms(2) by auto
  then show ?thesis using assms(4) unfolding Graduate by auto
next
  case (Cancel_graduates J i W cl R K n b st T)
  then have "terminal st" using assms(2) by (auto simp: terminal_def)
  then show ?thesis using assms(4) unfolding Cancel_graduates by auto
next
  case (Store_op J' J R' R W cl K n T)
  show ?thesis using assms(4) map_le_Some[OF Store_op(4)] map_le_Some[OF Store_op(5)] unfolding Store_op(2,3) statuses_ok.simps by blast
next
  case (Reap_graduates J i W cl R K n T)
  then show ?thesis using assms(4) by (auto simp: terminal_def)
qed (auto simp: overwrite_def split: if_splits)

fun protocol_inv :: "protocol \<Rightarrow> bool" where
  "protocol_inv v \<longleftrightarrow> ids_issued v \<and> sole_holder v \<and> labels_ok v \<and> absent_ok v \<and> running_ok v \<and> served_ok v \<and> working_ok v \<and>
     unstarted_jobs v \<and> unstarted_runs v \<and> reaping_ok v \<and> reaped_ok v \<and> closing_ok v \<and> contexts_ok v \<and> statuses_ok v"

lemma protocol_inv_step: "protocol_inv v \<Longrightarrow> protocol_step b v v' \<Longrightarrow> protocol_inv v'"
  unfolding protocol_inv.simps
  by (blast intro: ids_step sole_step labels_step absent_step running_step served_step working_step unstarted_jobs_step
      unstarted_runs_step reaping_step reaped_step closing_step contexts_step statuses_step)

section \<open>The server\<close>

definition server_inv :: "system \<Rightarrow> bool" where
  "server_inv \<sigma> \<longleftrightarrow> threads_ok \<sigma> \<and> protocol_inv (protocol_of \<sigma>)"

lemma server_inv_init: "server_inv (NewServer, {#})"
proof -
  have "protocol_of (NewServer, {#}) = ({#}, False, Map.empty, Map.empty, Map.empty, 0, {#})"
    by (auto simp: protocol_of_def NewServer_def waiting_def queue_closed_def stored_def filed_def contexts_def job_status_def run_status_def
        NewInMemoryQueue_def NewInMemoryJobStore_def fun_eq_iff)
  moreover have "protocol_inv ({#}, False, Map.empty, Map.empty, Map.empty, 0, {#})"
    by (simp add: ids_issued.simps sole_holder.simps mentioned_def held_def unstarted_def reaping_def leaving_def)
  ultimately show ?thesis using store_inv_new by (simp add: server_inv_def threads_ok_def NewServer_def)
qed

interpretation life: invariant_system "\<lambda>\<sigma>. \<sigma> = (NewServer, {#})" "sys_step ev" server_inv for ev
proof
  show "server_inv \<sigma>" if "\<sigma> = (NewServer, {#})" for \<sigma> using that server_inv_init by simp
  show "server_inv \<sigma>'" if "server_inv \<sigma>" "sys_step ev \<sigma> \<sigma>'" for \<sigma> \<sigma>'
    using that threads_ok_step sys_step_protocol protocol_inv_step unfolding server_inv_def by blast
qed

definition reachable :: "env \<Rightarrow> system \<Rightarrow> bool" where
  "reachable ev \<sigma> \<longleftrightarrow> (sys_step ev)\<^sup>*\<^sup>* (NewServer, {#}) \<sigma>"

lemma reachable_inv: "reachable ev \<sigma> \<Longrightarrow> server_inv \<sigma>"
  using life.inv_reachable unfolding reachable_def by blast

text \<open>Whether a thread has the id of a job and no worker has started it, whether it is the worker that runs it, and whether it owns the id.\<close>

definition in_hands :: "thread \<Rightarrow> bool" where "in_hands t \<longleftrightarrow> early (snd (thread_phase t))"
definition runs_job :: "thread \<Rightarrow> bool" where "runs_job t \<longleftrightarrow> active (snd (thread_phase t))"
definition owns :: "thread \<Rightarrow> bool" where "owns t \<longleftrightarrow> holds (snd (thread_phase t))"
definition thread_id :: "thread \<Rightarrow> string" where "thread_id t = fst (thread_phase t)"

lemma phase_of_thread: "(i, p) \<in># image_mset thread_phase T \<longleftrightarrow> (\<exists>t \<in># T. thread_id t = i \<and> snd (thread_phase t) = p)"
  by (force simp: thread_id_def image_iff prod_eq_iff)

lemma stored_get: "gm_get (jobs (sv_store sv)) i = Some j \<Longrightarrow> stored sv i = Some (j_Status j)"
  by (simp add: stored_def job_status_def)

lemma waiting_set: "i \<in># waiting sv \<longleftrightarrow> i \<in> set (normal (sv_queue sv)) \<union> set (batch (sv_queue sv))"
  by (simp add: waiting_def)

subsection \<open>A run\<close>

definition life_id :: string where "life_id = fst (newID sample_env ''job'' NewServer)"

definition life_job :: job where
  "life_job = zero_job\<lparr>j_ID := life_id, j_PublicID := ''p'', j_Domain := ''example.org'', j_Status := JobQueued\<rparr>"

definition life_created :: server where
  "life_created = NewServer\<lparr>sv_idCounter := 1, sv_store := NewInMemoryJobStore\<lparr>jobs := gm_set life_id life_job [], publicIDs := gm_set ''p'' life_id []\<rparr>\<rparr>"

definition life_running :: server where
  "life_running = (registerCancel life_id 0 (life_created\<lparr>sv_contexts := 1\<rparr>))\<lparr>
     sv_store := (sv_store life_created)\<lparr>jobs := gm_set life_id (start_job 5 life_job) (gm_set life_id life_job [])\<rparr>\<rparr>"

lemma life_id_nonempty: "life_id \<noteq> []"
  by (simp add: life_id_def newID_def Let_def)

lemma life_created_steps: "(sys_step sample_env)\<^sup>*\<^sup>* (NewServer, {#}) (life_created, {#Enqueuing life_id 0#})"
proof -
  have n: "newID sample_env ''job'' NewServer = (life_id, NewServer\<lparr>sv_idCounter := 1\<rparr>)"
    by (simp add: life_id_def newID_def Let_def NewServer_def)
  have "sys_step sample_env (NewServer, {#}) (NewServer\<lparr>sv_idCounter := 1\<rparr>, {#Creating life_job 0#})"
    using arrival_step.Draw[of sample_env NewServer life_job _ "{#}" 0] n by (auto simp: life_job_def intro: sys_step.Arrival)
  moreover have "Create ''p'' life_job (sv_store (NewServer\<lparr>sv_idCounter := 1\<rparr>)) = Inr (life_job, sv_store life_created)"
    by (simp add: Create_def Let_def life_created_def life_job_def NewServer_def NewInMemoryJobStore_def gm_has_def)
  then have "submit_step (NewServer\<lparr>sv_idCounter := 1\<rparr>, {#Creating life_job 0#}) (life_created, {#Enqueuing life_id 0#})"
    using submit_step.Create[of "''p''" life_job "NewServer\<lparr>sv_idCounter := 1\<rparr>" life_job _ 0 "{#}"] by (simp add: life_created_def life_job_def)
  ultimately show ?thesis by (meson converse_rtranclp_into_rtranclp rtranclp.rtrancl_refl sys_step.Work work_step.Submitting)
qed

lemma life_running_steps: "work_step\<^sup>*\<^sup>* (life_created, add_mset (Enqueuing life_id 0) T) (life_running, add_mset (Started (start_job 5 life_job) 0) T)"
proof -
  let ?q = "NewInMemoryQueue\<lparr>normal := [life_id]\<rparr>"
  let ?r = "registerCancel life_id 0 (life_created\<lparr>sv_contexts := 1\<rparr>)"
  have q: "sv_queue life_created = NewInMemoryQueue" by (simp add: life_created_def NewServer_def)
  have c: "sv_contexts life_created = 0" by (simp add: life_created_def NewServer_def)
  have i: "j_ID life_job = life_id" by (simp add: life_job_def)
  have "work_step (life_created, add_mset (Enqueuing life_id 0) T) (life_created\<lparr>sv_queue := ?q\<rparr>, T)"
    using submit_step.Enqueue[of life_created life_id 0 T]
    by (auto simp: q enqueue_ignoring_def Enqueue_def Let_def priority_defs NewInMemoryQueue_def signalOneLocked_def intro: work_step.Submitting)
  moreover
  have d: "dequeue_attempt (sv_queue (life_created\<lparr>sv_queue := ?q\<rparr>)) = (AttemptJob life_id, NewInMemoryQueue)"
    by (simp add: dequeue_attempt_def NewInMemoryQueue_def)
  have "life_created\<lparr>sv_queue := NewInMemoryQueue\<rparr> = life_created" by (simp add: life_created_def NewServer_def)
  then have "work_step (life_created\<lparr>sv_queue := ?q\<rparr>, T) (life_created, add_mset (Dequeued life_id) T)"
    using worker_step.Dequeue[OF d, of T] by (auto intro: work_step.Working)
  moreover have "work_step (life_created, add_mset (Dequeued life_id) T) (life_created, add_mset (Fetched life_job) T)"
    using worker_step.Fetch[of life_id life_created life_job T]
    by (auto simp: Get_def life_created_def life_job_def gomap_simps intro: work_step.Working)
  moreover have "work_step (life_created, add_mset (Fetched life_job) T) (?r, add_mset (Loaded life_job 0) T)"
    using worker_step.Register[of life_created life_job T] by (auto simp: c i intro: work_step.Working)
  moreover have "Update (start_job 5 life_job) (sv_store ?r) = Inr (sv_store life_running)"
    by (simp add: Update_def life_running_def life_created_def i gm_has_def gomap_simps)
  then have "work_step (?r, add_mset (Loaded life_job 0) T) (life_running, add_mset (Started (start_job 5 life_job) 0) T)"
    using worker_step.Start[of 5 life_job ?r _ 0 T] by (auto simp: life_running_def intro: work_step.Working)
  ultimately show ?thesis by (meson converse_rtranclp_into_rtranclp rtranclp.rtrancl_refl)
qed

lemma work_reachable: "reachable ev \<sigma> \<Longrightarrow> work_step\<^sup>*\<^sup>* \<sigma> \<tau> \<Longrightarrow> reachable ev \<tau>"
  unfolding reachable_def by (erule (1) rtranclp_trans[OF _ rtranclp_mono[THEN predicate2D, rotated]]) (auto intro: sys_step.Work)

lemma life_reachable:
  "reachable sample_env (life_created, {#Enqueuing life_id 0#})" "reachable sample_env (life_running, {#Started (start_job 5 life_job) 0#})"
  using life_created_steps life_running_steps work_reachable unfolding reachable_def by blast+





text \<open>
  A cancellation may leave the engine running. A request that has read a job as queued and comes to file it as canceled only
  after a worker has started it finds its id no longer in the queue, ignores that, and files the job: the run says canceled, the
  job is gone, and the engine goes on with a context that nobody has canceled.
\<close>

definition life_canceled :: job where "life_canceled = canceled_job 7 ''canceled'' life_job"

lemma life_race_steps:
  assumes "GraduateJob 7 life_canceled [] (sv_store life_running) = Inr s'"
  shows "reachable sample_env (life_running\<lparr>sv_store := s'\<rparr>, {#Started (start_job 5 life_job) 0#})"
proof -
  let ?T = "{#Canceling life_job#}" let ?S = "Started (start_job 5 life_job) 0"
  have "sys_step sample_env (life_created, {#Enqueuing life_id 0#}) (life_created, add_mset (Enqueuing life_id 0) ?T)"
    using arrival_step.Cancel[of life_id life_created life_job sample_env "{#Enqueuing life_id 0#}"]
    by (auto simp: Get_def life_created_def life_job_def gomap_simps add_mset_commute intro: sys_step.Arrival)
  then have "reachable sample_env (life_created, add_mset (Enqueuing life_id 0) ?T)"
    using life_created_steps unfolding reachable_def by (rule rtranclp.rtrancl_into_rtrancl[rotated])
  then have r: "reachable sample_env (life_running, add_mset ?S ?T)" using life_running_steps work_reachable by blast
  have "Remove (j_ID life_job) (sv_queue life_running) = Inl JobIDNotInQueue"
    using life_id_nonempty
    by (simp add: Remove_def life_job_def life_running_def life_created_def NewServer_def NewInMemoryQueue_def registerCancel_def)
  from request_step.Cancel_misses[OF this, of "{#?S#}" 7 "''canceled''"]
  have "work_step (life_running, add_mset ?S ?T) (life_running, add_mset (Graduating life_canceled False) {#?S#})"
    by (simp add: life_canceled_def add_mset_commute work_step.Requesting)
  moreover have "work_step (life_running, add_mset (Graduating life_canceled False) {#?S#}) (life_running\<lparr>sv_store := s'\<rparr>, {#?S#})"
    using request_step.Cancel_graduates[OF assms] by (blast intro: work_step.Requesting)
  ultimately have "work_step\<^sup>*\<^sup>* (life_running, add_mset ?S ?T) (life_running\<lparr>sv_store := s'\<rparr>, {#?S#})" by (meson converse_rtranclp_into_rtranclp r_into_rtranclp)
  then show ?thesis using r work_reachable by blast
qed

theorem cancellation_leaves_engine_running:
  "\<exists>sv T j c. reachable sample_env (sv, T) \<and> Started j c \<in># T \<and> c \<notin> set (sv_canceled sv) \<and>
     gm_get (jobs (sv_store sv)) (j_ID j) = None \<and> map_option r_Status (gm_get (runs (sv_store sv)) (j_ID j)) = Some JobCanceled"
proof -
  have h: "gm_has (jobs (sv_store life_running)) (j_ID life_canceled)"
    by (simp add: life_running_def life_canceled_def life_job_def gm_has_def gomap_simps)
  then have "stored life_running (j_ID life_canceled) \<noteq> None" "j_Status life_canceled \<noteq> JobSucceeded"
    by (simp_all add: stored_def job_status_def gm_has_def life_canceled_def)
  then obtain s' where s': "GraduateJob 7 life_canceled [] (sv_store life_running) = Inr s'"
    by (cases "GraduateJob 7 life_canceled [] (sv_store life_running)") (auto dest: status_Graduate_fails)
  note g = status_Graduate[OF s']
  have "gm_get (jobs s') life_id = None" "map_option r_Status (gm_get (runs s') life_id) = Some JobCanceled"
    using fun_cong[OF g(2), of life_id] fun_cong[OF g(3), of life_id]
    by (auto simp: stored_def filed_def job_status_def run_status_def life_canceled_def life_job_def)
  moreover have "sv_canceled life_running = []"
    by (simp add: life_running_def registerCancel_def life_created_def NewServer_def)
  ultimately show ?thesis using life_race_steps[OF s']
    by (intro exI[of _ "life_running\<lparr>sv_store := s'\<rparr>"] exI[of _ "{#Started (start_job 5 life_job) 0#}"] exI[of _ "start_job 5 life_job"] exI[of _ 0])
      (simp add: life_job_def)
qed

end
