(* ===== verification/Liveness.thy ===== *)
theory Liveness
  imports Protocol
begin

text \<open>
  The work of the server ends. \<open>remaining\<close> bounds the steps that the threads alive and the ids waiting can still take;
  every step that goes on with something begun lowers it, and no thread is ever stuck.
\<close>

section \<open>Work ends\<close>

fun effort :: "bool \<Rightarrow> phase \<Rightarrow> nat" where
  "effort x (AtCreate st) = 12"
| "effort x AtEnqueue = (if x then 10 else 4)"
| "effort x AtFetch = (if x then 8 else 2)"
| "effort x AtRegister = 7"
| "effort x (AtStart c) = 6"
| "effort x (AtRequeue c) = 5"
| "effort x (AtEngine c) = 5"
| "effort x (AtReport c st) = 6"
| "effort x (AtGraduate c st) = 4"
| "effort x (AtFail c) = 3"
| "effort x (AtUnwind c) = 3"
| "effort x AtRecover = 2"
| "effort x (AtClose c b) = 1"
| "effort x AtRemove = 3"
| "effort x AtRemoved = 3"
| "effort x (AtCancel b st) = 2"
| "effort x AtStop = 3"
| "effort x AtReap = 2"
| "effort x AtReapDead = 1"

definition waiting_effort :: "(string \<Rightarrow> string option) \<Rightarrow> string multiset \<Rightarrow> nat" where
  "waiting_effort J W = sum_mset (image_mset (\<lambda>i. if J i \<noteq> None then 9 else 3) W)"

definition thread_effort :: "(string \<Rightarrow> string option) \<Rightarrow> (string \<times> phase) multiset \<Rightarrow> nat" where
  "thread_effort J T = sum_mset (image_mset (\<lambda>(i, p). effort (J i \<noteq> None) p) T)"

text \<open>How many steps the work begun can take at most.\<close>

fun remaining :: "protocol \<Rightarrow> nat" where
  "remaining (W, cl, J, R, K, n, T) = waiting_effort J W + thread_effort J T"

lemma effort_simps [simp]:
  "waiting_effort J (add_mset i W) = (if J i \<noteq> None then 9 else 3) + waiting_effort J W"
  "thread_effort J (add_mset (i, p) T) = effort (J i \<noteq> None) p + thread_effort J T"
  by (simp_all add: waiting_effort_def thread_effort_def)

lemma effort_pos: "0 < effort x p"
  by (cases p) auto

lemma effort_mono: "(x \<longrightarrow> y) \<Longrightarrow> effort x p \<le> effort y p"
  by (cases p) auto

lemma efforts_mono:
  assumes "\<And>i. J' i \<noteq> None \<Longrightarrow> J i \<noteq> None"
  shows "waiting_effort J' W \<le> waiting_effort J W" "thread_effort J' T \<le> thread_effort J T"
proof -
  show "waiting_effort J' W \<le> waiting_effort J W"
    unfolding waiting_effort_def using assms by (intro sum_mset_mono) auto
  show "thread_effort J' T \<le> thread_effort J T"
    unfolding thread_effort_def using assms by (intro sum_mset_mono) (auto intro: effort_mono)
qed

lemma efforts_changes:
  "waiting_effort (J(i := None)) W \<le> waiting_effort J W" "thread_effort (J(i := None)) T \<le> thread_effort J T"
  "waiting_effort (overwrite i st J) W \<le> waiting_effort J W" "thread_effort (overwrite i st J) T \<le> thread_effort J T"
  "J i \<noteq> None \<Longrightarrow> waiting_effort (J(i \<mapsto> st)) W \<le> waiting_effort J W" "J i \<noteq> None \<Longrightarrow> thread_effort (J(i \<mapsto> st)) T \<le> thread_effort J T"
  by (rule efforts_mono; auto split: if_splits)+

lemma efforts_same:
  assumes "\<And>k. k \<in># W \<Longrightarrow> k \<noteq> i" "\<And>q. (i, q) \<in># T \<Longrightarrow> \<not> holds q"
  shows "waiting_effort (J(i \<mapsto> st)) W = waiting_effort J W" "thread_effort (J(i \<mapsto> st)) T = thread_effort J T"
proof -
  show "waiting_effort (J(i \<mapsto> st)) W = waiting_effort J W"
    unfolding waiting_effort_def using assms(1) by (intro arg_cong[where f = sum_mset] image_mset_cong) auto
  have "effort x q = effort y q" if "\<not> holds q" for x y q using that by (cases q) auto
  then show "thread_effort (J(i \<mapsto> st)) T = thread_effort J T"
    unfolding thread_effort_def using assms(2) by (intro arg_cong[where f = sum_mset] image_mset_cong) auto
qed

lemma work_decreases:
  assumes "protocol_step b v v'" "b" "sole_holder v" "absent_ok v" "unstarted_runs v"
  shows "remaining v' < remaining v"
  using assms(1,2)
proof (cases rule: protocol_step.cases)
  case (Create J i W cl R K n st T)
  have "i \<notin># W" "\<And>q. (i, q) \<in># T \<Longrightarrow> \<not> holds q" using assms(3) unfolding Create by auto
  then show ?thesis using efforts_same[of W i T J st] unfolding Create by force
next
  case (Fetch J R i st W cl K n T)
  have "R i = None \<or> R i = Some JobCanceled" using assms(5) unfolding Fetch by simp
  then have "J i \<noteq> None" using Fetch(4,5) by (auto simp: seen_def)
  then show ?thesis unfolding Fetch by simp
next
  case (Requeue W cl J R K n i c T)
  have "J i = None" using assms(4) unfolding Requeue by force
  then show ?thesis unfolding Requeue by simp
next
  case (Start J i W cl R K n c T)
  then show ?thesis using efforts_changes(5)[of J i JobRunning W] efforts_changes(6)[of J i JobRunning T] by simp
next
  case (Reported W cl J R K n i c st T)
  then show ?thesis using efforts_changes(3)[of i st J W] efforts_changes(4)[of i st J T] by simp
next
  case (Fail W cl J R K n i c T)
  then show ?thesis using efforts_changes(3)[of i JobFailed J W] efforts_changes(4)[of i JobFailed J T] by simp
next
  case (Recover W cl J R K n i T)
  then show ?thesis using efforts_changes(3)[of i JobFailed J W] efforts_changes(4)[of i JobFailed J T] by simp
next
  case (Graduate J i W cl R K n c st T)
  then show ?thesis using efforts_changes(1)[of J i W] efforts_changes(2)[of J i T] by simp
next
  case (Cancel_graduates J i W cl R K n c st T)
  then show ?thesis using efforts_changes(1)[of J i W] efforts_changes(2)[of J i T] by simp
next
  case (Reap_graduates J i W cl R K n T)
  then show ?thesis using efforts_changes(1)[of J i W] efforts_changes(2)[of J i T] by simp
qed (use effort_pos in \<open>auto split: if_splits\<close>)

lemma handler_enabled:
  "\<exists>\<sigma>'. submit_step (sv, add_mset (Creating j p) T) \<sigma>'" "\<exists>\<sigma>'. submit_step (sv, add_mset (Enqueuing i p) T) \<sigma>'"
  using submit_step.Create[of _ j sv] submit_step.Create_fails[of _ j sv] submit_step.Enqueue
  by (cases "Create [] j (sv_store sv)"; fastforce)+

lemma request_enabled:
  "\<exists>\<sigma>'. request_step (sv, add_mset (Canceling j) T) \<sigma>'" "\<exists>\<sigma>'. request_step (sv, add_mset (Removed i) T) \<sigma>'"
  "\<exists>\<sigma>'. request_step (sv, add_mset (Graduating j b) T) \<sigma>'" "\<exists>\<sigma>'. request_step (sv, add_mset (CancelingRunning j) T) \<sigma>'"
proof -
  show "\<exists>\<sigma>'. request_step (sv, add_mset (Canceling j) T) \<sigma>'"
    by (cases "Remove (j_ID j) (sv_queue sv)") (blast intro: request_step.Cancel_removes request_step.Cancel_misses)+
  show "\<exists>\<sigma>'. request_step (sv, add_mset (Removed i) T) \<sigma>'"
    by (cases "\<exists>j. Get i (sv_store sv) = Some j \<and> j_Status j = JobQueued") (blast intro: request_step.Removed_queued request_step.Removed_other)+
  show "\<exists>\<sigma>'. request_step (sv, add_mset (Graduating j b) T) \<sigma>'"
    by (cases "GraduateJob 0 j [] (sv_store sv)") (blast intro: request_step.Cancel_graduates request_step.Cancel_fails)+
  show "\<exists>\<sigma>'. request_step (sv, add_mset (CancelingRunning j) T) \<sigma>'"
  proof (cases "cancelJob (j_ID j) sv")
    case (Pair b sv')
    then consider "cancelJob (j_ID j) sv = (True, sv')" | "cancelJob (j_ID j) sv = (False, sv')" by (cases b) auto
    then show ?thesis by cases (rule exI, erule request_step.Batch_cancel_live, rule exI, erule request_step.Batch_cancel_stale)
  qed
qed

lemma reaper_enabled:
  "\<exists>\<sigma>'. reaper_step (sv, add_mset (Reaping j) T) \<sigma>'" "\<exists>\<sigma>'. reaper_step (sv, add_mset (Reaped j) T) \<sigma>'"
proof -
  show "\<exists>\<sigma>'. reaper_step (sv, add_mset (Reaping j) T) \<sigma>'"
    by (cases "isJobLive (j_ID j) sv") (blast intro: reaper_step.Reap_live reaper_step.Reap_dead)+
  show "\<exists>\<sigma>'. reaper_step (sv, add_mset (Reaped j) T) \<sigma>'"
    by (cases "GraduateJob 0 (abandoned_job 0 [] j) [] (sv_store sv)") (blast intro: reaper_step.Reap_graduates reaper_step.Reap_fails)+
qed

lemma worker_enabled:
  "\<exists>\<sigma>'. worker_step (sv, add_mset (Dequeued i) T) \<sigma>'" "\<exists>\<sigma>'. worker_step (sv, add_mset (Loaded j c) T) \<sigma>'"
  "\<exists>\<sigma>'. worker_step (sv, add_mset (Finished j c es) T) \<sigma>'"
proof -
  show "\<exists>\<sigma>'. worker_step (sv, add_mset (Dequeued i) T) \<sigma>'"
    by (cases "Get i (sv_store sv)") (blast intro: worker_step.Fetch_none worker_step.Fetch_skip worker_step.Fetch)+
  show "\<exists>\<sigma>'. worker_step (sv, add_mset (Loaded j c) T) \<sigma>'"
    by (cases "Update (start_job 0 j) (sv_store sv)") (blast intro: worker_step.Start worker_step.Start_fails)+
  show "\<exists>\<sigma>'. worker_step (sv, add_mset (Finished j c es) T) \<sigma>'"
    by (cases "GraduateJob 0 j es (sv_store sv)")
      (blast intro: worker_step.Graduate worker_step.Graduate_fails worker_step.Graduate_panics)+
qed

lemma worker_continues:
  "\<exists>\<sigma>'. worker_step (sv, add_mset (Fetched j) T) \<sigma>'" "\<exists>\<sigma>'. worker_step (sv, add_mset (Requeuing j c) T) \<sigma>'"
  "\<exists>\<sigma>'. worker_step (sv, add_mset (Started j c) T) \<sigma>'" "\<exists>\<sigma>'. worker_step (sv, add_mset (Reporting j c p n) T) \<sigma>'"
  "\<exists>\<sigma>'. worker_step (sv, add_mset (Ungraduated j c) T) \<sigma>'" "\<exists>\<sigma>'. worker_step (sv, add_mset (Closing i c b) T) \<sigma>'"
  "\<exists>\<sigma>'. worker_step (sv, add_mset (Unwinding j c) T) \<sigma>'" "\<exists>\<sigma>'. worker_step (sv, add_mset (Panicked j) T) \<sigma>'"
  by (blast intro: worker_step.Register worker_step.Requeue worker_step.Finish worker_step.Reported worker_step.Fail
      worker_step.Close_worker worker_step.Unwind worker_step.Recover)+

lemma thread_enabled: "\<exists>\<sigma>'. work_step (sv, add_mset t T) \<sigma>'"
proof -
  let ?s = "(sv, add_mset t T)"
  have "(\<exists>\<sigma>'. submit_step ?s \<sigma>') \<or> (\<exists>\<sigma>'. worker_step ?s \<sigma>') \<or> (\<exists>\<sigma>'. request_step ?s \<sigma>') \<or> (\<exists>\<sigma>'. reaper_step ?s \<sigma>')"
    by (cases t) (simp_all only: handler_enabled worker_enabled worker_continues request_enabled reaper_enabled simp_thms)
  then show ?thesis by (blast intro: work_step.intros)
qed

lemma queue_enabled:
  assumes "open_queue (sv_queue sv)" "waiting sv \<noteq> {#}"
  shows "\<exists>\<sigma>'. work_step (sv, T) \<sigma>'"
proof -
  obtain i q' where "dequeue_attempt (sv_queue sv) = (AttemptJob i, q')"
    using assms by (cases "normal (sv_queue sv) = []") (auto simp: open_queue_def waiting_def dequeue_attempt_def)
  then show ?thesis by (blast intro: work_step.Working worker_step.Dequeue)
qed

lemma update_ignoring_queue [simp]: "sv_queue (update_ignoring j sv) = sv_queue sv"
  by (simp add: update_ignoring_def split: sum.splits)

lemma work_keeps_open: "work_step \<sigma> \<sigma>' \<Longrightarrow> open_queue (sv_queue (fst \<sigma>)) \<Longrightarrow> open_queue (sv_queue (fst \<sigma>'))"
proof (erule work_step.cases)
  show "open_queue (sv_queue (fst \<sigma>'))" if "submit_step a b" "\<sigma> = a" "\<sigma>' = b" "open_queue (sv_queue (fst \<sigma>))" for a b
    using that by cases (auto simp: open_queue_def enqueue_ignoring_tiers)
  show "open_queue (sv_queue (fst \<sigma>'))" if "worker_step a b" "\<sigma> = a" "\<sigma>' = b" "open_queue (sv_queue (fst \<sigma>))" for a b
    using that by cases (auto simp: open_queue_def enqueue_ignoring_tiers registerCancel_def unregisterCancel_def failUngraduatedJob_def dequeue_attempt_def split: if_splits)
  show "open_queue (sv_queue (fst \<sigma>'))" if "request_step a b" "\<sigma> = a" "\<sigma>' = b" "open_queue (sv_queue (fst \<sigma>))" for a b
    using that by cases (auto simp: open_queue_def Remove_def cancelJob_def split: if_splits option.splits)
  show "open_queue (sv_queue (fst \<sigma>'))" if "reaper_step a b" "\<sigma> = a" "\<sigma>' = b" "open_queue (sv_queue (fst \<sigma>))" for a b
    using that by cases auto
qed

lemma work_run:
  assumes "(work_step ^^ n) \<sigma> \<sigma>'" "server_inv \<sigma>"
  shows "server_inv \<sigma>' \<and> n + remaining (protocol_of \<sigma>') \<le> remaining (protocol_of \<sigma>)"
  using assms
proof (induction n arbitrary: \<sigma>')
  case (Suc n)
  then obtain \<tau> where t: "(work_step ^^ n) \<sigma> \<tau>" "work_step \<tau> \<sigma>'" by auto
  have ih: "server_inv \<tau>" "n + remaining (protocol_of \<tau>) \<le> remaining (protocol_of \<sigma>)" using Suc t(1) by auto
  have p: "protocol_step True (protocol_of \<tau>) (protocol_of \<sigma>')" using work_protocol t(2) ih(1) by (auto simp: server_inv_def)
  have "remaining (protocol_of \<sigma>') < remaining (protocol_of \<tau>)"
    using work_decreases[OF p] ih(1) by (auto simp: server_inv_def)
  moreover have "server_inv \<sigma>'" using life.inv_step[OF ih(1)] sys_step.Work[OF t(2)] by blast
  ultimately show ?case using ih(2) by simp
qed auto



end
