(* ===== verification/Scheduler.thy ===== *)
theory Scheduler
  imports Submit
begin

text \<open>
  The schedule loop (\<open>server/scheduler.go\<close>): a tick fires every cohort schedule that is due. It joins the
  recurrence rules, the schedules of the store and the submission of batches. The store is the in-memory one, whose claims and counts never fail.

  \<^item> \<open>sched_env\<close> adds to the environment of a submission the time zone database, the texts of rule errors and
    whether the server is stopping at each place where the code looks.
  \<^item> A firing returns \<open>None\<close> when the search for the next occurrence does not return, which is proved not to happen.
  \<^item> Logging is left out; the outcomes counted by \<open>ObserveScheduledRun\<close> are the result of a tick.
\<close>

section \<open>Firing a schedule\<close>

datatype sched_point = BeforeFiring int | BeforeSubmit int

record sched_env =
  se_env :: env
  se_load :: "string \<Rightarrow> zone option"
  se_rule_text :: "rule_error \<Rightarrow> string"
  se_stopping :: "sched_point \<Rightarrow> bool"

definition missedRunGrace :: duration where "missedRunGrace = 3600 * second"

definition BatchOriginSchedule :: string where "BatchOriginSchedule = ''schedule''"

definition ScheduleOutcomeSubmitted :: string where "ScheduleOutcomeSubmitted = ''submitted''"
definition ScheduleOutcomeSkippedMissed :: string where "ScheduleOutcomeSkippedMissed = ''skipped_missed''"
definition ScheduleOutcomeSkippedDisabled :: string where "ScheduleOutcomeSkippedDisabled = ''skipped_disabled''"
definition ScheduleOutcomeSkippedActive :: string where "ScheduleOutcomeSkippedActive = ''skipped_active''"
definition ScheduleOutcomeSkippedEmpty :: string where "ScheduleOutcomeSkippedEmpty = ''skipped_empty''"
definition ScheduleOutcomeError :: string where "ScheduleOutcomeError = ''error''"

lemmas outcome_defs = ScheduleOutcomeSubmitted_def ScheduleOutcomeSkippedMissed_def ScheduleOutcomeSkippedDisabled_def
  ScheduleOutcomeSkippedActive_def ScheduleOutcomeSkippedEmpty_def ScheduleOutcomeError_def

definition scheduled_request :: "cohort_schedule \<Rightarrow> string \<Rightarrow> job_batch_request" where
  "scheduled_request sched sourceTag = \<lparr>bq_Domains = [], bq_FromTag = sourceTag, bq_Tests = [], bq_ProfileID = s_ProfileID sched,
     bq_ProfileOverrides = [], bq_Nameservers = None, bq_DSInfo = None, bq_MinLevel = [], bq_Tags = [], bq_Description = [],
     bq_SnapshotIntent = True, bq_PromoteSnapshotDefault = s_PromoteDefault sched\<rparr>"

definition no_submitter :: submitter where "no_submitter = \<lparr>su_IP = [], su_UserAgent = [], su_Via = []\<rparr>"

text \<open>\<open>scheduledRun\<close> returns the outcome, the id of the batch and the text of the error.\<close>

definition scheduledRun ::
  "sched_env \<Rightarrow> cohort_schedule \<Rightarrow> analysis_cohort option \<Rightarrow> gotime \<Rightarrow> server \<Rightarrow> (string \<times> string \<times> string) \<times> server" where
  "scheduledRun env sched cohort now sv =
     (if \<not> s_CatchUp sched \<and> missedRunGrace < time_sub now (s_NextRunAt sched) then ((ScheduleOutcomeSkippedMissed, [], []), sv)
      else case cohort of
        None \<Rightarrow> ((ScheduleOutcomeSkippedDisabled, [], []), sv)
      | Some c \<Rightarrow>
          if c_ID c = 0 \<or> \<not> c_AnalysisEnabled c then ((ScheduleOutcomeSkippedDisabled, [], []), sv)
          else if s_LastBatchID sched \<noteq> [] \<and> 0 < CountOutstandingJobsForBatch (s_LastBatchID sched) (sv_store sv)
          then ((ScheduleOutcomeSkippedActive, [], []), sv)
          else if se_stopping env (BeforeSubmit (s_CohortID sched)) then ((ScheduleOutcomeError, [], ''server stopping''), sv)
          else (case submitBatch (se_env env) (scheduled_request sched (c_SourceTag c)) BatchOriginSchedule no_submitter sv of
                  (Inr (batchID, ids), sv') \<Rightarrow> ((ScheduleOutcomeSubmitted, batchID, []), sv')
                | (Inl e, sv') \<Rightarrow>
                    if re_code e = ''missing_domain'' then ((ScheduleOutcomeSkippedEmpty, [], []), sv')
                    else ((ScheduleOutcomeError, [], re_message e), sv')))"

definition record_outcome :: "int \<Rightarrow> gotime \<Rightarrow> string \<times> string \<times> string \<Rightarrow> server \<Rightarrow> server" where
  "record_outcome cohortID now r sv =
     sv\<lparr>sv_store := RecordAnalysisCohortScheduleOutcome cohortID now (fst (snd r)) (fst r) (snd (snd r)) (sv_store sv)\<rparr>"

definition disableBrokenSchedule :: "sched_env \<Rightarrow> cohort_schedule \<Rightarrow> gotime \<Rightarrow> rule_error \<Rightarrow> server \<Rightarrow> string option \<times> server" where
  "disableBrokenSchedule env sched now cause sv =
     (case PutAnalysisCohortSchedule (ev_now (se_env env) (sv_idCounter sv)) (sched\<lparr>s_Enabled := False\<rparr>) (sv_store sv) of
        Inl e \<Rightarrow> (None, sv)
      | Inr (_, s') \<Rightarrow>
          (Some ScheduleOutcomeError,
           record_outcome (s_CohortID sched) now (ScheduleOutcomeError, [], se_rule_text env cause) (sv\<lparr>sv_store := s'\<rparr>)))"

definition fireSchedule :: "sched_env \<Rightarrow> cohort_schedule \<Rightarrow> gotime \<Rightarrow> server \<Rightarrow> (string option \<times> server) option" where
  "fireSchedule env sched now sv =
     (case Next (se_load env) (s_Rule sched) now of
        None \<Rightarrow> None
      | Some (Inl cause) \<Rightarrow> Some (disableBrokenSchedule env sched now cause sv)
      | Some (Inr next) \<Rightarrow>
          (case ClaimAnalysisCohortSchedule (s_CohortID sched) (s_NextRunAt sched) next (sv_store sv) of
             (False, s1) \<Rightarrow> Some (None, sv)
           | (True, s1) \<Rightarrow>
               (let cohort = GetAnalysisCohort (s_CohortID sched) s1;
                    (r, sv2) = scheduledRun env sched cohort now (sv\<lparr>sv_store := s1\<rparr>)
                in Some (Some (fst r), record_outcome (s_CohortID sched) now r sv2))))"

text \<open>\<open>runDueSchedules\<close>: the outcomes counted, with the cohort of each, and the state left.\<close>

fun fire_all :: "sched_env \<Rightarrow> cohort_schedule list \<Rightarrow> gotime \<Rightarrow> server \<Rightarrow> ((int \<times> string) list \<times> server) option" where
  "fire_all env [] now sv = Some ([], sv)"
| "fire_all env (x # xs) now sv =
     (if se_stopping env (BeforeFiring (s_CohortID x)) then Some ([], sv)
      else case fireSchedule env x now sv of
        None \<Rightarrow> None
      | Some (out, sv1) \<Rightarrow>
          map_option (\<lambda>(outs, sv2). (map (Pair (s_CohortID x)) (case out of None \<Rightarrow> [] | Some t \<Rightarrow> [t]) @ outs, sv2)) (fire_all env xs now sv1))"

definition runDueSchedules :: "sched_env \<Rightarrow> bool \<Rightarrow> gotime \<Rightarrow> server \<Rightarrow> ((int \<times> string) list \<times> server) option" where
  "runDueSchedules env schedulerEnabled now sv =
     (if \<not> schedulerEnabled then Some ([], sv)
      else fire_all env (ListDueAnalysisCohortSchedules now (sv_store sv)) now sv)"

section \<open>What a submission leaves alone\<close>

definition agenda :: "store \<Rightarrow> (int, cohort_schedule) gomap \<times> (int, analysis_cohort) gomap" where
  "agenda s = (analysisSchedules s, analysisCohorts s)"

lemma agenda_create: "create_queued ev j p sv = (r, sv') \<Longrightarrow> agenda (sv_store sv') = agenda (sv_store sv)"
  by (auto simp: create_queued_def Create_def Let_def agenda_def split: sum.splits prod.splits if_splits)

lemma agenda_domain: "get_or_create_domain ev n sv = (r, sv') \<Longrightarrow> agenda (sv_store sv') = agenda (sv_store sv)"
proof -
  assume "get_or_create_domain ev n sv = (r, sv')"
  then have "(\<exists>a m now. getOrCreateDomainLocked now m (sv_store sv) = (a, sv_store sv')) \<or> sv' = sv"
    unfolding get_or_create_domain_def GetOrCreateDomain_def by (auto split: sum.splits prod.splits list.splits) blast
  then show ?thesis using getOrCreate_fields(12,14) unfolding agenda_def by metis
qed

lemma agenda_tags: "agenda (sv_store (tag_domains ev ts is sv)) = agenda (sv_store sv)"
proof -
  have one: "agenda (fold (tag_one t) is s) = agenda s" for t s
    by (induction "is" arbitrary: s) (simp_all add: tag_one_def agenda_def)
  have "agenda (fold (\<lambda>t. TagDomains n t is) ts s) = agenda s" for n s
    by (induction ts arbitrary: s) (simp_all add: TagDomains_def one, simp_all add: agenda_def)
  then show ?thesis by (simp add: tag_domains_def)
qed

lemma agenda_newID: "newID ev p sv = (i, sv') \<Longrightarrow> sv_store sv' = sv_store sv"
  by (auto simp: newID_def Let_def)

lemma agenda_domains: "submit_domains ev mk l ds ids dids sv = (r, sv') \<Longrightarrow> agenda (sv_store sv') = agenda (sv_store sv)"
proof (induction ds arbitrary: ids dids sv)
  case (Cons d ds)
  then show ?case
    by (fastforce split: if_splits sum.splits prod.splits dest: agenda_newID agenda_create agenda_domain)
qed simp

lemma agenda_submit: "submitBatch ev req origin client sv = (r, sv') \<Longrightarrow> agenda (sv_store sv') = agenda (sv_store sv)"
proof -
  have fin: "agenda (sv_store (finish_batch ev req origin b now ts is ds v)) = agenda (sv_store v)" for b now ts "is" ds v
    using agenda_tags [of ev ts ds v] by (simp add: finish_batch_def Let_def CreateBatch_def SetSetting_def agenda_def)
  assume "submitBatch ev req origin client sv = (r, sv')"
  then show ?thesis unfolding submitBatch_def Let_def
    by (auto simp: fin split: if_split_asm sum.split_asm option.split_asm prod.split_asm dest!: agenda_newID agenda_domains)
qed

lemma agenda_run: "scheduledRun env x c now sv = (r, sv') \<Longrightarrow> agenda (sv_store sv') = agenda (sv_store sv)"
  unfolding scheduledRun_def
  by (auto split: if_split_asm option.split_asm sum.split_asm prod.split_asm dest: agenda_submit)

section \<open>One firing\<close>

definition schedules_ok :: "store \<Rightarrow> bool" where
  "schedules_ok s \<longleftrightarrow> gm_wf (analysisSchedules s) \<and>
     (\<forall>i x. gm_get (analysisSchedules s) i = Some x \<longrightarrow> s_CohortID x = i \<and> 0 < i \<and> \<not> is_zero_time (s_NextRunAt x))"

lemma schedules_okD:
  "schedules_ok s \<Longrightarrow> gm_get (analysisSchedules s) i = Some x \<Longrightarrow> s_CohortID x = i \<and> 0 < i \<and> \<not> is_zero_time (s_NextRunAt x)"
  unfolding schedules_ok_def by blast

definition zones_ok :: "sched_env \<Rightarrow> bool" where
  "zones_ok env \<longleftrightarrow> (\<forall>r z. rule_location (se_load env) r = Inr z \<longrightarrow> zone_ok z)"

text \<open>What a firing leaves of a schedule: a working rule moves on to its first occurrence after the tick, a broken one is switched off.\<close>

definition served :: "sched_env \<Rightarrow> gotime \<Rightarrow> cohort_schedule \<Rightarrow> string \<Rightarrow> cohort_schedule \<Rightarrow> bool" where
  "served env now x out x' \<longleftrightarrow> s_CohortID x' = s_CohortID x \<and> s_LastRunAt x' = now \<and> s_LastOutcome x' = out \<and>
     (if Validate (se_load env) (s_Rule x) = None
      then s_Enabled x' = s_Enabled x \<and> s_Rule x' = s_Rule x \<and>
        (\<exists>z. rule_location (se_load env) (s_Rule x) = Inr z \<and> first_after (s_Rule x) z now (s_NextRunAt x'))
      else \<not> s_Enabled x' \<and> out = ScheduleOutcomeError \<and> s_NextRunAt x' = s_NextRunAt x)"

lemma served_facts:
  assumes "served env now x out x'" "s_Enabled x"
  shows "s_CohortID x' = s_CohortID x" "\<not> (s_Enabled x' \<and> s_NextRunAt x' \<le> now)" "now < s_NextRunAt x' \<or> s_NextRunAt x' = s_NextRunAt x"
  using assms by (auto simp: served_def first_after_def split: if_splits)

lemma next_cases:
  assumes "zones_ok env"
  obtains (broken) e where "Validate (se_load env) r \<noteq> None" "Next (se_load env) r now = Some (Inl e)"
  | (working) u z where "Validate (se_load env) r = None" "rule_location (se_load env) r = Inr z" "Next (se_load env) r now = Some (Inr u)"
      "first_after r z now u"
proof (cases "Validate (se_load env) r")
  case (Some e)
  then show ?thesis using broken by (simp add: Next_def)
next
  case None
  then obtain z where z: "rule_location (se_load env) r = Inr z" using Validate_None by blast
  then show ?thesis using working None Next_first [OF None z] assms unfolding zones_ok_def by blast
qed

lemma recorded:
  assumes "gm_get (analysisSchedules (sv_store sv)) i = Some y"
  shows "analysisSchedules (sv_store (record_outcome i now r sv)) = gm_set i
    (y\<lparr>s_LastRunAt := now, s_LastOutcome := fst r, s_LastError := snd (snd r),
       s_LastBatchID := (if fst (snd r) \<noteq> [] then fst (snd r) else s_LastBatchID y)\<rparr>) (analysisSchedules (sv_store sv))"
  using assms by (simp add: record_outcome_def RecordAnalysisCohortScheduleOutcome_def)

lemma record_only_schedules:
  "jobs (sv_store (record_outcome i now r sv)) = jobs (sv_store sv)"
  "batches (sv_store (record_outcome i now r sv)) = batches (sv_store sv)"
  by (simp_all add: record_outcome_def RecordAnalysisCohortScheduleOutcome_def split: option.split)

lemma fire_working:
  assumes "Next (se_load env) (s_Rule x) now = Some (Inr u)" "gm_get (analysisSchedules (sv_store sv)) (s_CohortID x) = Some x" "s_Enabled x"
  obtains r sv2 where "scheduledRun env x (GetAnalysisCohort (s_CohortID x) (sv_store sv)) now
      (sv\<lparr>sv_store := (sv_store sv)\<lparr>analysisSchedules := gm_set (s_CohortID x) (x\<lparr>s_NextRunAt := u\<rparr>) (analysisSchedules (sv_store sv))\<rparr>\<rparr>) = (r, sv2)"
    "fireSchedule env x now sv = Some (Some (fst r), record_outcome (s_CohortID x) now r sv2)"
    "analysisSchedules (sv_store sv2) = gm_set (s_CohortID x) (x\<lparr>s_NextRunAt := u\<rparr>) (analysisSchedules (sv_store sv))"
proof -
  let ?s1 = "(sv_store sv)\<lparr>analysisSchedules := gm_set (s_CohortID x) (x\<lparr>s_NextRunAt := u\<rparr>) (analysisSchedules (sv_store sv))\<rparr>"
  obtain r sv2 where r: "scheduledRun env x (GetAnalysisCohort (s_CohortID x) (sv_store sv)) now (sv\<lparr>sv_store := ?s1\<rparr>) = (r, sv2)" by (cases "scheduledRun env x (GetAnalysisCohort (s_CohortID x) (sv_store sv)) now (sv\<lparr>sv_store := ?s1\<rparr>)") blast
  have "ClaimAnalysisCohortSchedule (s_CohortID x) (s_NextRunAt x) u (sv_store sv) = (True, ?s1)"
    using assms by (simp add: ClaimAnalysisCohortSchedule_def)
  then have "fireSchedule env x now sv = Some (Some (fst r), record_outcome (s_CohortID x) now r sv2)"
    using assms(1) r by (simp add: fireSchedule_def GetAnalysisCohort_def)
  then show ?thesis using that r agenda_run [OF r] by (simp add: agenda_def)
qed

definition moves_schedule :: "cohort_schedule \<Rightarrow> store \<Rightarrow> store \<Rightarrow> bool" where
  "moves_schedule y s s' \<longleftrightarrow> (gm_wf (analysisSchedules s) \<longrightarrow> gm_wf (analysisSchedules s')) \<and>
     (\<forall>i. gm_get (analysisSchedules s') i = (if i = s_CohortID y then Some y else gm_get (analysisSchedules s) i))"

lemma fire_broken:
  assumes "Next (se_load env) (s_Rule x) now = Some (Inl e)" "0 < s_CohortID x" "\<not> is_zero_time (s_NextRunAt x)"
  obtains sv' y where "fireSchedule env x now sv = Some (Some ScheduleOutcomeError, sv')" "moves_schedule y (sv_store sv) (sv_store sv')"
    "s_CohortID y = s_CohortID x" "\<not> s_Enabled y" "s_Rule y = Canonical (s_Rule x)" "s_NextRunAt y = s_NextRunAt x"
    "s_LastRunAt y = now" "s_LastOutcome y = ScheduleOutcomeError"
proof -
  obtain y s1 where y: "PutAnalysisCohortSchedule (ev_now (se_env env) (sv_idCounter sv)) (x\<lparr>s_Enabled := False\<rparr>) (sv_store sv) = Inr (y, s1)"
      "s1 = (sv_store sv)\<lparr>analysisSchedules := gm_set (s_CohortID x) y (analysisSchedules (sv_store sv))\<rparr>"
      "s_CohortID y = s_CohortID x" "\<not> s_Enabled y" "s_Rule y = Canonical (s_Rule x)" "s_NextRunAt y = s_NextRunAt x"
    using assms(2,3) by (cases "gm_get (analysisSchedules (sv_store sv)) (s_CohortID x)") (auto simp: PutAnalysisCohortSchedule_def Let_def)
  let ?r = "(ScheduleOutcomeError, [] :: string, se_rule_text env e)"
  let ?sv' = "record_outcome (s_CohortID x) now ?r (sv\<lparr>sv_store := s1\<rparr>)"
  let ?y = "y\<lparr>s_LastRunAt := now, s_LastOutcome := ScheduleOutcomeError, s_LastError := se_rule_text env e\<rparr>"
  have "fireSchedule env x now sv = Some (Some ScheduleOutcomeError, ?sv')"
    using assms(1) y(1) by (simp add: fireSchedule_def disableBrokenSchedule_def)
  moreover have "analysisSchedules (sv_store ?sv') = gm_set (s_CohortID x) ?y (analysisSchedules s1)"
    by (subst recorded [of _ _ y]) (simp_all add: y(2) gm.get_put)
  then have "moves_schedule ?y (sv_store sv) (sv_store ?sv')"
    by (simp add: moves_schedule_def y(2,3) gm.get_put gm.wf_put)
  ultimately show ?thesis using that [of ?sv' ?y] y by simp
qed

lemma fire_effect:
  assumes ok: "schedules_ok (sv_store sv)" and x: "gm_get (analysisSchedules (sv_store sv)) (s_CohortID x) = Some x" "s_Enabled x"
    and z: "zones_ok env"
  obtains out sv' x' where "fireSchedule env x now sv = Some (Some out, sv')" "moves_schedule x' (sv_store sv) (sv_store sv')" "served env now x out x'"
  using z
proof (cases rule: next_cases [of env "s_Rule x" now])
  case (broken e)
  have "0 < s_CohortID x" "\<not> is_zero_time (s_NextRunAt x)" using schedules_okD [OF ok x(1)] by simp_all
  from broken(2) this show ?thesis
  proof (rule fire_broken [where sv = sv])
    fix sv' y
    assume f: "fireSchedule env x now sv = Some (Some ScheduleOutcomeError, sv')" "moves_schedule y (sv_store sv) (sv_store sv')"
      and y: "s_CohortID y = s_CohortID x" "\<not> s_Enabled y" "s_NextRunAt y = s_NextRunAt x" "s_LastRunAt y = now" "s_LastOutcome y = ScheduleOutcomeError"
    then have "served env now x ScheduleOutcomeError y" using broken(1) by (auto simp: served_def)
    then show ?thesis using that f by blast
  qed
next
  case (working u z)
  show ?thesis
  proof (rule fire_working [OF working(3) x])
    fix r sv2
    let ?sv' = "record_outcome (s_CohortID x) now r sv2"
    let ?x' = "x\<lparr>s_NextRunAt := u, s_LastRunAt := now, s_LastOutcome := fst r, s_LastError := snd (snd r),
      s_LastBatchID := (if fst (snd r) \<noteq> [] then fst (snd r) else s_LastBatchID x)\<rparr>"
    assume f: "fireSchedule env x now sv = Some (Some (fst r), ?sv')"
      and a: "analysisSchedules (sv_store sv2) = gm_set (s_CohortID x) (x\<lparr>s_NextRunAt := u\<rparr>) (analysisSchedules (sv_store sv))"
    have "analysisSchedules (sv_store ?sv') = gm_set (s_CohortID x) ?x' (analysisSchedules (sv_store sv2))"
      by (subst recorded [of _ _ "x\<lparr>s_NextRunAt := u\<rparr>"]) (simp_all add: a gm.get_put)
    then have "moves_schedule ?x' (sv_store sv) (sv_store ?sv')"
      by (simp add: moves_schedule_def a gm.get_put gm.wf_put)
    moreover have "served env now x (fst r) ?x'" using working by (auto simp: served_def)
    ultimately show ?thesis using that f by blast
  qed
qed

lemma moves_ok:
  assumes "schedules_ok s" "moves_schedule x' s s'" "served env now x out x'" "gm_get (analysisSchedules s) (s_CohortID x) = Some x" "0 \<le> now" "s_Enabled x"
  shows "schedules_ok s'"
proof -
  have x: "0 < s_CohortID x" "\<not> is_zero_time (s_NextRunAt x)" using schedules_okD [OF assms(1,4)] by simp_all
  have x': "s_CohortID x' = s_CohortID x" "s_NextRunAt x' \<noteq> 0" using served_facts [OF assms(3,6)] assms(5) x by auto
  have "s_CohortID y = i \<and> 0 < i \<and> \<not> is_zero_time (s_NextRunAt y)" if "gm_get (analysisSchedules s') i = Some y" for i y
  proof (cases "i = s_CohortID x")
    case True
    then show ?thesis using that assms(2) x x' by (simp add: moves_schedule_def)
  next
    case False
    then have "gm_get (analysisSchedules s) i = Some y" using that assms(2) x' by (simp add: moves_schedule_def)
    then show ?thesis by (rule schedules_okD [OF assms(1)])
  qed
  moreover have "gm_wf (analysisSchedules s')" using assms(1,2) unfolding schedules_ok_def moves_schedule_def by blast
  ultimately show ?thesis unfolding schedules_ok_def by blast
qed

section \<open>A tick\<close>

text \<open>The schedules after the firing of a list of them: each one served, the others as they were.\<close>

definition all_served :: "sched_env \<Rightarrow> gotime \<Rightarrow> cohort_schedule list \<Rightarrow> string list \<Rightarrow> store \<Rightarrow> store \<Rightarrow> bool" where
  "all_served env now xs outs s s' \<longleftrightarrow>
     list_all2 (\<lambda>x out. \<exists>x'. gm_get (analysisSchedules s') (s_CohortID x) = Some x' \<and> served env now x out x') xs outs \<and>
     (\<forall>i. i \<notin> s_CohortID ` set xs \<longrightarrow> gm_get (analysisSchedules s') i = gm_get (analysisSchedules s) i)"

lemma all_served_Cons:
  assumes "moves_schedule x' s s1" "served env now x out x'" "s_CohortID x' = s_CohortID x" "s_CohortID x \<notin> s_CohortID ` set xs"
    and "all_served env now xs outs s1 s2"
  shows "all_served env now (x # xs) (out # outs) s s2"
proof -
  have "gm_get (analysisSchedules s2) (s_CohortID x) = Some x'" using assms(1,3,4,5) by (simp add: all_served_def moves_schedule_def)
  moreover have "gm_get (analysisSchedules s2) i = gm_get (analysisSchedules s) i" if "i \<notin> s_CohortID ` set (x # xs)" for i
    using that assms(1,3,5) by (simp add: all_served_def moves_schedule_def)
  ultimately show ?thesis using assms(2,5) by (simp add: all_served_def)
qed

lemma all_served_member:
  assumes "all_served env now xs outs s s'" "x \<in> set xs" "gm_get (analysisSchedules s') (s_CohortID x) = Some x'"
  shows "\<exists>out. served env now x out x'"
proof -
  obtain k where k: "k < length xs" "x = xs ! k" using assms(2) by (metis in_set_conv_nth)
  then have "\<exists>y. gm_get (analysisSchedules s') (s_CohortID x) = Some y \<and> served env now x (outs ! k) y"
    using assms(1) unfolding all_served_def by (simp add: list_all2_conv_all_nth)
  then show ?thesis using assms(3) by auto
qed

lemma fire_all_effect:
  assumes "schedules_ok (sv_store sv)" "zones_ok env" "0 \<le> now" "\<forall>p. \<not> se_stopping env p" "distinct (map s_CohortID xs)"
    and "\<forall>x \<in> set xs. gm_get (analysisSchedules (sv_store sv)) (s_CohortID x) = Some x \<and> s_Enabled x"
  shows "\<exists>outs sv'. fire_all env xs now sv = Some (zip (map s_CohortID xs) outs, sv') \<and> schedules_ok (sv_store sv') \<and>
    all_served env now xs outs (sv_store sv) (sv_store sv')"
  using assms(1,5,6)
proof (induction xs arbitrary: sv)
  case Nil
  then show ?case by (intro exI [of _ "[]"]) (simp add: all_served_def)
next
  case (Cons x xs)
  have x: "gm_get (analysisSchedules (sv_store sv)) (s_CohortID x) = Some x" "s_Enabled x" using Cons.prems(3) by simp_all
  obtain out sv1 x' where f: "fireSchedule env x now sv = Some (Some out, sv1)" "moves_schedule x' (sv_store sv) (sv_store sv1)" "served env now x out x'"
    by (rule fire_effect [OF Cons.prems(1) x assms(2)])
  note id = served_facts(1) [OF f(3) x(2)]
  have rest: "\<forall>y \<in> set xs. gm_get (analysisSchedules (sv_store sv1)) (s_CohortID y) = Some y \<and> s_Enabled y"
  proof
    fix y assume y: "y \<in> set xs"
    then have "s_CohortID y \<in> s_CohortID ` set xs" by simp
    then have "s_CohortID y \<noteq> s_CohortID x'" using Cons.prems(2) id by (metis distinct.simps(2) list.simps(9) set_map)
    moreover have "gm_get (analysisSchedules (sv_store sv)) (s_CohortID y) = Some y \<and> s_Enabled y"
      using Cons.prems(3) y by (meson list.set_intros(2))
    ultimately show "gm_get (analysisSchedules (sv_store sv1)) (s_CohortID y) = Some y \<and> s_Enabled y"
      using f(2) by (simp add: moves_schedule_def)
  qed
  obtain outs sv2 where o: "fire_all env xs now sv1 = Some (zip (map s_CohortID xs) outs, sv2)" "schedules_ok (sv_store sv2)"
      "all_served env now xs outs (sv_store sv1) (sv_store sv2)"
    using Cons.IH [OF moves_ok [OF Cons.prems(1) f(2,3) x(1) assms(3) x(2)] _ rest] Cons.prems(2) by auto
  have "all_served env now (x # xs) (out # outs) (sv_store sv) (sv_store sv2)"
    by (rule all_served_Cons [OF f(2,3) id _ o(3)]) (use Cons.prems(2) in simp)
  moreover have "fire_all env (x # xs) now sv = Some (zip (map s_CohortID (x # xs)) (out # outs), sv2)"
    using f(1) o(1) assms(4) by simp
  ultimately show ?case using o(2) by blast
qed

lemma distinct_map_sort_by: "distinct (map f (sort_by lt xs)) \<longleftrightarrow> distinct (map f xs)"
  by (rule mset_eq_imp_distinct_iff) simp

lemma due_facts:
  assumes "schedules_ok s"
  shows "distinct (map s_CohortID (ListDueAnalysisCohortSchedules now s))"
    and "\<And>x. x \<in> set (ListDueAnalysisCohortSchedules now s) \<longleftrightarrow>
      gm_get (analysisSchedules s) (s_CohortID x) = Some x \<and> s_Enabled x \<and> s_NextRunAt x \<le> now"
proof -
  let ?m = "analysisSchedules s"
  have wf: "gm_wf ?m" using assms by (simp add: schedules_ok_def)
  have ids: "map (s_CohortID \<circ> snd) ?m = map fst ?m"
    using schedules_okD [OF assms] gm_in_get [OF wf] by (auto intro!: map_cong)
  then have "distinct (map s_CohortID (map snd ?m))" using wf by (simp only: map_map gm_wf_def)
  then have "distinct (map s_CohortID (filter (\<lambda>x. s_Enabled x \<and> s_NextRunAt x \<le> now) (map snd ?m)))" by (rule distinct_map_filter)
  then show "distinct (map s_CohortID (ListDueAnalysisCohortSchedules now s))"
    unfolding ListDueAnalysisCohortSchedules_def by (simp only: distinct_map_sort_by)
  show "x \<in> set (ListDueAnalysisCohortSchedules now s) \<longleftrightarrow> gm_get ?m (s_CohortID x) = Some x \<and> s_Enabled x \<and> s_NextRunAt x \<le> now" for x
  proof -
    have "x \<in> snd ` set ?m \<longleftrightarrow> gm_get ?m (s_CohortID x) = Some x"
    proof
      assume "x \<in> snd ` set ?m"
      then obtain i where i: "gm_get ?m i = Some x" using gm_in_get [OF wf] by fastforce
      then show "gm_get ?m (s_CohortID x) = Some x" using schedules_okD [OF assms i] by simp
    next
      assume "gm_get ?m (s_CohortID x) = Some x"
      then show "x \<in> snd ` set ?m" by (metis gm_get_in image_eqI snd_conv)
    qed
    then show ?thesis by (auto simp: ListDueAnalysisCohortSchedules_def)
  qed
qed


section \<open>Scheduled batches\<close>

lemma run_submitted:
  assumes "scheduledRun env x cohort now sv = ((ScheduleOutcomeSubmitted, b, e), sv')"
  obtains c ids where "cohort = Some c" "c_AnalysisEnabled c" "s_CatchUp x \<or> time_sub now (s_NextRunAt x) \<le> missedRunGrace"
    "s_LastBatchID x = [] \<or> CountOutstandingJobsForBatch (s_LastBatchID x) (sv_store sv) \<le> 0"
    "submitBatch (se_env env) (scheduled_request x (c_SourceTag c)) BatchOriginSchedule no_submitter sv = (Inr (b, ids), sv')"
  using assms unfolding scheduledRun_def
  by (auto simp: outcome_defs split: if_split_asm option.split_asm sum.split_asm prod.split_asm)

lemma submitted_batch:
  assumes "submitBatch ev req origin client sv = (Inr (b, ids), sv')" "ids_ok sv"
  obtains bt where "GetBatch b (sv_store sv') = Some bt" "b_ID bt = b" "b_Origin bt = origin" "b_Tag bt = bq_FromTag req"
    "b_SnapshotIntent bt = bq_SnapshotIntent req" "0 < b_DomainCount bt" "0 < CountOutstandingJobsForBatch b (sv_store sv')" "b \<noteq> []"
  using assms(1)
proof (rule submitBatch_Inr)
  fix doms tests tagNames profile sv1 sv2 dids
  assume ne: "doms \<noteq> []" and i: "newID ev ''batch'' sv = (b, sv1)"
    and sub: "submit_domains ev (batch_job req tests profile client b (ev_now ev (sv_idCounter sv1))) (tagNames \<noteq> []) doms [] [] sv1 =
       (Inr (ids, dids), sv2)"
    and f: "sv' = finish_batch ev req origin b (ev_now ev (sv_idCounter sv1)) tagNames ids dids sv2"
  let ?mk = "batch_job req tests profile client b (ev_now ev (sv_idCounter sv1))"
  have mk: "j_ID (?mk k y) = k" for k y by (simp add: batch_job_def stamp_def)
  from submit_domains_effect [OF sub newID_fresh(5) [OF i assms(2)] mk] obtain js where js: "ids = map j_ID js" "adds_jobs PriorityBatch js sv1 sv2"
    "list_all2 (\<lambda>d j. \<exists>name p. check_domain ev d = Inr name \<and> j = (?mk (j_ID j) name)\<lparr>j_PublicID := p\<rparr>) doms js" by auto
  obtain d ds where "doms = d # ds" using ne by (cases doms) auto
  then obtain j js' name p where j: "js = j # js'" "j = (?mk (j_ID j) name)\<lparr>j_PublicID := p\<rparr>" using js(3) by (auto simp: list_all2_Cons1)
  have "j_BatchID j = b" by (subst j(2)) (simp add: batch_job_def stamp_def)
  moreover have "j_Status j = JobQueued" by (subst j(2)) (simp add: batch_job_def stamp_def)
  moreover have "(j_ID j, j) \<in> set (jobs (sv_store sv2))" using js(2) j(1) by (auto simp: adds_jobs_def intro: gm_get_in)
  then have "j \<in> snd ` set (jobs (sv_store sv2))" by (metis image_eqI snd_conv)
  ultimately have "0 < CountOutstandingJobsForBatch b (sv_store sv2)"
    unfolding CountOutstandingJobsForBatch_def of_nat_0_less_iff by (intro length_pos_if_in_set [of j]) simp
  note ff = finish_batch_frame [of ev req origin b "ev_now ev (sv_idCounter sv1)" tagNames ids dids sv2, folded f]
  have "0 < CountOutstandingJobsForBatch b (sv_store sv')" using \<open>0 < CountOutstandingJobsForBatch b (sv_store sv2)\<close>
    by (simp add: CountOutstandingJobsForBatch_def ff(1))
  moreover have "b \<noteq> []" using i by (auto simp: newID_def Let_def)
  ultimately show ?thesis using that ff(8) [of b] js(1) j(1) by (simp add: GetBatch_def)
qed

text \<open>
  C16. A schedule never overlaps itself. When a firing submits a batch, the batch of the firing before has no job left to do, the cohort
  is enabled, and the occurrence is at most an hour late unless the schedule catches up; the batch comes from the cohort's tag, is marked as
  scheduled and for a snapshot, and has jobs to do; and the schedule names it as its last batch, so that the
  next firing will wait for it in turn.
\<close>

theorem firing_never_overlaps:
  assumes "ids_ok sv" "gm_get (analysisSchedules (sv_store sv)) (s_CohortID x) = Some x" "s_Enabled x"
    and "fireSchedule env x now sv = Some (Some ScheduleOutcomeSubmitted, sv')"
  shows "(s_LastBatchID x = [] \<or> CountOutstandingJobsForBatch (s_LastBatchID x) (sv_store sv) = 0) \<and>
    (s_CatchUp x \<or> time_sub now (s_NextRunAt x) \<le> 3600 * second) \<and>
    (\<exists>c b x'. GetAnalysisCohort (s_CohortID x) (sv_store sv) = Some c \<and> c_AnalysisEnabled c \<and>
       GetBatch (b_ID b) (sv_store sv') = Some b \<and> b_Origin b = ''schedule'' \<and> b_Tag b = c_SourceTag c \<and> b_SnapshotIntent b \<and>
       0 < b_DomainCount b \<and> 0 < CountOutstandingJobsForBatch (b_ID b) (sv_store sv') \<and>
       GetAnalysisCohortSchedule (s_CohortID x) (sv_store sv') = Some x' \<and> s_LastBatchID x' = b_ID b)"
proof -
  have working: "\<exists>u. Next (se_load env) (s_Rule x) now = Some (Inr u)"
    using assms(4) by (auto simp: fireSchedule_def disableBrokenSchedule_def outcome_defs split: option.split_asm sum.split_asm prod.split_asm)
  then obtain u where u: "Next (se_load env) (s_Rule x) now = Some (Inr u)" by blast
  let ?sv1 = "sv\<lparr>sv_store := (sv_store sv)\<lparr>analysisSchedules := gm_set (s_CohortID x) (x\<lparr>s_NextRunAt := u\<rparr>) (analysisSchedules (sv_store sv))\<rparr>\<rparr>"
  show ?thesis
  proof (rule fire_working [OF u assms(2,3)])
    fix r sv2
    assume run: "scheduledRun env x (GetAnalysisCohort (s_CohortID x) (sv_store sv)) now ?sv1 = (r, sv2)"
      and f: "fireSchedule env x now sv = Some (Some (fst r), record_outcome (s_CohortID x) now r sv2)"
      and a: "analysisSchedules (sv_store sv2) = gm_set (s_CohortID x) (x\<lparr>s_NextRunAt := u\<rparr>) (analysisSchedules (sv_store sv))"
    obtain b e where r: "r = (ScheduleOutcomeSubmitted, b, e)" and sv': "sv' = record_outcome (s_CohortID x) now r sv2"
      using f assms(4) by (cases r) auto
    obtain c ids where c: "GetAnalysisCohort (s_CohortID x) (sv_store sv) = Some c" "c_AnalysisEnabled c"
        "s_CatchUp x \<or> time_sub now (s_NextRunAt x) \<le> missedRunGrace"
        "s_LastBatchID x = [] \<or> CountOutstandingJobsForBatch (s_LastBatchID x) (sv_store ?sv1) \<le> 0"
        "submitBatch (se_env env) (scheduled_request x (c_SourceTag c)) BatchOriginSchedule no_submitter ?sv1 = (Inr (b, ids), sv2)"
      using run unfolding r by (rule run_submitted) blast
    have ok1: "ids_ok ?sv1" using assms(1) by (simp add: ids_ok_def known_ids_def)
    obtain bt where bt: "GetBatch b (sv_store sv2) = Some bt" "b_ID bt = b" "b_Origin bt = ''schedule''" "b_Tag bt = c_SourceTag c"
        "b_SnapshotIntent bt" "0 < b_DomainCount bt" "0 < CountOutstandingJobsForBatch b (sv_store sv2)" "b \<noteq> []"
      by (rule submitted_batch [OF c(5) ok1]) (simp add: BatchOriginSchedule_def scheduled_request_def)
    have same: "GetBatch b (sv_store sv') = GetBatch b (sv_store sv2)" "CountOutstandingJobsForBatch b (sv_store sv') = CountOutstandingJobsForBatch b (sv_store sv2)"
      by (simp_all add: sv' GetBatch_def CountOutstandingJobsForBatch_def record_only_schedules)
    have last: "\<exists>x'. GetAnalysisCohortSchedule (s_CohortID x) (sv_store sv') = Some x' \<and> s_LastBatchID x' = b"
      unfolding sv' GetAnalysisCohortSchedule_def by (subst recorded [of _ _ "x\<lparr>s_NextRunAt := u\<rparr>"]) (simp_all add: a gm.get_put r bt(8))
    have "CountOutstandingJobsForBatch l (sv_store ?sv1) = CountOutstandingJobsForBatch l (sv_store sv)" "0 \<le> CountOutstandingJobsForBatch l (sv_store sv)" for l
      by (simp_all add: CountOutstandingJobsForBatch_def)
    then have "s_LastBatchID x = [] \<or> CountOutstandingJobsForBatch (s_LastBatchID x) (sv_store sv) = 0" using c(4) by (metis nle_le)
    then show ?thesis using c(1-3) bt same last unfolding missedRunGrace_def by metis
  qed
qed

text \<open>
  Switching off a broken schedule writes back the row that the tick listed, without the comparison that a claim
  makes: a correction stored between the listing and the firing is overwritten with the broken rule.
\<close>

theorem broken_schedule_overwrites_fix:
  assumes "Next (se_load env) (s_Rule listed) now = Some (Inl e)" "0 < s_CohortID listed" "\<not> is_zero_time (s_NextRunAt listed)"
  shows "\<exists>out sv' y. fireSchedule env listed now sv = Some (out, sv') \<and>
    GetAnalysisCohortSchedule (s_CohortID listed) (sv_store sv') = Some y \<and> \<not> s_Enabled y \<and> s_Rule y = Canonical (s_Rule listed)"
  using assms
proof (rule fire_broken [where sv = sv])
  fix sv' y
  assume "fireSchedule env listed now sv = Some (Some ScheduleOutcomeError, sv')" "moves_schedule y (sv_store sv) (sv_store sv')"
    "s_CohortID y = s_CohortID listed" "\<not> s_Enabled y" "s_Rule y = Canonical (s_Rule listed)"
  then show ?thesis by (auto simp: moves_schedule_def GetAnalysisCohortSchedule_def)
qed

section \<open>Witnesses\<close>

definition sample_sched_env :: sched_env where
  "sample_sched_env = \<lparr>se_env = sample_env, se_load = (\<lambda>n. if n = ''UTC'' then Some utc_zone else None), se_rule_text = (\<lambda>_. []), se_stopping = (\<lambda>_. False)\<rparr>"

definition sample_cohort :: analysis_cohort where
  "sample_cohort = \<lparr>c_ID = 0, c_SourceType = ''tag'', c_SourceTag = ''se'', c_Label = [], c_Description = [], c_AnalysisEnabled = True,
     c_PublicEnabled = False, c_IsDefault = False, c_SortOrder = 0, c_MaterializationStatus = [], c_MaterializationDone = 0,
     c_MaterializationTotal = 0, c_LastMaterializedAt = 0, c_LastMaterializationError = [], c_DefaultSnapshotPolicy = [],
     c_DefaultSnapshotID = None, c_TagViewMinLevel = [], c_ReferenceList = [], c_CreatedAt = 0, c_UpdatedAt = 0\<rparr>"

definition weekly_sample :: cohort_schedule where
  "weekly_sample = due_sample\<lparr>s_Rule := daily_rule\<lparr>Kind := KindWeekly, Weekdays := 2\<rparr>, s_ProfileID := None\<rparr>"

definition scheduled_store :: store where
  "scheduled_store =
     (let s = TagDomains 1 ''se'' [1] (snd (getOrCreateDomainLocked 1 ''example.org'' NewInMemoryJobStore));
          s = (case UpsertAnalysisCohort 2 sample_cohort s of Inr (_, s') \<Rightarrow> s' | Inl _ \<Rightarrow> s)
      in case PutAnalysisCohortSchedule 3 weekly_sample s of Inr (_, s') \<Rightarrow> s' | Inl _ \<Rightarrow> s)"

definition scheduled_server :: server where
  "scheduled_server = NewServer\<lparr>sv_store := scheduled_store\<rparr>"

definition listed_sample :: cohort_schedule where
  "listed_sample = hd (ListDueAnalysisCohortSchedules 12 scheduled_store)"

lemma sample_zones: "zones_ok sample_sched_env"
  by (auto simp: zones_ok_def sample_sched_env_def rule_location_def zone_ok_def utc_zone_def split: if_splits)

lemma scheduled_store_ok:
  "map fst (analysisSchedules scheduled_store) = [1]" "s_CohortID (snd (hd (analysisSchedules scheduled_store))) = 1"
  "s_NextRunAt (snd (hd (analysisSchedules scheduled_store))) = 10"
  by (code_simp, code_simp, code_simp)

lemma sample_schedules_ok: "schedules_ok (sv_store scheduled_server)"
proof -
  obtain x where "analysisSchedules scheduled_store = [(1, x)]" "s_CohortID x = 1" "s_NextRunAt x = 10"
    using scheduled_store_ok by (auto simp: map_eq_Cons_conv)
  then show ?thesis by (simp add: schedules_ok_def scheduled_server_def gm_wf_def gm_get_def)
qed

lemma listed_sample_facts:
  "map s_CohortID (ListDueAnalysisCohortSchedules 12 scheduled_store) = [1]"
  "map_option fst (fireSchedule sample_sched_env listed_sample 12 scheduled_server) = Some (Some ScheduleOutcomeSubmitted)"
  by (code_simp, code_simp)


theorem firing_never_overlaps_witness:
  "\<exists>sv' c b. fireSchedule sample_sched_env listed_sample 12 scheduled_server = Some (Some ScheduleOutcomeSubmitted, sv') \<and>
     GetAnalysisCohort (s_CohortID listed_sample) scheduled_store = Some c \<and> GetBatch (b_ID b) (sv_store sv') = Some b \<and>
     b_Tag b = c_SourceTag c \<and> 0 < CountOutstandingJobsForBatch (b_ID b) (sv_store sv')"
proof -
  obtain sv' where f: "fireSchedule sample_sched_env listed_sample 12 scheduled_server = Some (Some ScheduleOutcomeSubmitted, sv')"
    using listed_sample_facts(2) by auto
  have "listed_sample \<in> set (ListDueAnalysisCohortSchedules 12 (sv_store scheduled_server))"
    using listed_sample_facts(1) by (auto simp: listed_sample_def scheduled_server_def map_eq_Cons_conv)
  then have x: "gm_get (analysisSchedules (sv_store scheduled_server)) (s_CohortID listed_sample) = Some listed_sample" "s_Enabled listed_sample"
    using due_facts(2) [OF sample_schedules_ok] by blast+
  have "jobs scheduled_store = []" "runs scheduled_store = []" by (code_simp, code_simp)
  then have "ids_ok scheduled_server" by (simp add: ids_ok_def known_ids_def scheduled_server_def NewServer_def NewInMemoryQueue_def gm_has_def)
  then show ?thesis using firing_never_overlaps [OF _ x f] f by (auto simp: scheduled_server_def)
qed

end
