(* ===== verification/Message.thy ===== *)
theory Message
  imports AddressPolicy
begin

text \<open>
  DNS messages as the engine handles them (\<open>engine/packet\<close>, \<open>engine/ednsopt\<close>): the fields of the
  library's message type that the sources read and write, the packet around it, and the bit layout of the OPT pseudo-record.
  The lemmas show that the fields of an OPT record are independent of each other and that
  \<open>ApplyExplicit\<close> moves every EDNS setting of a message into one OPT record.
\<close>

unbundle bit_operations_syntax

section \<open>Records and messages\<close>

text \<open>
  An OPT record keeps the payload size in its class and the flags in its TTL; an EDNS option is its text. Of the other
  pseudo-records (TSIG, SIG0) only their presence matters. A logger is an index.
\<close>

record opt_rr =
  opt_Class :: "16 word"
  opt_TTL :: "32 word"
  opt_Options :: "string list"

datatype rr =
    RR_NS (rr_owner: string) string
  | RR_A (rr_owner: string) ip_addr
  | RR_AAAA (rr_owner: string) ip_addr
  | RR_DS (rr_owner: string) "16 word" "8 word" "8 word" string
  | RR_other (rr_owner: string) string
  | RR_OPT opt_rr

datatype pseudo = EDNS0 string | OtherPseudo string

record dns_msg =
  m_Response :: bool
  m_Authoritative :: bool
  m_Truncated :: bool
  m_RecursionDesired :: bool
  m_CheckingDisabled :: bool
  m_Question :: "(string \<times> string \<times> string) list"
  m_Answer :: "rr list"
  m_Ns :: "rr list"
  m_Extra :: "rr list"
  m_Pseudo :: "pseudo list"
  m_UDPSize :: "16 word"
  m_Security :: bool
  m_CompactAnswers :: bool
  m_Delegation :: bool
  m_Version :: "8 word"
  m_Rcode :: "16 word"
  m_Z :: "16 word"

definition new_msg :: dns_msg where
  "new_msg = \<lparr>m_Response = False, m_Authoritative = False, m_Truncated = False, m_RecursionDesired = False,
     m_CheckingDisabled = False, m_Question = [], m_Answer = [], m_Ns = [], m_Extra = [], m_Pseudo = [], m_UDPSize = 0,
     m_Security = False, m_CompactAnswers = False, m_Delegation = False, m_Version = 0, m_Rcode = 0, m_Z = 0\<rparr>"

record packet =
  p_Msg :: "dns_msg option"
  p_AnswerFrom :: string
  p_QueryTime :: duration
  p_Timestamp :: gotime
  p_Protocol :: string
  p_Log :: "nat option"

definition noPacket :: packet where
  "noPacket = \<lparr>p_Msg = None, p_AnswerFrom = [], p_QueryTime = 0, p_Timestamp = 0, p_Protocol = [], p_Log = None\<rparr>"

section \<open>The OPT header\<close>

definition flagDO :: "32 word" where "flagDO = push_bit 15 1"
definition FlagCO :: "32 word" where "FlagCO = push_bit 14 1"
definition FlagDE :: "32 word" where "FlagDE = push_bit 13 1"

definition maskRcode :: "32 word" where "maskRcode = 0xFF000000"
definition maskVersion :: "32 word" where "maskVersion = 0x00FF0000"
definition maskZ :: "32 word" where "maskZ = 0x1FFF"

definition opt_UDPSize :: "opt_rr \<Rightarrow> 16 word" where
  "opt_UDPSize r = opt_Class r"

definition SetUDPSize :: "16 word \<Rightarrow> opt_rr \<Rightarrow> opt_rr" where
  "SetUDPSize sz r = r\<lparr>opt_Class := sz\<rparr>"

definition opt_Version :: "opt_rr \<Rightarrow> 8 word" where
  "opt_Version r = ucast (drop_bit 16 (opt_TTL r AND maskVersion))"

definition SetVersion :: "8 word \<Rightarrow> opt_rr \<Rightarrow> opt_rr" where
  "SetVersion v r = r\<lparr>opt_TTL := (opt_TTL r AND NOT maskVersion) OR push_bit 16 (ucast v)\<rparr>"

definition opt_Rcode :: "opt_rr \<Rightarrow> 16 word" where
  "opt_Rcode r = push_bit 4 (ucast (drop_bit 24 (opt_TTL r AND maskRcode)))"

definition SetRcode :: "16 word \<Rightarrow> opt_rr \<Rightarrow> opt_rr" where
  "SetRcode v r = r\<lparr>opt_TTL := (opt_TTL r AND NOT maskRcode) OR push_bit 24 (ucast (drop_bit 4 v))\<rparr>"

definition opt_Z :: "opt_rr \<Rightarrow> 16 word" where
  "opt_Z r = ucast (opt_TTL r AND maskZ)"

definition SetZ :: "16 word \<Rightarrow> opt_rr \<Rightarrow> opt_rr" where
  "SetZ z r = r\<lparr>opt_TTL := (opt_TTL r AND NOT maskZ) OR ucast (z AND ucast maskZ)\<rparr>"

definition setFlag :: "32 word \<Rightarrow> bool \<Rightarrow> opt_rr \<Rightarrow> opt_rr" where
  "setFlag b v r = (if v then r\<lparr>opt_TTL := opt_TTL r OR b\<rparr> else r\<lparr>opt_TTL := opt_TTL r AND NOT b\<rparr>)"

definition opt_Security :: "opt_rr \<Rightarrow> bool" where
  "opt_Security r \<longleftrightarrow> opt_TTL r AND flagDO = flagDO"

definition SetSecurity :: "bool \<Rightarrow> opt_rr \<Rightarrow> opt_rr" where
  "SetSecurity v r = setFlag flagDO v r"

definition opt_CompactAnswers :: "opt_rr \<Rightarrow> bool" where
  "opt_CompactAnswers r \<longleftrightarrow> opt_TTL r AND FlagCO = FlagCO"

definition SetCompactAnswers :: "bool \<Rightarrow> opt_rr \<Rightarrow> opt_rr" where
  "SetCompactAnswers v r = setFlag FlagCO v r"

definition opt_Delegation :: "opt_rr \<Rightarrow> bool" where
  "opt_Delegation r \<longleftrightarrow> opt_TTL r AND FlagDE = FlagDE"

definition SetDelegation :: "bool \<Rightarrow> opt_rr \<Rightarrow> opt_rr" where
  "SetDelegation v r = setFlag FlagDE v r"

section \<open>An explicit OPT record\<close>

definition MinMsgSize :: "16 word" where "MinMsgSize = 512"

fun pseudo_options :: "pseudo list \<Rightarrow> string list option" where
  "pseudo_options [] = Some []"
| "pseudo_options (EDNS0 x # ps) = map_option ((#) x) (pseudo_options ps)"
| "pseudo_options (OtherPseudo _ # ps) = None"

fun is_OPT :: "rr \<Rightarrow> bool" where
  "is_OPT (RR_OPT _) = True"
| "is_OPT _ = False"

definition ApplyExplicit :: "16 word option \<Rightarrow> dns_msg \<Rightarrow> dns_msg" where
  "ApplyExplicit z msg =
     (case pseudo_options (m_Pseudo msg) of
        None \<Rightarrow> msg
      | Some os \<Rightarrow>
          (let co = (m_CompactAnswers msg \<or> (case z of None \<Rightarrow> False | Some w \<Rightarrow> w AND ucast FlagCO \<noteq> 0));
               de = (m_Delegation msg \<or> (case z of None \<Rightarrow> False | Some w \<Rightarrow> w AND ucast FlagDE \<noteq> 0));
               zValue = (case z of None \<Rightarrow> m_Z msg | Some w \<Rightarrow> w);
               r = SetZ zValue (SetRcode (m_Rcode msg) (SetDelegation de (SetCompactAnswers co
                     (SetSecurity (m_Security msg) (SetVersion (m_Version msg)
                       (SetUDPSize (max (m_UDPSize msg) MinMsgSize) \<lparr>opt_Class = 0, opt_TTL = 0, opt_Options = os\<rparr>))))))
           in msg\<lparr>m_Extra := filter (\<lambda>x. \<not> is_OPT x) (m_Extra msg) @ [RR_OPT r],
                  m_Pseudo := [], m_UDPSize := 0, m_Security := False, m_CompactAnswers := False, m_Delegation := False,
                  m_Version := 0, m_Rcode := m_Rcode msg AND 0xF, m_Z := 0\<rparr>))"

section \<open>Fields are independent\<close>

lemma mask_shapes:
  "maskRcode = push_bit 24 (mask 8)" "maskVersion = push_bit 16 (mask 8)" "maskZ = mask 13"
  by (simp_all add: maskRcode_def maskVersion_def maskZ_def mask_eq_exp_minus_1)

lemma word_eq_bits: "(a :: 'a :: len word) = b \<longleftrightarrow> (\<forall>n < LENGTH('a). bit a n \<longleftrightarrow> bit b n)"
  by (auto intro: bit_word_eqI)

lemma flag_test: "k < LENGTH('a) \<Longrightarrow> (w :: 'a :: len word) AND push_bit k 1 = push_bit k 1 \<longleftrightarrow> bit w k"
  by (auto simp: word_eq_bits bit_simps)

lemma flag_any: "(w :: 'a :: len word) AND push_bit k 1 \<noteq> 0 \<longleftrightarrow> bit w k"
  by (auto simp: word_eq_bits bit_simps dest: bit_imp_le_length)

lemma bit_setFlag: "k < 32 \<Longrightarrow> bit (opt_TTL (setFlag (push_bit k 1) v r)) n \<longleftrightarrow> (if n = k then v else bit (opt_TTL r) n)"
  by (auto simp: setFlag_def bit_simps dest: bit_imp_le_length)

lemma bit_SetVersion:
  "bit (opt_TTL (SetVersion v r)) n \<longleftrightarrow> (if 16 \<le> n \<and> n < 24 then bit v (n - 16) else bit (opt_TTL r) n)"
  by (auto simp: SetVersion_def mask_shapes bit_simps dest: bit_imp_le_length)

lemma bit_SetRcode:
  "bit (opt_TTL (SetRcode v r)) n \<longleftrightarrow> (if 24 \<le> n \<and> n < 32 then bit v (n - 20) else bit (opt_TTL r) n)"
  by (auto simp: SetRcode_def mask_shapes bit_simps dest: bit_imp_le_length)

lemma bit_SetZ: "bit (opt_TTL (SetZ z r)) n \<longleftrightarrow> (if n < 13 then bit z n else bit (opt_TTL r) n)"
  by (auto simp: SetZ_def mask_shapes bit_simps dest: bit_imp_le_length)

lemma bit_flags:
  "bit (opt_TTL (SetSecurity v r)) n \<longleftrightarrow> (if n = 15 then v else bit (opt_TTL r) n)"
  "bit (opt_TTL (SetCompactAnswers v r)) n \<longleftrightarrow> (if n = 14 then v else bit (opt_TTL r) n)"
  "bit (opt_TTL (SetDelegation v r)) n \<longleftrightarrow> (if n = 13 then v else bit (opt_TTL r) n)"
  unfolding SetSecurity_def SetCompactAnswers_def SetDelegation_def flagDO_def FlagCO_def FlagDE_def
  by (simp_all only: bit_setFlag numeral_less_iff less_num_simps)

lemma bit_UDPSize: "opt_TTL (SetUDPSize v r) = opt_TTL r" by (simp add: SetUDPSize_def)

lemmas set_bits = bit_SetVersion bit_SetRcode bit_SetZ bit_flags bit_UDPSize

lemma read_bits:
  "bit (opt_Version r) n \<longleftrightarrow> n < 8 \<and> bit (opt_TTL r) (16 + n)"
  "bit (opt_Rcode r) n \<longleftrightarrow> 4 \<le> n \<and> n < 12 \<and> bit (opt_TTL r) (20 + n)"
  "bit (opt_Z r) n \<longleftrightarrow> n < 13 \<and> bit (opt_TTL r) n"
proof -
  have "bit (opt_Rcode r) n \<longleftrightarrow> 4 \<le> n \<and> n < 16 \<and> bit (opt_TTL r) (24 + (n - 4)) \<and> n - 4 < 8"
    unfolding opt_Rcode_def mask_shapes by (auto simp: bit_simps)
  then show "bit (opt_Rcode r) n \<longleftrightarrow> 4 \<le> n \<and> n < 12 \<and> bit (opt_TTL r) (20 + n)"
    by (cases "4 \<le> n") auto
qed (auto simp: opt_Version_def opt_Z_def mask_shapes bit_simps)

lemma read_flags:
  "opt_Security r \<longleftrightarrow> bit (opt_TTL r) 15" "opt_CompactAnswers r \<longleftrightarrow> bit (opt_TTL r) 14"
  "opt_Delegation r \<longleftrightarrow> bit (opt_TTL r) 13"
  unfolding opt_Security_def opt_CompactAnswers_def opt_Delegation_def flagDO_def FlagCO_def FlagDE_def
  by (rule flag_test, simp)+

text \<open>
  C32. \<open>ApplyExplicit\<close> puts every EDNS setting of a message into one OPT record that reads them back unmixed:
  the payload size (at least 512), the version, the three flags, the low 13 bits of \<open>Z\<close>, the options in
  order, and with the four header bits the low 12 bits of the response code; other additional records stay, any
  OPT that was there is gone, and nothing is left for the library to build a second one from. A message with another
  pseudo-record is left alone.
\<close>

theorem explicit_opt_reads_back:
  "case pseudo_options (m_Pseudo msg) of
     None \<Rightarrow> ApplyExplicit z msg = msg
   | Some os \<Rightarrow>
       \<exists>r. m_Extra (ApplyExplicit z msg) = filter (\<lambda>x. \<not> is_OPT x) (m_Extra msg) @ [RR_OPT r] \<and>
         opt_UDPSize r = max (m_UDPSize msg) 512 \<and> opt_Version r = m_Version msg \<and> opt_Security r = m_Security msg \<and>
         opt_CompactAnswers r = (m_CompactAnswers msg \<or> (\<exists>w. z = Some w \<and> bit w 14)) \<and>
         opt_Delegation r = (m_Delegation msg \<or> (\<exists>w. z = Some w \<and> bit w 13)) \<and>
         opt_Z r = take_bit 13 (case z of None \<Rightarrow> m_Z msg | Some w \<Rightarrow> w) \<and> opt_Options r = os \<and>
         opt_Rcode r OR m_Rcode (ApplyExplicit z msg) = take_bit 12 (m_Rcode msg) \<and>
         m_Pseudo (ApplyExplicit z msg) = [] \<and> m_UDPSize (ApplyExplicit z msg) = 0 \<and> m_Version (ApplyExplicit z msg) = 0 \<and>
         m_Z (ApplyExplicit z msg) = 0 \<and> \<not> m_Security (ApplyExplicit z msg) \<and> \<not> m_CompactAnswers (ApplyExplicit z msg) \<and>
         \<not> m_Delegation (ApplyExplicit z msg)"
proof (cases "pseudo_options (m_Pseudo msg)")
  case None
  then show ?thesis by (simp add: ApplyExplicit_def)
next
  case (Some os)
  define co where "co = (m_CompactAnswers msg \<or> (\<exists>w. z = Some w \<and> bit w 14))"
  define de where "de = (m_Delegation msg \<or> (\<exists>w. z = Some w \<and> bit w 13))"
  define zv where "zv = (case z of None \<Rightarrow> m_Z msg | Some w \<Rightarrow> w)"
  define r where "r = SetZ zv (SetRcode (m_Rcode msg) (SetDelegation de (SetCompactAnswers co
      (SetSecurity (m_Security msg) (SetVersion (m_Version msg)
        (SetUDPSize (max (m_UDPSize msg) MinMsgSize) \<lparr>opt_Class = 0, opt_TTL = 0, opt_Options = os\<rparr>))))))"
  have flags: "ucast FlagCO = (push_bit 14 1 :: 16 word)" "ucast FlagDE = (push_bit 13 1 :: 16 word)"
    by (simp_all add: FlagCO_def FlagDE_def)
  have co: "(m_CompactAnswers msg \<or> (case z of None \<Rightarrow> False | Some w \<Rightarrow> w AND ucast FlagCO \<noteq> 0)) = co"
    unfolding flags flag_any co_def by (cases z) auto
  have de: "(m_Delegation msg \<or> (case z of None \<Rightarrow> False | Some w \<Rightarrow> w AND ucast FlagDE \<noteq> 0)) = de"
    unfolding flags flag_any de_def by (cases z) auto
  have msg': "ApplyExplicit z msg = msg\<lparr>m_Extra := filter (\<lambda>x. \<not> is_OPT x) (m_Extra msg) @ [RR_OPT r],
      m_Pseudo := [], m_UDPSize := 0, m_Security := False, m_CompactAnswers := False, m_Delegation := False,
      m_Version := 0, m_Rcode := m_Rcode msg AND 0xF, m_Z := 0\<rparr>"
    unfolding ApplyExplicit_def Some option.case Let_def co de zv_def [symmetric] r_def [symmetric] ..
  have bits: "bit (opt_TTL r) n = (if n < 13 then bit zv n else if 24 \<le> n \<and> n < 32 then bit (m_Rcode msg) (n - 20)
      else if n = 13 then de else if n = 14 then co else if n = 15 then m_Security msg
      else if 16 \<le> n \<and> n < 24 then bit (m_Version msg) (n - 16) else False)" for n
    by (auto simp: r_def set_bits)
  have size: "opt_UDPSize r = max (m_UDPSize msg) 512" "opt_Options r = os"
    by (simp_all add: r_def opt_UDPSize_def SetUDPSize_def SetVersion_def SetSecurity_def SetCompactAnswers_def
        SetDelegation_def setFlag_def SetRcode_def SetZ_def MinMsgSize_def)
  have four: "(0xF :: 16 word) = mask 4" by (simp add: mask_eq_exp_minus_1)
  have "opt_Version r = m_Version msg" "opt_Z r = take_bit 13 zv"
    by (auto simp: word_eq_bits read_bits bits bit_take_bit_iff)
  moreover have "opt_Rcode r OR (m_Rcode msg AND 0xF) = take_bit 12 (m_Rcode msg)"
    unfolding four by (auto simp: word_eq_bits read_bits bits bit_simps)
  moreover have "opt_Security r = m_Security msg" "opt_CompactAnswers r = co" "opt_Delegation r = de"
    by (simp_all add: read_flags bits)
  ultimately show ?thesis using size unfolding msg' Some option.case co_def de_def zv_def by (intro exI [of _ r]) simp
qed

end
