(* ===== verification/NSCache.thy ===== *)
theory NSCache
  imports Message
begin

text \<open>
  The state a run keeps about the nameservers it queries (\<open>engine/nameserver/state.go\<close>, \<open>reachability.go\<close>,
  \<open>fast_fail.go\<close>, \<open>latency_budget.go\<close>, \<open>limits.go\<close>): the bounded answer cache of an address, the cache of failed
  queries, the blackout of unreachable addresses, the two trackers that give up on slow
  servers, and the fan-out limits of a run.

  \<^item> A \<open>*cacheMetrics\<close> is an index into a heap of counters, since several caches count into one store and a shared cache
    counts into several. Counters are unbounded.
  \<^item> Every operation that reads the clock takes the reading \<open>now\<close>.
  \<^item> The lemmas show that the answer cache is a FIFO of its newest entries, that blackouts need two
    strikes, and that no table of a run grows without bound.
\<close>

named_theorems ns_defs "operations on the state of a nameserver, for evaluation"

section \<open>Counters\<close>

record cacheMetrics =
  cm_hits :: nat
  cm_misses :: nat
  cm_evictions :: nat

type_synonym counters = "nat \<Rightarrow> cacheMetrics"

definition metrics_hit :: "cacheMetrics \<Rightarrow> cacheMetrics" where
  "metrics_hit m = m\<lparr>cm_hits := cm_hits m + 1\<rparr>"

definition metrics_miss :: "cacheMetrics \<Rightarrow> cacheMetrics" where
  "metrics_miss m = m\<lparr>cm_misses := cm_misses m + 1\<rparr>"

definition metrics_evict :: "nat \<Rightarrow> cacheMetrics \<Rightarrow> cacheMetrics" where
  "metrics_evict n m = m\<lparr>cm_evictions := cm_evictions m + n\<rparr>"

definition metrics_zero :: cacheMetrics where
  "metrics_zero = \<lparr>cm_hits = 0, cm_misses = 0, cm_evictions = 0\<rparr>"

text \<open>
  \<open>observeHitLocked\<close>, \<open>observeMissLocked\<close> and \<open>observeEvictLocked\<close> apply one update to the owner's counter and
  to those of the observers.
\<close>

definition observe :: "(cacheMetrics \<Rightarrow> cacheMetrics) \<Rightarrow> nat option \<Rightarrow> nat list \<Rightarrow> counters \<Rightarrow> counters" where
  "observe f owner observers h =
     fold (\<lambda>i g. g(i := f (g i))) (case owner of None \<Rightarrow> observers | Some i \<Rightarrow> i # observers) h"

section \<open>The answer cache of an address\<close>

definition QueryCacheMaxEntries :: nat where "QueryCacheMaxEntries = 256"

text \<open>
  \<open>nil\<close> as a cached value records that a query got no answer. \<open>qc_inflight\<close> maps a key to the entry of
  the query that is under way; the entries are objects of their own, named by an index.
\<close>

record query_cache =
  qc_data :: "(string, packet option) gomap"
  qc_order :: "string list"
  qc_met :: "nat option"
  qc_inflight :: "(string, nat) gomap"
  qc_observers :: "nat list"

definition new_query_cache :: "nat option \<Rightarrow> query_cache" where
  "new_query_cache met = \<lparr>qc_data = [], qc_order = [], qc_met = met, qc_inflight = [], qc_observers = []\<rparr>"

definition qc_observe :: "(cacheMetrics \<Rightarrow> cacheMetrics) \<Rightarrow> query_cache \<Rightarrow> counters \<Rightarrow> counters" where
  "qc_observe f c h = observe f (qc_met c) (qc_observers c) h"

definition queryCache_get :: "string \<Rightarrow> query_cache \<Rightarrow> counters \<Rightarrow> packet option option \<times> counters" where
  "queryCache_get key c h =
     (case gm_get (qc_data c) key of
        Some v \<Rightarrow> (Some v, qc_observe metrics_hit c h)
      | None \<Rightarrow> (None, qc_observe metrics_miss c h))"

definition queryCache_set :: "string \<Rightarrow> packet option \<Rightarrow> query_cache \<Rightarrow> counters \<Rightarrow> query_cache \<times> counters" where
  "queryCache_set key value c h =
     (let order = (if gm_has (qc_data c) key then qc_order c else qc_order c @ [key]);
          data = gm_set key value (qc_data c);
          n = length data - QueryCacheMaxEntries
      in if QueryCacheMaxEntries < length data
         then (c\<lparr>qc_data := fold gm_del (take n order) data, qc_order := drop n order\<rparr>,
               qc_observe (metrics_evict n) c h)
         else (c\<lparr>qc_data := data, qc_order := order\<rparr>, h))"

definition queryCache_clearData :: "query_cache \<Rightarrow> counters \<Rightarrow> query_cache \<times> counters" where
  "queryCache_clearData c h =
     (c\<lparr>qc_data := [], qc_order := []\<rparr>, qc_observe (metrics_evict (length (qc_data c))) c h)"

definition queryCache_clear :: "query_cache \<Rightarrow> counters \<Rightarrow> query_cache \<times> counters" where
  "queryCache_clear c h =
     (c\<lparr>qc_data := [], qc_order := [], qc_inflight := []\<rparr>, qc_observe (metrics_evict (length (qc_data c))) c h)"

definition queryCache_addObserver :: "nat \<Rightarrow> query_cache \<Rightarrow> query_cache" where
  "queryCache_addObserver m c = c\<lparr>qc_observers := List.insert m (qc_observers c)\<rparr>"

definition queryCache_removeObserver :: "nat \<Rightarrow> query_cache \<Rightarrow> query_cache" where
  "queryCache_removeObserver m c = c\<lparr>qc_observers := removeAll m (qc_observers c)\<rparr>"

section \<open>The cache of failed queries\<close>

record error_cache =
  ec_data :: "(string, gotime) gomap"
  ec_met :: "nat option"
  ec_observers :: "nat list"

definition ec_observe :: "(cacheMetrics \<Rightarrow> cacheMetrics) \<Rightarrow> error_cache \<Rightarrow> counters \<Rightarrow> counters" where
  "ec_observe f c h = observe f (ec_met c) (ec_observers c) h"

definition errorCache_shouldSkip ::
  "gotime \<Rightarrow> string \<Rightarrow> error_cache \<Rightarrow> counters \<Rightarrow> (bool \<times> duration) \<times> error_cache \<times> counters" where
  "errorCache_shouldSkip now key c h =
     (case gm_get (ec_data c) key of
        None \<Rightarrow> ((False, 0), c, ec_observe metrics_miss c h)
      | Some expiry \<Rightarrow>
          if expiry < now
          then ((False, 0), c\<lparr>ec_data := gm_del key (ec_data c)\<rparr>,
                ec_observe metrics_miss c (ec_observe (metrics_evict 1) c h))
          else ((True, time_sub expiry now), c, ec_observe metrics_hit c h))"

definition errorCache_set :: "gotime \<Rightarrow> string \<Rightarrow> duration \<Rightarrow> error_cache \<Rightarrow> counters \<Rightarrow> error_cache \<times> counters" where
  "errorCache_set now key ttl c h =
     (if ttl \<le> 0 then (c, h)
      else let live = gm_drop (\<lambda>k expiry. expiry < now) (ec_data c);
               evicted = length (ec_data c) - length live
           in (c\<lparr>ec_data := gm_set key (now + ttl) live\<rparr>,
               if 0 < evicted then ec_observe (metrics_evict evicted) c h else h))"

definition errorCache_clear :: "error_cache \<Rightarrow> counters \<Rightarrow> error_cache \<times> counters" where
  "errorCache_clear c h = (c\<lparr>ec_data := []\<rparr>, ec_observe (metrics_evict (length (ec_data c))) c h)"

definition errorCache_addObserver :: "nat \<Rightarrow> error_cache \<Rightarrow> error_cache" where
  "errorCache_addObserver m c = c\<lparr>ec_observers := List.insert m (ec_observers c)\<rparr>"

definition errorCache_removeObserver :: "nat \<Rightarrow> error_cache \<Rightarrow> error_cache" where
  "errorCache_removeObserver m c = c\<lparr>ec_observers := removeAll m (ec_observers c)\<rparr>"

section \<open>Unreachable addresses\<close>

definition defaultReachabilityMaxEntries :: int where "defaultReachabilityMaxEntries = 1024"

record reachability_cache =
  rc_data :: "(string, gotime) gomap"
  rc_pending :: "(string, gotime) gomap"
  rc_met :: cacheMetrics
  rc_maxEntries :: int

definition newReachabilityCacheWithLimit :: "int \<Rightarrow> reachability_cache" where
  "newReachabilityCacheWithLimit n = \<lparr>rc_data = [], rc_pending = [], rc_met = metrics_zero, rc_maxEntries = n\<rparr>"

definition newReachabilityCache :: reachability_cache where
  "newReachabilityCache = newReachabilityCacheWithLimit defaultReachabilityMaxEntries"

definition reachability_shouldSkip ::
  "gotime \<Rightarrow> string \<Rightarrow> reachability_cache \<Rightarrow> (bool \<times> duration) \<times> reachability_cache" where
  "reachability_shouldSkip now addr c =
     (if addr = [] then ((False, 0), c)
      else case gm_get (rc_data c) addr of
        None \<Rightarrow> ((False, 0), c\<lparr>rc_met := metrics_miss (rc_met c)\<rparr>)
      | Some expiry \<Rightarrow>
          if now < expiry then ((True, time_sub expiry now), c\<lparr>rc_met := metrics_hit (rc_met c)\<rparr>)
          else ((False, 0), c\<lparr>rc_data := gm_del addr (rc_data c), rc_met := metrics_miss (metrics_evict 1 (rc_met c))\<rparr>))"

definition sweepLocked :: "gotime \<Rightarrow> duration \<Rightarrow> reachability_cache \<Rightarrow> reachability_cache" where
  "sweepLocked now ttl c =
     (let data = gm_drop (\<lambda>addr expiry. \<not> now < expiry) (rc_data c);
          pending = gm_drop (\<lambda>addr firstSeen. ttl < time_sub now firstSeen) (rc_pending c)
      in c\<lparr>rc_data := data, rc_pending := pending,
           rc_met := metrics_evict (length (rc_data c) - length data + (length (rc_pending c) - length pending)) (rc_met c)\<rparr>)"

text \<open>The loop of \<open>evictOldestLocked\<close>: the first entry, then any strictly older one; the empty address marks "none yet".\<close>

fun older :: "string \<times> gotime \<Rightarrow> string \<times> gotime \<Rightarrow> string \<times> gotime" where
  "older (addr, stamp) (oldestAddr, oldest) =
     (if oldestAddr = [] \<or> stamp < oldest then (addr, stamp) else (oldestAddr, oldest))"

definition oldest_entry :: "(string, gotime) gomap \<Rightarrow> string \<times> gotime" where
  "oldest_entry m = fold older m ([], 0)"

definition evictOldest :: "int \<Rightarrow> (string, gotime) gomap \<Rightarrow> (string, gotime) gomap \<times> nat" where
  "evictOldest maxEntries m =
     (if maxEntries \<le> 0 \<or> int (length m) < maxEntries then (m, 0)
      else let (oldestAddr, _) = oldest_entry m
           in if oldestAddr \<noteq> [] then (gm_del oldestAddr m, 1) else (m, 0))"

definition reachability_mark :: "gotime \<Rightarrow> string \<Rightarrow> duration \<Rightarrow> reachability_cache \<Rightarrow> reachability_cache" where
  "reachability_mark now addr ttl c =
     (if addr = [] \<or> ttl \<le> 0 then c
      else if (case gm_get (rc_data c) addr of Some expiry \<Rightarrow> now < expiry | None \<Rightarrow> False) then c
      else if (case gm_get (rc_pending c) addr of Some firstSeen \<Rightarrow> time_sub now firstSeen \<le> ttl | None \<Rightarrow> False)
      then let c1 = sweepLocked now ttl c;
               (data, n) = evictOldest (rc_maxEntries c1) (rc_data c1)
           in c1\<lparr>rc_data := gm_set addr (now + ttl) data, rc_pending := gm_del addr (rc_pending c1),
                 rc_met := metrics_evict n (rc_met c1)\<rparr>
      else let c1 = sweepLocked now ttl c;
               (pending, n) = evictOldest (rc_maxEntries c1) (rc_pending c1)
           in c1\<lparr>rc_pending := gm_set addr now pending, rc_met := metrics_evict n (rc_met c1)\<rparr>)"

definition reachability_observeSuccess :: "string \<Rightarrow> reachability_cache \<Rightarrow> reachability_cache" where
  "reachability_observeSuccess addr c = (if addr = [] then c else c\<lparr>rc_pending := gm_del addr (rc_pending c)\<rparr>)"

definition reachability_clear :: "reachability_cache \<Rightarrow> reachability_cache" where
  "reachability_clear c = c\<lparr>rc_data := [], rc_pending := [], rc_met := metrics_zero\<rparr>"

definition reachability_len :: "reachability_cache \<Rightarrow> nat \<times> nat" where
  "reachability_len c = (length (rc_data c), length (rc_pending c))"

section \<open>Fast failure and the latency budget\<close>

record protocolFastFailState =
  ff_consecutiveTimeouts :: int
  ff_blocked :: bool

record fastFailTracker =
  ff_udp :: protocolFastFailState
  ff_tcp :: protocolFastFailState

definition stateForProtocol :: "bool \<Rightarrow> fastFailTracker \<Rightarrow> protocolFastFailState" where
  "stateForProtocol useTCP t = (if useTCP then ff_tcp t else ff_udp t)"

definition with_protocol :: "bool \<Rightarrow> protocolFastFailState \<Rightarrow> fastFailTracker \<Rightarrow> fastFailTracker" where
  "with_protocol useTCP s t = (if useTCP then t\<lparr>ff_tcp := s\<rparr> else t\<lparr>ff_udp := s\<rparr>)"

definition fastFail_shouldSkip :: "bool \<Rightarrow> int \<Rightarrow> fastFailTracker \<Rightarrow> bool" where
  "fastFail_shouldSkip useTCP threshold t = (0 < threshold \<and> ff_blocked (stateForProtocol useTCP t))"

definition sawConsecutiveTimeouts :: "bool \<Rightarrow> fastFailTracker \<Rightarrow> bool" where
  "sawConsecutiveTimeouts useTCP t =
     (let s = stateForProtocol useTCP t in ff_blocked s \<or> 2 \<le> ff_consecutiveTimeouts s)"

definition fastFail_observeResult :: "bool \<Rightarrow> bool \<Rightarrow> int \<Rightarrow> fastFailTracker \<Rightarrow> bool \<times> fastFailTracker" where
  "fastFail_observeResult useTCP timeoutPattern threshold t =
     (if threshold \<le> 0 then (False, t)
      else let s = stateForProtocol useTCP t
           in if \<not> timeoutPattern
              then (False, with_protocol useTCP \<lparr>ff_consecutiveTimeouts = 0, ff_blocked = False\<rparr> t)
              else if ff_blocked s then (False, t)
              else let n = ff_consecutiveTimeouts s + 1
                   in if threshold \<le> n
                      then (True, with_protocol useTCP \<lparr>ff_consecutiveTimeouts = 0, ff_blocked = True\<rparr> t)
                      else (False, with_protocol useTCP \<lparr>ff_consecutiveTimeouts = n, ff_blocked = False\<rparr> t))"

record latencyTracker =
  lt_total :: duration
  lt_blocked :: bool

definition latency_observe :: "duration \<Rightarrow> duration \<Rightarrow> latencyTracker \<Rightarrow> bool \<times> latencyTracker" where
  "latency_observe elapsed budget t =
     (if budget \<le> 0 then (False, t)
      else if lt_blocked t then (False, t)
      else let total = lt_total t + elapsed
           in if budget \<le> total then (True, t\<lparr>lt_total := total, lt_blocked := True\<rparr>)
              else (False, t\<lparr>lt_total := total\<rparr>))"

definition latency_shouldSkip :: "duration \<Rightarrow> latencyTracker \<Rightarrow> bool" where
  "latency_shouldSkip budget t = (0 < budget \<and> lt_blocked t)"

section \<open>Fan-out limits of a run\<close>

definition MaxNSNames :: nat where "MaxNSNames = 32"
definition MaxNSAddresses :: nat where "MaxNSAddresses = 16"
definition MaxRunAddresses :: nat where "MaxRunAddresses = 512"

definition BoundNSNames :: string where "BoundNSNames = ''ns_names_per_zone''"
definition BoundNSAddresses :: string where "BoundNSAddresses = ''addresses_per_ns''"
definition BoundRunAddresses :: string where "BoundRunAddresses = ''addresses_per_run''"

type_synonym limitKey = "nat \<times> string \<times> string"

record runLimits =
  rl_addrs :: "ip_addr list"
  rl_logged :: "limitKey list"

definition newRunLimits :: runLimits where
  "newRunLimits = \<lparr>rl_addrs = [], rl_logged = []\<rparr>"

definition limits_admit :: "ip_addr \<Rightarrow> runLimits \<Rightarrow> bool \<times> runLimits" where
  "limits_admit addr l =
     (if addr \<in> set (rl_addrs l) then (True, l)
      else if MaxRunAddresses \<le> length (rl_addrs l) then (False, l)
      else (True, l\<lparr>rl_addrs := rl_addrs l @ [addr]\<rparr>))"

definition limits_first :: "limitKey \<Rightarrow> runLimits \<Rightarrow> bool \<times> runLimits" where
  "limits_first key l =
     (if key \<in> set (rl_logged l) then (False, l) else (True, l\<lparr>rl_logged := rl_logged l @ [key]\<rparr>))"

text \<open>A logged entry of the tag \<open>LIMIT_REACHED\<close> carries the logger, the bound, the limit, the count and the domain.\<close>

type_synonym limit_entry = "nat \<times> string \<times> nat \<times> nat \<times> string"

definition limitReached ::
  "nat option \<Rightarrow> string \<Rightarrow> string \<Rightarrow> nat \<Rightarrow> nat \<Rightarrow> runLimits \<Rightarrow> limit_entry list \<times> runLimits" where
  "limitReached lg bound domain limit cnt l =
     (case lg of
        None \<Rightarrow> ([], l)
      | Some g \<Rightarrow>
          (let key = (g, bound, if bound = BoundRunAddresses then [] else domain);
               (fresh, l') = limits_first key l
           in (if fresh then [(g, bound, limit, cnt, domain)] else [], l')))"

definition CapNames :: "nat option \<Rightarrow> string \<Rightarrow> 'a list \<Rightarrow> runLimits \<Rightarrow> 'a list \<times> limit_entry list \<times> runLimits" where
  "CapNames lg domain names l =
     (if length names \<le> MaxNSNames then (names, [], l)
      else let (es, l') = limitReached lg BoundNSNames domain MaxNSNames (length names) l
           in (take MaxNSNames names, es, l'))"

text \<open>\<open>slices.Compact\<close> drops an element equal to the one before it; \<open>show_addr\<close> is \<open>netip.Addr.String\<close>.\<close>

definition CapAddresses ::
  "(ip_addr \<Rightarrow> string) \<Rightarrow> nat option \<Rightarrow> string \<Rightarrow> ip_addr list \<Rightarrow> runLimits \<Rightarrow> ip_addr list \<times> limit_entry list \<times> runLimits" where
  "CapAddresses show_addr lg ns addrs l =
     (let out = remdups_adj (sort_by (cmp_key show_addr) addrs)
      in if length out \<le> MaxNSAddresses then (out, [], l)
         else let (es, l') = limitReached lg BoundNSAddresses ns MaxNSAddresses (length out) l
              in (take MaxNSAddresses out, es, l'))"

fun cap_each ::
  "(ip_addr \<Rightarrow> string) \<Rightarrow> nat option \<Rightarrow> (string, ip_addr list) gomap \<Rightarrow> runLimits \<Rightarrow>
   (string, ip_addr list) gomap \<times> limit_entry list \<times> runLimits" where
  "cap_each show_addr lg [] l = ([], [], l)"
| "cap_each show_addr lg ((name, addrs) # m) l =
     (if addrs = []
      then let (m', es, l') = cap_each show_addr lg m l in ((name, addrs) # m', es, l')
      else let (addrs', es1, l1) = CapAddresses show_addr lg name addrs l;
               (m', es2, l2) = cap_each show_addr lg m l1
           in ((name, addrs') # m', es1 @ es2, l2))"

definition CapNSMap ::
  "(ip_addr \<Rightarrow> string) \<Rightarrow> nat option \<Rightarrow> string \<Rightarrow> (string, ip_addr list) gomap \<Rightarrow> runLimits \<Rightarrow>
   (string, ip_addr list) gomap \<times> limit_entry list \<times> runLimits" where
  "CapNSMap show_addr lg domain m l =
     (let names = sort_by (cmp_key (\<lambda>n. n)) (map fst m);
          (kept, es1, l1) = CapNames lg domain names l;
          m1 = fold gm_del (drop (length kept) names) m;
          (m2, es2, l2) = cap_each show_addr lg m1 l1
      in (m2, es1 @ es2, l2))"

section \<open>The answer cache is a bounded FIFO\<close>

lemma gm_get_fold_del: "gm_get (fold gm_del ks m) k = (if k \<in> set ks then None else gm_get m k)"
  by (induction ks arbitrary: m) (auto simp: gomap_simps)

lemma gm_wf_fold_del: "gm_wf m \<Longrightarrow> gm_wf (fold gm_del ks m)"
  by (induction ks arbitrary: m) (auto simp: gomap_simps)

lemma gm_fst_eq_dom: "fst ` set m = {k. gm_get m k \<noteq> None}"
  using gm_has_iff [of m] by (auto simp: gm_has_def)

lemma gm_keys_fold_del: "fst ` set (fold gm_del ks m) = fst ` set m - set ks"
  by (auto simp: gm_fst_eq_dom gm_get_fold_del split: if_splits)

lemma gm_length_keys: "gm_wf m \<Longrightarrow> length m = card (fst ` set m)"
  by (metis gm_wf_def distinct_card length_map list.set_map)

lemma gm_size_fold_del:
  assumes "gm_wf m" "distinct ks" "set ks \<subseteq> fst ` set m"
  shows "length (fold gm_del ks m) = length m - length ks"
  using assms by (simp add: gm_length_keys gm_wf_fold_del gm_keys_fold_del card_Diff_subset distinct_card)

definition cache_ok :: "query_cache \<Rightarrow> bool" where
  "cache_ok c \<longleftrightarrow> gm_wf (qc_data c) \<and> distinct (qc_order c) \<and> set (qc_order c) = fst ` set (qc_data c) \<and>
     length (qc_data c) \<le> QueryCacheMaxEntries"

text \<open>The contents of a cache, oldest entry first.\<close>

definition in_order :: "string list \<Rightarrow> (string, 'v) gomap \<Rightarrow> (string \<times> 'v) list" where
  "in_order ks m = map (\<lambda>k. (k, the (gm_get m k))) ks"

definition cache_contents :: "query_cache \<Rightarrow> (string \<times> packet option) list" where
  "cache_contents c = in_order (qc_order c) (qc_data c)"

text \<open>The specification: a list of bindings that keeps its newest \<open>QueryCacheMaxEntries\<close> keys, with the number it let go.\<close>

definition fifo_put :: "string \<Rightarrow> 'v \<Rightarrow> (string \<times> 'v) list \<Rightarrow> (string \<times> 'v) list" where
  "fifo_put k v q = (let q' = AList.update k v q in drop (length q' - QueryCacheMaxEntries) q')"

lemma in_order_get:
  "\<lbrakk>set ks = fst ` set m\<rbrakk> \<Longrightarrow> map_of (in_order ks m) k = gm_get m k"
  by (auto simp: in_order_def map_of_map_restrict gm_fst_eq_dom restrict_map_def)

lemma in_order_update_new:
  "k \<notin> set ks \<Longrightarrow> in_order (ks @ [k]) (gm_set k v m) = AList.update k v (in_order ks m)"
  by (induction ks) (auto simp: in_order_def gomap_simps)

lemma in_order_update_old:
  "distinct ks \<Longrightarrow> k \<in> set ks \<Longrightarrow> in_order ks (gm_set k v m) = AList.update k v (in_order ks m)"
  by (induction ks) (auto simp: in_order_def gomap_simps)

lemma in_order_drop:
  "distinct ks \<Longrightarrow> in_order (drop n ks) (fold gm_del (take n ks) m) = drop n (in_order ks m)"
  unfolding in_order_def drop_map
  using set_take_disj_set_drop_if_distinct [of ks n n] by (auto simp: gm_get_fold_del)

lemma cache_contents_update:
  assumes "cache_ok c"
  shows "in_order (if gm_has (qc_data c) k then qc_order c else qc_order c @ [k]) (gm_set k v (qc_data c)) =
    AList.update k v (cache_contents c)"
proof (cases "k \<in> set (qc_order c)")
  case True
  then show ?thesis using assms by (simp add: cache_ok_def cache_contents_def gm_has_iff in_order_update_old)
next
  case False
  then show ?thesis using assms by (simp add: cache_ok_def cache_contents_def gm_has_iff in_order_update_new)
qed

lemma set_drop_distinct: "distinct ks \<Longrightarrow> set (drop n ks) = set ks - set (take n ks)"
  using set_append [of "take n ks" "drop n ks"] set_take_disj_set_drop_if_distinct [of ks n n] by auto

lemma length_in_order [simp]: "length (in_order ks m) = length ks"
  by (simp add: in_order_def)

lemma cache_ok_lengths: "cache_ok c \<Longrightarrow> length (qc_order c) = length (qc_data c)"
  by (metis cache_ok_def gm_length_keys distinct_card)

lemma cache_set_refines:
  assumes ok: "cache_ok c"
  shows "cache_ok (fst (queryCache_set k v c h))" (is ?ok)
    and "cache_contents (fst (queryCache_set k v c h)) = fifo_put k v (cache_contents c)" (is ?abs)
    and "snd (queryCache_set k v c h) =
      (let n = length (AList.update k v (cache_contents c)) - QueryCacheMaxEntries
       in if n = 0 then h else qc_observe (metrics_evict n) c h)" (is ?met)
proof -
  define ks where "ks = (if gm_has (qc_data c) k then qc_order c else qc_order c @ [k])"
  define m where "m = gm_set k v (qc_data c)"
  have ks: "distinct ks" "set ks = fst ` set m" "gm_wf m"
    using ok by (auto simp: cache_ok_def ks_def m_def gm_fst_set gm_has_iff gomap_simps)
  have len: "length ks = length m"
    using ks by (simp add: gm_length_keys distinct_card [symmetric])
  have upd: "in_order ks m = AList.update k v (cache_contents c)"
    using cache_contents_update [OF ok] by (simp add: ks_def m_def)
  have n: "length (AList.update k v (cache_contents c)) = length m"
    using len by (simp flip: upd)
  let ?n = "length m - QueryCacheMaxEntries"
  have sub: "set (take ?n ks) \<subseteq> fst ` set m" using ks(2) set_take_subset by fastforce
  have keys: "set (drop ?n ks) = fst ` set m - set (take ?n ks)"
    using ks(1,2) by (simp add: set_drop_distinct)
  have big: "cache_ok (c\<lparr>qc_data := fold gm_del (take ?n ks) m, qc_order := drop ?n ks\<rparr>)"
    if "QueryCacheMaxEntries < length m"
    using that ks sub keys len by (simp add: cache_ok_def gm_wf_fold_del gm_keys_fold_del gm_size_fold_del)
  have small: "cache_ok (c\<lparr>qc_data := m, qc_order := ks\<rparr>)" if "\<not> QueryCacheMaxEntries < length m"
    using that ks by (simp add: cache_ok_def)
  show ?ok using big small by (simp add: queryCache_set_def Let_def flip: ks_def m_def)
  have "cache_contents (fst (queryCache_set k v c h)) = in_order (drop ?n ks) (fold gm_del (take ?n ks) m)"
    by (simp add: queryCache_set_def Let_def cache_contents_def flip: ks_def m_def)
  also have "\<dots> = drop ?n (in_order ks m)" by (rule in_order_drop [OF ks(1)])
  finally show ?abs using n by (simp add: fifo_put_def upd)
  show ?met by (auto simp: queryCache_set_def Let_def n simp flip: ks_def m_def)
qed

lemma cache_get_refines: "cache_ok c \<Longrightarrow> fst (queryCache_get k c h) = map_of (cache_contents c) k"
  by (auto simp: queryCache_get_def cache_contents_def in_order_get cache_ok_def split: option.splits)

text \<open>The operations of a cache in any order, and what they do to the specification with its three counters.\<close>

datatype cache_op = CGet string | CSet string "packet option" | CClearData | CClear

fun cache_step :: "cache_op \<Rightarrow> query_cache \<times> counters \<Rightarrow> query_cache \<times> counters" where
  "cache_step (CGet k) (c, h) = (c, snd (queryCache_get k c h))"
| "cache_step (CSet k v) (c, h) = queryCache_set k v c h"
| "cache_step CClearData (c, h) = queryCache_clearData c h"
| "cache_step CClear (c, h) = queryCache_clear c h"

fun fifo_step :: "cache_op \<Rightarrow> (string \<times> packet option) list \<times> cacheMetrics \<Rightarrow> (string \<times> packet option) list \<times> cacheMetrics" where
  "fifo_step (CGet k) (q, m) = (q, if map_of q k = None then metrics_miss m else metrics_hit m)"
| "fifo_step (CSet k v) (q, m) =
     (fifo_put k v q, metrics_evict (length (AList.update k v q) - QueryCacheMaxEntries) m)"
| "fifo_step CClearData (q, m) = ([], metrics_evict (length q) m)"
| "fifo_step CClear (q, m) = ([], metrics_evict (length q) m)"

lemma metrics_evict_0 [simp]: "metrics_evict 0 m = m"
  by (simp add: metrics_evict_def)

lemma qc_observe_owner:
  "qc_met c = Some i \<Longrightarrow> i \<notin> set (qc_observers c) \<Longrightarrow> qc_observe f c h i = f (h i)"
proof -
  assume a: "qc_met c = Some i" "i \<notin> set (qc_observers c)"
  have "fold (\<lambda>i g. g(i := f (g i))) os g i = g i" if "i \<notin> set os" for os and g :: counters
    using that by (induction os arbitrary: g) auto
  with a show ?thesis by (simp add: qc_observe_def observe_def)
qed

definition counted_by :: "nat \<Rightarrow> query_cache \<Rightarrow> bool" where
  "counted_by i c \<longleftrightarrow> qc_met c = Some i \<and> i \<notin> set (qc_observers c)"

lemma cache_step_frame:
  "qc_met (fst (cache_step x (c, h))) = qc_met c" "qc_observers (fst (cache_step x (c, h))) = qc_observers c"
  by (cases x; simp add: queryCache_set_def queryCache_clearData_def queryCache_clear_def Let_def)+

lemma cache_step_refines:
  assumes "cache_ok c" "counted_by i c"
  shows "case cache_step x (c, h) of (c', h') \<Rightarrow>
    cache_ok c' \<and> counted_by i c' \<and> (cache_contents c', h' i) = fifo_step x (cache_contents c, h i)"
proof -
  have len: "length (cache_contents c) = length (qc_data c)"
    using cache_ok_lengths [OF assms(1)] by (simp add: cache_contents_def)
  have cnt: "counted_by i (fst (cache_step x (c, h)))"
    using assms(2) by (simp add: counted_by_def cache_step_frame)
  have obs: "qc_observe f c h i = f (h i)" for f
    using assms(2) by (simp add: counted_by_def qc_observe_owner)
  show ?thesis
  proof (cases x)
    case (CGet k)
    then show ?thesis using cache_get_refines [OF assms(1), of k h] cnt assms(1)
      by (auto simp: queryCache_get_def obs split: option.splits)
  next
    case (CSet k v)
    then show ?thesis using cache_set_refines [OF assms(1), of k v h] cnt
      by (cases "queryCache_set k v c h") (auto simp: obs Let_def split: if_splits)
  next
    case CClearData
    then show ?thesis using cnt len by (simp add: queryCache_clearData_def cache_ok_def cache_contents_def in_order_def obs)
  next
    case CClear
    then show ?thesis using cnt len by (simp add: queryCache_clear_def cache_ok_def cache_contents_def in_order_def obs)
  qed
qed

lemma cache_run_refines:
  assumes "cache_ok c" "counted_by i c"
  shows "case fold cache_step xs (c, h) of (c', h') \<Rightarrow>
    cache_ok c' \<and> counted_by i c' \<and> (cache_contents c', h' i) = fold fifo_step xs (cache_contents c, h i)"
  using assms
proof (induction xs arbitrary: c h)
  case (Cons x xs)
  obtain c1 h1 where s: "cache_step x (c, h) = (c1, h1)" by force
  show ?case using cache_step_refines [OF Cons.prems, of x h] Cons.IH [of c1 h1] by (simp add: s)
qed simp

text \<open>
  C20. The answer cache of an address is a bounded FIFO: after any sequence of lookups, stores and
  clearings a lookup finds what the specification holds, which is at most 256 bindings, the newest keys in the order they
  were first stored, with the latest value of each; and the owner's counters are the hits, misses and evictions
  of the specification.
\<close>

theorem answer_cache_is_fifo:
  "case fold cache_step xs (new_query_cache (Some i), \<lambda>_. metrics_zero) of (c, h) \<Rightarrow>
     case fold fifo_step xs ([], metrics_zero) of (q, m) \<Rightarrow>
       (\<forall>k. fst (queryCache_get k c h) = map_of q k) \<and> length q = length (qc_data c) \<and> length q \<le> 256 \<and> h i = m"
proof -
  have "cache_ok (new_query_cache (Some i))" "counted_by i (new_query_cache (Some i))"
    "cache_contents (new_query_cache (Some i)) = []"
    by (simp_all add: new_query_cache_def cache_ok_def counted_by_def cache_contents_def in_order_def)
  then show ?thesis
    using cache_run_refines [of "new_query_cache (Some i)" i xs "\<lambda>_. metrics_zero"]
    by (auto simp: cache_get_refines cache_ok_lengths cache_contents_def cache_ok_def QueryCacheMaxEntries_def split: prod.splits)
qed

section \<open>Blackouts need two strikes\<close>

datatype reach_event = Mark gotime string duration | Success string | Check gotime string

fun reach_step :: "reach_event \<Rightarrow> reachability_cache \<Rightarrow> reachability_cache" where
  "reach_step (Mark now addr ttl) c = reachability_mark now addr ttl c"
| "reach_step (Success addr) c = reachability_observeSuccess addr c"
| "reach_step (Check now addr) c = snd (reachability_shouldSkip now addr c)"

text \<open>What a pending entry and a blackout say about the events so far, the newest first.\<close>

definition struck :: "reach_event list \<Rightarrow> string \<Rightarrow> gotime \<Rightarrow> bool" where
  "struck es addr t \<longleftrightarrow> (\<exists>new ttl old. es = new @ Mark t addr ttl # old \<and> Success addr \<notin> set new)"

definition struck_twice :: "reach_event list \<Rightarrow> string \<Rightarrow> gotime \<Rightarrow> bool" where
  "struck_twice es addr expiry \<longleftrightarrow>
     (\<exists>new t ttl old t0. es = new @ Mark t addr ttl # old \<and> struck old addr t0 \<and> time_sub t t0 \<le> ttl \<and>
        0 < ttl \<and> expiry = t + ttl)"

definition reach_ok :: "reach_event list \<Rightarrow> reachability_cache \<Rightarrow> bool" where
  "reach_ok es c \<longleftrightarrow> gm_wf (rc_data c) \<and> gm_wf (rc_pending c) \<and>
     \<not> gm_has (rc_data c) [] \<and> \<not> gm_has (rc_pending c) [] \<and>
     (\<forall>a t. gm_get (rc_pending c) a = Some t \<longrightarrow> struck es a t) \<and>
     (\<forall>a t. gm_get (rc_data c) a = Some t \<longrightarrow> struck_twice es a t)"

definition reach_bounded :: "reachability_cache \<Rightarrow> bool" where
  "reach_bounded c \<longleftrightarrow> 0 < rc_maxEntries c \<longrightarrow>
     int (length (rc_data c)) \<le> rc_maxEntries c \<and> int (length (rc_pending c)) \<le> rc_maxEntries c"

lemma struck_later: "struck es a t \<Longrightarrow> e \<noteq> Success a \<Longrightarrow> struck (e # es) a t"
  unfolding struck_def by (metis append_Cons set_ConsD)

lemma struck_twice_later: "struck_twice es a t \<Longrightarrow> struck_twice (e # es) a t"
  unfolding struck_twice_def by (metis append_Cons)

lemma struck_now: "struck (Mark t a ttl # es) a t"
  unfolding struck_def by (rule exI [of _ "[]"]) simp

lemma struck_twice_now:
  "struck es a t0 \<Longrightarrow> time_sub t t0 \<le> ttl \<Longrightarrow> 0 < ttl \<Longrightarrow> struck_twice (Mark t a ttl # es) a (t + ttl)"
  unfolding struck_twice_def by (rule exI [of _ "[]"]) auto

lemma older_in: "older x p = x \<or> older x p = p"
  by (cases x; cases p) auto

lemma older_le: "fst p \<noteq> [] \<Longrightarrow> snd (older x p) \<le> snd p \<and> snd (older x p) \<le> snd x"
  by (cases x; cases p) auto

lemma fold_older:
  assumes "fst p \<noteq> []" "[] \<notin> fst ` set xs"
  shows "fold older xs p \<in> insert p (set xs) \<and> (\<forall>y \<in> insert p (set xs). snd (fold older xs p) \<le> snd y)"
  using assms
proof (induction xs arbitrary: p)
  case (Cons x xs)
  have p: "fst (older x p) \<noteq> []" using Cons.prems older_in [of x p] by auto
  have ih: "fold older xs (older x p) \<in> insert (older x p) (set xs)"
    "\<And>y. y \<in> insert (older x p) (set xs) \<Longrightarrow> snd (fold older xs (older x p)) \<le> snd y"
    using Cons.IH [OF p] Cons.prems(2) by auto
  then show ?case
    using older_in [of x p] older_le [OF Cons.prems(1), of x] ih(2) [of "older x p"] by fastforce
qed simp

lemma oldest_entry_least:
  assumes "m \<noteq> []" "[] \<notin> fst ` set m"
  shows "oldest_entry m \<in> set m \<and> (\<forall>y \<in> set m. snd (oldest_entry m) \<le> snd y)"
proof -
  obtain x xs where m: "m = x # xs" using assms(1) by (cases m) auto
  have "older x ([], 0) = x" by (cases x) simp
  then have "oldest_entry m = fold older xs x" unfolding oldest_entry_def m by simp
  then show ?thesis using fold_older [of x xs] assms(2) m by (metis image_insert insert_iff list.simps(15))
qed

lemma evictOldest_sub:
  "gm_get (fst (evictOldest n m)) a = Some t \<Longrightarrow> gm_get m a = Some t"
  by (auto simp: evictOldest_def Let_def gomap_simps split: if_splits prod.splits)

lemma evictOldest_none: "gm_get m a = None \<Longrightarrow> gm_get (fst (evictOldest n m)) a = None"
  using evictOldest_sub by (metis option.exhaust)

lemma evictOldest_wf: "gm_wf m \<Longrightarrow> gm_wf (fst (evictOldest n m))"
  by (auto simp: evictOldest_def Let_def gomap_simps split: prod.splits)

lemma evictOldest_room:
  assumes "gm_wf m" "\<not> gm_has m []" "0 < n" "int (length m) \<le> n"
  shows "int (length (fst (evictOldest n m))) < n"
proof (cases "int (length m) < n")
  case False
  then have m: "m \<noteq> []" "[] \<notin> fst ` set m" using assms by (auto simp: gm_has_iff)
  obtain a t where old: "oldest_entry m = (a, t)" by force
  then have "(a, t) \<in> set m" using oldest_entry_least [OF m] by simp
  then have "a \<noteq> []" "gm_has m a" using m(2) by (force simp: gm_has_iff)+
  then show ?thesis using False assms old m(1) gm_size_del [of m a]
    by (cases m) (auto simp: evictOldest_def Let_def)
qed (simp add: evictOldest_def)


lemma sweep_get:
  assumes "reach_ok es c"
  shows "gm_get (rc_data (sweepLocked now ttl c)) a = Some t \<Longrightarrow> gm_get (rc_data c) a = Some t"
    and "gm_get (rc_pending (sweepLocked now ttl c)) a = Some t \<longleftrightarrow>
      gm_get (rc_pending c) a = Some t \<and> time_sub now t \<le> ttl"
  using assms by (auto simp: sweepLocked_def Let_def reach_ok_def gm.drop_keeps)

lemma sweep_wf:
  "reach_ok es c \<Longrightarrow> gm_wf (rc_data (sweepLocked now ttl c)) \<and> gm_wf (rc_pending (sweepLocked now ttl c))"
  by (auto simp: sweepLocked_def Let_def reach_ok_def gomap_simps)

lemma reach_ok_sub:
  assumes "reach_ok es c" "gm_wf (rc_data c')" "gm_wf (rc_pending c')"
    "\<And>a t. gm_get (rc_data c') a = Some t \<Longrightarrow> gm_get (rc_data c) a = Some t"
    "\<And>a t. gm_get (rc_pending c') a = Some t \<Longrightarrow> gm_get (rc_pending c) a = Some t"
  shows "reach_ok es c'"
proof -
  have "\<not> gm_has (rc_data c') []" "\<not> gm_has (rc_pending c') []"
    using assms(1,4,5) unfolding reach_ok_def gm_has_def by fastforce+
  then show ?thesis using assms unfolding reach_ok_def by blast
qed

lemma sweep_ok: "reach_ok es c \<Longrightarrow> reach_ok es (sweepLocked now ttl c)"
  using sweep_get [of es c] sweep_wf [of es c] by (blast intro: reach_ok_sub)

lemma reach_ok_later: "reach_ok es c \<Longrightarrow> (\<forall>a. e \<noteq> Success a) \<Longrightarrow> reach_ok (e # es) c"
  unfolding reach_ok_def by (simp add: struck_later struck_twice_later)

lemma reach_ok_blackout:
  assumes "reach_ok es c" "struck_twice es addr e" "addr \<noteq> []"
  shows "reach_ok es (c\<lparr>rc_data := gm_set addr e (fst (evictOldest n (rc_data c))),
    rc_pending := gm_del addr (rc_pending c), rc_met := m\<rparr>)"
  using assms evictOldest_sub [of n "rc_data c"] unfolding reach_ok_def
  by (auto simp: gomap_simps evictOldest_wf evictOldest_none gm_has_def split: if_splits)

lemma reach_ok_strike:
  assumes "reach_ok es c" "struck es addr e" "addr \<noteq> []"
  shows "reach_ok es (c\<lparr>rc_pending := gm_set addr e (fst (evictOldest n (rc_pending c))), rc_met := m\<rparr>)"
  using assms evictOldest_sub [of n "rc_pending c"] unfolding reach_ok_def
  by (auto simp: gomap_simps evictOldest_wf evictOldest_none gm_has_def split: if_splits)

lemma sweep_bounded: "reach_bounded c \<Longrightarrow> reach_bounded (sweepLocked now ttl c)"
  unfolding reach_bounded_def sweepLocked_def Let_def
  using gm_size_drop_le [of "\<lambda>addr expiry. \<not> now < expiry" "rc_data c"]
    gm_size_drop_le [of "\<lambda>addr firstSeen. ttl < time_sub now firstSeen" "rc_pending c"]
  by auto

lemma mark_ok:
  assumes "reach_ok es c"
  shows "reach_ok (Mark now addr ttl # es) (reachability_mark now addr ttl c)"
proof -
  let ?es = "Mark now addr ttl # es" and ?c1 = "sweepLocked now ttl c"
  have c: "reach_ok ?es c" "reach_ok ?es ?c1" using assms sweep_ok reach_ok_later by auto
  show ?thesis
  proof (cases "addr = [] \<or> ttl \<le> 0 \<or> (\<exists>t. gm_get (rc_data c) addr = Some t \<and> now < t)")
    case True
    then have "reachability_mark now addr ttl c = c" by (auto simp: reachability_mark_def)
    then show ?thesis using c by simp
  next
    case False
    then have pos: "addr \<noteq> []" "0 < ttl" by auto
    show ?thesis
    proof (cases "\<exists>t. gm_get (rc_pending c) addr = Some t \<and> time_sub now t \<le> ttl")
      case True
      then have "struck_twice ?es addr (now + ttl)"
        using assms pos(2) unfolding reach_ok_def by (blast intro: struck_twice_now)
      from reach_ok_blackout [OF c(2) this pos(1)] False True show ?thesis
        by (auto simp: reachability_mark_def Let_def case_prod_beta split: option.splits)
    next
      case no: False
      from reach_ok_strike [OF c(2) struck_now pos(1)] False no show ?thesis
        by (auto simp: reachability_mark_def Let_def case_prod_beta split: option.splits)
    qed
  qed
qed

lemma check_ok:
  "reach_ok es c \<Longrightarrow> reach_ok (Check now addr # es) (snd (reachability_shouldSkip now addr c))"
  by (rule reach_ok_sub [OF reach_ok_later])
    (auto simp: reachability_shouldSkip_def reach_ok_def gomap_simps gm_has_def split: option.splits if_splits)

lemma success_ok:
  assumes "reach_ok es c"
  shows "reach_ok (Success addr # es) (reachability_observeSuccess addr c)"
proof -
  have "gm_get (rc_pending c) [] = None" using assms by (simp add: reach_ok_def gm_has_def)
  then have "gm_get (rc_pending (reachability_observeSuccess addr c)) a = Some t \<longrightarrow> struck (Success addr # es) a t" for a t
    using assms by (auto simp: reach_ok_def reachability_observeSuccess_def gomap_simps intro!: struck_later split: if_splits)
  moreover have "\<forall>a t. gm_get (rc_data c) a = Some t \<longrightarrow> struck_twice (Success addr # es) a t"
    using assms struck_twice_later unfolding reach_ok_def by blast
  moreover have "gm_get (rc_pending c) [] = None" using assms by (simp add: reach_ok_def gm_has_def)
  ultimately show ?thesis using assms unfolding reach_ok_def reachability_observeSuccess_def
    by (auto simp: gomap_simps gm_has_def)
qed

lemma reach_step_ok: "reach_ok es c \<Longrightarrow> reach_ok (e # es) (reach_step e c)"
  by (cases e) (auto intro: mark_ok success_ok check_ok)

lemma gm_size_set_le: "length (gm_set k v m) \<le> Suc (length m)"
  by (simp add: gm_size_set)

lemma mark_bounded:
  assumes "reach_ok es c" "reach_bounded c"
  shows "reach_bounded (reachability_mark now addr ttl c)"
proof -
  let ?c1 = "sweepLocked now ttl c" and ?n = "rc_maxEntries c"
  have n: "rc_maxEntries ?c1 = ?n" by (simp add: sweepLocked_def Let_def)
  have b: "reach_ok es ?c1" "reach_bounded ?c1" using assms sweep_ok sweep_bounded by auto
  have room: "length (fst (evictOldest ?n (rc_data ?c1))) < ?n" "length (fst (evictOldest ?n (rc_pending ?c1))) < ?n"
    if "0 < ?n" using that b n evictOldest_room unfolding reach_ok_def reach_bounded_def by auto
  have le: "int (length (gm_set k (v::gotime) m)) \<le> ?n" if "int (length m) < ?n" for k v m
    using that gm_size_set_le [of k v m] by linarith
  have del: "int (length (gm_del addr (rc_pending ?c1))) \<le> ?n" if "0 < ?n"
    using that b(2) n gm_size_del_le [of addr "rc_pending ?c1"] by (auto simp: reach_bounded_def)
  show ?thesis
    using assms(2) b(2) n room del le
    by (auto simp: reachability_mark_def Let_def case_prod_beta reach_bounded_def split: option.splits)
qed

lemma reach_step_bounded: "reach_ok es c \<Longrightarrow> reach_bounded c \<Longrightarrow> reach_bounded (reach_step e c)"
proof (cases e)
  case (Mark now addr ttl)
  then show "reach_ok es c \<Longrightarrow> reach_bounded c \<Longrightarrow> ?thesis" by (simp add: mark_bounded)
next
  case (Success addr)
  then show "reach_bounded c \<Longrightarrow> ?thesis" using gm_size_del_le [of addr "rc_pending c"]
    by (auto simp: reachability_observeSuccess_def reach_bounded_def)
next
  case (Check now addr)
  then show "reach_bounded c \<Longrightarrow> ?thesis" using gm_size_del_le [of addr "rc_data c"]
    by (auto simp: reachability_shouldSkip_def reach_bounded_def split: option.splits)
qed

lemma reach_step_frame [simp]: "rc_maxEntries (reach_step e c) = rc_maxEntries c"
  by (cases e) (auto simp: reachability_mark_def reachability_observeSuccess_def reachability_shouldSkip_def sweepLocked_def
      Let_def case_prod_beta split: option.splits)

lemma reach_run:
  "reach_ok (rev es) (fold reach_step es newReachabilityCache) \<and> reach_bounded (fold reach_step es newReachabilityCache) \<and>
   rc_maxEntries (fold reach_step es newReachabilityCache) = 1024"
proof (induction es rule: rev_induct)
  case (snoc e es)
  then show ?case using reach_step_ok reach_step_bounded by auto
qed (simp add: reach_ok_def reach_bounded_def newReachabilityCache_def newReachabilityCacheWithLimit_def
    defaultReachabilityMaxEntries_def gm_has_def)

text \<open>
  C21. An address is blacked out only after two strikes: when \<open>shouldSkip\<close> refuses an address after any sequence of hard
  errors, successes and checks, two hard errors of that address were reported at most the blackout's length apart with no
  success of it between them, and the blackout they started has not expired. The cache never holds more than 1024 blackouts or 1024 pending strikes.
\<close>

theorem blackout_needs_two_strikes:
  "let c = fold reach_step es newReachabilityCache in
     length (rc_data c) \<le> 1024 \<and> length (rc_pending c) \<le> 1024 \<and>
     (fst (fst (reachability_shouldSkip now addr c)) \<longrightarrow>
        (\<exists>before t0 ttl0 between t ttl after. es = before @ Mark t0 addr ttl0 # between @ Mark t addr ttl # after \<and>
           Success addr \<notin> set between \<and> time_sub t t0 \<le> ttl \<and> now < t + ttl))"
proof -
  define c where "c = fold reach_step es newReachabilityCache"
  have c: "reach_ok (rev es) c" "reach_bounded c" "rc_maxEntries c = 1024"
    using reach_run [of es] unfolding c_def by auto
  have "\<exists>before t0 ttl0 between t ttl after. es = before @ Mark t0 addr ttl0 # between @ Mark t addr ttl # after \<and>
           Success addr \<notin> set between \<and> time_sub t t0 \<le> ttl \<and> now < t + ttl"
    if skip: "fst (fst (reachability_shouldSkip now addr c))"
  proof -
    obtain e where e: "gm_get (rc_data c) addr = Some e" "now < e"
      using skip by (auto simp: reachability_shouldSkip_def split: if_splits option.splits)
    then have "struck_twice (rev es) addr e" using c(1) unfolding reach_ok_def by blast
    then obtain new t ttl old t0 new' ttl0 old' where
      "rev es = new @ Mark t addr ttl # new' @ Mark t0 addr ttl0 # old'" "Success addr \<notin> set new'"
      "time_sub t t0 \<le> ttl" "e = t + ttl"
      unfolding struck_twice_def struck_def by blast
    moreover from this(1) have "es = rev old' @ Mark t0 addr ttl0 # rev new' @ Mark t addr ttl # rev new"
      by (simp add: rev_swap)
    moreover have "Success addr \<notin> set (rev new')" using calculation(2) by simp
    moreover have "now < t + ttl" using calculation(4) e(2) by simp
    ultimately show ?thesis by blast
  qed
  then show ?thesis using c(2,3) unfolding Let_def c_def [symmetric] by (auto simp: reach_bounded_def)
qed

definition two_strikes :: "reach_event list" where
  "two_strikes = [Mark 0 ''192.0.2.1'' 10, Success ''192.0.2.2'', Mark 5 ''192.0.2.1'' 10]"

lemma two_strikes_skip: "fst (fst (reachability_shouldSkip 6 ''192.0.2.1'' (fold reach_step two_strikes newReachabilityCache)))"
  by code_simp

theorem blackout_needs_two_strikes_witness:
  "fst (fst (reachability_shouldSkip 6 ''192.0.2.1'' (fold reach_step two_strikes newReachabilityCache))) \<and>
   (\<exists>before t0 ttl0 between t ttl after.
      two_strikes = before @ Mark t0 ''192.0.2.1'' ttl0 # between @ Mark t ''192.0.2.1'' ttl # after \<and>
      Success ''192.0.2.1'' \<notin> set between \<and> time_sub t t0 \<le> ttl \<and> 6 < t + ttl)"
  using blackout_needs_two_strikes [of two_strikes 6 "''192.0.2.1''"] two_strikes_skip unfolding Let_def by blast

section \<open>Giving up on slow servers\<close>

text \<open>Timeouts at the end of the results of one protocol, the newest last.\<close>

definition trailing_timeouts :: "bool \<Rightarrow> (bool \<times> bool) list \<Rightarrow> nat" where
  "trailing_timeouts useTCP rs = length (takeWhile snd (rev (filter (\<lambda>r. fst r = useTCP) rs)))"

definition fast_fail_run :: "int \<Rightarrow> (bool \<times> bool) list \<Rightarrow> fastFailTracker \<Rightarrow> fastFailTracker" where
  "fast_fail_run threshold rs t = fold (\<lambda>(useTCP, timeout) t. snd (fastFail_observeResult useTCP timeout threshold t)) rs t"

definition new_fastFail :: fastFailTracker where
  "new_fastFail = \<lparr>ff_udp = \<lparr>ff_consecutiveTimeouts = 0, ff_blocked = False\<rparr>,
                   ff_tcp = \<lparr>ff_consecutiveTimeouts = 0, ff_blocked = False\<rparr>\<rparr>"

lemma stateForProtocol_with [simp]:
  "stateForProtocol p (with_protocol q s t) = (if p = q then s else stateForProtocol p t)"
  by (auto simp: stateForProtocol_def with_protocol_def)

lemma trailing_snoc:
  "trailing_timeouts p (rs @ [(q, b)]) = (if p = q then (if b then Suc (trailing_timeouts p rs) else 0) else trailing_timeouts p rs)"
  by (auto simp: trailing_timeouts_def)

lemma fast_fail_tracks:
  assumes "0 < \<theta>"
  shows "let s = stateForProtocol p (fast_fail_run \<theta> rs new_fastFail); n = int (trailing_timeouts p rs)
    in (ff_blocked s \<longleftrightarrow> \<theta> \<le> n) \<and> (\<not> ff_blocked s \<longrightarrow> ff_consecutiveTimeouts s = n)"
proof (induction rs rule: rev_induct)
  case Nil
  then show ?case using assms by (simp add: fast_fail_run_def new_fastFail_def stateForProtocol_def trailing_timeouts_def Let_def)
next
  case (snoc r rs)
  obtain q b where r: "r = (q, b)" by force
  have run: "fast_fail_run \<theta> (rs @ [(q, b)]) new_fastFail =
      snd (fastFail_observeResult q b \<theta> (fast_fail_run \<theta> rs new_fastFail))"
    by (simp add: fast_fail_run_def)
  show ?case using snoc assms unfolding r run trailing_snoc
    by (cases "p = q"; cases b) (auto simp: fastFail_observeResult_def Let_def)
qed

text \<open>
  C31. Fast failure gives up on a server over one protocol exactly while the newest results of that
  protocol are at least \<open>threshold\<close> timeouts in a row: one other result clears it, and the other protocol is never affected.
\<close>

theorem fast_fail_exact:
  "fastFail_shouldSkip useTCP threshold (fast_fail_run threshold rs new_fastFail) \<longleftrightarrow>
     0 < threshold \<and> threshold \<le> int (trailing_timeouts useTCP rs)"
  using fast_fail_tracks [of threshold useTCP rs] by (auto simp: fastFail_shouldSkip_def Let_def)

text \<open>
  The debounce of the error cache counts on the same tracker. Two timeouts in a row are seen whenever fast failure is on;
  with a threshold of 0, which turns it off, they are never seen, however many there are.
\<close>

lemma saw_consecutive_timeouts_iff:
  assumes "0 < threshold"
  shows "sawConsecutiveTimeouts useTCP (fast_fail_run threshold rs new_fastFail) \<longleftrightarrow>
    min threshold 2 \<le> int (trailing_timeouts useTCP rs)"
  using fast_fail_tracks [OF assms, of useTCP rs] by (auto simp: sawConsecutiveTimeouts_def Let_def)

theorem debounce_blind_without_fast_fail:
  "\<not> sawConsecutiveTimeouts useTCP (fast_fail_run 0 rs new_fastFail)"
proof -
  have "fast_fail_run 0 rs t = t" for t
    by (induction rs arbitrary: t) (auto simp: fast_fail_run_def fastFail_observeResult_def)
  then show ?thesis by (simp add: sawConsecutiveTimeouts_def new_fastFail_def stateForProtocol_def)
qed

definition latency_run :: "duration \<Rightarrow> duration list \<Rightarrow> latencyTracker \<Rightarrow> latencyTracker" where
  "latency_run budget ds t = fold (\<lambda>d t. snd (latency_observe d budget t)) ds t"

lemma latency_blocked_keeps: "lt_blocked t \<Longrightarrow> latency_run budget ds t = t"
  by (induction ds) (auto simp: latency_run_def latency_observe_def)

text \<open>The latency budget is spent exactly when some prefix of the query times reached it.\<close>

lemma latency_exact:
  assumes "0 < budget"
  shows "latency_shouldSkip budget (latency_run budget ds \<lparr>lt_total = x, lt_blocked = False\<rparr>) \<longleftrightarrow>
    (\<exists>n. 0 < n \<and> n \<le> length ds \<and> budget \<le> x + sum_list (take n ds))"
proof (induction ds arbitrary: x)
  case Nil
  then show ?case by (simp add: latency_run_def latency_shouldSkip_def)
next
  case (Cons d ds)
  have step: "(\<exists>n. 0 < n \<and> n \<le> length (d # ds) \<and> budget \<le> x + sum_list (take n (d # ds))) \<longleftrightarrow>
      budget \<le> x + d \<or> (\<exists>n. 0 < n \<and> n \<le> length ds \<and> budget \<le> (x + d) + sum_list (take n ds))" (is "?l \<longleftrightarrow> ?r")
  proof
    assume ?l
    then obtain n where n: "0 < n" "n \<le> Suc (length ds)" "budget \<le> x + sum_list (take n (d # ds))" by auto
    then show ?r by (cases n; cases "n - 1") (auto simp: add.assoc)
  next
    assume ?r
    then show ?l
    proof
      assume "budget \<le> x + d" then show ?l by (intro exI [of _ 1]) simp
    next
      assume "\<exists>n. 0 < n \<and> n \<le> length ds \<and> budget \<le> (x + d) + sum_list (take n ds)"
      then obtain n where "0 < n" "n \<le> length ds" "budget \<le> (x + d) + sum_list (take n ds)" by auto
      then show ?l by (intro exI [of _ "Suc n"]) (simp add: add.assoc)
    qed
  qed
  show ?case
  proof (cases "budget \<le> x + d")
    case True
    then have "latency_run budget (d # ds) \<lparr>lt_total = x, lt_blocked = False\<rparr> = \<lparr>lt_total = x + d, lt_blocked = True\<rparr>"
      using assms latency_blocked_keeps [of "\<lparr>lt_total = x + d, lt_blocked = True\<rparr>" budget ds]
      by (simp add: latency_run_def latency_observe_def)
    then show ?thesis unfolding step using True assms by (simp add: latency_shouldSkip_def)
  next
    case False
    then have "latency_run budget (d # ds) \<lparr>lt_total = x, lt_blocked = False\<rparr> =
        latency_run budget ds \<lparr>lt_total = x + d, lt_blocked = False\<rparr>"
      using assms by (simp add: latency_run_def latency_observe_def)
    then show ?thesis unfolding step using False Cons.IH [of "x + d"] by simp
  qed
qed

section \<open>A run's fan-out is bounded\<close>

definition admitted :: "ip_addr list \<Rightarrow> runLimits" where
  "admitted as = fold (\<lambda>a l. snd (limits_admit a l)) as newRunLimits"

lemma admit_bounded:
  "distinct (rl_addrs l) \<Longrightarrow> length (rl_addrs l) \<le> MaxRunAddresses \<Longrightarrow>
   distinct (rl_addrs (snd (limits_admit a l))) \<and> length (rl_addrs (snd (limits_admit a l))) \<le> MaxRunAddresses"
  by (auto simp: limits_admit_def)

lemma admit_iff: "fst (limits_admit a l) \<longleftrightarrow> a \<in> set (rl_addrs (snd (limits_admit a l)))"
  by (auto simp: limits_admit_def)

lemma admit_mono: "set (rl_addrs l) \<subseteq> set (rl_addrs (snd (limits_admit a l)))"
  by (auto simp: limits_admit_def)

lemma admitted_snoc: "admitted (as @ [a]) = snd (limits_admit a (admitted as))"
  by (simp add: admitted_def)

lemma admitted_bounded:
  "distinct (rl_addrs (admitted as)) \<and> length (rl_addrs (admitted as)) \<le> MaxRunAddresses \<and>
   set (rl_addrs (admitted as)) \<subseteq> set as"
proof (induction as rule: rev_induct)
  case (snoc a as)
  then show ?case using admit_bounded [of "admitted as" a] by (auto simp: admitted_snoc limits_admit_def)
qed (simp add: admitted_def newRunLimits_def)

text \<open>The first 512 addresses a run asks for are the ones it may query: below the limit every address is admitted.\<close>

lemma admitted_complete:
  "card (set as) \<le> MaxRunAddresses \<Longrightarrow> set (rl_addrs (admitted as)) = set as"
proof (induction as rule: rev_induct)
  case (snoc a as)
  have "card (set as) \<le> card (set (as @ [a]))" by (rule card_mono) auto
  with snoc have eq: "set (rl_addrs (admitted as)) = set as" by linarith
  have "length (rl_addrs (admitted as)) = card (set as)"
    using eq admitted_bounded [of as] by (metis distinct_card)
  moreover have "a \<in> set as \<or> card (set as) < MaxRunAddresses" using snoc.prems by (cases "a \<in> set as") simp_all
  ultimately have "rl_addrs (admitted (as @ [a])) = (if a \<in> set as then rl_addrs (admitted as) else rl_addrs (admitted as) @ [a])"
    by (auto simp: admitted_snoc limits_admit_def eq)
  then show ?case using eq by auto
qed (simp add: admitted_def newRunLimits_def)

lemma distinct_sort_by [simp]: "distinct (sort_by lt xs) = distinct xs"
  by (rule mset_eq_imp_distinct_iff) simp

lemma sorted_wrt_remdups_adj: "sorted_wrt P xs \<Longrightarrow> sorted_wrt P (remdups_adj xs)"
  by (induction xs rule: remdups_adj.induct) auto

lemma CapAddresses_bounds:
  assumes "CapAddresses show_addr lg ns addrs l = (out, es, l')"
  shows "length out \<le> MaxNSAddresses" "set out \<subseteq> set addrs" "sorted_wrt (\<lambda>a b. show_addr a \<le> show_addr b) out"
proof -
  let ?s = "sort_by (cmp_key show_addr) addrs"
  have out: "out = take MaxNSAddresses (remdups_adj ?s)"
    using assms by (auto simp: CapAddresses_def Let_def split: if_splits prod.splits)
  have "sorted_wrt (\<lambda>a b. show_addr a \<le> show_addr b) ?s"
    using key_cmp.sort_by_sorted [of show_addr addrs] by (simp add: cmp_key_def not_less)
  then have "sorted_wrt (\<lambda>a b. show_addr a \<le> show_addr b) (remdups_adj ?s)"
    by (rule sorted_wrt_remdups_adj)
  then show "sorted_wrt (\<lambda>a b. show_addr a \<le> show_addr b) out" by (simp add: out sorted_wrt_take)
  show "length out \<le> MaxNSAddresses" by (simp add: out)
  show "set out \<subseteq> set addrs" using set_take_subset [of MaxNSAddresses "remdups_adj ?s"] by (simp add: out)
qed

lemma cap_each_bounds:
  "cap_each show_addr lg m l = (m', es, l') \<Longrightarrow>
     map fst m' = map fst m \<and>
     (\<forall>name addrs'. (name, addrs') \<in> set m' \<longrightarrow>
        length addrs' \<le> MaxNSAddresses \<and> sorted_wrt (\<lambda>a b. show_addr a \<le> show_addr b) addrs' \<and>
        (\<exists>addrs. (name, addrs) \<in> set m \<and> set addrs' \<subseteq> set addrs))"
proof (induction m arbitrary: m' es l l')
  case (Cons x m)
  obtain name addrs where x: "x = (name, addrs)" by force
  show ?case
  proof (cases "addrs = []")
    case True
    obtain m1 es1 l1 where e: "cap_each show_addr lg m l = (m1, es1, l1)" using prod_cases3 by blast
    then have "m' = (name, []) # m1" using Cons.prems x True by simp
    then show ?thesis using Cons.IH [OF e] x True by (fastforce simp: MaxNSAddresses_def)
  next
    case False
    obtain a1 es1 l1 where a: "CapAddresses show_addr lg name addrs l = (a1, es1, l1)" using prod_cases3 by blast
    obtain m1 es2 l2 where e: "cap_each show_addr lg m l1 = (m1, es2, l2)" using prod_cases3 by blast
    have "m' = (name, a1) # m1" using Cons.prems x False a e by simp
    then show ?thesis using Cons.IH [OF e] CapAddresses_bounds [OF a] x by fastforce
  qed
qed simp

text \<open>
  C30. The fan-out of a zone and of a run is bounded. \<open>CapNSMap\<close> keeps at most 32 nameserver names, the
  first ones in byte order (all of them when there are no more), each with at most 16 addresses, sorted and taken from those it had; and a run admits at
  most 512 distinct addresses, all that it asks for while it asks for no more.
\<close>

theorem fan_out_bounded:
  assumes "gm_wf m" and "CapNSMap show_addr lg domain m l = (m', es, l')"
  shows "length m' \<le> 32 \<and> fst ` set m' \<subseteq> fst ` set m \<and> (length m \<le> 32 \<longrightarrow> fst ` set m' = fst ` set m) \<and>
    (\<forall>kept dropped. kept \<in> fst ` set m' \<longrightarrow> dropped \<in> fst ` set m - fst ` set m' \<longrightarrow> kept < dropped) \<and>
    (\<forall>name addrs'. (name, addrs') \<in> set m' \<longrightarrow>
       length addrs' \<le> 16 \<and> sorted_wrt (\<lambda>a b. show_addr a \<le> show_addr b) addrs' \<and>
       (\<exists>addrs. gm_get m name = Some addrs \<and> set addrs' \<subseteq> set addrs)) \<and>
    length (rl_addrs (admitted as)) \<le> 512 \<and> distinct (rl_addrs (admitted as)) \<and> set (rl_addrs (admitted as)) \<subseteq> set as \<and>
    (card (set as) \<le> 512 \<longrightarrow> set (rl_addrs (admitted as)) = set as)"
proof -
  let ?names = "sort_by (cmp_key (\<lambda>n. n)) (map fst m)"
  obtain kept es1 l1 where k: "CapNames lg domain ?names l = (kept, es1, l1)" using prod_cases3 by blast
  have kept: "kept = take 32 ?names"
    using k by (auto simp: CapNames_def MaxNSNames_def Let_def split: if_splits prod.splits)
  have lk: "length kept = min 32 (length m)" by (simp add: kept)
  define m1 where "m1 = fold gm_del (drop (length kept) ?names) m"
  obtain m2 es2 l2 where e: "cap_each show_addr lg m1 l1 = (m2, es2, l2)" using prod_cases3 by blast
  have m': "m' = m2" using assms(2) k e by (simp add: CapNSMap_def Let_def m1_def)
  note each = cap_each_bounds [OF e]
  have dist: "distinct ?names" using assms(1) by (simp add: gm_wf_def)
  have names: "set ?names = fst ` set m" by simp
  have sub: "set kept \<subseteq> fst ` set m" using set_take_subset [of 32 ?names] names kept by simp
  have "take (length kept) ?names = kept" by (simp add: kept min_def)
  then have "set (drop (length kept) ?names) = fst ` set m - set kept"
    using set_drop_distinct [OF dist, of "length kept"] names by simp
  then have keys1: "fst ` set m1 = set kept" using sub unfolding m1_def gm_keys_fold_del by auto
  have keys: "fst ` set m' = set kept" using each keys1 m' by (metis list.set_map)
  have "length m' = length kept"
    using each m' keys1 gm_length_keys [of m1] gm_wf_fold_del [OF assms(1)] dist kept
    by (metis distinct_card distinct_take length_map m1_def)
  moreover have "length m \<le> 32 \<Longrightarrow> set kept = fst ` set m" using names kept by simp
  moreover have "x < y" if "x \<in> set kept" "y \<in> fst ` set m - set kept" for x y
  proof -
    have "y \<in> set (drop 32 ?names)" using that(2) set_drop_distinct [OF dist, of 32] kept by simp
    moreover have "sorted_wrt (\<lambda>a b. \<not> b < a) (take 32 ?names @ drop 32 ?names)"
      using key_cmp.sort_by_sorted [of "\<lambda>n. n" "map fst m"] by (simp add: cmp_key_def)
    ultimately have "\<not> y < x" using that(1) unfolding kept sorted_wrt_append by blast
    then show ?thesis using that by (metis DiffD2 linorder_cases)
  qed
  moreover have "\<exists>addrs. gm_get m name = Some addrs \<and> set addrs' \<subseteq> set addrs" if mem: "(name, addrs') \<in> set m'" for name addrs'
  proof -
    obtain addrs where a: "(name, addrs) \<in> set m1" "set addrs' \<subseteq> set addrs" using each m' mem by blast
    then have "gm_get m1 name = Some addrs" using gm_in_get gm_wf_fold_del assms(1) m1_def by metis
    then show ?thesis using a(2) unfolding m1_def by (auto simp: gm_get_fold_del split: if_splits)
  qed
  ultimately show ?thesis
    using sub each m' lk keys admitted_bounded [of as] admitted_complete [of as]
    unfolding MaxNSAddresses_def MaxRunAddresses_def by auto
qed

fun sample_addr_String :: "ip_addr \<Rightarrow> string" where
  "sample_addr_String (V4 w) = itoa (uint w)"
| "sample_addr_String (V6 w z) = CHR '':'' # itoa (uint w) @ z"

definition sample_ns :: "(string, ip_addr list) gomap" where
  "sample_ns = [(''ns2.example'', [V4 2, V4 1, V4 2]), (''ns1.example'', [])]"

lemma sample_ns_capped:
  "gm_wf sample_ns"
  "CapNSMap sample_addr_String None ''example'' sample_ns newRunLimits =
     ([(''ns2.example'', [V4 1, V4 2]), (''ns1.example'', [])], [], newRunLimits)"
  by (code_simp, code_simp)

theorem fan_out_bounded_witness:
  "(\<exists>addrs. gm_get sample_ns ''ns2.example'' = Some addrs \<and> set [V4 1, V4 2] \<subseteq> set addrs) \<and>
   set (rl_addrs (admitted [V4 1])) = {V4 1}"
  using fan_out_bounded [OF sample_ns_capped, of "[V4 1]"] by simp

end
