(* ===== verification/Transport.thy ===== *)
theory Transport
  imports Message
begin

text \<open>
  The DNS client of the engine (\<open>engine/transport/client.go\<close>): its settings and the profile's
  defaults for them, the message it puts on the wire, the timeout of an attempt, and the loop of attempts with
  the repetition of truncated answers over TCP. The dialled connection is a parameter: \<open>net\<close> is the outcome that the
  \<open>n\<close>th attempt gets over UDP or TCP, \<open>cancelled\<close> what \<open>ctx.Err()\<close> returns at each place that reads it. A nil
  context is one that is never cancelled and has no deadline.
\<close>

section \<open>Profiles, errors, options\<close>

text \<open>The settings of a profile that queries depend on.\<close>

record resolver_defaults =
  rd_Fallback :: bool
  rd_Retrans :: int
  rd_Retry :: int
  rd_Timeout :: int
  rd_ErrorCacheTTL :: int
  rd_NegativeCacheTTL :: int
  rd_FastFailTimeoutCount :: int
  rd_NameserverConcurrency :: int
  rd_NameserverMaxTotalMS :: int

record query_profile =
  qp_Defaults :: resolver_defaults
  qp_Source4 :: string
  qp_Source6 :: string
  qp_IPv4 :: bool
  qp_IPv6 :: bool
  qp_AllowNonGlobalTargets :: bool
  qp_NoNetwork :: bool

text \<open>
  An error: what \<open>net.Error.Timeout\<close> says of it, the names of the errors \<open>errors.Is\<close> finds in its chain, and its text.
\<close>

record goerror =
  e_Timeout :: bool
  e_Is :: "string list"
  e_Text :: string

definition plain_error :: "string \<Rightarrow> goerror" where
  "plain_error s = \<lparr>e_Timeout = False, e_Is = [], e_Text = s\<rparr>"

record EDNSDetails =
  ed_Do :: "bool option"
  ed_Size :: "16 word option"
  ed_Version :: "8 word option"
  ed_Z :: "16 word option"
  ed_Rcode :: "8 word option"
  ed_Data :: "string list"

section \<open>The client\<close>

definition EDNSUDPPayloadDefault :: "16 word" where "EDNSUDPPayloadDefault = 512"
definition EDNSUDPPayloadDNSSECDefault :: "16 word" where "EDNSUDPPayloadDNSSECDefault = 1232"
definition defaultTimeout :: duration where "defaultTimeout = 5 * second"

record client =
  cl_Timeout :: duration
  cl_Retries :: int
  cl_Retrans :: duration
  cl_UseTCP :: bool
  cl_Fallback :: bool
  cl_EDNSSize :: "16 word"
  cl_DNSSEC :: bool
  cl_EDNSDetails :: "EDNSDetails option"
  cl_RecursionDesired :: bool
  cl_CheckingDisabled :: bool
  cl_SourceIP :: string
  cl_SourcePort :: int
  cl_timeoutSpecified :: bool
  cl_retriesSpecified :: bool
  cl_retransSpecified :: bool
  cl_fallbackSpecified :: bool
  cl_ednsSizeSpecified :: bool

definition zero_client :: client where
  "zero_client = \<lparr>cl_Timeout = 0, cl_Retries = 0, cl_Retrans = 0, cl_UseTCP = False, cl_Fallback = False, cl_EDNSSize = 0,
     cl_DNSSEC = False, cl_EDNSDetails = None, cl_RecursionDesired = False, cl_CheckingDisabled = False, cl_SourceIP = [],
     cl_SourcePort = 0, cl_timeoutSpecified = False, cl_retriesSpecified = False, cl_retransSpecified = False,
     cl_fallbackSpecified = False, cl_ednsSizeSpecified = False\<rparr>"

definition SetUseTCP :: "bool \<Rightarrow> client \<Rightarrow> client" where
  "SetUseTCP v c = c\<lparr>cl_UseTCP := v\<rparr>"

definition SetTimeout :: "duration \<Rightarrow> client \<Rightarrow> client" where
  "SetTimeout v c = c\<lparr>cl_Timeout := v, cl_timeoutSpecified := True\<rparr>"

definition SetRetries :: "int \<Rightarrow> client \<Rightarrow> client" where
  "SetRetries v c = c\<lparr>cl_Retries := v, cl_retriesSpecified := True\<rparr>"

definition SetRetrans :: "duration \<Rightarrow> client \<Rightarrow> client" where
  "SetRetrans v c = c\<lparr>cl_Retrans := v, cl_retransSpecified := True\<rparr>"

definition SetFallback :: "bool \<Rightarrow> client \<Rightarrow> client" where
  "SetFallback v c = c\<lparr>cl_Fallback := v, cl_fallbackSpecified := True\<rparr>"

definition SetEDNSSize :: "16 word \<Rightarrow> client \<Rightarrow> client" where
  "SetEDNSSize v c = c\<lparr>cl_EDNSSize := v, cl_ednsSizeSpecified := True\<rparr>"

definition SetRecursionDesired :: "bool \<Rightarrow> client \<Rightarrow> client" where
  "SetRecursionDesired v c = c\<lparr>cl_RecursionDesired := v\<rparr>"

definition SetCheckingDisabled :: "bool \<Rightarrow> client \<Rightarrow> client" where
  "SetCheckingDisabled v c = c\<lparr>cl_CheckingDisabled := v\<rparr>"

lemmas setter_defs = SetUseTCP_def SetTimeout_def SetRetries_def SetRetrans_def SetFallback_def SetEDNSSize_def
  SetRecursionDesired_def SetCheckingDisabled_def

definition ApplyProfileDefaults :: "query_profile \<Rightarrow> client \<Rightarrow> client" where
  "ApplyProfileDefaults p c =
     (let d = qp_Defaults p in
      c\<lparr>cl_Timeout := (if \<not> cl_timeoutSpecified c \<and> cl_Timeout c = 0 then wrap64 (rd_Timeout d * second) else cl_Timeout c),
        cl_Retries := (if \<not> cl_retriesSpecified c \<and> cl_Retries c = 0 then rd_Retry d else cl_Retries c),
        cl_Retrans := (if \<not> cl_retransSpecified c \<and> cl_Retrans c = 0 then wrap64 (rd_Retrans d * second) else cl_Retrans c),
        cl_Fallback := (if \<not> cl_fallbackSpecified c then rd_Fallback d else cl_Fallback c),
        cl_EDNSSize := (if \<not> cl_ednsSizeSpecified c \<and> cl_EDNSSize c = 0 \<and> cl_DNSSEC c
                        then EDNSUDPPayloadDNSSECDefault else cl_EDNSSize c)\<rparr>)"

text \<open>\<open>BuildQueryWithClass\<close> for a type of the library's table; \<open>Fqdn\<close> appends the final dot a name lacks.\<close>

definition Fqdn :: "string \<Rightarrow> string" where
  "Fqdn s = (if has_suffix s ''.'' then s else s @ ''.'')"

definition BuildQueryWithClass :: "string \<Rightarrow> string \<Rightarrow> string \<Rightarrow> dns_msg" where
  "BuildQueryWithClass name qtype qclass = new_msg\<lparr>m_Question := [(Fqdn name, qtype, qclass)]\<rparr>"

definition with_some :: "'a option \<Rightarrow> ('a \<Rightarrow> 'b \<Rightarrow> 'b) \<Rightarrow> 'b \<Rightarrow> 'b" where
  "with_some x f b = (case x of None \<Rightarrow> b | Some a \<Rightarrow> f a b)"

definition prepare_details :: "EDNSDetails \<Rightarrow> dns_msg \<Rightarrow> dns_msg" where
  "prepare_details d m =
     (let m1 = with_some (ed_Do d) (\<lambda>v m. m\<lparr>m_Security := v\<rparr>) m;
          m2 = with_some (ed_Size d) (\<lambda>v m. m\<lparr>m_UDPSize := v\<rparr>) m1;
          m3 = with_some (ed_Version d) (\<lambda>v m. m\<lparr>m_Version := v\<rparr>) m2;
          m4 = with_some (ed_Rcode d) (\<lambda>v m. m\<lparr>m_Rcode := ucast v\<rparr>) m3
      in m4\<lparr>m_Pseudo := m_Pseudo m4 @ map EDNS0 (ed_Data d)\<rparr>)"

definition prepareMessage :: "client \<Rightarrow> dns_msg \<Rightarrow> dns_msg" where
  "prepareMessage c msg =
     (let m1 = (if cl_RecursionDesired c then msg\<lparr>m_RecursionDesired := True\<rparr> else msg);
          m2 = (if cl_CheckingDisabled c then m1\<lparr>m_CheckingDisabled := True\<rparr> else m1)
      in if 0 < cl_EDNSSize c \<or> cl_EDNSDetails c \<noteq> None
         then let m3 = m2\<lparr>m_UDPSize := cl_EDNSSize c, m_Security := cl_DNSSEC c\<rparr>;
                  m4 = with_some (cl_EDNSDetails c) prepare_details m3;
                  z = Option.bind (cl_EDNSDetails c) ed_Z
              in if cl_EDNSDetails c \<noteq> None \<or> m_UDPSize m4 \<le> MinMsgSize then ApplyExplicit z m4 else m4
         else m2)"

section \<open>One attempt\<close>

definition effectiveAttemptTimeout :: "client \<Rightarrow> duration option \<Rightarrow> bool \<Rightarrow> bool \<Rightarrow> duration" where
  "effectiveAttemptTimeout c remaining useTCP fromUDPFallback =
     (let attempt = (if cl_Timeout c \<le> 0 then (if 0 < cl_Retrans c then cl_Retrans c else defaultTimeout)
                     else if 0 < cl_Retrans c \<and> cl_Retrans c < cl_Timeout c \<and> (\<not> useTCP \<or> fromUDPFallback)
                     then cl_Retrans c else cl_Timeout c);
          attempt = (case remaining of Some r \<Rightarrow> if 0 < r \<and> r < attempt then r else attempt | None \<Rightarrow> attempt)
      in if attempt \<le> 0 then defaultTimeout else attempt)"

text \<open>\<open>checkQuestion\<close>; two names are equal for the library when they differ in case only.\<close>

definition ErrQuestionMismatch :: goerror where
  "ErrQuestionMismatch = \<lparr>e_Timeout = False, e_Is = [''ErrQuestionMismatch''],
     e_Text = ''reply question does not match the query''\<rparr>"

definition same_question :: "string \<times> string \<times> string \<Rightarrow> string \<times> string \<times> string \<Rightarrow> bool" where
  "same_question q r \<longleftrightarrow> fst (snd q) = fst (snd r) \<and> snd (snd q) = snd (snd r) \<and> equal_fold (fst q) (fst r)"

definition checkQuestion :: "dns_msg \<Rightarrow> dns_msg \<Rightarrow> duration \<Rightarrow> goerror + dns_msg \<times> duration" where
  "checkQuestion query resp rtt =
     (if m_Question resp = [] \<or> m_Question query = [] then Inr (resp, rtt)
      else if \<not> same_question (hd (m_Question query)) (hd (m_Question resp)) then Inl ErrQuestionMismatch
      else Inr (resp, rtt))"

datatype exchange_point = BeforeAttempt nat | DuringExchange nat bool | AfterError nat bool

datatype dialled = DialFailed goerror | Connected "goerror + dns_msg \<times> duration"

record wire =
  net :: "nat \<Rightarrow> bool \<Rightarrow> dialled"
  cancelled :: "exchange_point \<Rightarrow> goerror option"
  parse_ip :: "string \<Rightarrow> bool"
  received :: gotime

text \<open>\<open>exchangeOnce\<close> and \<open>exchangeWithConnCancelable\<close>: the attempt \<open>i\<close>, over TCP or not.\<close>

definition exchangeOnce :: "wire \<Rightarrow> client \<Rightarrow> dns_msg \<Rightarrow> nat \<Rightarrow> bool \<Rightarrow> goerror + dns_msg \<times> duration" where
  "exchangeOnce w c msg i useTCP =
     (if cl_SourceIP c \<noteq> [] \<and> \<not> parse_ip w (cl_SourceIP c) then Inl (plain_error (''invalid source IP: '' @ cl_SourceIP c))
      else case net w i useTCP of
        DialFailed e \<Rightarrow> Inl e
      | Connected reply \<Rightarrow>
          (case cancelled w (DuringExchange i useTCP) of
             Some e \<Rightarrow> Inl e
           | None \<Rightarrow> (case reply of Inl e \<Rightarrow> Inl e | Inr (resp, rtt) \<Rightarrow> checkQuestion msg resp rtt)))"

definition protocolName :: "bool \<Rightarrow> string" where
  "protocolName useTCP = (if useTCP then ''tcp'' else ''udp'')"

section \<open>The loop of attempts\<close>

text \<open>
  The loop returns what \<open>Exchange\<close> returns and the attempts it made, each with its number and transport.
  \<open>lastErr\<close> is \<open>None\<close> until an attempt failed.
\<close>

type_synonym attempt = "nat \<times> bool"

definition exchanged :: "wire \<Rightarrow> string \<Rightarrow> bool \<Rightarrow> dns_msg \<times> duration \<Rightarrow> packet" where
  "exchanged w server usedTCP r = \<lparr>p_Msg = Some (fst r), p_AnswerFrom = server, p_QueryTime = snd r,
     p_Timestamp = received w, p_Protocol = protocolName usedTCP, p_Log = None\<rparr>"

definition no_response :: goerror where "no_response = plain_error ''no response''"

fun exchange_loop ::
  "wire \<Rightarrow> client \<Rightarrow> string \<Rightarrow> dns_msg \<Rightarrow> nat \<Rightarrow> nat \<Rightarrow> goerror option \<Rightarrow> (goerror + packet) \<times> attempt list" where
  "exchange_loop w c server msg i 0 lastErr = (Inl (case lastErr of None \<Rightarrow> no_response | Some e \<Rightarrow> e), [])"
| "exchange_loop w c server msg i (Suc n) lastErr =
     (case cancelled w (BeforeAttempt i) of
        Some e \<Rightarrow> (Inl e, [])
      | None \<Rightarrow>
          (case exchangeOnce w c msg i (cl_UseTCP c) of
             Inl e \<Rightarrow>
               (case cancelled w (AfterError i (cl_UseTCP c)) of
                  Some e' \<Rightarrow> (Inl e', [(i, cl_UseTCP c)])
                | None \<Rightarrow> (let (r, as) = exchange_loop w c server msg (Suc i) n (Some e) in (r, (i, cl_UseTCP c) # as)))
           | Inr (resp, rtt) \<Rightarrow>
               if \<not> cl_UseTCP c \<and> m_Truncated resp \<and> cl_Fallback c
               then (case exchangeOnce w c msg i True of
                       Inl e \<Rightarrow>
                         (case cancelled w (AfterError i True) of
                            Some e' \<Rightarrow> (Inl e', [(i, False), (i, True)])
                          | None \<Rightarrow> (let (r, as) = exchange_loop w c server msg (Suc i) n (Some e)
                                     in (r, (i, False) # (i, True) # as)))
                     | Inr r' \<Rightarrow> (Inr (exchanged w server True r'), [(i, False), (i, True)]))
               else (Inr (exchanged w server (cl_UseTCP c) (resp, rtt)), [(i, cl_UseTCP c)])))"

definition attempts_of :: "client \<Rightarrow> nat" where
  "attempts_of c = (if 0 < cl_Retries c then 1 + nat (cl_Retries c) else 1)"

definition Exchange ::
  "wire \<Rightarrow> query_profile \<Rightarrow> goerror option \<Rightarrow> client \<Rightarrow> string \<Rightarrow> dns_msg \<Rightarrow> (goerror + packet) \<times> attempt list" where
  "Exchange w p slot c server msg =
     (case slot of
        Some e \<Rightarrow> (Inl e, [])
      | None \<Rightarrow> (let eff = ApplyProfileDefaults p c
                 in exchange_loop w eff server (prepareMessage eff msg) 0 (attempts_of eff) None))"

section \<open>What an exchange returns\<close>

text \<open>The outcome of the attempt \<open>i\<close> as a whole: the answer it settles on with its transport, or its error.\<close>

definition attempt_outcome :: "wire \<Rightarrow> client \<Rightarrow> dns_msg \<Rightarrow> nat \<Rightarrow> goerror + bool \<times> dns_msg \<times> duration" where
  "attempt_outcome w c msg i =
     (case exchangeOnce w c msg i (cl_UseTCP c) of
        Inl e \<Rightarrow> Inl e
      | Inr r \<Rightarrow>
          if \<not> cl_UseTCP c \<and> m_Truncated (fst r) \<and> cl_Fallback c
          then (case exchangeOnce w c msg i True of Inl e \<Rightarrow> Inl e | Inr r' \<Rightarrow> Inr (True, r'))
          else Inr (cl_UseTCP c, r))"

definition attempt_steps :: "wire \<Rightarrow> client \<Rightarrow> dns_msg \<Rightarrow> nat \<Rightarrow> attempt list" where
  "attempt_steps w c msg i =
     (case exchangeOnce w c msg i (cl_UseTCP c) of
        Inl e \<Rightarrow> [(i, cl_UseTCP c)]
      | Inr r \<Rightarrow> if \<not> cl_UseTCP c \<and> m_Truncated (fst r) \<and> cl_Fallback c then [(i, False), (i, True)] else [(i, cl_UseTCP c)])"

definition after_error :: "wire \<Rightarrow> client \<Rightarrow> dns_msg \<Rightarrow> nat \<Rightarrow> goerror option" where
  "after_error w c msg i = cancelled w (AfterError i (snd (last (attempt_steps w c msg i))))"

lemma exchange_loop_Suc:
  "exchange_loop w c server msg i (Suc n) lastErr =
     (case cancelled w (BeforeAttempt i) of
        Some e \<Rightarrow> (Inl e, [])
      | None \<Rightarrow>
          (case attempt_outcome w c msg i of
             Inr (tcp, r) \<Rightarrow> (Inr (exchanged w server tcp r), attempt_steps w c msg i)
           | Inl e \<Rightarrow>
               (case after_error w c msg i of
                  Some e' \<Rightarrow> (Inl e', attempt_steps w c msg i)
                | None \<Rightarrow> (let (r, as) = exchange_loop w c server msg (Suc i) n (Some e) in (r, attempt_steps w c msg i @ as)))))"
  by (auto simp: attempt_outcome_def attempt_steps_def after_error_def Let_def split: option.splits sum.splits prod.splits)

lemmas [simp del] = exchange_loop.simps(2)

lemma attempt_steps_shape:
  "set (attempt_steps w c msg i) \<subseteq> {(i, False), (i, True)}" "length (attempt_steps w c msg i) \<le> 2" "attempt_steps w c msg i \<noteq> []"
  by (auto simp: attempt_steps_def split: sum.splits)

text \<open>Where the loop stops: the first attempt that succeeds, the first reading of a cancelled context, or the last attempt.\<close>

lemma exchange_loop_ok:
  "fst (exchange_loop w c server msg i n lastErr) = Inr p \<longleftrightarrow>
     (\<exists>k < n. \<exists>tcp r. p = exchanged w server tcp r \<and> attempt_outcome w c msg (i + k) = Inr (tcp, r) \<and>
        cancelled w (BeforeAttempt (i + k)) = None \<and>
        (\<forall>j < k. cancelled w (BeforeAttempt (i + j)) = None \<and> after_error w c msg (i + j) = None \<and>
           (\<exists>e. attempt_outcome w c msg (i + j) = Inl e)))"
proof (induction n arbitrary: i lastErr)
  case (Suc n)
  show ?case
  proof (cases "cancelled w (BeforeAttempt i)")
    case None
    show ?thesis
    proof (cases "attempt_outcome w c msg i")
      case (Inl e)
      then show ?thesis using None Suc.IH [of "Suc i" "Some e"]
        by (cases "after_error w c msg i")
          (auto simp: exchange_loop_Suc Ex_less_Suc2 All_less_Suc2 Let_def case_prod_beta)
    next
      case (Inr r)
      then show ?thesis using None
        by (cases r) (auto simp: exchange_loop_Suc Ex_less_Suc2 All_less_Suc2)
    qed
  qed (auto simp: exchange_loop_Suc Ex_less_Suc2 All_less_Suc2)
qed simp

lemma exchange_loop_attempts:
  "set (snd (exchange_loop w c server msg i n lastErr)) \<subseteq> {i ..< i + n} \<times> UNIV \<and>
   length (snd (exchange_loop w c server msg i n lastErr)) \<le> 2 * n"
proof (induction n arbitrary: i lastErr)
  case (Suc n)
  have "set (attempt_steps w c msg i) \<subseteq> {i ..< i + Suc n} \<times> UNIV" "length (attempt_steps w c msg i) \<le> 2 * Suc n"
    using attempt_steps_shape [of w c msg i] by auto
  moreover have "set (snd (exchange_loop w c server msg (Suc i) n l)) \<subseteq> {i ..< i + Suc n} \<times> UNIV" for l
    using Suc.IH [of "Suc i" l] by fastforce
  moreover have "length (attempt_steps w c msg i) + length (snd (exchange_loop w c server msg (Suc i) n l)) \<le> Suc (Suc (2 * n))" for l
    using Suc.IH [of "Suc i" l] attempt_steps_shape(2) [of w c msg i] by linarith
  ultimately show ?case
    by (auto simp: exchange_loop_Suc Let_def case_prod_beta split: option.splits sum.splits)
qed simp

lemma exchange_loop_gives_up:
  assumes "fst (exchange_loop w c server msg i n lastErr) = Inl e" "\<And>pt. cancelled w pt = None"
  shows "(\<forall>k < n. \<exists>e'. attempt_outcome w c msg (i + k) = Inl e') \<and>
    (if n = 0 then e = (case lastErr of None \<Rightarrow> no_response | Some e' \<Rightarrow> e')
     else attempt_outcome w c msg (i + n - 1) = Inl e)"
  using assms(1)
proof (induction n arbitrary: i lastErr)
  case (Suc n)
  obtain e1 where e1: "attempt_outcome w c msg i = Inl e1"
    using Suc.prems assms(2) by (cases "attempt_outcome w c msg i") (auto simp: exchange_loop_Suc split: prod.splits)
  then have "fst (exchange_loop w c server msg (Suc i) n (Some e1)) = Inl e"
    using Suc.prems assms(2) by (simp add: exchange_loop_Suc after_error_def Let_def case_prod_beta)
  from Suc.IH [OF this] e1 show ?case by (cases n) (auto simp: All_less_Suc2)
qed simp

lemma exchangeOnce_checked:
  "exchangeOnce w c msg i tcp = Inr (resp, rtt) \<Longrightarrow>
     net w i tcp = Connected (Inr (resp, rtt)) \<and>
     (m_Question resp \<noteq> [] \<longrightarrow> m_Question msg \<noteq> [] \<longrightarrow> same_question (hd (m_Question msg)) (hd (m_Question resp)))"
  by (auto simp: exchangeOnce_def checkQuestion_def split: if_splits dialled.splits option.splits sum.splits prod.splits)

lemma outcome_checked:
  assumes "attempt_outcome w c msg i = Inr (tcp, resp, rtt)"
  shows "net w i tcp = Connected (Inr (resp, rtt)) \<and>
    (m_Question resp \<noteq> [] \<longrightarrow> m_Question msg \<noteq> [] \<longrightarrow> same_question (hd (m_Question msg)) (hd (m_Question resp))) \<and>
    (cl_UseTCP c \<longrightarrow> tcp) \<and> (cl_Fallback c \<longrightarrow> \<not> tcp \<longrightarrow> \<not> m_Truncated resp)"
proof -
  have "exchangeOnce w c msg i tcp = Inr (resp, rtt)"
    using assms by (auto simp: attempt_outcome_def split: sum.splits if_splits)
  then show ?thesis using exchangeOnce_checked [of w c msg i tcp resp rtt] assms
    by (auto simp: attempt_outcome_def split: sum.splits if_splits)
qed

text \<open>
  C22. What \<open>Exchange\<close> returns. With \<open>n\<close> the configured number of attempts it makes at most \<open>2 n\<close> exchanges, numbered below \<open>n\<close>. An answer it returns is one the
  network gave to an attempt whose predecessors all failed; it answers the question asked, and it is not truncated unless it came over TCP or
  the fallback is off. Without a cancelled context it gives up only after all \<open>n\<close> attempts failed, with the
  error of the last.
\<close>

theorem exchange_contract:
  "let eff = ApplyProfileDefaults p c; q = prepareMessage eff msg; n = attempts_of eff; r = Exchange w p None c server msg in
     length (snd r) \<le> 2 * n \<and> fst ` set (snd r) \<subseteq> {..<n} \<and>
     (\<forall>pkt. fst r = Inr pkt \<longrightarrow>
        (\<exists>k < n. \<exists>tcp resp rtt. pkt = exchanged w server tcp (resp, rtt) \<and> net w k tcp = Connected (Inr (resp, rtt)) \<and>
           (m_Question resp \<noteq> [] \<longrightarrow> m_Question q \<noteq> [] \<longrightarrow> same_question (hd (m_Question q)) (hd (m_Question resp))) \<and>
           (cl_UseTCP eff \<longrightarrow> tcp) \<and> (cl_Fallback eff \<longrightarrow> \<not> tcp \<longrightarrow> \<not> m_Truncated resp) \<and>
           (\<forall>j < k. \<exists>e. attempt_outcome w eff q j = Inl e))) \<and>
     (\<forall>e. fst r = Inl e \<longrightarrow> (\<forall>pt. cancelled w pt = None) \<longrightarrow>
        (\<forall>k < n. \<exists>e'. attempt_outcome w eff q k = Inl e') \<and> attempt_outcome w eff q (n - 1) = Inl e)"
proof -
  define eff where "eff = ApplyProfileDefaults p c"
  define q where "q = prepareMessage eff msg"
  define n where "n = attempts_of eff"
  have r: "Exchange w p None c server msg = exchange_loop w eff server q 0 n None"
    by (simp add: Exchange_def eff_def q_def n_def Let_def)
  have n: "n \<noteq> 0" by (simp add: n_def attempts_of_def)
  let ?r = "exchange_loop w eff server q 0 n None"
  have ok: "\<exists>k < n. \<exists>tcp resp rtt. pkt = exchanged w server tcp (resp, rtt) \<and> net w k tcp = Connected (Inr (resp, rtt)) \<and>
           (m_Question resp \<noteq> [] \<longrightarrow> m_Question q \<noteq> [] \<longrightarrow> same_question (hd (m_Question q)) (hd (m_Question resp))) \<and>
           (cl_UseTCP eff \<longrightarrow> tcp) \<and> (cl_Fallback eff \<longrightarrow> \<not> tcp \<longrightarrow> \<not> m_Truncated resp) \<and>
           (\<forall>j < k. \<exists>e. attempt_outcome w eff q j = Inl e)" if success: "fst ?r = Inr pkt" for pkt
  proof -
    obtain k tcp resp rtt where k: "k < n" "pkt = exchanged w server tcp (resp, rtt)"
      "attempt_outcome w eff q k = Inr (tcp, resp, rtt)" "\<forall>j < k. \<exists>e. attempt_outcome w eff q j = Inl e"
      using success unfolding exchange_loop_ok by auto
    then show ?thesis using outcome_checked [OF k(3)] by blast
  qed
  have "fst ` set (snd ?r) \<subseteq> {..<n}" "length (snd ?r) \<le> 2 * n"
    using exchange_loop_attempts [of w eff server q 0 n None] by auto
  moreover have "(\<forall>k < n. \<exists>e'. attempt_outcome w eff q k = Inl e') \<and> attempt_outcome w eff q (n - 1) = Inl e"
    if "fst ?r = Inl e" "\<forall>pt. cancelled w pt = None" for e
    using exchange_loop_gives_up [OF that(1)] that(2) n by simp
  ultimately show ?thesis using ok
    unfolding Let_def r eff_def [symmetric] q_def [symmetric] n_def [symmetric] by blast
qed

definition sample_defaults :: resolver_defaults where
  "sample_defaults = \<lparr>rd_Fallback = True, rd_Retrans = 3, rd_Retry = 1, rd_Timeout = 5, rd_ErrorCacheTTL = 60,
     rd_NegativeCacheTTL = 0, rd_FastFailTimeoutCount = 3, rd_NameserverConcurrency = 2, rd_NameserverMaxTotalMS = 0\<rparr>"

definition sample_query_profile :: query_profile where
  "sample_query_profile = \<lparr>qp_Defaults = sample_defaults, qp_Source4 = [], qp_Source6 = [], qp_IPv4 = True, qp_IPv6 = True,
     qp_AllowNonGlobalTargets = False, qp_NoNetwork = False\<rparr>"

definition sample_wire :: wire where
  "sample_wire = \<lparr>net = (\<lambda>i tcp. if i = 0 then Connected (Inl (plain_error ''i/o timeout''))
       else Connected (Inr (new_msg\<lparr>m_Truncated := \<not> tcp\<rparr>, second))),
     cancelled = (\<lambda>_. None), parse_ip = (\<lambda>_. True), received = 7\<rparr>"

definition sample_query :: dns_msg where
  "sample_query = BuildQueryWithClass ''example'' ''SOA'' ''IN''"

lemma sample_exchange:
  "Exchange sample_wire sample_query_profile None zero_client ''192.0.2.1'' sample_query =
     (Inr (exchanged sample_wire ''192.0.2.1'' True (new_msg, second)), [(0, False), (1, False), (1, True)])"
  by code_simp

theorem exchange_contract_witness:
  "\<exists>k tcp resp rtt. exchanged sample_wire ''192.0.2.1'' True (new_msg, second) = exchanged sample_wire ''192.0.2.1'' tcp (resp, rtt) \<and>
     net sample_wire k tcp = Connected (Inr (resp, rtt)) \<and> (\<not> tcp \<longrightarrow> \<not> m_Truncated resp) \<and>
     (\<forall>j < k. \<exists>e. attempt_outcome sample_wire (ApplyProfileDefaults sample_query_profile zero_client)
        (prepareMessage (ApplyProfileDefaults sample_query_profile zero_client) sample_query) j = Inl e)"
proof -
  have "cl_Fallback (ApplyProfileDefaults sample_query_profile zero_client)" by code_simp
  then show ?thesis
    using exchange_contract [of sample_query_profile zero_client sample_query sample_wire "''192.0.2.1''"]
    unfolding Let_def sample_exchange fst_conv snd_conv by blast
qed

section \<open>Attempt timeouts\<close>

text \<open>An attempt always has a positive timeout; it never outlives the remaining deadline of its context, and UDP attempts never wait longer than the retransmission interval.\<close>

lemma attempt_timeout_bounds:
  shows "0 < effectiveAttemptTimeout c remaining useTCP fb"
    and "remaining = Some r \<Longrightarrow> 0 < r \<Longrightarrow> effectiveAttemptTimeout c remaining useTCP fb \<le> r"
    and "0 < cl_Retrans c \<Longrightarrow> \<not> useTCP \<or> fb \<Longrightarrow> effectiveAttemptTimeout c remaining useTCP fb \<le> cl_Retrans c"
  by (auto simp: effectiveAttemptTimeout_def Let_def defaultTimeout_def second_def split: option.splits)

end
