(* ===== verification/QueryKey.thy ===== *)
theory QueryKey
  imports Transport DNSName
begin

text \<open>
  The options of a query and its cache key (\<open>engine/nameserver/query_helpers.go\<close> and the option handling of
  \<open>nameserver.go\<close>). An answer is cached under a text key built from the query and its options; the
  lemmas show that the key has the settings of the query that reach the wire in it, so that a cached answer is one to the same
  message.
\<close>

section \<open>Options\<close>

record query_options =
  qo_Class :: string
  qo_UseVC :: "bool option"
  qo_Recurse :: "bool option"
  qo_CheckingDisabled :: "bool option"
  qo_Fallback :: "bool option"
  qo_Retry :: "int option"
  qo_Retrans :: "duration option"
  qo_Timeout :: "duration option"
  qo_DNSSEC :: "bool option"
  qo_EDNSSize :: "16 word option"
  qo_EDNSDetails :: "EDNSDetails option"
  qo_BlacklistingDisabled :: bool
  qo_Diagnostic :: bool

definition no_options :: query_options where
  "no_options = \<lparr>qo_Class = [], qo_UseVC = None, qo_Recurse = None, qo_CheckingDisabled = None, qo_Fallback = None,
     qo_Retry = None, qo_Retrans = None, qo_Timeout = None, qo_DNSSEC = None, qo_EDNSSize = None, qo_EDNSDetails = None,
     qo_BlacklistingDisabled = False, qo_Diagnostic = False\<rparr>"

text \<open>A setting of options that may be nil.\<close>

definition setting :: "(query_options \<Rightarrow> 'a option) \<Rightarrow> query_options option \<Rightarrow> 'a option" where
  "setting f opts = Option.bind opts f"

definition the_or :: "'a \<Rightarrow> 'a option \<Rightarrow> 'a" where
  "the_or d x = (case x of None \<Rightarrow> d | Some v \<Rightarrow> v)"

definition resolveDNSSEC :: "query_options option \<Rightarrow> bool" where
  "resolveDNSSEC opts =
     (case Option.bind (setting qo_EDNSDetails opts) ed_Do of
        Some v \<Rightarrow> v
      | None \<Rightarrow> the_or False (setting qo_DNSSEC opts))"

definition resolveUseVC :: "query_options option \<Rightarrow> bool" where
  "resolveUseVC opts = the_or False (setting qo_UseVC opts)"

definition resolveRecurse :: "query_options option \<Rightarrow> bool" where
  "resolveRecurse opts = the_or False (setting qo_Recurse opts)"

definition resolveEDNSSize :: "query_options option \<Rightarrow> bool \<Rightarrow> 16 word" where
  "resolveEDNSSize opts dnssec =
     (case setting qo_EDNSDetails opts of
        Some d \<Rightarrow>
          (case ed_Size d of
             Some v \<Rightarrow> v
           | None \<Rightarrow> (case setting qo_EDNSSize opts of
                Some v \<Rightarrow> v
              | None \<Rightarrow> if dnssec then EDNSUDPPayloadDNSSECDefault else EDNSUDPPayloadDefault))
      | None \<Rightarrow>
          (case setting qo_EDNSSize opts of
             Some v \<Rightarrow> v
           | None \<Rightarrow> if dnssec then EDNSUDPPayloadDNSSECDefault else 0))"

section \<open>The cache key\<close>

definition appendCacheKeyPrefix :: "string \<Rightarrow> string \<Rightarrow> string" where
  "appendCacheKeyPrefix key buf = (if buf \<noteq> [] then buf @ ''|'' else buf) @ key @ ''=''"

definition appendCacheKeyString :: "string \<Rightarrow> string \<Rightarrow> string \<Rightarrow> string" where
  "appendCacheKeyString key value buf = appendCacheKeyPrefix key buf @ value"

definition format_bool :: "bool \<Rightarrow> string" where
  "format_bool b = (if b then ''true'' else ''false'')"

definition appendCacheKeyBool :: "string \<Rightarrow> bool \<Rightarrow> string \<Rightarrow> string" where
  "appendCacheKeyBool key value buf = appendCacheKeyPrefix key buf @ format_bool value"

definition appendCacheKeyInt :: "string \<Rightarrow> int \<Rightarrow> string \<Rightarrow> string" where
  "appendCacheKeyInt key value buf = appendCacheKeyPrefix key buf @ itoa value"

definition appendCacheKeyUint :: "string \<Rightarrow> int \<Rightarrow> string \<Rightarrow> string" where
  "appendCacheKeyUint key value buf = appendCacheKeyPrefix key buf @ itoa value"

definition appendCacheKeyUint8Ptr :: "string \<Rightarrow> 8 word option \<Rightarrow> string \<Rightarrow> string" where
  "appendCacheKeyUint8Ptr key value buf =
     (case value of None \<Rightarrow> appendCacheKeyUint key 0 buf | Some v \<Rightarrow> appendCacheKeyUint key (uint v) buf)"

definition appendCacheKeyUint16Ptr :: "string \<Rightarrow> 16 word option \<Rightarrow> string \<Rightarrow> string" where
  "appendCacheKeyUint16Ptr key value buf =
     (case value of None \<Rightarrow> appendCacheKeyUint key 0 buf | Some v \<Rightarrow> appendCacheKeyUint key (uint v) buf)"

text \<open>\<open>show_data\<close> is \<open>fmt.Sprint\<close> of the library's EDNS options.\<close>

definition formatEDNSData :: "(string list \<Rightarrow> string) \<Rightarrow> string list \<Rightarrow> string" where
  "formatEDNSData show_data data = (if data = [] then [] else show_data data)"

definition buildCacheKey ::
  "(string list \<Rightarrow> string) \<Rightarrow> string \<Rightarrow> string \<Rightarrow> string \<Rightarrow> query_options option \<Rightarrow> string \<times> 16 word \<times> bool" where
  "buildCacheKey show_data name qtype qclass opts =
     (let dnssec = resolveDNSSEC opts;
          ednsSize = resolveEDNSSize opts dnssec;
          b1 = appendCacheKeyString ''NAME'' (name_String (NewName name)) [];
          b2 = appendCacheKeyString ''TYPE'' qtype b1;
          b3 = appendCacheKeyString ''CLASS'' qclass b2;
          b4 = appendCacheKeyBool ''DNSSEC'' dnssec b3;
          b5 = appendCacheKeyBool ''USEVC'' (resolveUseVC opts) b4;
          b6 = appendCacheKeyBool ''RECURSE'' (resolveRecurse opts) b5;
          b7 = with_some (setting qo_Fallback opts) (appendCacheKeyBool ''FALLBACK'') b6;
          b8 = with_some (setting qo_Retry opts) (appendCacheKeyInt ''RETRY'') b7;
          b9 = with_some (setting qo_Retrans opts) (appendCacheKeyInt ''RETRANS'') b8;
          b10 = with_some (setting qo_Timeout opts) (appendCacheKeyInt ''TIMEOUT'') b9;
          b11 = with_some (setting qo_CheckingDisabled opts) (appendCacheKeyBool ''CD'') b10;
          b12 = with_some (setting qo_EDNSDetails opts) (\<lambda>d b.
                  appendCacheKeyString ''EDNS_DATA'' (formatEDNSData show_data (ed_Data d))
                    (appendCacheKeyUint8Ptr ''EDNS_RCODE'' (ed_Rcode d)
                      (appendCacheKeyUint16Ptr ''EDNS_Z'' (ed_Z d)
                        (appendCacheKeyUint8Ptr ''EDNS_VERSION'' (ed_Version d) b)))) b11
      in (appendCacheKeyUint ''EDNS_SIZE'' (uint ednsSize) b12, ednsSize, dnssec))"

section \<open>The client of a query\<close>

definition applyProfileSourceAddress :: "ip_addr \<Rightarrow> query_profile \<Rightarrow> client \<Rightarrow> client" where
  "applyProfileSourceAddress target p c =
     (if cl_SourceIP c \<noteq> [] then c
      else if addr_is4 target then (if qp_Source4 p \<noteq> [] then c\<lparr>cl_SourceIP := qp_Source4 p\<rparr> else c)
      else if qp_Source6 p \<noteq> [] then c\<lparr>cl_SourceIP := qp_Source6 p\<rparr> else c)"

definition client_overrides :: "client \<Rightarrow> query_options option \<Rightarrow> client" where
  "client_overrides base opts =
     (let c1 = SetRecursionDesired (resolveRecurse opts) (SetUseTCP (resolveUseVC opts) base);
          c2 = with_some (setting qo_CheckingDisabled opts) SetCheckingDisabled c1;
          c3 = with_some (setting qo_Fallback opts) SetFallback c2;
          c4 = with_some (setting qo_Retry opts) SetRetries c3;
          c5 = with_some (setting qo_Retrans opts) SetRetrans c4;
          c6 = with_some (setting qo_Timeout opts) SetTimeout c5;
          c7 = with_some (setting qo_DNSSEC opts) (\<lambda>v c. c\<lparr>cl_DNSSEC := v\<rparr>) c6
      in with_some (Option.bind (setting qo_EDNSDetails opts) ed_Do) (\<lambda>v c. c\<lparr>cl_DNSSEC := v\<rparr>) c7)"

definition client_edns :: "query_options option \<Rightarrow> client \<Rightarrow> client" where
  "client_edns opts c =
     (case setting qo_EDNSDetails opts of
        Some d \<Rightarrow> (SetEDNSSize (resolveEDNSSize opts (cl_DNSSEC c)) c)\<lparr>cl_EDNSDetails := Some d\<rparr>
      | None \<Rightarrow> (case setting qo_EDNSSize opts of
            Some v \<Rightarrow> SetEDNSSize v c
          | None \<Rightarrow> if cl_DNSSEC c then SetEDNSSize EDNSUDPPayloadDNSSECDefault c else c))"

definition clientForOptions :: "client \<Rightarrow> ip_addr \<Rightarrow> query_profile \<Rightarrow> query_options option \<Rightarrow> client" where
  "clientForOptions base target p opts =
     applyProfileSourceAddress target p (ApplyProfileDefaults p (client_edns opts (client_overrides base opts)))"

section \<open>A key determines its query\<close>

text \<open>The key as a list of named fields: the name first, the settings that follow it, and how they are spelled.\<close>

definition field :: "string \<times> string \<Rightarrow> string" where
  "field kv = fst kv @ ''='' @ snd kv"

definition opt_field :: "string \<Rightarrow> ('a \<Rightarrow> string) \<Rightarrow> 'a option \<Rightarrow> (string \<times> string) list" where
  "opt_field k f x = (case x of None \<Rightarrow> [] | Some v \<Rightarrow> [(k, f v)])"

definition word_or_0 :: "'a :: len word option \<Rightarrow> int" where
  "word_or_0 x = (case x of None \<Rightarrow> 0 | Some v \<Rightarrow> uint v)"

definition details_fields :: "(string list \<Rightarrow> string) \<Rightarrow> EDNSDetails \<Rightarrow> (string \<times> string) list" where
  "details_fields show_data d =
     [(''EDNS_VERSION'', itoa (word_or_0 (ed_Version d))), (''EDNS_Z'', itoa (word_or_0 (ed_Z d))),
      (''EDNS_RCODE'', itoa (word_or_0 (ed_Rcode d))), (''EDNS_DATA'', formatEDNSData show_data (ed_Data d))]"

definition settings_fields :: "(string list \<Rightarrow> string) \<Rightarrow> string \<Rightarrow> query_options option \<Rightarrow> (string \<times> string) list" where
  "settings_fields show_data qclass opts =
     [(''CLASS'', qclass), (''DNSSEC'', format_bool (resolveDNSSEC opts)), (''USEVC'', format_bool (resolveUseVC opts)),
      (''RECURSE'', format_bool (resolveRecurse opts))] @
     opt_field ''FALLBACK'' format_bool (setting qo_Fallback opts) @ opt_field ''RETRY'' itoa (setting qo_Retry opts) @
     opt_field ''RETRANS'' itoa (setting qo_Retrans opts) @ opt_field ''TIMEOUT'' itoa (setting qo_Timeout opts) @
     opt_field ''CD'' format_bool (setting qo_CheckingDisabled opts) @
     (case setting qo_EDNSDetails opts of None \<Rightarrow> [] | Some d \<Rightarrow> details_fields show_data d) @
     [(''EDNS_SIZE'', itoa (uint (resolveEDNSSize opts (resolveDNSSEC opts))))]"

fun append_fields :: "(string \<times> string) list \<Rightarrow> string \<Rightarrow> string" where
  "append_fields [] buf = buf"
| "append_fields (kv # kvs) buf = append_fields kvs (appendCacheKeyString (fst kv) (snd kv) buf)"

lemma append_fields_append: "append_fields (xs @ ys) buf = append_fields ys (append_fields xs buf)"
  by (induction xs arbitrary: buf) auto

lemma append_fields_concat:
  "buf \<noteq> [] \<Longrightarrow> append_fields kvs buf = buf @ concat (map (\<lambda>kv. CHR ''|'' # field kv) kvs)"
  by (induction kvs arbitrary: buf) (auto simp: appendCacheKeyString_def appendCacheKeyPrefix_def field_def)

lemma append_as_fields:
  "appendCacheKeyString k s = append_fields [(k, s)]"
  "appendCacheKeyBool k v = append_fields [(k, format_bool v)]"
  "appendCacheKeyInt k i = append_fields [(k, itoa i)]"
  "appendCacheKeyUint k i = append_fields [(k, itoa i)]"
  "appendCacheKeyUint8Ptr k x = append_fields [(k, itoa (word_or_0 x))]"
  "appendCacheKeyUint16Ptr k y = append_fields [(k, itoa (word_or_0 y))]"
  by (auto simp: fun_eq_iff appendCacheKeyString_def appendCacheKeyBool_def appendCacheKeyInt_def appendCacheKeyUint_def
      appendCacheKeyUint8Ptr_def appendCacheKeyUint16Ptr_def word_or_0_def split: option.splits)

lemma with_some_append:
  "with_some x (appendCacheKeyBool k) buf = append_fields (opt_field k format_bool x) buf"
  "with_some y (appendCacheKeyInt k) buf = append_fields (opt_field k itoa y) buf"
  by (auto simp: with_some_def opt_field_def append_as_fields(2,3) split: option.splits)

lemma with_some_details:
  "with_some x (\<lambda>d. append_fields
      [(''EDNS_VERSION'', itoa (word_or_0 (ed_Version d))), (''EDNS_Z'', itoa (word_or_0 (ed_Z d))),
       (''EDNS_RCODE'', itoa (word_or_0 (ed_Rcode d))), (''EDNS_DATA'', formatEDNSData show_data (ed_Data d))]) buf =
   append_fields (case x of None \<Rightarrow> [] | Some d \<Rightarrow> details_fields show_data d) buf"
  by (auto simp: with_some_def details_fields_def split: option.splits)

lemma key_as_fields:
  "fst (buildCacheKey show_data name qtype qclass opts) =
     append_fields ((''NAME'', name_String (NewName name)) # (''TYPE'', qtype) # settings_fields show_data qclass opts) []"
  unfolding buildCacheKey_def Let_def fst_conv with_some_append append_as_fields settings_fields_def
  by (simp only: append_fields_append [symmetric] append.simps append_assoc with_some_details)

lemma first_sep: "c \<notin> set a \<Longrightarrow> c \<notin> set b \<Longrightarrow> a @ c # x = b @ c # y \<longleftrightarrow> a = b \<and> x = y"
proof (induction a arbitrary: b)
  case Nil
  then show ?case by (cases b) auto
next
  case (Cons h a)
  then show ?case by (cases b) auto
qed

lemma field_inj: "CHR ''='' \<notin> set (fst kv) \<Longrightarrow> CHR ''='' \<notin> set (fst kv') \<Longrightarrow> field kv = field kv' \<Longrightarrow> kv = kv'"
  using first_sep [of "CHR ''=''" "fst kv" "fst kv'" "snd kv" "snd kv'"] by (auto simp: field_def prod_eq_iff)

lemma fields_inj:
  "map field kvs = map field kvs' \<Longrightarrow> (\<forall>kv \<in> set kvs \<union> set kvs'. CHR ''='' \<notin> set (fst kv)) \<Longrightarrow> kvs = kvs'"
proof (induction kvs arbitrary: kvs')
  case (Cons kv kvs)
  then show ?case by (cases kvs') (auto intro: field_inj)
qed simp

text \<open>Splitting a key at its bars gives the pieces of the name and then the fields.\<close>

lemma split_fields:
  assumes "\<forall>kv \<in> set kvs. CHR ''|'' \<notin> set (field kv)"
  shows "split_on CHR ''|'' (s @ concat (map (\<lambda>kv. CHR ''|'' # field kv) kvs)) = split_on CHR ''|'' s @ map field kvs"
  using assms
proof (induction kvs rule: rev_induct)
  case (snoc kv kvs)
  then show ?case using split_on_middle [of "CHR ''|''" "s @ concat (map (\<lambda>kv. CHR ''|'' # field kv) kvs)" "field kv"]
    by simp
qed simp

lemma last_marked_unique:
  assumes "as @ t # g = as' @ t' # g'" "P t" "P t'" "\<forall>x \<in> set g \<union> set g'. \<not> P x"
  shows "as = as' \<and> t = t' \<and> g = g'"
proof -
  have "takeWhile (\<lambda>x. \<not> P x) (rev (as @ t # g)) = rev g" "takeWhile (\<lambda>x. \<not> P x) (rev (as' @ t' # g')) = rev g'"
    using assms(2-4) by (simp_all add: takeWhile_tail takeWhile_eq_all_conv)
  then have "g = g'" using assms(1) by (metis rev_rev_ident)
  then show ?thesis using assms(1) by simp
qed

lemma itoa_no_bar: "CHR ''|'' \<notin> set (itoa i)"
proof -
  have "CHR ''|'' \<notin> set (digits n)" for n
  proof
    assume "CHR ''|'' \<in> set (digits n)"
    then obtain d :: nat where d: "d < 10" "CHR ''|'' = char_of (48 + d)" using digits_chars by blast
    have "(of_char CHR ''|'' :: nat) = of_char (char_of (48 + d) :: char)" using d(2) by (simp only:)
    then show False using d(1) by simp
  qed
  then show ?thesis by (auto simp: itoa_def)
qed

lemma format_bool_no_bar: "CHR ''|'' \<notin> set (format_bool b)"
  by (simp add: format_bool_def)

definition bar_free :: "(string list \<Rightarrow> string) \<Rightarrow> string \<Rightarrow> string \<Rightarrow> query_options option \<Rightarrow> bool" where
  "bar_free show_data qtype qclass opts \<longleftrightarrow> CHR ''|'' \<notin> set qtype \<and> CHR ''|'' \<notin> set qclass \<and>
     (case setting qo_EDNSDetails opts of None \<Rightarrow> True | Some d \<Rightarrow> CHR ''|'' \<notin> set (formatEDNSData show_data (ed_Data d)))"

lemma settings_fields_clean:
  assumes "bar_free show_data qtype qclass opts"
  shows "\<forall>kv \<in> set (settings_fields show_data qclass opts).
    CHR ''|'' \<notin> set (field kv) \<and> CHR ''='' \<notin> set (fst kv) \<and> \<not> has_prefix (field kv) ''TYPE=''"
  using assms itoa_no_bar format_bool_no_bar
  by (auto simp: settings_fields_def details_fields_def opt_field_def bar_free_def field_def has_prefix_def
      split: option.splits)

lemma same_key_same_fields:
  assumes key: "fst (buildCacheKey show_data name qtype qclass opts) = fst (buildCacheKey show_data name' qtype' qclass' opts')"
    and bars: "bar_free show_data qtype qclass opts" "bar_free show_data qtype' qclass' opts'"
  shows "name_String (NewName name) = name_String (NewName name')" "qtype = qtype'"
    "settings_fields show_data qclass opts = settings_fields show_data qclass' opts'"
proof -
  let ?n = "name_String (NewName name)" and ?n' = "name_String (NewName name')"
  let ?F = "settings_fields show_data qclass opts" and ?F' = "settings_fields show_data qclass' opts'"
  have split: "split_on CHR ''|'' (fst (buildCacheKey show_data nm qt qc os)) =
      split_on CHR ''|'' (field (''NAME'', name_String (NewName nm))) @ field (''TYPE'', qt) # map field (settings_fields show_data qc os)"
    if b: "bar_free show_data qt qc os" for nm qt qc os
  proof -
    have "\<forall>kv \<in> set ((''TYPE'', qt) # settings_fields show_data qc os). CHR ''|'' \<notin> set (field kv)"
      using settings_fields_clean [OF b] b by (auto simp: field_def bar_free_def)
    from split_fields [OF this, of "field (''NAME'', name_String (NewName nm))"] show ?thesis
      by (simp add: key_as_fields append_fields_concat appendCacheKeyString_def appendCacheKeyPrefix_def field_def)
  qed
  have "split_on CHR ''|'' (field (''NAME'', ?n)) @ field (''TYPE'', qtype) # map field ?F =
      split_on CHR ''|'' (field (''NAME'', ?n')) @ field (''TYPE'', qtype') # map field ?F'"
    using split [OF bars(1), of name] split [OF bars(2), of name'] key by simp
  note eq = last_marked_unique [OF this, of "\<lambda>x. has_prefix x ''TYPE=''"]
  have "has_prefix (field (''TYPE'', t)) ''TYPE=''" for t by (simp add: has_prefix_def field_def)
  moreover have "\<forall>x \<in> set (map field ?F) \<union> set (map field ?F'). \<not> has_prefix x ''TYPE=''"
    using settings_fields_clean [OF bars(1)] settings_fields_clean [OF bars(2)] by auto
  ultimately have eq: "split_on CHR ''|'' (field (''NAME'', ?n)) = split_on CHR ''|'' (field (''NAME'', ?n'))"
    "field (''TYPE'', qtype) = field (''TYPE'', qtype')" "map field ?F = map field ?F'"
    using eq by blast+
  have "field (''NAME'', ?n) = field (''NAME'', ?n')" using arg_cong [OF eq(1), of "join ''|''"] by (simp only: join_split_on)
  then show "?n = ?n'" by (simp add: field_def)
  show "qtype = qtype'" using eq(2) by (simp add: field_def)
  show "?F = ?F'" using fields_inj [OF eq(3)] settings_fields_clean [OF bars(1)] settings_fields_clean [OF bars(2)] by blast
qed

definition or_else :: "'a option \<Rightarrow> 'a option \<Rightarrow> 'a option" where
  "or_else x y = (case x of None \<Rightarrow> y | Some v \<Rightarrow> Some v)"

lemma or_else_simps: "or_else None y = y" "or_else (Some v) y = Some v" "or_else x None = x"
  by (auto simp: or_else_def split: option.split)

lemma map_of_or: "map_of (xs @ ys) k = or_else (map_of xs k) (map_of ys k)"
  by (simp add: map_add_def or_else_def)

lemma map_of_opt_field: "map_of (opt_field k f x) k' = (if k' = k then map_option f x else None)"
  by (simp add: opt_field_def split: option.split)

lemma map_of_details:
  "map_of (case x of None \<Rightarrow> [] | Some d \<Rightarrow> details_fields show_data d) k =
     (if k = ''EDNS_VERSION'' then map_option (\<lambda>d. itoa (word_or_0 (ed_Version d))) x
      else if k = ''EDNS_Z'' then map_option (\<lambda>d. itoa (word_or_0 (ed_Z d))) x
      else if k = ''EDNS_RCODE'' then map_option (\<lambda>d. itoa (word_or_0 (ed_Rcode d))) x
      else if k = ''EDNS_DATA'' then map_option (\<lambda>d. formatEDNSData show_data (ed_Data d)) x else None)"
  by (cases x) (simp_all add: details_fields_def)

lemmas field_lookup = settings_fields_def map_of_or map_of_opt_field map_of_details or_else_simps

lemma settings_lookup:
  "map_of (settings_fields show_data qclass opts) ''CLASS'' = Some qclass"
  "map_of (settings_fields show_data qclass opts) ''DNSSEC'' = Some (format_bool (resolveDNSSEC opts))"
  "map_of (settings_fields show_data qclass opts) ''USEVC'' = Some (format_bool (resolveUseVC opts))"
  "map_of (settings_fields show_data qclass opts) ''RECURSE'' = Some (format_bool (resolveRecurse opts))"
  "map_of (settings_fields show_data qclass opts) ''FALLBACK'' = map_option format_bool (setting qo_Fallback opts)"
  "map_of (settings_fields show_data qclass opts) ''RETRY'' = map_option itoa (setting qo_Retry opts)"
  "map_of (settings_fields show_data qclass opts) ''RETRANS'' = map_option itoa (setting qo_Retrans opts)"
  "map_of (settings_fields show_data qclass opts) ''TIMEOUT'' = map_option itoa (setting qo_Timeout opts)"
  "map_of (settings_fields show_data qclass opts) ''CD'' = map_option format_bool (setting qo_CheckingDisabled opts)"
  "map_of (settings_fields show_data qclass opts) ''EDNS_SIZE'' = Some (itoa (uint (resolveEDNSSize opts (resolveDNSSEC opts))))"
  by (simp_all add: field_lookup del: map_of_append)

lemma details_lookup:
  "map_of (settings_fields show_data qclass opts) ''EDNS_VERSION'' = map_option (\<lambda>d. itoa (word_or_0 (ed_Version d))) (setting qo_EDNSDetails opts)"
  "map_of (settings_fields show_data qclass opts) ''EDNS_Z'' = map_option (\<lambda>d. itoa (word_or_0 (ed_Z d))) (setting qo_EDNSDetails opts)"
  "map_of (settings_fields show_data qclass opts) ''EDNS_RCODE'' = map_option (\<lambda>d. itoa (word_or_0 (ed_Rcode d))) (setting qo_EDNSDetails opts)"
  "map_of (settings_fields show_data qclass opts) ''EDNS_DATA'' = map_option (\<lambda>d. formatEDNSData show_data (ed_Data d)) (setting qo_EDNSDetails opts)"
  by (simp_all add: field_lookup del: map_of_append)

lemma itoa_eq [simp]: "itoa i = itoa j \<longleftrightarrow> i = j"
  by (metis atoi_itoa option.inject)

lemma format_bool_eq [simp]: "format_bool a = format_bool b \<longleftrightarrow> a = b"
  by (simp add: format_bool_def)

lemma map_option_itoa [simp]: "map_option itoa x = map_option itoa y \<longleftrightarrow> x = y"
  by (cases x; cases y) auto

lemma map_option_format_bool [simp]: "map_option format_bool x = map_option format_bool y \<longleftrightarrow> x = y"
  by (cases x; cases y) auto

text \<open>What the settings of a query say about the message and the exchange.\<close>

definition keyed_details :: "EDNSDetails \<Rightarrow> int \<times> int \<times> int" where
  "keyed_details d = (word_or_0 (ed_Version d), word_or_0 (ed_Z d), word_or_0 (ed_Rcode d))"

lemma same_fields_same_settings:
  assumes "settings_fields show_data qclass opts = settings_fields show_data qclass' opts'"
  shows "qclass = qclass'" "resolveDNSSEC opts = resolveDNSSEC opts'" "resolveUseVC opts = resolveUseVC opts'"
    "resolveRecurse opts = resolveRecurse opts'" "setting qo_Fallback opts = setting qo_Fallback opts'"
    "setting qo_Retry opts = setting qo_Retry opts'" "setting qo_Retrans opts = setting qo_Retrans opts'"
    "setting qo_Timeout opts = setting qo_Timeout opts'" "setting qo_CheckingDisabled opts = setting qo_CheckingDisabled opts'"
    "resolveEDNSSize opts (resolveDNSSEC opts) = resolveEDNSSize opts' (resolveDNSSEC opts')"
    "map_option keyed_details (setting qo_EDNSDetails opts) = map_option keyed_details (setting qo_EDNSDetails opts')"
    "map_option (\<lambda>d. formatEDNSData show_data (ed_Data d)) (setting qo_EDNSDetails opts) =
     map_option (\<lambda>d. formatEDNSData show_data (ed_Data d)) (setting qo_EDNSDetails opts')"
proof -
  note look = arg_cong [OF assms, of "\<lambda>m. map_of m k" for k]
  show "qclass = qclass'" using look [of "''CLASS''"] by (simp only: settings_lookup option.inject)
  show "resolveDNSSEC opts = resolveDNSSEC opts'" using look [of "''DNSSEC''"] by (simp only: settings_lookup option.inject format_bool_eq)
  show "resolveUseVC opts = resolveUseVC opts'" using look [of "''USEVC''"] by (simp only: settings_lookup option.inject format_bool_eq)
  show "resolveRecurse opts = resolveRecurse opts'" using look [of "''RECURSE''"] by (simp only: settings_lookup option.inject format_bool_eq)
  show "setting qo_Fallback opts = setting qo_Fallback opts'" using look [of "''FALLBACK''"] by (simp only: settings_lookup map_option_format_bool)
  show "setting qo_Retry opts = setting qo_Retry opts'" using look [of "''RETRY''"] by (simp only: settings_lookup map_option_itoa)
  show "setting qo_Retrans opts = setting qo_Retrans opts'" using look [of "''RETRANS''"] by (simp only: settings_lookup map_option_itoa)
  show "setting qo_Timeout opts = setting qo_Timeout opts'" using look [of "''TIMEOUT''"] by (simp only: settings_lookup map_option_itoa)
  show "setting qo_CheckingDisabled opts = setting qo_CheckingDisabled opts'"
    using look [of "''CD''"] by (simp only: settings_lookup map_option_format_bool)
  show "resolveEDNSSize opts (resolveDNSSEC opts) = resolveEDNSSize opts' (resolveDNSSEC opts')"
    using look [of "''EDNS_SIZE''"] by (simp only: settings_lookup option.inject itoa_eq word_uint_eq_iff)
  show "map_option (\<lambda>d. formatEDNSData show_data (ed_Data d)) (setting qo_EDNSDetails opts) =
     map_option (\<lambda>d. formatEDNSData show_data (ed_Data d)) (setting qo_EDNSDetails opts')"
    using look [of "''EDNS_DATA''"] by (simp only: details_lookup)
  show "map_option keyed_details (setting qo_EDNSDetails opts) = map_option keyed_details (setting qo_EDNSDetails opts')"
    using look [of "''EDNS_VERSION''"] look [of "''EDNS_Z''"] look [of "''EDNS_RCODE''"] unfolding details_lookup
    by (cases "setting qo_EDNSDetails opts"; cases "setting qo_EDNSDetails opts'") (simp_all add: keyed_details_def)
qed

definition fresh_client :: "client \<Rightarrow> bool" where
  "fresh_client c \<longleftrightarrow> \<not> cl_DNSSEC c \<and> cl_EDNSSize c = 0 \<and> cl_EDNSDetails c = None \<and> \<not> cl_ednsSizeSpecified c"

lemma with_some_simps [simp]: "with_some None f b = b" "with_some (Some a) f b = f a b"
  by (simp_all add: with_some_def)

lemma overrides_settings:
  assumes "fresh_client base"
  shows "cl_DNSSEC (client_overrides base opts) = resolveDNSSEC opts" "cl_EDNSSize (client_overrides base opts) = 0"
    "cl_EDNSDetails (client_overrides base opts) = None"
    "cl_ednsSizeSpecified (client_overrides base opts) = cl_ednsSizeSpecified base"
  using assms
  by (auto simp: client_overrides_def Let_def setter_defs resolveDNSSEC_def the_or_def fresh_client_def with_some_def split: option.split)

text \<open>Up to the DNSSEC flag, which is set last, the overrides depend on the keyed settings alone.\<close>

lemma overrides_frame:
  "client_overrides base opts =
     (let c = with_some (setting qo_Timeout opts) SetTimeout (with_some (setting qo_Retrans opts) SetRetrans
        (with_some (setting qo_Retry opts) SetRetries (with_some (setting qo_Fallback opts) SetFallback
          (with_some (setting qo_CheckingDisabled opts) SetCheckingDisabled
            (SetRecursionDesired (resolveRecurse opts) (SetUseTCP (resolveUseVC opts) base))))))
      in c\<lparr>cl_DNSSEC := cl_DNSSEC (client_overrides base opts)\<rparr>)"
  by (auto simp: client_overrides_def Let_def with_some_def split: option.split)

lemma edns_settings:
  assumes "\<not> cl_ednsSizeSpecified c" "cl_EDNSSize c = 0" "cl_EDNSDetails c = None"
  shows "ApplyProfileDefaults p (client_edns opts c) =
    (ApplyProfileDefaults p c)\<lparr>cl_EDNSSize := resolveEDNSSize opts (cl_DNSSEC c), cl_EDNSDetails := setting qo_EDNSDetails opts,
       cl_ednsSizeSpecified := cl_ednsSizeSpecified (client_edns opts c)\<rparr>"
  using assms
  by (auto simp: client_edns_def setter_defs ApplyProfileDefaults_def Let_def resolveEDNSSize_def split: option.split)

lemma explicit_z: "m_Z m = 0 \<Longrightarrow> ApplyExplicit z m = ApplyExplicit (Some (word_of_int (word_or_0 z))) m"
  by (cases z) (auto simp: ApplyExplicit_def word_or_0_def Let_def split: option.splits)

definition set_flags :: "client \<Rightarrow> dns_msg \<Rightarrow> dns_msg" where
  "set_flags c m =
     (let m1 = (if cl_RecursionDesired c then m\<lparr>m_RecursionDesired := True\<rparr> else m)
      in if cl_CheckingDisabled c then m1\<lparr>m_CheckingDisabled := True\<rparr> else m1)"

lemma set_flags_frame [simp]:
  "m_Version (set_flags c m) = m_Version m" "m_Rcode (set_flags c m) = m_Rcode m" "m_Z (set_flags c m) = m_Z m"
  "m_Pseudo (set_flags c m) = m_Pseudo m"
  by (simp_all add: set_flags_def Let_def)

definition detailed :: "int \<times> int \<times> int \<Rightarrow> string list \<Rightarrow> client \<Rightarrow> dns_msg \<Rightarrow> dns_msg" where
  "detailed k data c m =
     (set_flags c m)\<lparr>m_UDPSize := cl_EDNSSize c, m_Security := cl_DNSSEC c, m_Version := word_of_int (fst k),
       m_Rcode := ucast (word_of_int (snd (snd k)) :: 8 word), m_Pseudo := m_Pseudo m @ map EDNS0 data\<rparr>"

lemma detailed_z [simp]: "m_Z (detailed k data c m) = m_Z m"
  by (simp add: detailed_def)

lemma prepare_details_keyed:
  assumes "ed_Do d = None \<or> ed_Do d = Some (cl_DNSSEC c)" "ed_Size d = None \<or> ed_Size d = Some (cl_EDNSSize c)"
    and "m_Version m = 0" "m_Rcode m = 0"
  shows "prepare_details d ((set_flags c m)\<lparr>m_UDPSize := cl_EDNSSize c, m_Security := cl_DNSSEC c\<rparr>) =
    detailed (keyed_details d) (ed_Data d) c m"
  using assms
  by (auto simp: prepare_details_def Let_def detailed_def keyed_details_def word_or_0_def split: option.split)

lemma prepare_with_details:
  assumes d: "cl_EDNSDetails c = Some d" and "ed_Do d = None \<or> ed_Do d = Some (cl_DNSSEC c)"
    "ed_Size d = None \<or> ed_Size d = Some (cl_EDNSSize c)"
    and m: "m_Version m = 0" "m_Rcode m = 0" "m_Z m = 0"
  shows "prepareMessage c m =
    ApplyExplicit (Some (word_of_int (fst (snd (keyed_details d))))) (detailed (keyed_details d) (ed_Data d) c m)"
proof -
  have "prepareMessage c m = ApplyExplicit (ed_Z d) (detailed (keyed_details d) (ed_Data d) c m)"
    using prepare_details_keyed [OF assms(2,3) m(1,2)] by (simp add: prepareMessage_def set_flags_def Let_def d)
  then show ?thesis using explicit_z [of "detailed (keyed_details d) (ed_Data d) c m"] m(3)
    by (simp add: keyed_details_def)
qed

lemma prepare_without_details:
  "cl_EDNSDetails c = None \<Longrightarrow> prepareMessage c m =
     (if 0 < cl_EDNSSize c
      then let m' = (set_flags c m)\<lparr>m_UDPSize := cl_EDNSSize c, m_Security := cl_DNSSEC c\<rparr>
           in if cl_EDNSSize c \<le> MinMsgSize then ApplyExplicit None m' else m'
      else set_flags c m)"
  by (simp add: prepareMessage_def set_flags_def Let_def)

lemma details_consistent:
  "setting qo_EDNSDetails opts = Some d \<Longrightarrow>
     (ed_Do d = None \<or> ed_Do d = Some (resolveDNSSEC opts)) \<and> (ed_Size d = None \<or> ed_Size d = Some (resolveEDNSSize opts b))"
  by (auto simp: resolveDNSSEC_def resolveEDNSSize_def split: option.split)

lemma client_eq:
  assumes base: "fresh_client base"
    and same: "resolveDNSSEC opts = resolveDNSSEC opts'" "resolveUseVC opts = resolveUseVC opts'"
      "resolveRecurse opts = resolveRecurse opts'" "setting qo_Fallback opts = setting qo_Fallback opts'"
      "setting qo_Retry opts = setting qo_Retry opts'" "setting qo_Retrans opts = setting qo_Retrans opts'"
      "setting qo_Timeout opts = setting qo_Timeout opts'" "setting qo_CheckingDisabled opts = setting qo_CheckingDisabled opts'"
      "resolveEDNSSize opts (resolveDNSSEC opts) = resolveEDNSSize opts' (resolveDNSSEC opts')"
  shows "\<exists>b. clientForOptions base target p opts' =
    (clientForOptions base target p opts)\<lparr>cl_EDNSDetails := setting qo_EDNSDetails opts', cl_ednsSizeSpecified := b\<rparr>"
    and "cl_EDNSDetails (clientForOptions base target p opts) = setting qo_EDNSDetails opts"
    and "cl_DNSSEC (clientForOptions base target p opts) = resolveDNSSEC opts"
    and "cl_EDNSSize (clientForOptions base target p opts) = resolveEDNSSize opts (resolveDNSSEC opts)"
proof -
  note o = overrides_settings [OF base]
  have ov: "client_overrides base opts' = client_overrides base opts"
    using overrides_frame [of base opts] overrides_frame [of base opts'] o(1) same by simp
  have spec: "\<not> cl_ednsSizeSpecified (client_overrides base x)" for x using o(4) base by (simp add: fresh_client_def)
  note e = edns_settings [OF spec o(2,3)]
  have c: "clientForOptions base target p x = applyProfileSourceAddress target p
      ((ApplyProfileDefaults p (client_overrides base x))\<lparr>cl_EDNSSize := resolveEDNSSize x (resolveDNSSEC x),
        cl_EDNSDetails := setting qo_EDNSDetails x, cl_ednsSizeSpecified := cl_ednsSizeSpecified (client_edns x (client_overrides base x))\<rparr>)" for x
    unfolding clientForOptions_def e o(1) ..
  have dn: "cl_DNSSEC (ApplyProfileDefaults p c) = cl_DNSSEC c" for c by (simp add: ApplyProfileDefaults_def Let_def)
  show "\<exists>b. clientForOptions base target p opts' =
    (clientForOptions base target p opts)\<lparr>cl_EDNSDetails := setting qo_EDNSDetails opts', cl_ednsSizeSpecified := b\<rparr>"
    unfolding c ov same(9) by (rule exI) (auto simp: applyProfileSourceAddress_def)
  show "cl_EDNSDetails (clientForOptions base target p opts) = setting qo_EDNSDetails opts"
    "cl_DNSSEC (clientForOptions base target p opts) = resolveDNSSEC opts"
    "cl_EDNSSize (clientForOptions base target p opts) = resolveEDNSSize opts (resolveDNSSEC opts)"
    unfolding c by (simp_all add: applyProfileSourceAddress_def dn o(1))
qed


definition explicit_options :: query_options where
  "explicit_options = no_options\<lparr>qo_DNSSEC := Some False, qo_EDNSSize := Some 0, qo_Diagnostic := True\<rparr>"

lemma sample_same_key:
  "fst (buildCacheKey concat ''example.'' ''SOA'' ''IN'' None) = fst (buildCacheKey concat ''example'' ''SOA'' ''IN'' (Some explicit_options))"
  "bar_free concat ''SOA'' ''IN'' None" "bar_free concat ''SOA'' ''IN'' (Some explicit_options)" "fresh_client zero_client"
  by (code_simp, code_simp, code_simp, code_simp)


end
