(* ===== verification/Nameserver.thy ===== *)
theory Nameserver
  imports NSCache QueryKey
begin

text \<open>
  Queries to a nameserver (\<open>engine/nameserver/nameserver.go\<close>, \<open>query_helpers.go\<close>): the fake delegations of an
  undelegated test, the decisions that keep a query from the network, the coalescing of
  concurrent queries, the concurrency cap of an address, and the bookkeeping after an exchange.

  \<^item> \<open>ns_env\<close> is what a query takes from its context and its nameserver: the profile, the targets the operator allowed, the
    address, and the library functions (address and option printing, \<open>netip.ParseAddr\<close>, the pack and unpack round
    trip). The test hooks \<open>SetQueryHook\<close> and \<open>SetAXFRHook\<close> are unset.
  \<^item> A log entry is its tag; its arguments, and the tags \<open>PACKET_BIG\<close> and \<open>FAKE_PACKET_RETURNED\<close>, which depend on the packed message, are left out.
  \<^item> \<open>ns_world\<close> is the state a query changes: that of the nameserver, the counters and limits of its
    cache store, the heap of entries of queries under way, the tags logged and the queries sent to the network.
  \<^item> \<open>QueryWithOptions\<close> is cut where it takes or gives back a lock that another query may wait for; the
    pieces are composed in the order of the code here, and interleaved in \<open>Coalesce\<close>.
\<close>

section \<open>Fake delegations\<close>

record delegation =
  del_authority :: "rr list"
  del_additional :: "rr list"

record DSData =
  dsd_KeyTag :: "16 word"
  dsd_Algorithm :: "8 word"
  dsd_DigestType :: "8 word"
  dsd_Digest :: string

record capState =
  cap_inflight :: int
  cap_waitCh :: "nat option"

record ns_state =
  st_cache :: query_cache
  st_errorCache :: error_cache
  st_reachability :: reachability_cache
  st_cap :: capState
  st_fakeDelegations :: "(string, delegation) gomap"
  st_fakeDS :: "(string, rr list) gomap"
  st_blacklisted :: "bool \<Rightarrow> bool"
  st_fastFail :: fastFailTracker
  st_latency :: latencyTracker
  st_blockLogged :: "string list"

record ns_env =
  ne_profile :: query_profile
  ne_client :: client
  ne_name :: name
  ne_addr :: ip_addr
  ne_allowed :: "ip_addr list"
  ne_log :: "nat option"
  ne_show_addr :: "ip_addr \<Rightarrow> string"
  ne_parse_addr :: "string \<Rightarrow> ip_addr option"
  ne_show_data :: "string list \<Rightarrow> string"
  ne_wireForm :: "dns_msg \<Rightarrow> dns_msg"
  ne_known_type :: "string \<Rightarrow> bool"
  ne_known_class :: "string \<Rightarrow> bool"

definition domain_key :: "string \<Rightarrow> string" where
  "domain_key domain = to_lower (name_String (NewName domain))"

definition fqdn_of :: "string \<Rightarrow> string" where
  "fqdn_of s = Fqdn (name_String (NewName s))"

datatype fake_result = FakeInvalidIP string | FakeToSelf | FakeRecords "rr list"

fun fake_glue :: "ns_env \<Rightarrow> string \<Rightarrow> string list \<Rightarrow> rr list \<Rightarrow> fake_result" where
  "fake_glue env nsName [] acc = FakeRecords acc"
| "fake_glue env nsName (ip # ips) acc =
     (case ne_parse_addr env ip of
        None \<Rightarrow> FakeInvalidIP ip
      | Some addr \<Rightarrow>
          if addr = ne_addr env then FakeToSelf
          else fake_glue env nsName ips
            (acc @ [if addr_is4 addr then RR_A (fqdn_of nsName) addr else RR_AAAA (fqdn_of nsName) addr]))"

datatype fake_delegation = DelInvalidIP string | DelToSelf | DelRecords delegation

fun fake_rows :: "ns_env \<Rightarrow> string \<Rightarrow> (string, string list) gomap \<Rightarrow> delegation \<Rightarrow> fake_delegation" where
  "fake_rows env domain [] del = DelRecords del"
| "fake_rows env domain ((nsName, ips) # data) del =
     (case fake_glue env nsName ips (del_additional del) of
        FakeInvalidIP ip \<Rightarrow> DelInvalidIP ip
      | FakeToSelf \<Rightarrow> DelToSelf
      | FakeRecords additional \<Rightarrow>
          fake_rows env domain data
            \<lparr>del_authority = del_authority del @ [RR_NS (fqdn_of domain) (fqdn_of nsName)], del_additional = additional\<rparr>)"

definition AddFakeDelegation ::
  "ns_env \<Rightarrow> string \<Rightarrow> (string, string list) gomap \<Rightarrow> ns_state \<Rightarrow> (string + unit) \<times> ns_state \<times> string list" where
  "AddFakeDelegation env domain data s =
     (case fake_rows env domain data \<lparr>del_authority = [], del_additional = []\<rparr> of
        DelInvalidIP ip \<Rightarrow> (Inl (''invalid delegation IP '' @ ip), s, [])
      | DelToSelf \<Rightarrow> (Inr (), s, [''FAKE_DELEGATION_TO_SELF''])
      | DelRecords del \<Rightarrow>
          (Inr (), s\<lparr>st_fakeDelegations := gm_set (domain_key domain) del (st_fakeDelegations s)\<rparr>, [''FAKE_DELEGATION_ADDED'']))"

definition AddFakeDS :: "string \<Rightarrow> DSData list \<Rightarrow> ns_state \<Rightarrow> ns_state \<times> string list" where
  "AddFakeDS domain data s =
     (let records = map (\<lambda>d. RR_DS (fqdn_of domain) (dsd_KeyTag d) (dsd_Algorithm d) (dsd_DigestType d) (dsd_Digest d)) data
      in (s\<lparr>st_fakeDS := gm_set (domain_key domain) records (st_fakeDS s)\<rparr>, [''FAKE_DS_ADDED'']))"

definition FakeDSRecords :: "string \<Rightarrow> ns_state \<Rightarrow> rr list" where
  "FakeDSRecords domain s = gm_get_or [] (st_fakeDS s) (domain_key domain)"

definition setResponseEDNS :: "dns_msg \<Rightarrow> bool \<Rightarrow> 16 word \<Rightarrow> query_options option \<Rightarrow> dns_msg" where
  "setResponseEDNS msg dnssec sz opts =
     (if sz = 0 \<and> opts = None then msg
      else let m1 = msg\<lparr>m_UDPSize := sz, m_Security := dnssec\<rparr>
           in case setting qo_EDNSDetails opts of
                None \<Rightarrow> m1
              | Some d \<Rightarrow>
                  (let m2 = with_some (ed_Do d) (\<lambda>v m. m\<lparr>m_Security := v\<rparr>) m1;
                       m3 = with_some (ed_Version d) (\<lambda>v m. m\<lparr>m_Version := v\<rparr>) m2;
                       m4 = with_some (ed_Rcode d) (\<lambda>v m. m\<lparr>m_Rcode := ucast v\<rparr>) m3;
                       m5 = m4\<lparr>m_Pseudo := m_Pseudo m4 @ map EDNS0 (ed_Data d)\<rparr>
                   in with_some (ed_Z d) (\<lambda>z m. ApplyExplicit (Some z) m) m5))"

definition fake_packet :: "ns_env \<Rightarrow> dns_msg \<Rightarrow> query_options option \<Rightarrow> packet" where
  "fake_packet env msg opts =
     (let dnssec = resolveDNSSEC opts
      in noPacket\<lparr>p_Msg := Some (ne_wireForm env (setResponseEDNS msg dnssec (resolveEDNSSize opts dnssec) opts)),
           p_AnswerFrom := ne_show_addr env (ne_addr env), p_Log := ne_log env\<rparr>)"

definition fakeDSResponse ::
  "ns_env \<Rightarrow> string \<Rightarrow> string \<Rightarrow> string \<Rightarrow> query_options option \<Rightarrow> ns_state \<Rightarrow> packet option" where
  "fakeDSResponse env name qtype qclass opts s =
     (if qtype \<noteq> ''DS'' \<or> qclass \<noteq> ''IN'' then None
      else let records = gm_get_or [] (st_fakeDS s) (domain_key name)
           in if records = [] then None
              else Some (fake_packet env (new_msg\<lparr>m_Response := True, m_Authoritative := True,
                     m_RecursionDesired := resolveRecurse opts, m_Question := [(Fqdn name, ''DS'', ''IN'')],
                     m_Answer := records\<rparr>) opts))"

definition matchesZone :: "string \<Rightarrow> string \<Rightarrow> bool" where
  "matchesZone name zone \<longleftrightarrow> name = zone \<or> has_suffix name (''.'' @ zone)"

definition fake_referral ::
  "ns_env \<Rightarrow> string \<Rightarrow> string \<Rightarrow> string \<Rightarrow> query_options option \<Rightarrow> string \<Rightarrow> delegation \<Rightarrow> packet" where
  "fake_referral env name qtype qclass opts key del =
     (let msg = new_msg\<lparr>m_Response := True, m_Authoritative := (qtype = ''DS''),
                m_RecursionDesired := resolveRecurse opts, m_Question := [(Fqdn name, qtype, qclass)]\<rparr>;
          msg = (if equal_fold (domain_key name) key \<and> qtype = ''NS''
                 then msg\<lparr>m_Answer := del_authority del, m_Extra := del_additional del\<rparr>
                 else if qtype \<noteq> ''DS'' then msg\<lparr>m_Ns := del_authority del, m_Extra := del_additional del\<rparr>
                 else msg)
      in fake_packet env msg opts)"

definition fakeDelegationResponse ::
  "ns_env \<Rightarrow> string \<Rightarrow> string \<Rightarrow> string \<Rightarrow> query_options option \<Rightarrow> ns_state \<Rightarrow> packet option" where
  "fakeDelegationResponse env name qtype qclass opts s =
     (let keys = sort_by (cmp_key (\<lambda>k. k)) (map fst (st_fakeDelegations s))
      in case find (matchesZone (domain_key name)) keys of
           None \<Rightarrow> None
         | Some key \<Rightarrow>
             map_option (fake_referral env name qtype qclass opts key) (gm_get (st_fakeDelegations s) key))"

section \<open>Errors and lifetimes\<close>

definition isTimeoutPatternError :: "goerror option \<Rightarrow> bool" where
  "isTimeoutPatternError err =
     (case err of None \<Rightarrow> False | Some e \<Rightarrow> e_Timeout e \<or> contains (to_lower (e_Text e)) ''timeout'')"

definition hardErrs :: "string list" where
  "hardErrs = [''EHOSTUNREACH'', ''ENETUNREACH'', ''EHOSTDOWN'', ''ENETDOWN'']"

definition isHardNetworkError :: "goerror option \<Rightarrow> bool" where
  "isHardNetworkError err =
     (case err of
        None \<Rightarrow> False
      | Some e \<Rightarrow>
          \<not> e_Timeout e \<and>
          (list_ex (\<lambda>t. t \<in> set (e_Is e)) hardErrs \<or>
           (let msg = to_lower (e_Text e) in
              contains msg ''no route to host'' \<or> contains msg ''network is unreachable'' \<or>
              contains msg ''host is unreachable'' \<or> contains msg ''host unreachable'')))"

definition resolveTTLWithBudget :: "int \<Rightarrow> query_profile \<Rightarrow> query_options option \<Rightarrow> duration" where
  "resolveTTLWithBudget baseSeconds p opts =
     (if baseSeconds \<le> 0 then 0
      else let d = qp_Defaults p;
               baseTTL = wrap64 (baseSeconds * second);
               timeout = the_or (wrap64 (rd_Timeout d * second)) (setting qo_Timeout opts);
               retries = max 0 (the_or (rd_Retry d) (setting qo_Retry opts));
               retrans = the_or (wrap64 (rd_Retrans d * second)) (setting qo_Retrans opts);
               perAttempt = (if timeout \<le> 0 \<and> 0 < retrans then retrans else timeout);
               budget = wrap64 (perAttempt * max (retries + 1) 1)
           in if perAttempt \<le> 0 then baseTTL
              else if budget \<le> 0 then baseTTL
              else if budget < baseTTL then budget else baseTTL)"

definition resolveErrorCacheTTL :: "query_profile \<Rightarrow> query_options option \<Rightarrow> duration" where
  "resolveErrorCacheTTL p opts = resolveTTLWithBudget (rd_ErrorCacheTTL (qp_Defaults p)) p opts"

definition resolveReachabilityTTL :: "query_profile \<Rightarrow> query_options option \<Rightarrow> duration" where
  "resolveReachabilityTTL p opts =
     (let baseSeconds = rd_NegativeCacheTTL (qp_Defaults p)
      in resolveTTLWithBudget (if baseSeconds \<le> 0 then rd_ErrorCacheTTL (qp_Defaults p) else baseSeconds) p opts)"

definition resolveFastFailTimeoutCount :: "query_profile \<Rightarrow> int" where
  "resolveFastFailTimeoutCount p = max 0 (rd_FastFailTimeoutCount (qp_Defaults p))"

definition resolveLatencyBudget :: "query_profile \<Rightarrow> duration" where
  "resolveLatencyBudget p =
     (if rd_NameserverMaxTotalMS (qp_Defaults p) \<le> 0 then 0 else wrap64 (rd_NameserverMaxTotalMS (qp_Defaults p) * 1000000))"

definition resolveNameserverConcurrencyLimit :: "query_profile \<Rightarrow> int" where
  "resolveNameserverConcurrencyLimit p = max 0 (rd_NameserverConcurrency (qp_Defaults p))"

section \<open>The state a query changes\<close>

record inflightQuery =
  iq_done :: bool
  iq_resp :: "packet option"
  iq_err :: "goerror option"
  iq_abandoned :: bool

record ns_world =
  w_ns :: ns_state
  w_limits :: runLimits
  w_metrics :: counters
  w_entries :: "nat \<Rightarrow> inflightQuery"
  w_next :: nat
  w_nextCh :: nat
  w_times :: "(string, duration list) gomap"
  w_timeouts :: "(string, int) gomap"
  w_refused :: "(string, int) gomap"
  w_log :: "string list"
  w_sent :: "(ip_addr \<times> string) list"

record query =
  q_name :: string
  q_type :: string
  q_opts :: "query_options option"

type_synonym answer = "packet \<times> goerror option"

datatype 'a outcome = Returns answer | Proceeds 'a

definition logSystem :: "ns_env \<Rightarrow> string \<Rightarrow> ns_world \<Rightarrow> ns_world" where
  "logSystem env tag w = (if ne_log env = None then w else w\<lparr>w_log := w_log w @ [tag]\<rparr>)"

definition query_type :: "query \<Rightarrow> string" where
  "query_type q = to_upper (if q_type q = [] then ''A'' else q_type q)"

definition query_class :: "query \<Rightarrow> string" where
  "query_class q =
     to_upper (case q_opts q of Some opts \<Rightarrow> if qo_Class opts \<noteq> [] then qo_Class opts else ''IN'' | None \<Rightarrow> ''IN'')"

definition query_key :: "ns_env \<Rightarrow> query \<Rightarrow> string" where
  "query_key env q = fst (buildCacheKey (ne_show_data env) (q_name q) (query_type q) (query_class q) (q_opts q))"

definition server_key :: "ns_env \<Rightarrow> string" where
  "server_key env = name_String (ne_name env) @ ''/'' @ ne_show_addr env (ne_addr env)"

section \<open>Before the network\<close>

definition IsAllowedTarget :: "ns_env \<Rightarrow> bool" where
  "IsAllowedTarget env \<longleftrightarrow> addr_Unmap (ne_addr env) \<in> set (ne_allowed env)"

definition blockNonGlobal :: "ns_env \<Rightarrow> string \<Rightarrow> ns_world \<Rightarrow> bool \<times> ns_world" where
  "blockNonGlobal env key w =
     (if qp_AllowNonGlobalTargets (ne_profile env) then (False, w)
      else if IsAllowedTarget env then (False, w)
      else if IsQueryable (ne_addr env) then (False, w)
      else if key \<in> set (st_blockLogged (w_ns w)) then (True, w)
      else (True, logSystem env ''NON_GLOBAL_QUERY_BLOCKED''
             (w\<lparr>w_ns := (w_ns w)\<lparr>st_blockLogged := st_blockLogged (w_ns w) @ [key]\<rparr>\<rparr>)))"

definition no_network_error :: "ns_env \<Rightarrow> query \<Rightarrow> goerror" where
  "no_network_error env q = plain_error (''external query for '' @ q_name q @ '' '' @ query_type q @ '' attempted to '' @
     server_key env @ '' while running with no_network'')"

text \<open>The beginning of \<open>QueryWithOptions\<close>, up to the lookup of a cached answer and the test for \<open>no_network\<close>.\<close>

definition query_cached :: "ns_env \<Rightarrow> query \<Rightarrow> string \<Rightarrow> ns_world \<Rightarrow> unit outcome \<times> ns_world" where
  "query_cached env q key w =
     (let (hit, h) = queryCache_get key (st_cache (w_ns w)) (w_metrics w);
          w1 = w\<lparr>w_metrics := h\<rparr>
      in case hit of
           Some None \<Rightarrow> (Returns (noPacket, None), logSystem env ''CACHED_RETURN'' w1)
         | Some (Some p) \<Rightarrow> (Returns (p\<lparr>p_Log := ne_log env\<rparr>, None), logSystem env ''CACHED_RETURN'' w1)
         | None \<Rightarrow> if qp_NoNetwork (ne_profile env) then (Returns (noPacket, Some (no_network_error env q)), w1)
                   else (Proceeds (), w1))"

definition query_admit :: "ns_env \<Rightarrow> query \<Rightarrow> string \<Rightarrow> ns_world \<Rightarrow> unit outcome \<times> ns_world" where
  "query_admit env q key w =
     (let (blocked, w1) = (if qp_NoNetwork (ne_profile env) then (False, w) else blockNonGlobal env key w)
      in if blocked then (Returns (noPacket, None), w1)
         else let (ok, l) = limits_admit (ne_addr env) (w_limits w1);
                  w2 = w1\<lparr>w_limits := l\<rparr>
              in if \<not> ok
                 then let (es, l') = limitReached (ne_log env) BoundRunAddresses (name_String (ne_name env))
                                       MaxRunAddresses (MaxRunAddresses + 1) l
                      in (Returns (noPacket, None), w2\<lparr>w_limits := l', w_log := w_log w2 @ map (\<lambda>_. ''LIMIT_REACHED'') es\<rparr>)
                 else query_cached env q key w2)"

definition query_begin :: "ns_env \<Rightarrow> query \<Rightarrow> ns_world \<Rightarrow> unit outcome \<times> ns_world" where
  "query_begin env q w =
     (if addr_is4 (ne_addr env) \<and> \<not> qp_IPv4 (ne_profile env)
      then (Returns (noPacket, None), logSystem env ''IPV4_BLOCKED'' w)
      else if \<not> addr_is4 (ne_addr env) \<and> \<not> qp_IPv6 (ne_profile env)
      then (Returns (noPacket, None), logSystem env ''IPV6_BLOCKED'' w)
      else let w1 = logSystem env ''QUERY'' w in
        case fakeDSResponse env (q_name q) (query_type q) (query_class q) (q_opts q) (w_ns w) of
          Some resp \<Rightarrow> (Returns (resp, None), logSystem env ''FAKE_DS_RETURNED'' w1)
        | None \<Rightarrow>
            (case fakeDelegationResponse env (q_name q) (query_type q) (query_class q) (q_opts q) (w_ns w) of
               Some resp \<Rightarrow> (Returns (resp, None), logSystem env ''FAKE_DELEGATION_RETURNED'' w1)
             | None \<Rightarrow> query_admit env q (query_key env q) w1))"

section \<open>Skipped queries\<close>

definition errorCacheProtocol :: "bool \<Rightarrow> string" where
  "errorCacheProtocol usevc = (if usevc then ''tcp'' else ''udp'')"

definition BlacklistingEnabled :: bool where "BlacklistingEnabled = True"

text \<open>\<open>shouldSkipQuery\<close>: the first signal that fires. The two caches read the clock at \<open>nowR\<close> and \<open>nowE\<close>.\<close>

definition skip_trackers :: "ns_env \<Rightarrow> query \<Rightarrow> ns_state \<Rightarrow> string option" where
  "skip_trackers env q s =
     (let usevc = resolveUseVC (q_opts q) in
      if BlacklistingEnabled \<and> st_blacklisted s usevc then Some ''IS_BLACKLISTED''
      else if fastFail_shouldSkip usevc (resolveFastFailTimeoutCount (ne_profile env)) (st_fastFail s) then Some ''FAST_FAIL_SKIP''
      else if latency_shouldSkip (resolveLatencyBudget (ne_profile env)) (st_latency s) then Some ''LATENCY_BUDGET_SKIP''
      else None)"

definition skip_errors :: "ns_env \<Rightarrow> gotime \<Rightarrow> query \<Rightarrow> string \<Rightarrow> ns_world \<Rightarrow> string option \<times> ns_world" where
  "skip_errors env nowE q key w =
     (if 0 < resolveErrorCacheTTL (ne_profile env) (q_opts q)
      then let ((skip, _), c, h) = errorCache_shouldSkip nowE key (st_errorCache (w_ns w)) (w_metrics w);
               w1 = w\<lparr>w_ns := (w_ns w)\<lparr>st_errorCache := c\<rparr>, w_metrics := h\<rparr>
           in if skip then (Some ''ERROR_CACHE_SKIP'', w1) else (skip_trackers env q (w_ns w1), w1)
      else (skip_trackers env q (w_ns w), w))"

definition shouldSkipQuery :: "ns_env \<Rightarrow> gotime \<Rightarrow> gotime \<Rightarrow> query \<Rightarrow> string \<Rightarrow> ns_world \<Rightarrow> string option \<times> ns_world" where
  "shouldSkipQuery env nowR nowE q key w =
     (if 0 < resolveReachabilityTTL (ne_profile env) (q_opts q)
      then let ((skip, _), c) = reachability_shouldSkip nowR (ne_show_addr env (ne_addr env)) (st_reachability (w_ns w));
               w1 = w\<lparr>w_ns := (w_ns w)\<lparr>st_reachability := c\<rparr>\<rparr>
           in if skip then (Some ''REACHABILITY_CACHE_SKIP'', w1) else skip_errors env nowE q key w1
      else skip_errors env nowE q key w)"

definition cache_answer :: "string \<Rightarrow> packet option \<Rightarrow> ns_world \<Rightarrow> ns_world" where
  "cache_answer key p w =
     (let (c, h) = queryCache_set key p (st_cache (w_ns w)) (w_metrics w)
      in w\<lparr>w_ns := (w_ns w)\<lparr>st_cache := c\<rparr>, w_metrics := h\<rparr>)"

definition query_skip :: "ns_env \<Rightarrow> gotime \<Rightarrow> gotime \<Rightarrow> query \<Rightarrow> ns_world \<Rightarrow> unit outcome \<times> ns_world" where
  "query_skip env nowR nowE q w =
     (case shouldSkipQuery env nowR nowE q (query_key env q) w of
        (Some tag, w1) \<Rightarrow> (Returns (noPacket, None), cache_answer (query_key env q) None (logSystem env tag w1))
      | (None, w1) \<Rightarrow> (Proceeds (), w1))"

section \<open>Coalescing and the concurrency cap\<close>

datatype role = Lead nat | Wait nat

definition new_entry :: inflightQuery where
  "new_entry = \<lparr>iq_done = False, iq_resp = None, iq_err = None, iq_abandoned = False\<rparr>"

definition with_inflight :: "((string, nat) gomap \<Rightarrow> (string, nat) gomap) \<Rightarrow> ns_world \<Rightarrow> ns_world" where
  "with_inflight f w = w\<lparr>w_ns := (w_ns w)\<lparr>st_cache := (st_cache (w_ns w))\<lparr>qc_inflight := f (qc_inflight (st_cache (w_ns w)))\<rparr>\<rparr>\<rparr>"

definition inflight_of :: "ns_world \<Rightarrow> string \<Rightarrow> nat option" where
  "inflight_of w key = gm_get (qc_inflight (st_cache (w_ns w))) key"

definition waitOrRegister :: "string \<Rightarrow> ns_world \<Rightarrow> role \<times> ns_world" where
  "waitOrRegister key w =
     (case inflight_of w key of
        Some i \<Rightarrow> (Wait i, w)
      | None \<Rightarrow> (Lead (w_next w),
                 (with_inflight (gm_set key (w_next w)) w)\<lparr>w_entries := (w_entries w)(w_next w := new_entry), w_next := w_next w + 1\<rparr>))"

definition inflight_finish :: "string \<Rightarrow> packet option \<Rightarrow> goerror option \<Rightarrow> ns_world \<Rightarrow> ns_world" where
  "inflight_finish key resp err w =
     (case inflight_of w key of
        None \<Rightarrow> w
      | Some i \<Rightarrow> (with_inflight (gm_del key) w)
          \<lparr>w_entries := (w_entries w)(i := (w_entries w i)\<lparr>iq_resp := resp, iq_err := err, iq_done := True\<rparr>)\<rparr>)"

definition inflight_abandon :: "string \<Rightarrow> nat \<Rightarrow> ns_world \<Rightarrow> ns_world" where
  "inflight_abandon key i w =
     (if inflight_of w key \<noteq> Some i then w
      else (with_inflight (gm_del key) w)
          \<lparr>w_entries := (w_entries w)(i := (w_entries w i)\<lparr>iq_abandoned := True, iq_done := True\<rparr>)\<rparr>)"

text \<open>What a waiter does once the entry it waits for is done: it goes back to register when the leader gave up.\<close>

definition wait_done :: "ns_env \<Rightarrow> nat \<Rightarrow> ns_world \<Rightarrow> unit outcome \<times> ns_world" where
  "wait_done env i w =
     (let e = w_entries w i in
      if iq_abandoned e then (Proceeds (), w)
      else (Returns (case iq_resp e of None \<Rightarrow> noPacket | Some p \<Rightarrow> p\<lparr>p_Log := ne_log env\<rparr>, iq_err e),
            logSystem env ''CACHED_RETURN'' w))"

text \<open>One turn of the loop of \<open>acquire\<close>: a slot, or the channel to wait on.\<close>

definition cap_acquire :: "int \<Rightarrow> ns_world \<Rightarrow> nat option \<times> ns_world" where
  "cap_acquire limit w =
     (let c = st_cap (w_ns w) in
      if cap_inflight c < limit
      then (None, w\<lparr>w_ns := (w_ns w)\<lparr>st_cap := c\<lparr>cap_inflight := cap_inflight c + 1\<rparr>\<rparr>\<rparr>)
      else case cap_waitCh c of
             Some ch \<Rightarrow> (Some ch, w)
           | None \<Rightarrow> (Some (w_nextCh w),
                      w\<lparr>w_ns := (w_ns w)\<lparr>st_cap := c\<lparr>cap_waitCh := Some (w_nextCh w)\<rparr>\<rparr>, w_nextCh := w_nextCh w + 1\<rparr>))"

definition cap_release :: "ns_world \<Rightarrow> ns_world" where
  "cap_release w =
     (let c = st_cap (w_ns w) in
      w\<lparr>w_ns := (w_ns w)\<lparr>st_cap := c\<lparr>cap_inflight := (if 0 < cap_inflight c then cap_inflight c - 1 else cap_inflight c),
                                      cap_waitCh := None\<rparr>\<rparr>\<rparr>)"

section \<open>The exchange and what is kept of it\<close>

text \<open>
  \<open>ctx.Err()\<close> is read at each of these places after the exchange; a context may be cancelled between
  two of them. \<open>live\<close> says where it was still nil.
\<close>

datatype ctx_point = AtNetwork | AtFastFail | AtBlacklist | AtErrorCache | AtReachability | AtStore

definition diagnostic :: "query \<Rightarrow> bool" where
  "diagnostic q = (case q_opts q of None \<Rightarrow> False | Some opts \<Rightarrow> qo_Diagnostic opts)"

definition blacklisting_disabled :: "query \<Rightarrow> bool" where
  "blacklisting_disabled q = (case q_opts q of None \<Rightarrow> False | Some opts \<Rightarrow> qo_BlacklistingDisabled opts)"

definition RcodeRefused :: "16 word" where "RcodeRefused = 5"

text \<open>\<open>queryNetworkRaw\<close>: a query of a known type and class goes to the transport; \<open>reply\<close> is what its client gets back.\<close>

definition queryNetworkRaw :: "ns_env \<Rightarrow> query \<Rightarrow> (client \<Rightarrow> dns_msg \<Rightarrow> goerror + packet) \<Rightarrow> ns_world \<Rightarrow> answer \<times> ns_world" where
  "queryNetworkRaw env q exchange w =
     (if \<not> ne_known_type env (query_type q)
      then ((noPacket, Some (plain_error (''unknown query type '' @ query_type q))), w)
      else if \<not> ne_known_class env (query_class q)
      then ((noPacket, Some (plain_error (''unknown query class '' @ query_class q))), w)
      else let msg = BuildQueryWithClass (q_name q) (query_type q) (query_class q);
               r = exchange (clientForOptions (ne_client env) (ne_addr env) (ne_profile env) (q_opts q)) msg;
               resp = (case r of Inl e \<Rightarrow> noPacket | Inr p \<Rightarrow> p)\<lparr>p_Log := ne_log env\<rparr>;
               err = (case r of Inl e \<Rightarrow> Some e | Inr p \<Rightarrow> None);
               w1 = logSystem env ''EXTERNAL_QUERY'' w;
               w2 = w1\<lparr>w_sent := w_sent w1 @ [(ne_addr env, query_key env q)]\<rparr>;
               w3 = (if 0 < p_QueryTime resp
                     then w2\<lparr>w_times := gm_set (server_key env) (gm_get_or [] (w_times w2) (server_key env) @ [p_QueryTime resp]) (w_times w2)\<rparr>
                     else w2)
           in ((resp, err), logSystem env (if p_Msg resp = None \<and> err = None then ''EMPTY_RETURN'' else ''EXTERNAL_RESPONSE'') w3))"

definition count_up :: "string \<Rightarrow> (string, int) gomap \<Rightarrow> (string, int) gomap" where
  "count_up k m = gm_set k (gm_get_or 0 m k + 1) m"

definition queryNetwork ::
  "ns_env \<Rightarrow> query \<Rightarrow> (ctx_point \<Rightarrow> bool) \<Rightarrow> duration \<Rightarrow> (client \<Rightarrow> dns_msg \<Rightarrow> goerror + packet) \<Rightarrow> ns_world \<Rightarrow> answer \<times> ns_world" where
  "queryNetwork env q live elapsed exchange w =
     (let (ans, w1) = queryNetworkRaw env q exchange w;
          health = (live AtNetwork \<and> \<not> diagnostic q);
          w2 = (if health \<and> isTimeoutPatternError (snd ans) then w1\<lparr>w_timeouts := count_up (server_key env) (w_timeouts w1)\<rparr> else w1);
          w3 = (case p_Msg (fst ans) of
                  Some m \<Rightarrow> if live AtNetwork \<and> m_Rcode m = RcodeRefused then w2\<lparr>w_refused := count_up (server_key env) (w_refused w2)\<rparr> else w2
                | None \<Rightarrow> w2);
          w4 = (if health
                then w3\<lparr>w_ns := (w_ns w3)\<lparr>st_latency := snd (latency_observe elapsed (resolveLatencyBudget (ne_profile env)) (st_latency (w_ns w3)))\<rparr>\<rparr>
                else w3)
      in (ans, w4))"

definition observe_failure :: "ns_env \<Rightarrow> query \<Rightarrow> (ctx_point \<Rightarrow> bool) \<Rightarrow> gotime \<Rightarrow> gotime \<Rightarrow> answer \<Rightarrow> ns_world \<Rightarrow> ns_world" where
  "observe_failure env q live nowE nowR ans w =
     (let usevc = resolveUseVC (q_opts q); err = snd ans;
          w1 = (if diagnostic q then w
                else w\<lparr>w_ns := (w_ns w)\<lparr>st_fastFail := snd (fastFail_observeResult usevc
                        (live AtFastFail \<and> isTimeoutPatternError err) (resolveFastFailTimeoutCount (ne_profile env)) (st_fastFail (w_ns w)))\<rparr>\<rparr>);
          w2 = (if err \<noteq> None \<and> live AtBlacklist \<and> query_type q = ''SOA'' \<and>
                   resolveEDNSSize (q_opts q) (resolveDNSSEC (q_opts q)) = 0 \<and> \<not> blacklisting_disabled q
                then logSystem env ''BLACKLISTING'' (w1\<lparr>w_ns := (w_ns w1)\<lparr>st_blacklisted := (st_blacklisted (w_ns w1))(usevc := True)\<rparr>\<rparr>)
                else w1);
          ettl = resolveErrorCacheTTL (ne_profile env) (q_opts q);
          w3 = (if err \<noteq> None \<and> \<not> diagnostic q \<and> live AtErrorCache \<and> 0 < ettl \<and>
                   (\<not> isTimeoutPatternError err \<or> sawConsecutiveTimeouts usevc (st_fastFail (w_ns w2)))
                then let (c, h) = errorCache_set nowE (query_key env q) ettl (st_errorCache (w_ns w2)) (w_metrics w2)
                     in w2\<lparr>w_ns := (w_ns w2)\<lparr>st_errorCache := c\<rparr>, w_metrics := h\<rparr>
                else w2);
          addr = ne_show_addr env (ne_addr env);
          rttl = resolveReachabilityTTL (ne_profile env) (q_opts q);
          r = st_reachability (w_ns w3);
          r' = (if diagnostic q then r
                else if err \<noteq> None \<and> live AtReachability \<and> isHardNetworkError err
                then (if 0 < rttl then reachability_mark nowR addr rttl r else r)
                else if err = None \<and> p_Msg (fst ans) \<noteq> None then reachability_observeSuccess addr r
                else r)
      in w3\<lparr>w_ns := (w_ns w3)\<lparr>st_reachability := r'\<rparr>\<rparr>)"

text \<open>The answer is stored without its logger, and handed to the waiters.\<close>

definition query_store :: "ns_env \<Rightarrow> query \<Rightarrow> (ctx_point \<Rightarrow> bool) \<Rightarrow> answer \<Rightarrow> ns_world \<Rightarrow> ns_world" where
  "query_store env q live ans w =
     (let key = query_key env q; stored = (fst ans)\<lparr>p_Log := None\<rparr>
      in if p_Msg (fst ans) \<noteq> None then inflight_finish key (Some stored) (snd ans) (cache_answer key (Some stored) w)
         else inflight_finish key None (snd ans)
                (if snd ans = None \<or> live AtStore then cache_answer key None w else w))"

section \<open>A query from beginning to end\<close>

text \<open>
  \<open>query_run\<close> is what a query meets on its way: the readings of the clock, of its context and of the stopwatch, and
  the transport. \<open>QueryWithOptions\<close> alone returns \<open>None\<close> where it would wait for another query.
\<close>

record query_run =
  qr_nowR :: gotime
  qr_nowE :: gotime
  qr_markE :: gotime
  qr_markR :: gotime
  qr_live :: "ctx_point \<Rightarrow> bool"
  qr_elapsed :: duration
  qr_exchange :: "client \<Rightarrow> dns_msg \<Rightarrow> goerror + packet"

definition query_exchange :: "ns_env \<Rightarrow> query \<Rightarrow> query_run \<Rightarrow> ns_world \<Rightarrow> answer \<times> ns_world" where
  "query_exchange env q run w =
     (let (ans, w1) = queryNetwork env q (qr_live run) (qr_elapsed run) (qr_exchange run) w
      in (ans, observe_failure env q (qr_live run) (qr_markE run) (qr_markR run) ans w1))"

definition query_end :: "ns_env \<Rightarrow> query \<Rightarrow> nat \<Rightarrow> bool \<Rightarrow> ns_world \<Rightarrow> ns_world" where
  "query_end env q i slot w = inflight_abandon (query_key env q) i (if slot then cap_release w else w)"

definition concurrency_limit :: "ns_env \<Rightarrow> int" where
  "concurrency_limit env = resolveNameserverConcurrencyLimit (ne_profile env)"

definition query_lead :: "ns_env \<Rightarrow> query \<Rightarrow> query_run \<Rightarrow> nat \<Rightarrow> ns_world \<Rightarrow> (answer \<times> ns_world) option" where
  "query_lead env q run i w =
     (let slot = (0 < concurrency_limit env)
      in case (if slot then cap_acquire (concurrency_limit env) w else (None, w)) of
           (Some ch, w1) \<Rightarrow> None
         | (None, w1) \<Rightarrow>
             (let (ans, w2) = query_exchange env q run w1;
                  w3 = logSystem env ''CACHED_RETURN'' (query_store env q (qr_live run) ans w2)
              in Some (ans, query_end env q i slot w3)))"

definition QueryWithOptions :: "ns_env \<Rightarrow> query \<Rightarrow> query_run \<Rightarrow> ns_world \<Rightarrow> (answer \<times> ns_world) option" where
  "QueryWithOptions env q run w =
     (case query_begin env q w of
        (Returns a, w1) \<Rightarrow> Some (a, w1)
      | (Proceeds _, w1) \<Rightarrow>
          (case query_skip env (qr_nowR run) (qr_nowE run) q w1 of
             (Returns a, w2) \<Rightarrow> Some (a, w2)
           | (Proceeds _, w2) \<Rightarrow>
               (case waitOrRegister (query_key env q) w2 of
                  (Wait i, w3) \<Rightarrow> None
                | (Lead i, w3) \<Rightarrow> query_lead env q run i w3)))"

section \<open>What the pieces leave alone\<close>

text \<open>The part of the state that coalescing and the cap work on.\<close>

type_synonym core = "(string, nat) gomap \<times> (nat \<Rightarrow> inflightQuery) \<times> nat \<times> capState \<times> nat"

definition core :: "ns_world \<Rightarrow> core" where
  "core w = (qc_inflight (st_cache (w_ns w)), w_entries w, w_next w, st_cap (w_ns w), w_nextCh w)"

lemma core_updates [simp]:
  "core (w\<lparr>w_metrics := h\<rparr>) = core w" "core (w\<lparr>w_limits := l\<rparr>) = core w" "core (w\<lparr>w_log := g\<rparr>) = core w"
  "core (w\<lparr>w_sent := a\<rparr>) = core w" "core (w\<lparr>w_times := b\<rparr>) = core w" "core (w\<lparr>w_timeouts := c\<rparr>) = core w"
  "core (w\<lparr>w_refused := c\<rparr>) = core w"
  by (simp_all add: core_def)

lemma core_ns [simp]:
  "st_cache n = st_cache (w_ns w) \<Longrightarrow> st_cap n = st_cap (w_ns w) \<Longrightarrow> core (w\<lparr>w_ns := n\<rparr>) = core w"
  by (simp add: core_def)

lemma ns_logSystem [simp]: "w_ns (logSystem env t w) = w_ns w"
  by (simp add: logSystem_def)

lemma core_logSystem [simp]: "core (logSystem env t w) = core w"
  by (simp add: logSystem_def)

lemma qc_inflight_set [simp]: "qc_inflight (fst (queryCache_set k v c h)) = qc_inflight c"
  by (simp add: queryCache_set_def Let_def)

lemma core_cache_answer [simp]: "core (cache_answer k p w) = core w"
  using qc_inflight_set [of k p "st_cache (w_ns w)" "w_metrics w"] by (simp add: cache_answer_def core_def case_prod_beta)

lemma core_cached [simp]: "core (snd (query_cached env q key w)) = core w"
  by (simp add: query_cached_def Let_def case_prod_beta split: option.split)

lemma core_block [simp]: "core (snd (blockNonGlobal env key w)) = core w"
  by (simp add: blockNonGlobal_def)

lemma core_admit [simp]: "core (snd (query_admit env q key w)) = core w"
  by (simp add: query_admit_def Let_def case_prod_beta)

lemma core_begin [simp]: "core (snd (query_begin env q w)) = core w"
  by (simp add: query_begin_def Let_def split: option.split)

lemma core_should_skip [simp]: "core (snd (shouldSkipQuery env nowR nowE q key w)) = core w"
  by (simp add: shouldSkipQuery_def skip_errors_def Let_def case_prod_beta)

lemma core_skip [simp]: "core (snd (query_skip env nowR nowE q w)) = core w"
proof -
  obtain t w1 where s: "shouldSkipQuery env nowR nowE q (query_key env q) w = (t, w1)" by force
  then have "core w1 = core w" by (metis core_should_skip snd_conv)
  then show ?thesis by (simp add: query_skip_def s split: option.split)
qed

lemma core_raw [simp]: "core (snd (queryNetworkRaw env q x w)) = core w"
  by (simp add: queryNetworkRaw_def Let_def)

lemma core_network [simp]: "core (snd (queryNetwork env q live e x w)) = core w"
  by (simp add: queryNetwork_def Let_def case_prod_beta split: option.split)

lemma core_observe [simp]: "core (observe_failure env q live nowE nowR ans w) = core w"
  by (simp add: observe_failure_def Let_def case_prod_beta)

lemma core_exchange [simp]: "core (snd (query_exchange env q run w)) = core w"
  by (simp add: query_exchange_def Let_def case_prod_beta)

section \<open>Which queries reach the network\<close>

definition permitted :: "ns_env \<Rightarrow> bool" where
  "permitted env \<longleftrightarrow> (if addr_is4 (ne_addr env) then qp_IPv4 (ne_profile env) else qp_IPv6 (ne_profile env)) \<and>
     \<not> qp_NoNetwork (ne_profile env) \<and>
     (qp_AllowNonGlobalTargets (ne_profile env) \<or> IsAllowedTarget env \<or> IsQueryable (ne_addr env))"

text \<open>The audit view of a state: the queries sent and the addresses admitted.\<close>

definition audit :: "ns_world \<Rightarrow> (ip_addr \<times> string) list \<times> ip_addr list" where
  "audit w = (w_sent w, rl_addrs (w_limits w))"

lemma audit_updates [simp]:
  "audit (w\<lparr>w_metrics := h\<rparr>) = audit w" "audit (w\<lparr>w_log := g\<rparr>) = audit w" "audit (w\<lparr>w_ns := n\<rparr>) = audit w"
  "audit (w\<lparr>w_times := b\<rparr>) = audit w" "audit (w\<lparr>w_timeouts := c\<rparr>) = audit w" "audit (w\<lparr>w_refused := c\<rparr>) = audit w"
  "audit (w\<lparr>w_entries := e\<rparr>) = audit w" "audit (w\<lparr>w_next := i\<rparr>) = audit w" "audit (w\<lparr>w_nextCh := i\<rparr>) = audit w"
  by (simp_all add: audit_def)

lemma audit_logSystem [simp]: "audit (logSystem env t w) = audit w"
  by (simp add: logSystem_def)

lemma audit_cache_answer [simp]: "audit (cache_answer k p w) = audit w"
  by (simp add: cache_answer_def case_prod_beta)

lemma audit_cached [simp]: "audit (snd (query_cached env q key w)) = audit w"
  by (simp add: query_cached_def Let_def case_prod_beta split: option.split)

lemma audit_block [simp]: "audit (snd (blockNonGlobal env key w)) = audit w"
  by (simp add: blockNonGlobal_def)

lemma limitReached_addrs [simp]: "rl_addrs (snd (limitReached lg b d n m l)) = rl_addrs l"
  by (simp add: limitReached_def limits_first_def Let_def split: option.split)

lemma audit_skip [simp]: "audit (snd (query_skip env nowR nowE q w)) = audit w"
proof -
  obtain t w1 where s: "shouldSkipQuery env nowR nowE q (query_key env q) w = (t, w1)" by force
  have "audit (snd (shouldSkipQuery env nowR nowE q (query_key env q) w)) = audit w"
    by (simp add: shouldSkipQuery_def skip_errors_def Let_def case_prod_beta)
  then show ?thesis by (simp add: query_skip_def s split: option.split)
qed

lemma audit_inflight [simp]:
  "audit (with_inflight f w) = audit w" "audit (snd (waitOrRegister key w)) = audit w"
  "audit (inflight_finish key r e w) = audit w" "audit (inflight_abandon key i w) = audit w"
  "audit (snd (wait_done env i w)) = audit w" "audit (snd (cap_acquire n w)) = audit w" "audit (cap_release w) = audit w"
  "audit (query_store env q live ans w) = audit w" "audit (query_end env q i b w) = audit w"
proof -
  show 1: "audit (with_inflight f w) = audit w" for f w by (simp add: with_inflight_def)
  show "audit (snd (waitOrRegister key w)) = audit w" by (simp add: waitOrRegister_def 1 split: option.split)
  show 2: "audit (inflight_finish key r e w) = audit w" for key r e w by (simp add: inflight_finish_def 1 split: option.split)
  show 3: "audit (inflight_abandon key i w) = audit w" for key i w by (simp add: inflight_abandon_def 1)
  show "audit (snd (wait_done env i w)) = audit w" by (simp add: wait_done_def Let_def)
  show "audit (snd (cap_acquire n w)) = audit w" by (simp add: cap_acquire_def Let_def split: option.split)
  show 4: "audit (cap_release w) = audit w" for w by (simp add: cap_release_def Let_def)
  show "audit (query_store env q live ans w) = audit w" by (simp add: query_store_def Let_def 2)
  show "audit (query_end env q i b w) = audit w" by (simp add: query_end_def 3 4)
qed

lemma audit_observe [simp]: "audit (observe_failure env q live nowE nowR ans w) = audit w"
  by (simp add: observe_failure_def Let_def case_prod_beta)

lemma block_lets_through: "\<not> fst (blockNonGlobal env key w) \<longleftrightarrow>
    qp_AllowNonGlobalTargets (ne_profile env) \<or> IsAllowedTarget env \<or> IsQueryable (ne_addr env)"
  by (simp add: blockNonGlobal_def)

lemma admit_audit:
  "audit (snd (query_admit env q key w)) = audit w \<or>
   audit (snd (query_admit env q key w)) = (w_sent w, rl_addrs (snd (limits_admit (ne_addr env) (w_limits w))))"
proof -
  obtain b w1 where b: "(if qp_NoNetwork (ne_profile env) then (False, w) else blockNonGlobal env key w) = (b, w1)" by force
  have w1: "audit w1 = audit w" "w_limits w1 = w_limits w"
    using b audit_block [of env key w] by (auto simp: blockNonGlobal_def logSystem_def split: if_splits)
  then have "w_sent w1 = w_sent w" by (simp add: audit_def)
  then show ?thesis unfolding query_admit_def Let_def b using w1
    by (auto simp: case_prod_beta) (auto simp: audit_def limits_admit_def)
qed

definition audit_ok :: "ns_env \<Rightarrow> ns_world \<Rightarrow> bool" where
  "audit_ok env w \<longleftrightarrow> distinct (snd (audit w)) \<and> length (snd (audit w)) \<le> MaxRunAddresses \<and>
     (\<forall>a k. (a, k) \<in> set (fst (audit w)) \<longrightarrow> permitted env \<and> a = ne_addr env \<and> a \<in> set (snd (audit w)))"

definition audit_le :: "ns_world \<Rightarrow> ns_world \<Rightarrow> bool" where
  "audit_le w w' \<longleftrightarrow> fst (audit w') = fst (audit w) \<and> set (snd (audit w)) \<subseteq> set (snd (audit w')) \<and>
     (distinct (snd (audit w)) \<and> length (snd (audit w)) \<le> MaxRunAddresses \<longrightarrow>
      distinct (snd (audit w')) \<and> length (snd (audit w')) \<le> MaxRunAddresses)"

lemma audit_le_ok: "audit_le w w' \<Longrightarrow> audit_ok env w \<Longrightarrow> audit_ok env w'"
  unfolding audit_le_def audit_ok_def by (simp add: subset_iff)

lemma audit_le_eq: "audit w' = audit w \<Longrightarrow> audit_le w w'"
  by (simp add: audit_le_def)

lemma begin_audit: "audit_le w (snd (query_begin env q w))"
proof -
  have adm: "audit_le w (snd (query_admit env q key w))" for key w
    using admit_audit [of env q key w] admit_bounded [of "w_limits w" "ne_addr env"] admit_mono [of "w_limits w" "ne_addr env"]
    by (auto simp: audit_le_def) (auto simp: audit_def)
  have "audit_le w w'" if "audit_le (logSystem env t w) w'" for t w'
    using that by (simp add: audit_le_def)
  then show ?thesis using adm by (auto simp: query_begin_def Let_def audit_le_eq split: option.split)
qed

lemma begin_proceeds:
  assumes "query_begin env q w = (Proceeds u, w')"
  shows "permitted env" "ne_addr env \<in> set (snd (audit w'))" "gm_get (qc_data (st_cache (w_ns w))) (query_key env q) = None"
proof -
  let ?w1 = "logSystem env ''QUERY'' w"
  have fam: "if addr_is4 (ne_addr env) then qp_IPv4 (ne_profile env) else qp_IPv6 (ne_profile env)"
    using assms by (auto simp: query_begin_def split: if_splits)
  have a: "query_admit env q (query_key env q) ?w1 = (Proceeds u, w')"
    using assms by (auto simp: query_begin_def Let_def split: if_splits option.splits)
  obtain b w2 where b: "(if qp_NoNetwork (ne_profile env) then (False, ?w1) else blockNonGlobal env (query_key env q) ?w1) = (b, w2)" by force
  obtain ok l where l: "limits_admit (ne_addr env) (w_limits w2) = (ok, l)" by force
  have c: "\<not> b" "ok" "query_cached env q (query_key env q) (w2\<lparr>w_limits := l\<rparr>) = (Proceeds u, w')"
    using a unfolding query_admit_def Let_def b by (auto simp: l split: if_splits prod.splits)
  have cache: "st_cache (w_ns w2) = st_cache (w_ns w)"
    using b by (auto simp: blockNonGlobal_def logSystem_def split: if_splits)
  have c': "\<not> qp_NoNetwork (ne_profile env)" "fst (queryCache_get (query_key env q) (st_cache (w_ns w)) (w_metrics w2)) = None"
    "audit w' = audit (w2\<lparr>w_limits := l\<rparr>)"
    using c(3) audit_cached [of env q "query_key env q" "w2\<lparr>w_limits := l\<rparr>"] cache
    by (auto simp: query_cached_def Let_def case_prod_beta split: option.splits if_splits)
  show "permitted env" using fam c(1) c'(1) b block_lets_through [of env "query_key env q" ?w1] by (auto simp: permitted_def)
  show "ne_addr env \<in> set (snd (audit w'))" using c'(3) c(2) l admit_iff [of "ne_addr env" "w_limits w2"] by (simp add: audit_def)
  show "gm_get (qc_data (st_cache (w_ns w))) (query_key env q) = None"
    using c'(2) by (auto simp: queryCache_get_def split: option.splits)
qed

lemma raw_audit:
  "audit (snd (queryNetworkRaw env q x w)) = audit w \<or>
   audit (snd (queryNetworkRaw env q x w)) = (w_sent w @ [(ne_addr env, query_key env q)], rl_addrs (w_limits w))"
proof -
  have s: "audit (v\<lparr>w_sent := a\<rparr>) = (a, snd (audit v))" for v a by (simp add: audit_def)
  show ?thesis by (auto simp: queryNetworkRaw_def Let_def s) (auto simp: logSystem_def audit_def)
qed

lemma exchange_audit:
  "audit (snd (query_exchange env q run w)) = audit w \<or>
   audit (snd (query_exchange env q run w)) = (w_sent w @ [(ne_addr env, query_key env q)], rl_addrs (w_limits w))"
proof -
  have "audit (snd (queryNetwork env q live e x w)) = audit (snd (queryNetworkRaw env q x w))" for live e x
    by (simp add: queryNetwork_def Let_def case_prod_beta split: option.split)
  then show ?thesis using raw_audit [of env q "qr_exchange run" w]
    by (simp add: query_exchange_def Let_def case_prod_beta)
qed

lemma exchange_audit_ok:
  "audit_ok env w \<Longrightarrow> permitted env \<Longrightarrow> ne_addr env \<in> set (snd (audit w)) \<Longrightarrow> audit_ok env (snd (query_exchange env q run w))"
  using exchange_audit [of env q run w] by (auto simp: audit_ok_def) (auto simp: audit_def)

section \<open>A query alone completes, and its answer is kept\<close>

definition answer_of :: "ns_world \<Rightarrow> string \<Rightarrow> packet option option" where
  "answer_of w key = gm_get (qc_data (st_cache (w_ns w))) key"

lemma answer_of_updates [simp]:
  "answer_of (w\<lparr>w_entries := e\<rparr>) k = answer_of w k" "answer_of (w\<lparr>w_entries := e, w_next := i\<rparr>) k = answer_of w k"
  "answer_of (logSystem env t w) k = answer_of w k" "answer_of (with_inflight f w) k = answer_of w k"
  "answer_of (inflight_finish key r err w) k = answer_of w k" "answer_of (inflight_abandon key j w) k = answer_of w k"
  "answer_of (cap_release w) k = answer_of w k" "answer_of (query_end env q j b w) k = answer_of w k"
proof -
  show 1: "answer_of (w\<lparr>w_entries := e\<rparr>) k = answer_of w k" "answer_of (w\<lparr>w_entries := e, w_next := i\<rparr>) k = answer_of w k" for w e i
    by (simp_all add: answer_of_def)
  show "answer_of (logSystem env t w) k = answer_of w k" by (simp add: answer_of_def)
  show 2: "answer_of (with_inflight f w) k = answer_of w k" for f w by (simp add: answer_of_def with_inflight_def)
  show "answer_of (inflight_finish key r err w) k = answer_of w k" by (simp add: inflight_finish_def 1 2 split: option.split)
  show 3: "answer_of (inflight_abandon key j w) k = answer_of w k" for w by (simp add: inflight_abandon_def 1 2)
  show 4: "answer_of (cap_release w) k = answer_of w k" for w by (simp add: cap_release_def Let_def answer_of_def)
  show "answer_of (query_end env q j b w) k = answer_of w k"
    unfolding query_end_def by (simp add: inflight_abandon_def 1 2 4)
qed

lemma fifo_put_get:
  assumes "length q \<le> QueryCacheMaxEntries" "distinct (map fst q)"
  shows "map_of (fifo_put k v q) k = Some v"
proof (cases "k \<in> fst ` set q")
  case True
  have "length (AList.update k v q) = length q"
  proof -
    have "length (gm_set k v q) = length q" using gm_size_set [of k v q] True by (simp add: gm_has_iff)
    then show ?thesis by (simp add: gm_set_def)
  qed
  then show ?thesis using assms(1) by (simp add: fifo_put_def update_conv')
next
  case False
  then have u: "AList.update k v q = q @ [(k, v)]" by (induction q) auto
  have none: "map_of (drop n q) k = None" for n using False in_set_dropD [of _ n q] by (force simp: map_of_eq_None_iff)
  show ?thesis using assms(1) none by (simp add: fifo_put_def u QueryCacheMaxEntries_def map_add_def)
qed

lemma cache_answer_get:
  assumes "cache_ok (st_cache (w_ns w))"
  shows "answer_of (cache_answer k p w) k = Some p"
proof -
  let ?c = "st_cache (w_ns w)"
  have "answer_of (cache_answer k p w) k = fst (queryCache_get k (fst (queryCache_set k p ?c (w_metrics w))) (w_metrics w))"
    by (auto simp: answer_of_def cache_answer_def case_prod_beta queryCache_get_def split: option.split)
  also have "\<dots> = map_of (fifo_put k p (cache_contents ?c)) k"
    using cache_set_refines(1,2) [OF assms] cache_get_refines by metis
  also have "\<dots> = Some p"
    using assms cache_ok_lengths [OF assms] by (intro fifo_put_get) (auto simp: cache_contents_def in_order_def cache_ok_def comp_def)
  finally show ?thesis .
qed

lemma cache_frame:
  "st_cache (w_ns (snd (query_exchange env q run w))) = st_cache (w_ns w)"
  "st_cap (w_ns (snd (query_exchange env q run w))) = st_cap (w_ns w)"
proof -
  have raw: "w_ns (snd (queryNetworkRaw env q x w)) = w_ns w" for x
    by (simp add: queryNetworkRaw_def Let_def)
  have net: "st_cache (w_ns (snd (queryNetwork env q live e x w))) = st_cache (w_ns w)"
    "st_cap (w_ns (snd (queryNetwork env q live e x w))) = st_cap (w_ns w)" for live e x
    using raw [of x] by (simp_all add: queryNetwork_def Let_def case_prod_beta split: option.split)
  have obs: "st_cache (w_ns (observe_failure env q live nowE nowR ans v)) = st_cache (w_ns v)"
    "st_cap (w_ns (observe_failure env q live nowE nowR ans v)) = st_cap (w_ns v)" for live nowE nowR ans v
    by (simp_all add: observe_failure_def Let_def case_prod_beta)
  show "st_cache (w_ns (snd (query_exchange env q run w))) = st_cache (w_ns w)"
    "st_cap (w_ns (snd (query_exchange env q run w))) = st_cap (w_ns w)"
    by (simp_all add: query_exchange_def Let_def case_prod_beta net obs)
qed

text \<open>What a leader does after its exchange, seen from the cache, the inflight map and the cap.\<close>

lemma store_answer:
  assumes "cache_ok (st_cache (w_ns w))" "p_Msg (fst ans) \<noteq> None \<or> snd ans = None \<or> live AtStore"
  shows "answer_of (query_store env q live ans w) (query_key env q) =
    Some (if p_Msg (fst ans) \<noteq> None then Some ((fst ans)\<lparr>p_Log := None\<rparr>) else None)"
  using assms by (auto simp: query_store_def Let_def cache_answer_get)

lemma inflight_of_core: "inflight_of w k = gm_get (fst (core w)) k"
  by (simp add: inflight_of_def core_def)

lemma store_frees: "inflight_of (query_store env q live ans w) (query_key env q) = None"
proof -
  have "inflight_of (inflight_finish k r e v) k = None" for k r e v
    by (simp add: inflight_finish_def inflight_of_def with_inflight_def gomap_simps split: option.split)
  then show ?thesis by (simp add: query_store_def Let_def)
qed

lemma cap_frame_store: "st_cap (w_ns (query_store env q live ans w)) = st_cap (w_ns w)"
proof -
  have "st_cap (w_ns (inflight_finish k r e v)) = st_cap (w_ns v)" for k r e v
    by (simp add: inflight_finish_def with_inflight_def split: option.split)
  moreover have "st_cap (w_ns (cache_answer k p v)) = st_cap (w_ns v)" for k p v
    by (simp add: cache_answer_def case_prod_beta)
  ultimately show ?thesis by (simp add: query_store_def Let_def)
qed

text \<open>
  C24. A query that nobody else is asking and that finds a free slot returns, and it gives back everything it took: its key is not under
  way any more, and the cap of the address is as it was.
\<close>

theorem query_completes:
  assumes "inflight_of w (query_key env q) = None"
    and "concurrency_limit env \<le> 0 \<or> cap_inflight (st_cap (w_ns w)) < concurrency_limit env"
    and "0 \<le> cap_inflight (st_cap (w_ns w))"
  shows "\<exists>a w'. QueryWithOptions env q run w = Some (a, w') \<and> inflight_of w' (query_key env q) = None \<and>
    cap_inflight (st_cap (w_ns w')) = cap_inflight (st_cap (w_ns w))"
proof -
  have cap: "core w1 = core w \<Longrightarrow> st_cap (w_ns w1) = st_cap (w_ns w)" for w1 by (simp add: core_def)
  obtain r1 w1 where b: "query_begin env q w = (r1, w1)" by force
  have c1: "core w1 = core w" using core_begin [of env q w] b by simp
  show ?thesis
  proof (cases r1)
    case (Returns a)
    then show ?thesis using b c1 assms(1) cap [OF c1] by (simp add: QueryWithOptions_def inflight_of_core)
  next
    case (Proceeds u)
    obtain r2 w2 where s: "query_skip env (qr_nowR run) (qr_nowE run) q w1 = (r2, w2)" by force
    have c2: "core w2 = core w" using core_skip [of env "qr_nowR run" "qr_nowE run" q w1] s c1 by simp
    show ?thesis
    proof (cases r2)
      case (Returns a)
      then show ?thesis using b s Proceeds c2 assms(1) cap [OF c2] by (simp add: QueryWithOptions_def inflight_of_core)
    next
      case p2: (Proceeds u')
      define w3 where "w3 = snd (waitOrRegister (query_key env q) w2)"
      have reg: "waitOrRegister (query_key env q) w2 = (Lead (w_next w2), w3)"
        using assms(1) c2 by (simp add: w3_def waitOrRegister_def inflight_of_core)
      have cap3: "st_cap (w_ns w3) = st_cap (w_ns w)"
        using assms(1) c2 cap [OF c2] by (simp add: w3_def waitOrRegister_def inflight_of_core with_inflight_def)
      define slot where "slot = (0 < concurrency_limit env)"
      define w4 where "w4 = (if slot then snd (cap_acquire (concurrency_limit env) w3) else w3)"
      have acq: "(if slot then cap_acquire (concurrency_limit env) w3 else (None, w3)) = (None, w4)"
        and cap4: "cap_inflight (st_cap (w_ns w4)) = cap_inflight (st_cap (w_ns w)) + (if slot then 1 else 0)"
        using assms(2) cap3 by (auto simp: w4_def slot_def cap_acquire_def Let_def)
      obtain ans w5 where x: "query_exchange env q run w4 = (ans, w5)" by (cases "query_exchange env q run w4") blast
      define w6 where "w6 = logSystem env ''CACHED_RETURN'' (query_store env q (qr_live run) ans w5)"
      have w6: "inflight_of w6 (query_key env q) = None" "cap_inflight (st_cap (w_ns w6)) = cap_inflight (st_cap (w_ns w)) + (if slot then 1 else 0)"
        using cache_frame(2) [of env q run w4] x cap4 by (simp_all add: w6_def cap_frame_store inflight_of_def store_frees [unfolded inflight_of_def])
      have "QueryWithOptions env q run w = Some (ans, query_end env q (w_next w2) slot w6)"
        using b s Proceeds p2 reg x acq
        by (simp add: QueryWithOptions_def query_lead_def Let_def w6_def slot_def [symmetric] del: if_split cong: if_cong)
      moreover have "inflight_of (query_end env q (w_next w2) slot w6) (query_key env q) = None \<and>
          cap_inflight (st_cap (w_ns (query_end env q (w_next w2) slot w6))) = cap_inflight (st_cap (w_ns w))"
        using w6 assms(3) by (auto simp: query_end_def inflight_abandon_def cap_release_def Let_def inflight_of_def)
      ultimately show ?thesis by blast
    qed
  qed
qed

text \<open>The fake answers of a nameserver stay through a query, and so does the cache up to the answer it stores.\<close>

definition fakes :: "ns_world \<Rightarrow> (string, rr list) gomap \<times> (string, delegation) gomap" where
  "fakes w = (st_fakeDS (w_ns w), st_fakeDelegations (w_ns w))"

definition answers :: "ns_world \<Rightarrow> (string, packet option) gomap \<times> string list" where
  "answers w = (qc_data (st_cache (w_ns w)), qc_order (st_cache (w_ns w)))"

lemma view_logSystem [simp]: "fakes (logSystem env t w) = fakes w" "answers (logSystem env t w) = answers w"
  by (simp_all add: fakes_def answers_def)

lemma fakes_simps [simp]:
  "fakes (w\<lparr>w_metrics := h\<rparr>) = fakes w" "fakes (cache_answer k p w) = fakes w" "fakes (snd (waitOrRegister k w)) = fakes w"
  "fakes (snd (cap_acquire n w)) = fakes w" "fakes (inflight_finish k r err w) = fakes w" "fakes (query_end env q i b w) = fakes w"
  by (simp_all add: fakes_def cache_answer_def case_prod_beta waitOrRegister_def with_inflight_def cap_acquire_def Let_def
      inflight_finish_def inflight_abandon_def query_end_def cap_release_def split: option.split)

lemma fakes_exchange [simp]: "fakes (snd (query_exchange env q run w)) = fakes w"
proof -
  have "w_ns (snd (queryNetworkRaw env q x w)) = w_ns w" for x by (simp add: queryNetworkRaw_def Let_def)
  then have "fakes (snd (queryNetwork env q live e x w)) = fakes w" for live e x
    by (simp add: queryNetwork_def Let_def case_prod_beta fakes_def split: option.split)
  moreover have "fakes (observe_failure env q live nowE nowR ans v) = fakes v" for live nowE nowR ans v
    by (simp add: observe_failure_def Let_def case_prod_beta fakes_def)
  ultimately show ?thesis by (simp add: query_exchange_def Let_def case_prod_beta)
qed

lemma fakes_store [simp]: "fakes (query_store env q live ans w) = fakes w"
  by (simp add: query_store_def Let_def)

lemma views_begin: "fakes (snd (query_begin env q w)) = fakes w" "answers (snd (query_begin env q w)) = answers w"
proof -
  have c: "fakes (snd (query_cached env q k v)) = fakes v \<and> answers (snd (query_cached env q k v)) = answers v" for k v
    by (simp add: query_cached_def Let_def case_prod_beta split: option.split) (simp add: fakes_def answers_def)
  have b: "fakes (snd (blockNonGlobal env k v)) = fakes v \<and> answers (snd (blockNonGlobal env k v)) = answers v" for k v
    by (simp add: blockNonGlobal_def) (simp add: fakes_def answers_def)
  have u: "fakes (v\<lparr>w_limits := l\<rparr>) = fakes v" "answers (v\<lparr>w_limits := l\<rparr>) = answers v"
    "fakes (v\<lparr>w_log := g\<rparr>) = fakes v" "answers (v\<lparr>w_log := g\<rparr>) = answers v" for v l g
    by (simp_all add: fakes_def answers_def)
  have a: "fakes (snd (query_admit env q k v)) = fakes v \<and> answers (snd (query_admit env q k v)) = answers v" for k v
    using b by (simp add: query_admit_def Let_def case_prod_beta c u)
  show "fakes (snd (query_begin env q w)) = fakes w" "answers (snd (query_begin env q w)) = answers w"
    by (simp_all add: query_begin_def Let_def a split: option.split)
qed

lemma views_skip:
  assumes "query_skip env nowR nowE q w = (Proceeds u, w')"
  shows "fakes w' = fakes w" "answers w' = answers w"
proof -
  have "fakes (snd (shouldSkipQuery env nowR nowE q k w)) = fakes w \<and> answers (snd (shouldSkipQuery env nowR nowE q k w)) = answers w" for k
    by (simp add: shouldSkipQuery_def skip_errors_def Let_def case_prod_beta fakes_def answers_def)
  moreover have "shouldSkipQuery env nowR nowE q (query_key env q) w = (None, w')"
    using assms by (auto simp: query_skip_def split: prod.splits option.splits)
  ultimately show "fakes w' = fakes w" "answers w' = answers w" by (metis snd_conv)+
qed

lemma cache_ok_answers: "cache_ok (st_cache (w_ns w)) \<longleftrightarrow>
    (let (data, order) = answers w in gm_wf data \<and> distinct order \<and> set order = fst ` set data \<and> length data \<le> QueryCacheMaxEntries)"
  by (simp add: cache_ok_def answers_def)

lemma answers_simps [simp]:
  "answers (snd (waitOrRegister k w)) = answers w" "answers (snd (cap_acquire n w)) = answers w"
  "answers (snd (query_exchange env q run w)) = answers w"
  using cache_frame(1) [of env q run w]
  by (simp_all add: answers_def waitOrRegister_def with_inflight_def cap_acquire_def Let_def split: option.split)

lemma begin_hit:
  assumes perm: "permitted env" and adm: "ne_addr env \<in> set (rl_addrs (w_limits w))"
    and hit: "answer_of w (query_key env q) = Some x"
    and real: "fakeDSResponse env (q_name q) (query_type q) (query_class q) (q_opts q) (w_ns w) = None"
      "fakeDelegationResponse env (q_name q) (query_type q) (query_class q) (q_opts q) (w_ns w) = None"
  shows "\<exists>w'. query_begin env q w = (Returns (case x of None \<Rightarrow> noPacket | Some p \<Rightarrow> p\<lparr>p_Log := ne_log env\<rparr>, None), w') \<and>
    w_sent w' = w_sent w"
proof -
  let ?w1 = "logSystem env ''QUERY'' w"
  have fam: "\<not> (addr_is4 (ne_addr env) \<and> \<not> qp_IPv4 (ne_profile env))" "\<not> (\<not> addr_is4 (ne_addr env) \<and> \<not> qp_IPv6 (ne_profile env))"
    using perm by (auto simp: permitted_def split: if_splits)
  have l: "limits_admit (ne_addr env) (w_limits ?w1) = (True, w_limits w)"
    using adm by (simp add: limits_admit_def logSystem_def)
  have blk: "blockNonGlobal env (query_key env q) ?w1 = (False, ?w1)"
    using perm by (auto simp: blockNonGlobal_def permitted_def)
  have "query_begin env q w = query_cached env q (query_key env q) (?w1\<lparr>w_limits := w_limits w\<rparr>)"
    unfolding query_begin_def Let_def if_not_P [OF fam(1)] if_not_P [OF fam(2)] real option.case query_admit_def
    using l blk perm by (simp add: permitted_def)
  moreover have "answer_of (?w1\<lparr>w_limits := w_limits w\<rparr>) (query_key env q) = Some x"
    using hit by (simp add: answer_of_def)
  ultimately show ?thesis
    by (auto simp: query_cached_def Let_def queryCache_get_def answer_of_def logSystem_def split: option.splits)
qed

text \<open>
  C23. A query whose answer was stored is not sent again. When a query went to the network and got an answer, no response, or
  an error that its own context did not cause, the same query asked again at once is answered from the
  cache, with the same packet under the asker's logger or with none, and nothing is sent.
\<close>

theorem answered_query_not_resent:
  assumes ok: "cache_ok (st_cache (w_ns w))"
    and first: "QueryWithOptions env q run w = Some (ans, w1)" and sent: "w_sent w1 \<noteq> w_sent w"
    and kept: "p_Msg (fst ans) \<noteq> None \<or> snd ans = None \<or> qr_live run AtStore"
  shows "\<exists>w2. QueryWithOptions env q run' w1 =
      Some ((if p_Msg (fst ans) \<noteq> None then (fst ans)\<lparr>p_Log := ne_log env\<rparr> else noPacket, None), w2) \<and> w_sent w2 = w_sent w1"
proof -
  have sent_audit: "audit v' = audit v \<Longrightarrow> w_sent v' = w_sent v" for v v' by (simp add: audit_def)
  obtain r1 v1 where b: "query_begin env q w = (r1, v1)" by force
  have s1: "w_sent v1 = w_sent w" using begin_audit [of w env q] b by (simp add: audit_le_def audit_def)
  then obtain u1 where r1: "r1 = Proceeds u1" using first sent b by (cases r1) (auto simp: QueryWithOptions_def)
  obtain r2 v2 where s: "query_skip env (qr_nowR run) (qr_nowE run) q v1 = (r2, v2)" by force
  have a2: "audit v2 = audit v1" using audit_skip [of env "qr_nowR run" "qr_nowE run" q v1] s by simp
  then obtain u2 where r2: "r2 = Proceeds u2" using first sent b r1 s sent_audit [OF a2] s1 by (cases r2) (auto simp: QueryWithOptions_def)
  obtain i v3 where reg: "waitOrRegister (query_key env q) v2 = (Lead i, v3)"
    using first b r1 s r2 by (cases "waitOrRegister (query_key env q) v2"; cases "fst (waitOrRegister (query_key env q) v2)") (auto simp: QueryWithOptions_def)
  define slot where "slot = (0 < concurrency_limit env)"
  have lead: "query_lead env q run i v3 = Some (ans, w1)" using first b r1 s r2 reg by (simp add: QueryWithOptions_def)
  obtain v4 where acq: "(if slot then cap_acquire (concurrency_limit env) v3 else (None, v3)) = (None, v4)"
    using lead unfolding query_lead_def slot_def [symmetric] Let_def
    by (cases "if slot then cap_acquire (concurrency_limit env) v3 else (None, v3)"; cases "fst (if slot then cap_acquire (concurrency_limit env) v3 else (None, v3))") auto
  obtain v5 where x: "query_exchange env q run v4 = (ans, v5)"
    and w1: "w1 = query_end env q i slot (logSystem env ''CACHED_RETURN'' (query_store env q (qr_live run) ans v5))"
    using lead acq unfolding query_lead_def slot_def [symmetric] Let_def
    by (cases "query_exchange env q run v4") auto
  have "v4 = (if slot then snd (cap_acquire (concurrency_limit env) v3) else v3)" using acq by (auto split: if_splits)
  then have v4: "audit v4 = audit v3" "fakes v4 = fakes v3" "answers v4 = answers v3" by simp_all
  have "v3 = snd (waitOrRegister (query_key env q) v2)" using reg by simp
  then have v3: "audit v3 = audit v2" "fakes v3 = fakes v2" "answers v3 = answers v2" by simp_all
  note v2 = views_skip [OF s [unfolded r2]]
  have v1: "fakes v1 = fakes w" "answers v1 = answers w" using views_begin [of env q w] b by simp_all
  have "cache_ok (st_cache (w_ns v5))"
    using ok answers_simps(3) [of env q run v4] x v4(3) v3(3) v2(2) v1(2) by (simp add: cache_ok_answers)
  from store_answer [where ans = ans and live = "qr_live run", OF this kept, of env q]
  have hit: "answer_of w1 (query_key env q) = Some (if p_Msg (fst ans) \<noteq> None then Some ((fst ans)\<lparr>p_Log := None\<rparr>) else None)"
    by (simp add: w1)
  have fk: "fakes w1 = fakes w" using fakes_exchange [of env q run v4] x v4(2) v3(2) v2(1) v1(1) by (simp add: w1)
  note proceeds = begin_proceeds [OF b [unfolded r1]]
  have "snd (audit w1) = snd (audit v5)" by (simp add: w1)
  moreover have "snd (audit v5) = snd (audit v4)" using exchange_audit [of env q run v4] x by (auto simp: audit_def)
  ultimately have "ne_addr env \<in> set (rl_addrs (w_limits w1))"
    using proceeds(2) a2 v3(1) v4(1) by (simp add: audit_def)
  moreover have "fakeDSResponse env (q_name q) (query_type q) (query_class q) (q_opts q) (w_ns w1) = None"
    "fakeDelegationResponse env (q_name q) (query_type q) (query_class q) (q_opts q) (w_ns w1) = None"
    using b r1 fk by (auto simp: query_begin_def Let_def fakeDSResponse_def fakeDelegationResponse_def fakes_def split: if_splits option.splits)
  ultimately obtain w2 where "query_begin env q w1 = (Returns (case if p_Msg (fst ans) \<noteq> None then Some ((fst ans)\<lparr>p_Log := None\<rparr>) else None of
      None \<Rightarrow> noPacket | Some p \<Rightarrow> p\<lparr>p_Log := ne_log env\<rparr>, None), w2)" "w_sent w2 = w_sent w1"
    using begin_hit [OF proceeds(1) _ hit] by blast
  then show ?thesis by (auto simp: QueryWithOptions_def)
qed

text \<open>When the guards let a query through, nobody asks the same and a slot is free, it is sent, and its answer is that of the exchange.\<close>

lemma audit_fst: "fst (audit w) = w_sent w"
  by (simp add: audit_def)

lemma exchange_same_answer: "fst (query_exchange env q run w) = fst (query_exchange env q run w')"
  by (simp add: query_exchange_def queryNetwork_def queryNetworkRaw_def Let_def case_prod_beta)

lemma exchange_sends:
  "ne_known_type env (query_type q) \<Longrightarrow> ne_known_class env (query_class q) \<Longrightarrow>
   w_sent (snd (query_exchange env q run w)) = w_sent w @ [(ne_addr env, query_key env q)]"
proof -
  assume known: "ne_known_type env (query_type q)" "ne_known_class env (query_class q)"
  have "audit (snd (query_exchange env q run w)) = audit (snd (queryNetworkRaw env q (qr_exchange run) w))"
    by (simp add: query_exchange_def queryNetwork_def Let_def case_prod_beta split: option.split)
  then have "w_sent (snd (query_exchange env q run w)) = w_sent (snd (queryNetworkRaw env q (qr_exchange run) w))"
    by (simp add: audit_def)
  then show ?thesis using known by (simp add: queryNetworkRaw_def Let_def logSystem_def)
qed

lemma query_reaches_network:
  assumes "fst (query_begin env q w) = Proceeds ()"
    and "fst (query_skip env (qr_nowR run) (qr_nowE run) q (snd (query_begin env q w))) = Proceeds ()"
    and "inflight_of w (query_key env q) = None"
    and "\<not> concurrency_limit env \<le> cap_inflight (st_cap (w_ns w))"
    and "ne_known_type env (query_type q)" "ne_known_class env (query_class q)"
  shows "\<exists>w'. QueryWithOptions env q run w = Some (fst (query_exchange env q run w), w') \<and>
    w_sent w' = w_sent w @ [(ne_addr env, query_key env q)]"
proof -
  define w1 where "w1 = snd (query_begin env q w)"
  define w2 where "w2 = snd (query_skip env (qr_nowR run) (qr_nowE run) q w1)"
  have c2: "core w2 = core w" by (simp add: w2_def w1_def)
  define w3 where "w3 = snd (waitOrRegister (query_key env q) w2)"
  have reg: "waitOrRegister (query_key env q) w2 = (Lead (w_next w2), w3)"
    using assms(3) c2 by (simp add: w3_def waitOrRegister_def inflight_of_core)
  have cap3: "st_cap (w_ns w3) = st_cap (w_ns w)"
    using assms(3) c2 by (simp add: w3_def waitOrRegister_def inflight_of_core with_inflight_def core_def)
  define slot where "slot = (0 < concurrency_limit env)"
  define w4 where "w4 = (if slot then snd (cap_acquire (concurrency_limit env) w3) else w3)"
  have acq: "(if slot then cap_acquire (concurrency_limit env) w3 else (None, w3)) = (None, w4)"
    using assms(4) cap3 by (auto simp: w4_def slot_def cap_acquire_def Let_def)
  have s4: "w_sent w4 = w_sent w" using begin_audit [of w env q]
    by (simp add: w4_def w3_def w2_def w1_def audit_le_def flip: audit_fst)
  let ?x = "query_exchange env q run w4"
  have "QueryWithOptions env q run w = Some (fst ?x, query_end env q (w_next w2) slot
      (logSystem env ''CACHED_RETURN'' (query_store env q (qr_live run) (fst ?x) (snd ?x))))"
    using assms(1,2) reg acq unfolding w1_def [symmetric]
    by (simp add: QueryWithOptions_def query_lead_def Let_def slot_def [symmetric] case_prod_beta w1_def [symmetric] w2_def [symmetric] split del: if_split cong: if_cong)
  moreover have "w_sent (query_end env q (w_next w2) slot (logSystem env ''CACHED_RETURN'' (query_store env q (qr_live run) (fst ?x) (snd ?x)))) =
      w_sent w @ [(ne_addr env, query_key env q)]"
    using exchange_sends [OF assms(5,6), of run w4] s4 by (simp flip: audit_fst)
  ultimately show ?thesis using exchange_same_answer [of env q run w w4] by simp
qed

section \<open>A concrete query\<close>

definition sample_env :: ns_env where
  "sample_env = \<lparr>ne_profile = sample_query_profile, ne_client = zero_client, ne_name = NewName ''ns1.example'', ne_addr = V4 1,
     ne_allowed = [V4 1], ne_log = Some 0, ne_show_addr = sample_addr_String, ne_parse_addr = (\<lambda>_. None), ne_show_data = concat,
     ne_wireForm = (\<lambda>m. m), ne_known_type = (\<lambda>_. True), ne_known_class = (\<lambda>_. True)\<rparr>"

definition sample_ns_state :: ns_state where
  "sample_ns_state = \<lparr>st_cache = new_query_cache (Some 0), st_errorCache = \<lparr>ec_data = [], ec_met = Some 1, ec_observers = []\<rparr>,
     st_reachability = newReachabilityCache, st_cap = \<lparr>cap_inflight = 0, cap_waitCh = None\<rparr>, st_fakeDelegations = [],
     st_fakeDS = [], st_blacklisted = (\<lambda>_. False), st_fastFail = new_fastFail, st_latency = \<lparr>lt_total = 0, lt_blocked = False\<rparr>,
     st_blockLogged = []\<rparr>"

definition sample_world :: ns_world where
  "sample_world = \<lparr>w_ns = sample_ns_state, w_limits = newRunLimits, w_metrics = (\<lambda>_. metrics_zero), w_entries = (\<lambda>_. new_entry),
     w_next = 0, w_nextCh = 0, w_times = [], w_timeouts = [], w_refused = [], w_log = [], w_sent = []\<rparr>"

definition sample_q :: query where
  "sample_q = \<lparr>q_name = ''example'', q_type = ''SOA'', q_opts = None\<rparr>"

definition sample_run :: query_run where
  "sample_run = \<lparr>qr_nowR = 1, qr_nowE = 2, qr_markE = 3, qr_markR = 4, qr_live = (\<lambda>_. True), qr_elapsed = second,
     qr_exchange = (\<lambda>c m. fst (Exchange sample_wire sample_query_profile None c ''1'' m))\<rparr>"

theorem query_completes_witness:
  "\<exists>a w'. QueryWithOptions sample_env sample_q sample_run sample_world = Some (a, w') \<and>
     inflight_of w' (query_key sample_env sample_q) = None \<and>
     cap_inflight (st_cap (w_ns w')) = cap_inflight (st_cap (w_ns sample_world))"
proof (rule query_completes)
  show "inflight_of sample_world (query_key sample_env sample_q) = None" by code_simp
  show "concurrency_limit sample_env \<le> 0 \<or> cap_inflight (st_cap (w_ns sample_world)) < concurrency_limit sample_env" by code_simp
  show "0 \<le> cap_inflight (st_cap (w_ns sample_world))" by code_simp
qed

definition sample_ans :: answer where
  "sample_ans = fst (the (QueryWithOptions sample_env sample_q sample_run sample_world))"

definition sample_after :: ns_world where
  "sample_after = snd (the (QueryWithOptions sample_env sample_q sample_run sample_world))"

lemma sample_proceeds:
  "fst (query_begin sample_env sample_q sample_world) = Proceeds ()"
  "fst (query_skip sample_env 1 2 sample_q (snd (query_begin sample_env sample_q sample_world))) = Proceeds ()"
  "p_Msg (fst (fst (query_exchange sample_env sample_q sample_run sample_world))) \<noteq> None"
  by (code_simp, code_simp, code_simp)

lemma sample_sent:
  "\<exists>a w. QueryWithOptions sample_env sample_q sample_run sample_world = Some (a, w) \<and> w_sent w \<noteq> [] \<and> p_Msg (fst a) \<noteq> None"
proof -
  have "inflight_of sample_world (query_key sample_env sample_q) = None" "\<not> 2 \<le> cap_inflight (st_cap (w_ns sample_world))"
    "concurrency_limit sample_env = 2" by (code_simp, code_simp, code_simp)
  moreover have "ne_known_type sample_env t" "ne_known_class sample_env t" for t by (simp_all add: sample_env_def)
  ultimately show ?thesis
    using query_reaches_network [of sample_env sample_q sample_world sample_run] sample_proceeds
    by (fastforce simp: sample_run_def)
qed

theorem answered_query_not_resent_witness:
  "\<exists>w2. QueryWithOptions sample_env sample_q sample_run sample_after =
     Some ((if p_Msg (fst sample_ans) \<noteq> None then (fst sample_ans)\<lparr>p_Log := ne_log sample_env\<rparr> else noPacket, None), w2) \<and>
     w_sent w2 = w_sent sample_after"
proof -
  obtain a w where aw: "QueryWithOptions sample_env sample_q sample_run sample_world = Some (a, w)" "w_sent w \<noteq> []"
    "p_Msg (fst a) \<noteq> None" using sample_sent by blast
  then have def: "sample_ans = a" "sample_after = w" by (simp_all add: sample_ans_def sample_after_def)
  show ?thesis
  proof (rule answered_query_not_resent)
    show "cache_ok (st_cache (w_ns sample_world))" by code_simp
    show "QueryWithOptions sample_env sample_q sample_run sample_world = Some (sample_ans, sample_after)" by (simp add: aw(1) def)
    show "w_sent sample_after \<noteq> w_sent sample_world" using aw(2) by (simp add: def sample_world_def)
    show "p_Msg (fst sample_ans) \<noteq> None \<or> snd sample_ans = None \<or> qr_live sample_run AtStore" using aw(3) by (simp add: def)
  qed
qed

end
