(* ===== verification/Coalesce.thy ===== *)
theory Coalesce
  imports Nameserver
begin

text \<open>
  Concurrent queries to one nameserver (\<open>engine/nameserver/nameserver.go\<close>, \<open>concurrency_cap.go\<close>, the inflight map of
  \<open>state.go\<close>). A query is a thread; the pieces of \<open>QueryWithOptions\<close> are its steps, and
  the steps of any number of threads interleave. A query waits in two places: for the entry of another query with its key, and
  for a slot of the address. Its context may end while it waits, and the exchange may panic, in which case the deferred
  calls run. The lemmas show that no two queries with one key are under way at once, that the cap holds, that
  nobody waits for something that will not come, and that every query ends.
\<close>

section \<open>Threads\<close>

text \<open>\<open>TRelease\<close> and \<open>TAbandon\<close> are the deferred calls; they carry no answer when the exchange panicked.\<close>

datatype qthread =
    TBegin query
  | TSkip query
  | TRegister query
  | TWait query nat
  | TAcquire query nat
  | TPark query nat nat
  | TSend query nat
  | TStore query nat answer "ctx_point \<Rightarrow> bool"
  | TRelease query nat "answer option"
  | TAbandon query nat "answer option"
  | TDone "answer option"

type_synonym qsystem = "qthread multiset \<times> ns_world"

definition next_or_done :: "qthread \<Rightarrow> unit outcome \<Rightarrow> qthread" where
  "next_or_done t r = (case r of Returns a \<Rightarrow> TDone (Some a) | Proceeds _ \<Rightarrow> t)"

text \<open>The steps that a thread takes by itself.\<close>

inductive query_step :: "ns_env \<Rightarrow> qsystem \<Rightarrow> qsystem \<Rightarrow> bool" for env where
  enter: "query_begin env q w = (r, w') \<Longrightarrow>
    query_step env (add_mset (TBegin q) T, w) (add_mset (next_or_done (TSkip q) r) T, w')"
| skip: "query_skip env nowR nowE q w = (r, w') \<Longrightarrow>
    query_step env (add_mset (TSkip q) T, w) (add_mset (next_or_done (TRegister q) r) T, w')"
| lead: "waitOrRegister (query_key env q) w = (Lead i, w') \<Longrightarrow>
    query_step env (add_mset (TRegister q) T, w) (add_mset (TAcquire q i) T, w')"
| wait: "waitOrRegister (query_key env q) w = (Wait i, w') \<Longrightarrow>
    query_step env (add_mset (TRegister q) T, w) (add_mset (TWait q i) T, w')"
| wake: "iq_done (w_entries w i) \<Longrightarrow> wait_done env i w = (r, w') \<Longrightarrow>
    query_step env (add_mset (TWait q i) T, w) (add_mset (next_or_done (TRegister q) r) T, w')"
| no_cap: "concurrency_limit env \<le> 0 \<Longrightarrow>
    query_step env (add_mset (TAcquire q i) T, w) (add_mset (TSend q i) T, w)"
| acquire: "0 < concurrency_limit env \<Longrightarrow> cap_acquire (concurrency_limit env) w = (None, w') \<Longrightarrow>
    query_step env (add_mset (TAcquire q i) T, w) (add_mset (TSend q i) T, w')"
| park: "0 < concurrency_limit env \<Longrightarrow> cap_acquire (concurrency_limit env) w = (Some ch, w') \<Longrightarrow>
    query_step env (add_mset (TAcquire q i) T, w) (add_mset (TPark q i ch) T, w')"
| unpark: "cap_waitCh (st_cap (w_ns w)) \<noteq> Some ch \<Longrightarrow>
    query_step env (add_mset (TPark q i ch) T, w) (add_mset (TAcquire q i) T, w)"
| send: "query_exchange env q run w = (a, w') \<Longrightarrow>
    query_step env (add_mset (TSend q i) T, w) (add_mset (TStore q i a (qr_live run)) T, w')"
| store: "query_step env (add_mset (TStore q i a live) T, w)
    (add_mset (TRelease q i (Some a)) T, logSystem env ''CACHED_RETURN'' (query_store env q live a w))"
| release: "query_step env (add_mset (TRelease q i r) T, w)
    (add_mset (TAbandon q i r) T, if 0 < concurrency_limit env then cap_release w else w)"
| abandon: "query_step env (add_mset (TAbandon q i r) T, w)
    (add_mset (TDone r) T, inflight_abandon (query_key env q) i w)"

text \<open>What happens to threads: new queries, contexts that end, and panics of an exchange.\<close>

inductive outside_step :: "ns_env \<Rightarrow> qsystem \<Rightarrow> qsystem \<Rightarrow> bool" for env where
  arrive: "outside_step env (T, w) (add_mset (TBegin q) T, w)"
| cancel_wait: "outside_step env (add_mset (TWait q i) T, w) (add_mset (TDone (Some (noPacket, Some e))) T, w)"
| cancel_park: "outside_step env (add_mset (TPark q i ch) T, w)
    (add_mset (TAbandon q i (Some (noPacket, Some e))) T, inflight_finish (query_key env q) None (Some e) w)"
| panic: "outside_step env (add_mset (TSend q i) T, w) (add_mset (TRelease q i None) T, w)"

definition any_step :: "ns_env \<Rightarrow> qsystem \<Rightarrow> qsystem \<Rightarrow> bool" where
  "any_step env s s' \<longleftrightarrow> query_step env s s' \<or> outside_step env s s'"

definition starting :: "ns_world \<Rightarrow> bool" where
  "starting w \<longleftrightarrow> qc_inflight (st_cache (w_ns w)) = [] \<and> w_next w = 0 \<and> st_cap (w_ns w) = \<lparr>cap_inflight = 0, cap_waitCh = None\<rparr> \<and>
     w_sent w = [] \<and> distinct (rl_addrs (w_limits w)) \<and> length (rl_addrs (w_limits w)) \<le> MaxRunAddresses"

definition reaches :: "ns_env \<Rightarrow> ns_world \<Rightarrow> qsystem \<Rightarrow> bool" where
  "reaches env w s \<longleftrightarrow> (any_step env)\<^sup>*\<^sup>* ({#}, w) s"

section \<open>The invariant\<close>

text \<open>
  A thread leads the entry it registered until it finishes or abandons it, and holds a slot from the exchange to its
  release. The entries led are exactly those of the inflight map.
\<close>

fun leading :: "ns_env \<Rightarrow> qthread \<Rightarrow> (string \<times> nat) multiset" where
  "leading env (TAcquire q i) = {#(query_key env q, i)#}"
| "leading env (TPark q i ch) = {#(query_key env q, i)#}"
| "leading env (TSend q i) = {#(query_key env q, i)#}"
| "leading env (TStore q i a live) = {#(query_key env q, i)#}"
| "leading env (TRelease q i None) = {#(query_key env q, i)#}"
| "leading env (TAbandon q i None) = {#(query_key env q, i)#}"
| "leading env t = {#}"

fun holding :: "qthread \<Rightarrow> nat" where
  "holding (TSend q i) = 1"
| "holding (TStore q i a live) = 1"
| "holding (TRelease q i r) = 1"
| "holding t = 0"

fun entry_of :: "qthread \<Rightarrow> nat option" where
  "entry_of (TWait q i) = Some i"
| "entry_of (TAbandon q i (Some a)) = Some i"
| "entry_of (TRelease q i (Some a)) = Some i"
| "entry_of t = None"

fun finished_entry :: "qthread \<Rightarrow> nat option" where
  "finished_entry (TAbandon q i (Some a)) = Some i"
| "finished_entry (TRelease q i (Some a)) = Some i"
| "finished_entry t = None"

fun parked_on :: "qthread \<Rightarrow> nat option" where
  "parked_on (TPark q i ch) = Some ch"
| "parked_on t = None"

fun admitted_thread :: "qthread \<Rightarrow> bool" where
  "admitted_thread (TBegin q) = False"
| "admitted_thread (TDone r) = False"
| "admitted_thread t = True"

definition leads :: "ns_env \<Rightarrow> qthread multiset \<Rightarrow> (string \<times> nat) multiset" where
  "leads env T = (\<Sum>t \<in># T. leading env t)"

definition slots :: "qthread multiset \<Rightarrow> nat" where
  "slots T = (\<Sum>t \<in># T. holding t)"

lemma leads_simps [simp]: "leads env {#} = {#}" "leads env (add_mset t T) = leading env t + leads env T"
  by (simp_all add: leads_def)

lemma slots_simps [simp]: "slots {#} = 0" "slots (add_mset t T) = holding t + slots T"
  by (simp_all add: slots_def)

text \<open>The invariant over the map, the entries, the next index, the cap and the next channel.\<close>

definition entries_ok :: "ns_env \<Rightarrow> qthread multiset \<Rightarrow> core \<Rightarrow> bool" where
  "entries_ok env T c \<longleftrightarrow> (case c of (m, es, n, _, _) \<Rightarrow>
     leads env T = mset m \<and> gm_wf m \<and> distinct (map snd m) \<and>
     (\<forall>k i. (k, i) \<in> set m \<longrightarrow> i < n \<and> \<not> iq_done (es i) \<and> \<not> iq_abandoned (es i)) \<and>
     (\<forall>i < n. i \<notin> snd ` set m \<longrightarrow> iq_done (es i)) \<and>
     (\<forall>t i. t \<in># T \<longrightarrow> entry_of t = Some i \<longrightarrow> i < n) \<and>
     (\<forall>t i. t \<in># T \<longrightarrow> finished_entry t = Some i \<longrightarrow> iq_done (es i)))"

definition cap_ok :: "ns_env \<Rightarrow> qthread multiset \<Rightarrow> core \<Rightarrow> bool" where
  "cap_ok env T c \<longleftrightarrow> (case c of (_, _, _, cap, ch) \<Rightarrow>
     (0 < concurrency_limit env \<longrightarrow> cap_inflight cap = int (slots T) \<and> cap_inflight cap \<le> concurrency_limit env \<and>
        (cap_waitCh cap \<noteq> None \<longrightarrow> cap_inflight cap = concurrency_limit env)) \<and>
     (\<forall>x. cap_waitCh cap = Some x \<longrightarrow> x < ch) \<and>
     (\<forall>t x. t \<in># T \<longrightarrow> parked_on t = Some x \<longrightarrow> x < ch \<and> 0 < concurrency_limit env))"

definition sending_ok :: "ns_env \<Rightarrow> qthread multiset \<Rightarrow> ns_world \<Rightarrow> bool" where
  "sending_ok env T w \<longleftrightarrow> audit_ok env w \<and>
     (\<forall>t \<in># T. admitted_thread t \<longrightarrow> permitted env \<and> ne_addr env \<in> set (snd (audit w)))"

section \<open>Steps on the core\<close>

lemma gm_set_new: "gm_get m k = None \<Longrightarrow> gm_set k v m = m @ [(k, v)]"
  unfolding gm_get_def gm_set_def by (induction m) (auto split: if_splits)

lemma mset_gm_del: "gm_wf m \<Longrightarrow> gm_get m k = Some v \<Longrightarrow> mset m = add_mset (k, v) (mset (gm_del k m))"
  unfolding gm_get_def gm_del_def gm_wf_def
proof (induction m)
  case (Cons p m)
  show ?case
  proof (cases "fst p = k")
    case True
    then have "k \<notin> fst ` set m" using Cons.prems(1) by auto
    then have "AList.delete k m = m" by (simp add: delete_idem)
    then show ?thesis using True Cons.prems(2) by (cases p) (simp add: AList.delete_eq)
  next
    case False
    then show ?thesis using Cons by (cases p) (auto simp: AList.delete_eq)
  qed
qed simp

fun core_finish :: "string \<Rightarrow> packet option \<Rightarrow> goerror option \<Rightarrow> core \<Rightarrow> core" where
  "core_finish k r e (m, es, n, cap, ch) =
     (case gm_get m k of
        None \<Rightarrow> (m, es, n, cap, ch)
      | Some i \<Rightarrow> (gm_del k m, es(i := (es i)\<lparr>iq_resp := r, iq_err := e, iq_done := True\<rparr>), n, cap, ch))"

fun core_abandon :: "string \<Rightarrow> nat \<Rightarrow> core \<Rightarrow> core" where
  "core_abandon k i (m, es, n, cap, ch) =
     (if gm_get m k \<noteq> Some i then (m, es, n, cap, ch)
      else (gm_del k m, es(i := (es i)\<lparr>iq_abandoned := True, iq_done := True\<rparr>), n, cap, ch))"

lemma core_inflight_finish: "core (inflight_finish k r e w) = core_finish k r e (core w)"
  by (simp add: inflight_finish_def inflight_of_def core_def with_inflight_def split: option.split)

lemma core_inflight_abandon: "core (inflight_abandon k i w) = core_abandon k i (core w)"
  by (simp add: inflight_abandon_def inflight_of_def core_def with_inflight_def)

lemma core_query_store: "\<exists>r. core (query_store env q live a w) = core_finish (query_key env q) r (snd a) (core w)"
  by (auto simp: query_store_def Let_def core_inflight_finish)

lemma core_register_lead:
  "waitOrRegister k w = (Lead i, w') \<Longrightarrow> core w = (m, es, n, cap, ch) \<Longrightarrow>
     gm_get m k = None \<and> i = n \<and> core w' = (m @ [(k, n)], es(n := new_entry), n + 1, cap, ch)"
  by (auto simp: waitOrRegister_def inflight_of_def core_def with_inflight_def gm_set_new split: option.splits)

lemma core_register_wait: "waitOrRegister k w = (Wait i, w') \<Longrightarrow> w' = w \<and> gm_get (fst (core w)) k = Some i"
  by (auto simp: waitOrRegister_def inflight_of_def core_def split: option.splits)

lemma core_wait_done: "wait_done env i w = (r, w') \<Longrightarrow> core w' = core w"
  by (auto simp: wait_done_def Let_def split: if_splits)

lemma core_acquire:
  "cap_acquire l w = (None, w') \<Longrightarrow> core w = (m, es, n, cap, ch) \<Longrightarrow>
     cap_inflight cap < l \<and> core w' = (m, es, n, cap\<lparr>cap_inflight := cap_inflight cap + 1\<rparr>, ch)"
  by (auto simp: cap_acquire_def Let_def core_def split: if_splits option.splits)

lemma core_park:
  "cap_acquire l w = (Some x, w') \<Longrightarrow> core w = (m, es, n, cap, ch) \<Longrightarrow>
     \<not> cap_inflight cap < l \<and>
     (cap_waitCh cap = Some x \<and> core w' = core w \<or>
      cap_waitCh cap = None \<and> x = ch \<and> core w' = (m, es, n, cap\<lparr>cap_waitCh := Some ch\<rparr>, ch + 1))"
  by (auto simp: cap_acquire_def Let_def core_def split: if_splits option.splits)

lemma core_release:
  "core w = (m, es, n, cap, ch) \<Longrightarrow> core (cap_release w) =
     (m, es, n, cap\<lparr>cap_inflight := (if 0 < cap_inflight cap then cap_inflight cap - 1 else cap_inflight cap), cap_waitCh := None\<rparr>, ch)"
  by (auto simp: cap_release_def Let_def core_def)

section \<open>The entries\<close>

lemma entries_frame:
  "entries_ok env (add_mset t T) c \<Longrightarrow> leading env t' = leading env t \<Longrightarrow> entry_of t' = None \<or> entry_of t' = entry_of t \<Longrightarrow>
   finished_entry t' = None \<or> finished_entry t' = finished_entry t \<Longrightarrow> entries_ok env (add_mset t' T) c"
  unfolding entries_ok_def by (cases c) (auto; metis)

lemma entries_cap: "entries_ok env T (m, es, n, cap, ch) \<longleftrightarrow> entries_ok env T (m, es, n, cap', ch')"
  by (simp add: entries_ok_def)

lemma finished_is_entry: "finished_entry t = Some i \<Longrightarrow> entry_of t = Some i"
  by (cases t rule: finished_entry.cases) auto

lemma entries_register:
  assumes "entries_ok env (add_mset t T) (m, es, n, cap, ch)" "leading env t = {#}" "gm_get m k = None"
    and "leading env t' = {#(k, n)#}" "entry_of t' = None" "finished_entry t' = None"
  shows "entries_ok env (add_mset t' T) (m @ [(k, n)], es(n := new_entry), Suc n, cap, ch)"
proof -
  have "\<forall>k' i. (k', i) \<in> set m \<longrightarrow> i < n" using assms(1) by (simp add: entries_ok_def)
  then have new: "n \<notin> snd ` set m" "k \<notin> fst ` set m"
    using assms(3) gm_has_iff [of m k] by (fastforce, simp add: gm_has_def)
  have wf: "gm_wf (m @ [(k, n)])" using assms(1) new(2) by (auto simp: entries_ok_def gm_wf_def)
  show ?thesis using assms new wf
    by (auto simp: entries_ok_def new_entry_def less_Suc_eq dest!: finished_is_entry)
qed

lemma entries_finish_gen:
  assumes inv: "entries_ok env (add_mset t T) (m, es, n, cap, ch)" and t: "leading env t = {#(k, i)#}"
    and e: "iq_done e" and t': "leading env t' = {#}" "entry_of t' = None \<or> entry_of t' = Some i"
      "finished_entry t' = None \<or> finished_entry t' = Some i"
  shows "gm_get m k = Some i" "entries_ok env (add_mset t' T) (gm_del k m, es(i := e), n, cap, ch)"
proof -
  have L: "mset m = add_mset (k, i) (leads env T)" "gm_wf m" "distinct (map snd m)"
    using inv t by (auto simp: entries_ok_def)
  have mem: "(k, i) \<in> set m" using L(1) by (metis set_mset_mset union_single_eq_member)
  show get: "gm_get m k = Some i" using gm_in_get [OF L(2) mem] .
  have del: "leads env T = mset (gm_del k m)" using mset_gm_del [OF L(2) get] L(1) by simp
  have sub: "set (gm_del k m) \<subseteq> set m" using mset_gm_del [OF L(2) get] by (metis set_mset_mset set_mset_add_mset_insert subset_insertI)
  have "k \<notin> fst ` set (gm_del k m)" using gm_has_iff [of "gm_del k m" k] by (simp add: gm_has_def gomap_simps)
  moreover have "k' = k" if "(k', i) \<in> set (gm_del k m)" for k'
    using L(3) mem sub that by (auto simp: distinct_map dest: inj_onD [of snd _ "(k', i)" "(k, i)"])
  ultimately have out: "i \<notin> snd ` set (gm_del k m)" by (metis (no_types, lifting) fst_conv imageE imageI prod.collapse)
  have ids: "snd ` set m = insert i (snd ` set (gm_del k m))"
    using mset_gm_del [OF L(2) get] by (metis image_insert set_mset_add_mset_insert set_mset_mset snd_conv)
  have dist: "distinct (map snd (gm_del k m))" "gm_wf (gm_del k m)"
    using L(2,3) distinct_map_filter by (auto simp: gm_wf_def gm_del_def AList.delete_eq)
  have n: "i < n" using inv mem by (auto simp: entries_ok_def)
  have old: "\<forall>k' i'. (k', i') \<in> set (gm_del k m) \<longrightarrow> i' < n \<and> \<not> iq_done ((es(i := e)) i') \<and> \<not> iq_abandoned ((es(i := e)) i')"
  proof (intro allI impI)
    fix k' i'
    assume a: "(k', i') \<in> set (gm_del k m)"
    then have "i' \<noteq> i" using out by (metis image_iff snd_conv)
    moreover have "(k', i') \<in> set m" using a sub by blast
    ultimately show "i' < n \<and> \<not> iq_done ((es(i := e)) i') \<and> \<not> iq_abandoned ((es(i := e)) i')" using inv by (auto simp: entries_ok_def)
  qed
  have "\<forall>j < n. j \<notin> snd ` set (gm_del k m) \<longrightarrow> iq_done ((es(i := e)) j)"
    using inv ids e by (auto simp: entries_ok_def)
  then show "entries_ok env (add_mset t' T) (gm_del k m, es(i := e), n, cap, ch)"
    using inv t' del dist old n e unfolding entries_ok_def by auto
qed

lemma next_or_done_frame [simp]:
  "leading env t = {#} \<Longrightarrow> leading env (next_or_done t r) = {#}" "holding t = 0 \<Longrightarrow> holding (next_or_done t r) = 0"
  "entry_of t = None \<Longrightarrow> entry_of (next_or_done t r) = None" "finished_entry t = None \<Longrightarrow> finished_entry (next_or_done t r) = None"
  "parked_on t = None \<Longrightarrow> parked_on (next_or_done t r) = None"
  by (cases r; simp add: next_or_done_def)+

lemma entries_finish:
  assumes "entries_ok env (add_mset t T) c" "leading env t = {#(k, i)#}" "leading env t' = {#}"
    "entry_of t' = None \<or> entry_of t' = Some i" "finished_entry t' = None \<or> finished_entry t' = Some i"
  shows "entries_ok env (add_mset t' T) (core_finish k r e c)"
proof (cases c)
  case (fields m es n cap ch)
  note f = entries_finish_gen [where e = "(es i)\<lparr>iq_resp := r, iq_err := e, iq_done := True\<rparr>", OF assms(1) [unfolded fields] assms(2) _ assms(3-5)]
  have "gm_get m k = Some i" "entries_ok env (add_mset t' T) (gm_del k m, es(i := (es i)\<lparr>iq_resp := r, iq_err := e, iq_done := True\<rparr>), n, cap, ch)"
    using f by simp_all
  then show ?thesis by (simp add: fields)
qed

lemma entries_abandon_led:
  assumes "entries_ok env (add_mset t T) c" "leading env t = {#(k, i)#}" "leading env t' = {#}"
    "entry_of t' = None" "finished_entry t' = None"
  shows "entries_ok env (add_mset t' T) (core_abandon k i c)"
proof (cases c)
  case (fields m es n cap ch)
  note f = entries_finish_gen [where e = "(es i)\<lparr>iq_abandoned := True, iq_done := True\<rparr>", OF assms(1) [unfolded fields] assms(2) _ assms(3) disjI1 [OF assms(4)] disjI1 [OF assms(5)]]
  have "gm_get m k = Some i" "entries_ok env (add_mset t' T) (gm_del k m, es(i := (es i)\<lparr>iq_abandoned := True, iq_done := True\<rparr>), n, cap, ch)"
    using f by simp_all
  then show ?thesis by (simp add: fields)
qed

lemma abandon_finished:
  assumes "entries_ok env T c" "t \<in># T" "finished_entry t = Some i"
  shows "core_abandon k i c = c"
proof (cases c)
  case (fields m es n cap ch)
  have "iq_done (es i)" using assms fields by (auto simp: entries_ok_def)
  then have "gm_get m k \<noteq> Some i" using assms(1) gm_get_in [of m k i] by (auto simp: entries_ok_def fields)
  then show ?thesis by (simp add: fields)
qed

lemma entries_step:
  assumes "query_step env (T, w) (T', w')" "entries_ok env T (core w)"
  shows "entries_ok env T' (core w')"
  using assms
proof cases
  case (enter q r T0)
  then show ?thesis using assms(2) core_begin [of env q w] by (auto intro: entries_frame)
next
  case (skip nowR nowE q r T0)
  then show ?thesis using assms(2) core_skip [of env nowR nowE q w] by (auto intro: entries_frame)
next
  case (lead q i T0)
  obtain m es n cap ch where c: "core w = (m, es, n, cap, ch)" by (cases "core w")
  have "gm_get m (query_key env q) = None" "i = n" "core w' = (m @ [(query_key env q, n)], es(n := new_entry), n + 1, cap, ch)"
    using core_register_lead [OF lead(3) c] by auto
  then show ?thesis using lead assms(2) c by (auto intro: entries_register)
next
  case (wait q i T0)
  obtain m es n cap ch where c: "core w = (m, es, n, cap, ch)" by (cases "core w")
  have r: "w' = w" "gm_get m (query_key env q) = Some i" using core_register_wait [OF wait(3)] c by auto
  have "i < n" using assms(2) gm_get_in [OF r(2)] by (auto simp: entries_ok_def c)
  then show ?thesis using wait assms(2) r(1) by (auto simp: entries_ok_def c)
next
  case (wake i r q T0)
  then show ?thesis using assms(2) core_wait_done [OF wake(4)] by (auto intro: entries_frame)
next
  case (no_cap q i T0)
  then show ?thesis using assms(2) by (auto intro: entries_frame)
next
  case (acquire q i T0)
  obtain m es n cap ch where c: "core w = (m, es, n, cap, ch)" by (cases "core w")
  have c': "core w' = (m, es, n, cap\<lparr>cap_inflight := cap_inflight cap + 1\<rparr>, ch)" using core_acquire [OF acquire(4) c] by simp
  have "entries_ok env T' (m, es, n, cap, ch)" using acquire assms(2) c by (auto intro: entries_frame)
  then show ?thesis using c' by (simp add: entries_ok_def)
next
  case (park x q i T0)
  obtain m es n cap ch where c: "core w = (m, es, n, cap, ch)" by (cases "core w")
  have "entries_ok env T' (m, es, n, cap, ch)" using park assms(2) c by (auto intro: entries_frame)
  then show ?thesis using core_park [OF park(4) c] entries_cap c by metis
next
  case (unpark ch q i T0)
  then show ?thesis using assms(2) by (auto intro: entries_frame)
next
  case (send q run a i T0)
  then show ?thesis using assms(2) core_exchange [of env q run w] by (auto intro: entries_frame)
next
  case (store q i a live T0)
  obtain r where "core w' = core_finish (query_key env q) r (snd a) (core w)"
    using store core_query_store [of env q live a w] by auto
  then show ?thesis using store assms(2) by (auto intro: entries_finish)
next
  case (release q i r T0)
  obtain m es n cap ch where c: "core w = (m, es, n, cap, ch)" by (cases "core w")
  have "entries_ok env T' (m, es, n, cap, ch)" using release assms(2) c by (cases r) (auto intro: entries_frame)
  then show ?thesis using release core_release [OF c] c entries_cap by (metis (no_types, lifting))
next
  case (abandon q i r T0)
  show ?thesis
  proof (cases r)
    case None
    then show ?thesis using abandon assms(2) by (auto simp: core_inflight_abandon intro: entries_abandon_led)
  next
    case (Some a)
    have "core w' = core w" using abandon Some assms(2) abandon_finished [of env T "core w" "TAbandon q i (Some a)" i]
      by (simp add: core_inflight_abandon)
    then show ?thesis using abandon Some assms(2) by (auto intro: entries_frame)
  qed
qed

lemma entries_outside:
  assumes "outside_step env (T, w) (T', w')" "entries_ok env T (core w)"
  shows "entries_ok env T' (core w')"
  using assms
proof cases
  case (arrive q)
  then show ?thesis using assms(2) by (auto simp: entries_ok_def)
next
  case (cancel_wait q i T0 e)
  then show ?thesis using assms(2) by (auto intro: entries_frame)
next
  case (cancel_park q i ch T0 e)
  then show ?thesis using assms(2) by (auto simp: core_inflight_finish intro: entries_finish)
next
  case (panic q i T0)
  then show ?thesis using assms(2) by (auto intro: entries_frame)
qed

section \<open>The cap\<close>

lemma cap_frame:
  "cap_ok env (add_mset t T) (m, es, n, cap, ch) \<Longrightarrow> holding t' = holding t \<Longrightarrow> parked_on t' = None \<Longrightarrow>
   cap_ok env (add_mset t' T) (m', es', n', cap, ch)"
  by (auto simp: cap_ok_def)

lemma core_finish_cap: "\<exists>m' es'. core_finish k r e (m, es, n, cap, ch) = (m', es', n, cap, ch)"
  by (auto split: option.split)

lemma core_abandon_cap: "\<exists>m' es'. core_abandon k i (m, es, n, cap, ch) = (m', es', n, cap, ch)"
  by auto

lemma cap_step:
  assumes "query_step env (T, w) (T', w')" "cap_ok env T (core w)"
  shows "cap_ok env T' (core w')"
proof -
  obtain m es n cap ch where c: "core w = (m, es, n, cap, ch)" by (cases "core w")
  have inv: "cap_ok env T (m, es, n, cap, ch)" using assms(2) c by simp
  from assms(1) show ?thesis
  proof cases
    case (enter q r T0)
    then show ?thesis using inv c core_begin [of env q w] by (auto intro: cap_frame)
  next
    case (skip nowR nowE q r T0)
    then show ?thesis using inv c core_skip [of env nowR nowE q w] by (auto intro: cap_frame)
  next
    case (lead q i T0)
    then show ?thesis using inv core_register_lead [OF lead(3) c] by (auto intro: cap_frame)
  next
    case (wait q i T0)
    then show ?thesis using inv c core_register_wait [OF wait(3)] by (auto intro: cap_frame)
  next
    case (wake i r q T0)
    then show ?thesis using inv c core_wait_done [OF wake(4)] by (auto intro: cap_frame)
  next
    case (no_cap q i T0)
    then show ?thesis using inv c by (auto simp: cap_ok_def)
  next
    case (acquire q i T0)
    then show ?thesis using inv core_acquire [OF acquire(4) c] by (auto simp: cap_ok_def)
  next
    case (park x q i T0)
    then show ?thesis using inv core_park [OF park(4) c] c by (auto simp: cap_ok_def less_Suc_eq)
  next
    case (unpark x q i T0)
    then show ?thesis using inv c by (auto intro: cap_frame)
  next
    case (send q run a i T0)
    then show ?thesis using inv c core_exchange [of env q run w] by (auto intro: cap_frame)
  next
    case (store q i a live T0)
    then obtain r where "core w' = core_finish (query_key env q) r (snd a) (core w)" using core_query_store [of env q live a w] by auto
    then obtain m' es' where "core w' = (m', es', n, cap, ch)" using core_finish_cap c by metis
    then show ?thesis using store inv by (auto intro: cap_frame)
  next
    case (release q i r T0)
    then show ?thesis using inv core_release [OF c] c by (auto simp: cap_ok_def)
  next
    case (abandon q i r T0)
    obtain m' es' where "core w' = (m', es', n, cap, ch)" using core_abandon_cap c abandon core_inflight_abandon by metis
    then show ?thesis using abandon inv by (auto intro: cap_frame)
  qed
qed

lemma cap_outside:
  assumes "outside_step env (T, w) (T', w')" "cap_ok env T (core w)"
  shows "cap_ok env T' (core w')"
proof -
  obtain m es n cap ch where c: "core w = (m, es, n, cap, ch)" by (cases "core w")
  from assms(1) show ?thesis
  proof cases
    case (cancel_park q i x T0 e)
    obtain m' es' where "core w' = (m', es', n, cap, ch)" using core_finish_cap c cancel_park core_inflight_finish by metis
    then show ?thesis using cancel_park assms(2) c by (auto intro: cap_frame)
  qed (use assms(2) c in \<open>auto simp: cap_ok_def\<close>)
qed

section \<open>What is sent\<close>

lemma sending_frame:
  "sending_ok env (add_mset t T) w \<Longrightarrow> audit_le w w' \<Longrightarrow> admitted_thread t' \<longrightarrow> admitted_thread t \<Longrightarrow> sending_ok env (add_mset t' T) w'"
  using audit_le_ok [of w w' env] unfolding sending_ok_def by (auto simp: audit_le_def)

lemma admitted_next: "admitted_thread (next_or_done t r) \<Longrightarrow> (\<exists>u. r = Proceeds u) \<and> admitted_thread t"
  by (cases r) (auto simp: next_or_done_def)

lemma sending_step:
  assumes "query_step env (T, w) (T', w')" "sending_ok env T w"
  shows "sending_ok env T' w'"
  using assms(1)
proof cases
  case (enter q r T0)
  have le: "audit_le w w'" using begin_audit [of w env q] enter by simp
  have "permitted env \<and> ne_addr env \<in> set (snd (audit w'))" if "admitted_thread (next_or_done (TSkip q) r)"
    using admitted_next [OF that] begin_proceeds [of env q w _ w'] enter by auto
  then show ?thesis using assms(2) enter le audit_le_ok [OF le] unfolding sending_ok_def by (auto simp: audit_le_def)
next
  case (skip nowR nowE q r T0)
  have "audit w' = audit w" using skip audit_skip [of env nowR nowE q w] by simp
  then show ?thesis using assms(2) skip by (auto intro: sending_frame audit_le_eq)
next
  case (lead q i T0)
  have "audit w' = audit w" using lead audit_inflight(2) [of "query_key env q" w] by simp
  then show ?thesis using assms(2) lead by (auto intro: sending_frame audit_le_eq)
next
  case (wait q i T0)
  have "audit w' = audit w" using wait audit_inflight(2) [of "query_key env q" w] by simp
  then show ?thesis using assms(2) wait by (auto intro: sending_frame audit_le_eq)
next
  case (wake i r q T0)
  have "audit w' = audit w" using wake audit_inflight(5) [of env i w] by simp
  then show ?thesis using assms(2) wake by (auto intro: sending_frame audit_le_eq)
next
  case (acquire q i T0)
  have "audit w' = audit w" using acquire audit_inflight(6) [of "concurrency_limit env" w] by simp
  then show ?thesis using assms(2) acquire by (auto intro: sending_frame audit_le_eq)
next
  case (park x q i T0)
  have "audit w' = audit w" using park audit_inflight(6) [of "concurrency_limit env" w] by simp
  then show ?thesis using assms(2) park by (auto intro: sending_frame audit_le_eq)
next
  case (send q run a i T0)
  have p: "permitted env" "ne_addr env \<in> set (snd (audit w))" "audit_ok env w" using assms(2) send by (auto simp: sending_ok_def)
  have "audit_ok env w'" using exchange_audit_ok [OF p(3,1,2), of q run] send by simp
  moreover have "snd (audit w') = snd (audit w)" using exchange_audit [of env q run w] send by (auto simp: audit_def)
  ultimately show ?thesis using assms(2) send by (auto simp: sending_ok_def)
next
  case (store q i a live T0)
  then show ?thesis using assms(2) by (auto elim!: sending_frame simp: audit_le_def)
next
  case (release q i r T0)
  then show ?thesis using assms(2) by (auto elim!: sending_frame simp: audit_le_def)
next
  case (abandon q i r T0)
  then show ?thesis using assms(2) by (auto elim!: sending_frame simp: audit_le_def)
qed (use assms(2) in \<open>auto intro: sending_frame audit_le_eq\<close>)

lemma sending_outside:
  assumes "outside_step env (T, w) (T', w')" "sending_ok env T w"
  shows "sending_ok env T' w'"
  using assms(1)
proof cases
  case (arrive q)
  then show ?thesis using assms(2) by (auto simp: sending_ok_def)
qed (use assms(2) in \<open>auto elim!: sending_frame simp: audit_le_def\<close>)

section \<open>Every reachable state\<close>

definition good :: "ns_env \<Rightarrow> qsystem \<Rightarrow> bool" where
  "good env s \<longleftrightarrow> entries_ok env (fst s) (core (snd s)) \<and> cap_ok env (fst s) (core (snd s)) \<and> sending_ok env (fst s) (snd s)"

lemma good_step: "query_step env s s' \<Longrightarrow> good env s \<Longrightarrow> good env s'"
  using entries_step [of env "fst s" "snd s" "fst s'" "snd s'"] cap_step [of env "fst s" "snd s" "fst s'" "snd s'"]
    sending_step [of env "fst s" "snd s" "fst s'" "snd s'"] by (simp add: good_def)

lemma good_outside: "outside_step env s s' \<Longrightarrow> good env s \<Longrightarrow> good env s'"
  using entries_outside [of env "fst s" "snd s" "fst s'" "snd s'"] cap_outside [of env "fst s" "snd s" "fst s'" "snd s'"]
    sending_outside [of env "fst s" "snd s" "fst s'" "snd s'"] by (simp add: good_def)

lemma good_start: "starting w \<Longrightarrow> good env ({#}, w)"
  by (auto simp: starting_def good_def entries_ok_def cap_ok_def sending_ok_def core_def audit_ok_def audit_def)

lemma reaches_good:
  assumes "starting w0" "reaches env w0 s"
  shows "good env s"
  using assms(2) unfolding reaches_def
proof (induction rule: rtranclp_induct)
  case base
  show ?case using good_start [OF assms(1)] .
next
  case (step s s')
  then show ?case using good_step good_outside unfolding any_step_def by blast
qed

fun exchanging :: "qthread \<Rightarrow> bool" where
  "exchanging (TSend q i) = True"
| "exchanging (TStore q i a live) = True"
| "exchanging t = False"

lemma exchanging_slots: "size (filter_mset exchanging T) \<le> slots T"
proof (induction T)
  case (add t T)
  then show ?case by (cases t) auto
qed simp

lemma twice_not_distinct: "mset xs = add_mset a (add_mset a M) \<Longrightarrow> \<not> distinct xs"
proof -
  assume "mset xs = add_mset a (add_mset a M)"
  then have "count (mset xs) a \<noteq> (if a \<in> set xs then 1 else 0)" by simp
  then show ?thesis unfolding distinct_count_atmost_1 by blast
qed

text \<open>
  C6. Whatever queries run against a nameserver and however they interleave, end early or panic: two queries with the same key are never
  sent at the same time, no more queries exchange messages with the address at a time than the concurrency limit
  allows, and everything that was sent went to an address of an enabled family that the address policy, the profile or the operator allows,
  and that was among the at most 512 addresses admitted to the run.
\<close>

theorem concurrent_queries_safe:
  assumes "starting w0" "reaches env w0 (T, w)"
  shows "(\<forall>q i q' i' T0. T = add_mset (TSend q i) (add_mset (TSend q' i') T0) \<longrightarrow> query_key env q \<noteq> query_key env q') \<and>
    (0 < concurrency_limit env \<longrightarrow> int (size (filter_mset exchanging T)) \<le> concurrency_limit env) \<and>
    (\<forall>a k. (a, k) \<in> set (w_sent w) \<longrightarrow> permitted env \<and> a = ne_addr env \<and> a \<in> set (rl_addrs (w_limits w))) \<and>
    length (rl_addrs (w_limits w)) \<le> 512"
proof -
  obtain m es n cap ch where c: "core w = (m, es, n, cap, ch)" by (cases "core w")
  have g: "entries_ok env T (m, es, n, cap, ch)" "cap_ok env T (m, es, n, cap, ch)" "audit_ok env w"
    using reaches_good [OF assms] c by (auto simp: good_def sending_ok_def)
  have "query_key env q \<noteq> query_key env q'" if "T = add_mset (TSend q i) (add_mset (TSend q' i') T0)" for q i q' i' T0
  proof
    assume same: "query_key env q = query_key env q'"
    have "mset m = leads env T" using g(1) by (simp add: entries_ok_def)
    then have "mset (map fst m) = add_mset (query_key env q) (add_mset (query_key env q) (image_mset fst (leads env T0)))"
      using that same by simp
    moreover have "distinct (map fst m)" using g(1) by (simp add: entries_ok_def gm_wf_def)
    ultimately show False using twice_not_distinct by metis
  qed
  then show ?thesis
    using g(2,3) exchanging_slots [of T] by (auto simp: cap_ok_def audit_ok_def audit_def MaxRunAddresses_def)
qed

section \<open>Every query ends\<close>

fun finished :: "qthread \<Rightarrow> bool" where
  "finished (TDone r) = True"
| "finished t = False"

fun blocked :: "ns_world \<Rightarrow> qthread \<Rightarrow> bool" where
  "blocked w (TWait q i) = (\<not> iq_done (w_entries w i))"
| "blocked w (TPark q i ch) = (cap_waitCh (st_cap (w_ns w)) = Some ch)"
| "blocked w t = finished t"

lemma unblocked_moves:
  assumes "\<not> blocked w t"
  shows "\<exists>s'. query_step env (add_mset t T, w) s'"
proof (cases t)
  case (TBegin q)
  then show ?thesis using query_step.enter [of env q w] by (metis prod.collapse)
next
  case (TSkip q)
  then show ?thesis using query_step.skip [of env 0 0 q w] by (metis prod.collapse)
next
  case (TRegister q)
  obtain r w' where r: "waitOrRegister (query_key env q) w = (r, w')" by force
  then show ?thesis using TRegister query_step.lead [of env q w _ w'] query_step.wait [of env q w _ w'] by (cases r) blast+
next
  case (TWait q i)
  obtain r w' where r: "wait_done env i w = (r, w')" by force
  then show ?thesis using TWait assms query_step.wake [of w i env r w'] by auto
next
  case (TAcquire q i)
  obtain x w' where x: "cap_acquire (concurrency_limit env) w = (x, w')" by force
  show ?thesis
  proof (cases "0 < concurrency_limit env")
    case True
    then show ?thesis using x TAcquire query_step.acquire [of env w w'] query_step.park [of env w _ w'] by (cases x) blast+
  next
    case False
    then show ?thesis using TAcquire query_step.no_cap [of env] by (metis linorder_not_less)
  qed
next
  case (TPark q i ch)
  then show ?thesis using assms query_step.unpark [of w ch env q i T] by (metis blocked.simps(2))
next
  case (TSend q i)
  obtain a w' where "query_exchange env q undefined w = (a, w')" by (cases "query_exchange env q undefined w") blast
  then show ?thesis using TSend query_step.send by blast
next
  case (TStore q i a live)
  then show ?thesis using query_step.store by blast
next
  case (TRelease q i r)
  then show ?thesis using query_step.release by blast
next
  case (TAbandon q i r)
  then show ?thesis using query_step.abandon by blast
next
  case (TDone r)
  then show ?thesis using assms by simp
qed

lemma holder_unblocked: "0 < slots T \<Longrightarrow> \<exists>t \<in># T. \<not> blocked w t"
proof (induction T)
  case (add t T)
  show ?case
  proof (cases "holding t")
    case 0
    then show ?thesis using add by auto
  next
    case (Suc k)
    then have "\<not> blocked w t" by (cases t) auto
    then show ?thesis by auto
  qed
qed simp

lemma leader_shape: "leading env t \<noteq> {#} \<Longrightarrow> blocked w t \<Longrightarrow> \<exists>ch. parked_on t = Some ch \<and> cap_waitCh (st_cap (w_ns w)) = Some ch"
  by (cases "(env, t)" rule: leading.cases) auto

lemma leads_member: "x \<in># leads env T \<Longrightarrow> \<exists>t \<in># T. x \<in># leading env t"
  by (induction T) auto

lemma good_progress:
  assumes "good env (T, w)" "t \<in># T" "\<not> finished t"
  shows "\<exists>u \<in># T. \<not> blocked w u"
proof -
  obtain m es n cap ch where c: "core w = (m, es, n, cap, ch)" by (cases "core w")
  have view: "w_entries w = es" "st_cap (w_ns w) = cap" using c by (auto simp: core_def)
  have e: "entries_ok env T (m, es, n, cap, ch)" and k: "cap_ok env T (m, es, n, cap, ch)" using assms(1) c by (auto simp: good_def)
  have parked: "\<exists>u \<in># T. \<not> blocked w u" if "u \<in># T" "parked_on u = Some x" "cap_waitCh cap = Some x" for u x
  proof -
    have "0 < slots T" using k that by (auto simp: cap_ok_def)
    then show ?thesis by (rule holder_unblocked)
  qed
  have waiting: "\<exists>u \<in># T. \<not> blocked w u" if "TWait q i \<in># T" "\<not> iq_done (es i)" for q i
  proof -
    have "i < n" using e that(1) by (auto simp: entries_ok_def)
    then have "i \<in> snd ` set m" using e that(2) by (auto simp: entries_ok_def)
    then obtain key where "(key, i) \<in># leads env T" using e by (auto simp: entries_ok_def)
    then obtain u where u: "u \<in># T" "leading env u \<noteq> {#}" using leads_member by fastforce
    show ?thesis
    proof (cases "blocked w u")
      case True
      then show ?thesis using leader_shape [OF u(2)] parked [OF u(1)] view by auto
    next
      case False
      then show ?thesis using u(1) by blast
    qed
  qed
  show ?thesis
  proof (cases "blocked w t")
    case True
    then show ?thesis using assms(2,3) parked [of t] waiting view by (cases t) auto
  next
    case False
    then show ?thesis using assms(2) by blast
  qed
qed

text \<open>
  Why a run of steps ends: a panicked query abandons its entry once; between two such moments every step brings its thread closer to the
  end, except that threads go back and forth between the cap and its channel, which they do only when
  a slot was given back. The rank of a waiter is high when it has to register again.
\<close>

fun panicked :: "qthread \<Rightarrow> nat" where
  "panicked (TRelease q i None) = 1"
| "panicked (TAbandon q i None) = 1"
| "panicked t = 0"

fun rank :: "(nat \<Rightarrow> inflightQuery) \<Rightarrow> qthread \<Rightarrow> nat" where
  "rank es (TBegin q) = 12"
| "rank es (TSkip q) = 11"
| "rank es (TRegister q) = 10"
| "rank es (TWait q i) = (if iq_abandoned (es i) then 11 else 1)"
| "rank es (TAcquire q i) = 9"
| "rank es (TPark q i ch) = 9"
| "rank es (TSend q i) = 8"
| "rank es (TStore q i a live) = 7"
| "rank es (TRelease q i r) = 6"
| "rank es (TAbandon q i r) = 5"
| "rank es (TDone r) = 0"

fun wakeful :: "capState \<Rightarrow> qthread \<Rightarrow> nat" where
  "wakeful cap (TAcquire q i) = 1"
| "wakeful cap (TPark q i ch) = (if cap_waitCh cap = Some ch then 0 else 2)"
| "wakeful cap t = 0"

definition total :: "(qthread \<Rightarrow> nat) \<Rightarrow> qthread multiset \<Rightarrow> nat" where
  "total f T = (\<Sum>t \<in># T. f t)"

lemma total_simps [simp]: "total f {#} = 0" "total f (add_mset t T) = f t + total f T"
  by (simp_all add: total_def)

lemma total_cong: "(\<And>t. t \<in># T \<Longrightarrow> f t = g t) \<Longrightarrow> total f T = total g T"
  by (induction T) auto

definition weight :: "qsystem \<Rightarrow> nat \<times> nat \<times> nat" where
  "weight s = (total panicked (fst s), total (rank (w_entries (snd s))) (fst s), total (wakeful (st_cap (w_ns (snd s)))) (fst s))"

abbreviation weight_order :: "((nat \<times> nat \<times> nat) \<times> (nat \<times> nat \<times> nat)) set" where
  "weight_order \<equiv> less_than <*lex*> less_than <*lex*> less_than"

lemma rank_cong:
  assumes "\<forall>t i. t \<in># T \<longrightarrow> entry_of t = Some i \<longrightarrow> iq_abandoned (es' i) = iq_abandoned (es i)"
  shows "total (rank es') T = total (rank es) T"
proof (rule total_cong)
  fix t assume "t \<in># T"
  then show "rank es' t = rank es t" using assms by (cases t) auto
qed

lemma panicked_next [simp]: "panicked t = 0 \<Longrightarrow> panicked (next_or_done t r) = 0"
  by (cases r) (auto simp: next_or_done_def)

lemma rank_next: "rank es (next_or_done t r) \<le> rank es t"
  by (cases r) (auto simp: next_or_done_def)

lemma core_views: "core w = (m, es, n, cap, ch) \<Longrightarrow> w_entries w = es \<and> st_cap (w_ns w) = cap"
  by (simp add: core_def)

lemma weight_rank:
  assumes "core w = (m, es, n, cap, ch)" "core w' = (m', es', n', cap', ch')" "panicked t' \<le> panicked t"
    and "\<forall>u i. u \<in># T \<longrightarrow> entry_of u = Some i \<longrightarrow> iq_abandoned (es' i) = iq_abandoned (es i)" "rank es' t' < rank es t"
  shows "(weight (add_mset t' T, w'), weight (add_mset t T, w)) \<in> weight_order"
  using rank_cong [OF assms(4)] assms(3,5) core_views [OF assms(1)] core_views [OF assms(2)] by (auto simp: weight_def)

lemma weight_step:
  assumes "query_step env (T, w) (T', w')" "good env (T, w)"
  shows "(weight (T', w'), weight (T, w)) \<in> weight_order"
proof -
  obtain m es n cap ch where c: "core w = (m, es, n, cap, ch)" by (cases "core w")
  have e: "entries_ok env T (m, es, n, cap, ch)" and k: "cap_ok env T (m, es, n, cap, ch)" using assms(2) c by (auto simp: good_def)
  note v = core_views [OF c]
  from assms(1) show ?thesis
  proof cases
    case (enter q r T0)
    have "core w' = (m, es, n, cap, ch)" using enter core_begin [of env q w] c by simp
    then show ?thesis using enter rank_next [of es "TSkip q" r] by (auto intro!: weight_rank [OF c])
  next
    case (skip nowR nowE q r T0)
    have "core w' = (m, es, n, cap, ch)" using skip core_skip [of env nowR nowE q w] c by simp
    then show ?thesis using skip rank_next [of es "TRegister q" r] by (auto intro!: weight_rank [OF c])
  next
    case (lead q i T0)
    have c': "core w' = (m @ [(query_key env q, n)], es(n := new_entry), n + 1, cap, ch)" using core_register_lead [OF lead(3) c] by simp
    have "\<forall>u i. u \<in># T0 \<longrightarrow> entry_of u = Some i \<longrightarrow> iq_abandoned ((es(n := new_entry)) i) = iq_abandoned (es i)"
      using e lead by (auto simp: entries_ok_def)
    then show ?thesis using lead by (auto intro!: weight_rank [OF c c'])
  next
    case (wait q i T0)
    have r: "w' = w" "gm_get m (query_key env q) = Some i" using core_register_wait [OF wait(3)] c by auto
    have "\<not> iq_abandoned (es i)" using e gm_get_in [OF r(2)] by (auto simp: entries_ok_def)
    then show ?thesis using wait r c by (auto intro!: weight_rank [OF c])
  next
    case (wake i r q T0)
    have c': "core w' = (m, es, n, cap, ch)" using core_wait_done [OF wake(4)] c by simp
    have "rank es (next_or_done (TRegister q) r) < rank es (TWait q i)"
      using wake(4) v by (auto simp: wait_done_def Let_def next_or_done_def split: if_splits)
    then show ?thesis using wake by (auto intro!: weight_rank [OF c c'])
  next
    case (no_cap q i T0)
    then show ?thesis by (auto intro!: weight_rank [OF c c])
  next
    case (acquire q i T0)
    have c': "core w' = (m, es, n, cap\<lparr>cap_inflight := cap_inflight cap + 1\<rparr>, ch)" using core_acquire [OF acquire(4) c] by simp
    then show ?thesis using acquire by (auto intro!: weight_rank [OF c c'])
  next
    case (park x q i T0)
    obtain cap' ch' where c': "core w' = (m, es, n, cap', ch')" "cap_waitCh cap' = Some x" "cap_waitCh cap = Some x \<or> cap_waitCh cap = None \<and> x = ch"
      using core_park [OF park(4) c] c by auto
    have "wakeful cap' t = wakeful cap t" if "t \<in># T0" for t
      using k park(1) that c'(2,3) by (cases t) (auto simp: cap_ok_def)
    then have "total (wakeful cap') T0 = total (wakeful cap) T0" by (rule total_cong)
    then show ?thesis using park v core_views [OF c'(1)] c'(2) by (auto simp: weight_def)
  next
    case (unpark x q i T0)
    then show ?thesis using v by (auto simp: weight_def)
  next
    case (send q run a i T0)
    have c': "core w' = (m, es, n, cap, ch)" using send core_exchange [of env q run w] c by simp
    then show ?thesis using send by (auto intro!: weight_rank [OF c c'])
  next
    case (store q i a live T0)
    obtain r where "core w' = core_finish (query_key env q) r (snd a) (core w)" using store core_query_store [of env q live a w] by auto
    then obtain m' es' where c': "core w' = (m', es', n, cap, ch)" "\<forall>j. iq_abandoned (es' j) = iq_abandoned (es j)"
      by (auto simp: c split: option.splits)
    then show ?thesis using store weight_rank [OF c c'(1), of "TRelease q i (Some a)" "TStore q i a live" T0] by simp
  next
    case (release q i r T0)
    obtain cap' where c': "core w' = (m, es, n, cap', ch)" using release core_release [OF c] c by (cases "0 < concurrency_limit env") auto
    then show ?thesis using release weight_rank [OF c c', of "TAbandon q i r" "TRelease q i r" T0] by (cases r) simp_all
  next
    case (abandon q i r T0)
    show ?thesis
    proof (cases r)
      case None
      then show ?thesis using abandon by (auto simp: weight_def)
    next
      case (Some a)
      have c': "core w' = (m, es, n, cap, ch)" using abandon Some e abandon_finished [of env T "core w" "TAbandon q i (Some a)" i] c
        by (simp add: core_inflight_abandon)
      then show ?thesis using abandon Some weight_rank [OF c c', of "TDone (Some a)" "TAbandon q i (Some a)" T0] by simp
    qed
  qed
qed

lemma good_moves:
  assumes "good env s" "\<exists>t \<in># fst s. \<not> finished t"
  shows "\<exists>s'. query_step env s s'"
proof -
  obtain u where u: "u \<in># fst s" "\<not> blocked (snd s) u" using good_progress [of env "fst s" "snd s"] assms by auto
  then obtain T where "fst s = add_mset u T" by (blast dest: multi_member_split)
  then show ?thesis using unblocked_moves [OF u(2), of env T] by (metis prod.collapse)
qed

lemma weight_decreases: "query_step env s s' \<Longrightarrow> good env s \<Longrightarrow> (weight s', weight s) \<in> weight_order"
  using weight_step [of env "fst s" "snd s" "fst s'" "snd s'"] by simp

lemma weight_wf: "wf weight_order"
  by (intro wf_lex_prod wf_less_than)

lemma good_no_loop:
  assumes "good env s" "f 0 = s" "\<forall>n. query_step env (f n) (f (Suc n))"
  shows False
proof -
  have "good env (f n)" for n
  proof (induction n)
    case (Suc n)
    then show ?case using good_step assms(3) by blast
  qed (use assms in simp)
  then have "\<forall>n. (weight (f (Suc n)), weight (f n)) \<in> weight_order" using assms(3) weight_decreases by blast
  then have "\<exists>f. \<forall>i. (f (Suc i), f i) \<in> weight_order" by (intro exI [where x = "\<lambda>n. weight (f n)"])
  then show False using weight_wf unfolding wf_iff_no_infinite_down_chain by blast
qed

lemma good_ends:
  assumes "good env s"
  shows "\<exists>s'. (query_step env)\<^sup>*\<^sup>* s s' \<and> (\<forall>t \<in># fst s'. finished t)"
  using assms
proof (induction "weight s" arbitrary: s rule: wf_induct_rule [OF weight_wf])
  case 1
  show ?case
  proof (cases "\<exists>t \<in># fst s. \<not> finished t")
    case True
    then obtain s1 where s1: "query_step env s s1" using good_moves 1(2) by blast
    then obtain s' where "(query_step env)\<^sup>*\<^sup>* s1 s'" "\<forall>t \<in># fst s'. finished t"
      using 1(1) weight_decreases [OF s1 1(2)] good_step [OF s1 1(2)] by blast
    then show ?thesis using s1 by (meson converse_rtranclp_into_rtranclp)
  qed blast
qed

text \<open>
  C7. No run of queries against a nameserver gets stuck or goes on for ever, whatever queries arrived, were cancelled or panicked before:
  in every state in which a query has not returned some query can move, no sequence of moves is infinite, and so the queries can all be
  brought to their ends from there. The queries are taken as they are at that moment; arrivals after it are not counted.
\<close>

theorem every_query_ends:
  assumes "starting w0" "reaches env w0 s"
  shows "((\<exists>t \<in># fst s. \<not> finished t) \<longrightarrow> (\<exists>s'. query_step env s s')) \<and>
    \<not> (\<exists>f. f 0 = s \<and> (\<forall>n. query_step env (f n) (f (Suc n)))) \<and>
    (\<exists>s'. (query_step env)\<^sup>*\<^sup>* s s' \<and> (\<forall>t \<in># fst s'. finished t))"
proof -
  have g: "good env s" by (rule reaches_good [OF assms])
  show ?thesis using good_moves [OF g] good_no_loop [OF g] good_ends [OF g] by blast
qed

section \<open>Witnesses\<close>

lemma sample_starts: "starting sample_world"
  by (simp add: starting_def sample_world_def sample_ns_state_def newRunLimits_def new_query_cache_def)

text \<open>Two queries with one key, one of them at the exchange and the other one waiting for it.\<close>

definition sample_enter :: "ns_world \<Rightarrow> ns_world" where
  "sample_enter w = snd (query_begin sample_env sample_q w)"

definition sample_skip :: "ns_world \<Rightarrow> ns_world" where
  "sample_skip w = snd (query_skip sample_env 1 2 sample_q w)"

lemma sample_second_proceeds:
  "fst (query_begin sample_env sample_q sample_world) = Proceeds ()"
  "fst (query_begin sample_env sample_q (sample_enter sample_world)) = Proceeds ()"
  "fst (query_skip sample_env 1 2 sample_q (sample_enter (sample_enter sample_world))) = Proceeds ()"
  "fst (query_skip sample_env 1 2 sample_q (sample_skip (sample_enter (sample_enter sample_world)))) = Proceeds ()"
  by (code_simp, code_simp, code_simp, code_simp)

lemma sample_admitted:
  "\<exists>w. reaches sample_env sample_world ({#TRegister sample_q, TRegister sample_q#}, w) \<and> core w = core sample_world"
proof -
  let ?e = "any_step sample_env"
  let ?w1 = "sample_enter sample_world" and ?w2 = "sample_enter (sample_enter sample_world)"
  have "?e ({#}, sample_world) ({#TBegin sample_q#}, sample_world)"
    "?e ({#TBegin sample_q#}, sample_world) ({#TBegin sample_q, TBegin sample_q#}, sample_world)"
    by (auto simp: any_step_def intro: outside_step.arrive)
  moreover have "?e ({#TBegin sample_q, TBegin sample_q#}, sample_world) ({#TSkip sample_q, TBegin sample_q#}, ?w1)"
    using query_step.enter [of sample_env sample_q sample_world "Proceeds ()" ?w1 "{#TBegin sample_q#}"] sample_second_proceeds(1)
    by (simp add: any_step_def sample_enter_def prod_eq_iff next_or_done_def)
  moreover have "?e ({#TSkip sample_q, TBegin sample_q#}, ?w1) ({#TSkip sample_q, TSkip sample_q#}, ?w2)"
    using query_step.enter [of sample_env sample_q ?w1 "Proceeds ()" ?w2 "{#TSkip sample_q#}"] sample_second_proceeds(2)
    by (simp add: any_step_def sample_enter_def prod_eq_iff next_or_done_def add_mset_commute)
  moreover have "?e ({#TSkip sample_q, TSkip sample_q#}, ?w2) ({#TRegister sample_q, TSkip sample_q#}, sample_skip ?w2)"
    using query_step.skip [of sample_env 1 2 sample_q ?w2 "Proceeds ()" "sample_skip ?w2" "{#TSkip sample_q#}"] sample_second_proceeds(3)
    by (simp add: any_step_def sample_skip_def prod_eq_iff next_or_done_def)
  moreover have "?e ({#TRegister sample_q, TSkip sample_q#}, sample_skip ?w2) ({#TRegister sample_q, TRegister sample_q#}, sample_skip (sample_skip ?w2))"
    using query_step.skip [of sample_env 1 2 sample_q "sample_skip ?w2" "Proceeds ()" "sample_skip (sample_skip ?w2)" "{#TRegister sample_q#}"]
      sample_second_proceeds(4)
    by (simp add: any_step_def sample_skip_def prod_eq_iff next_or_done_def add_mset_commute)
  ultimately have "reaches sample_env sample_world ({#TRegister sample_q, TRegister sample_q#}, sample_skip (sample_skip ?w2))"
    unfolding reaches_def by (meson converse_rtranclp_into_rtranclp rtranclp.rtrancl_refl)
  moreover have "core (sample_skip (sample_skip ?w2)) = core sample_world" by (simp add: sample_skip_def sample_enter_def core_skip core_begin)
  ultimately show ?thesis by blast
qed

lemma sample_reaches:
  "\<exists>i w. reaches sample_env sample_world ({#TSend sample_q i, TWait sample_q i#}, w)"
proof -
  obtain w where w: "reaches sample_env sample_world ({#TRegister sample_q, TRegister sample_q#}, w)" "core w = core sample_world"
    using sample_admitted by blast
  let ?k = "query_key sample_env sample_q"
  have "core w = ([], \<lambda>_. new_entry, 0, \<lparr>cap_inflight = 0, cap_waitCh = None\<rparr>, 0)"
    using w(2) by (simp add: core_def sample_world_def sample_ns_state_def new_query_cache_def)
  then have v: "qc_inflight (st_cache (w_ns w)) = []" "w_next w = 0" "st_cap (w_ns w) = \<lparr>cap_inflight = 0, cap_waitCh = None\<rparr>"
    by (simp_all add: core_def)
  define w1 where "w1 = snd (waitOrRegister ?k w)"
  have r1: "waitOrRegister ?k w = (Lead 0, w1)" using v by (simp add: w1_def waitOrRegister_def inflight_of_def gm_get_def)
  have v1: "inflight_of w1 ?k = Some 0" "st_cap (w_ns w1) = \<lparr>cap_inflight = 0, cap_waitCh = None\<rparr>"
    using v by (simp_all add: w1_def waitOrRegister_def inflight_of_def gm_get_def gm_set_def with_inflight_def)
  have l: "concurrency_limit sample_env = 2" by code_simp
  define w2 where "w2 = snd (cap_acquire 2 w1)"
  have r2: "cap_acquire 2 w1 = (None, w2)" "inflight_of w2 ?k = Some 0" using v1 by (simp_all add: w2_def cap_acquire_def Let_def inflight_of_def)
  have r3: "waitOrRegister ?k w2 = (Wait 0, w2)" using r2(2) by (simp add: waitOrRegister_def)
  have "any_step sample_env ({#TRegister sample_q, TRegister sample_q#}, w) ({#TAcquire sample_q 0, TRegister sample_q#}, w1)"
    using query_step.lead [OF r1, of "{#TRegister sample_q#}"] by (simp add: any_step_def)
  moreover have "any_step sample_env ({#TAcquire sample_q 0, TRegister sample_q#}, w1) ({#TSend sample_q 0, TRegister sample_q#}, w2)"
    using query_step.acquire [of sample_env w1 w2 sample_q 0 "{#TRegister sample_q#}"] l r2 by (simp add: any_step_def)
  moreover have "any_step sample_env ({#TSend sample_q 0, TRegister sample_q#}, w2) ({#TSend sample_q 0, TWait sample_q 0#}, w2)"
    using query_step.wait [OF r3, of "{#TSend sample_q 0#}"] by (simp add: any_step_def add_mset_commute)
  ultimately show ?thesis using w(1) unfolding reaches_def by (meson rtranclp.rtrancl_into_rtrancl)
qed

theorem concurrent_queries_safe_witness:
  "\<exists>i w. reaches sample_env sample_world ({#TSend sample_q i, TWait sample_q i#}, w) \<and>
     int (size (filter_mset exchanging {#TSend sample_q i, TWait sample_q i#})) \<le> concurrency_limit sample_env \<and>
     length (rl_addrs (w_limits w)) \<le> 512"
proof -
  obtain i w where r: "reaches sample_env sample_world ({#TSend sample_q i, TWait sample_q i#}, w)" using sample_reaches by blast
  have "0 < concurrency_limit sample_env" by code_simp
  then show ?thesis using concurrent_queries_safe [OF sample_starts r] r by blast
qed

theorem every_query_ends_witness:
  "\<exists>i w s'. reaches sample_env sample_world ({#TSend sample_q i, TWait sample_q i#}, w) \<and>
     (query_step sample_env)\<^sup>*\<^sup>* ({#TSend sample_q i, TWait sample_q i#}, w) s' \<and> (\<forall>t \<in># fst s'. finished t)"
proof -
  obtain i w where r: "reaches sample_env sample_world ({#TSend sample_q i, TWait sample_q i#}, w)" using sample_reaches by blast
  then show ?thesis using every_query_ends [OF sample_starts r] by blast
qed

section \<open>Emptying the cache under a query\<close>

text \<open>
  \<open>queryCache.clear\<close> drops the inflight map as well, unlike \<open>clearData\<close>. The entry of a query that is under way is then not found by the
  leader any more, neither when it finishes nor when it gives up, so whoever waits for the entry waits until its context ends.
\<close>

definition emptied :: "ns_world \<Rightarrow> ns_world" where
  "emptied w = (let (c, h) = queryCache_clear (st_cache (w_ns w)) (w_metrics w)
                in w\<lparr>w_ns := (w_ns w)\<lparr>st_cache := c\<rparr>, w_metrics := h\<rparr>)"

theorem clear_strands_waiters:
  assumes "\<not> iq_done (w_entries w i)"
  shows "\<not> iq_done (w_entries (inflight_abandon key i (inflight_finish key resp err (emptied w))) i)"
proof -
  have "inflight_of (emptied w) key = None"
    by (simp add: inflight_of_def emptied_def queryCache_clear_def gm_get_def Let_def split: prod.split)
  moreover have "w_entries (emptied w) = w_entries w" by (simp add: emptied_def Let_def split: prod.split)
  ultimately show ?thesis using assms by (simp add: inflight_finish_def inflight_abandon_def)
qed

end
